(* ===== verification/Bedrock_Prelude.thy ===== *)
theory Bedrock_Prelude
  imports Main "HOL-Library.Word" "HOL-Library.Multiset"
begin

text \<open>
  What the component theories share: names for the machine integer types, the checked,
  saturating and wrapping arithmetic of Rust on \<open>u64\<close>/\<open>usize\<close> values kept as \<open>nat\<close>, the bit
  counting operations of \<open>core\<close> on 64-bit words, \<open>Vec::swap_remove\<close>, and lemmas on bits,
  words and lists. Three collections carry the automation: \<open>u64_arith\<close> unfolds the
  arithmetic, \<open>bitops\<close> reads single bits of words, \<open>vec_ops\<close> describes list surgery.
\<close>

unbundle bit_operations_syntax

type_synonym u8 = "8 word"
type_synonym u16 = "16 word"
type_synonym u32 = "32 word"
type_synonym u64 = "64 word"

text \<open>Results: \<open>Inl\<close> is the error, \<open>Inr\<close> the value, as in \<open>Result<T, E>\<close>.\<close>

type_synonym ('e, 'a) result = "'e + 'a"

named_theorems u64_arith
named_theorems bitops
named_theorems vec_ops

section \<open>Arithmetic of \<open>u64\<close> and \<open>usize\<close>\<close>

definition u64_max :: nat where
  "u64_max = 18446744073709551615"

definition wadd64 :: "nat \<Rightarrow> nat \<Rightarrow> nat" where
  "wadd64 a b = (a + b) mod 18446744073709551616"

definition wsub64 :: "nat \<Rightarrow> nat \<Rightarrow> nat" where
  "wsub64 a b = (a + (18446744073709551616 - b mod 18446744073709551616)) mod 18446744073709551616"

definition saturating_add64 :: "nat \<Rightarrow> nat \<Rightarrow> nat" where
  "saturating_add64 a b = min (a + b) u64_max"

definition checked_add64 :: "nat \<Rightarrow> nat \<Rightarrow> nat option" where
  "checked_add64 a b = (if a + b \<le> u64_max then Some (a + b) else None)"

definition checked_mul64 :: "nat \<Rightarrow> nat \<Rightarrow> nat option" where
  "checked_mul64 a b = (if a * b \<le> u64_max then Some (a * b) else None)"

lemmas u64_defs [u64_arith] =
  u64_max_def wadd64_def wsub64_def saturating_add64_def checked_add64_def checked_mul64_def

lemma wadd64_exact: "a + b \<le> u64_max \<Longrightarrow> wadd64 a b = a + b"
  by (simp add: wadd64_def u64_max_def)

lemma wsub64_exact: "b \<le> a \<Longrightarrow> a \<le> u64_max \<Longrightarrow> wsub64 a b = a - b"
proof -
  assume "b \<le> a" "a \<le> u64_max"
  then have b: "b mod 18446744073709551616 = b" by (simp add: u64_max_def)
  have eq: "a + (18446744073709551616 - b) = (a - b) + 18446744073709551616"
    using \<open>b \<le> a\<close> \<open>a \<le> u64_max\<close> by (simp add: u64_max_def)
  have lt: "a - b < 18446744073709551616"
    using \<open>a \<le> u64_max\<close> by (simp add: u64_max_def)
  show ?thesis unfolding wsub64_def b eq mod_add_self2 using lt by (rule mod_less)
qed

text \<open>The same for \<open>u32\<close>.\<close>

definition wadd32 :: "nat \<Rightarrow> nat \<Rightarrow> nat" where
  "wadd32 a b = (a + b) mod 2 ^ 32"

definition wsub32 :: "nat \<Rightarrow> nat \<Rightarrow> nat" where
  "wsub32 a b = (a + (2 ^ 32 - b mod 2 ^ 32)) mod 2 ^ 32"

lemma wadd32_exact: "a + b < 2 ^ 32 \<Longrightarrow> wadd32 a b = a + b"
  by (simp add: wadd32_def)

lemma wsub32_exact: "b \<le> a \<Longrightarrow> a < 2 ^ 32 \<Longrightarrow> wsub32 a b = a - b"
proof -
  assume a: "b \<le> a" "a < 2 ^ 32"
  then have "a + (2 ^ 32 - b mod 2 ^ 32) = (a - b) + 2 ^ 32" by simp
  then have "wsub32 a b = (a - b) mod 2 ^ 32" unfolding wsub32_def by (simp only: mod_add_self2)
  then show ?thesis using a by simp
qed

lemma checked_add64_Some: "checked_add64 a b = Some c \<longleftrightarrow> c = a + b \<and> a + b \<le> u64_max"
  by (auto simp: checked_add64_def)

lemma div_mult_bounds: "(i::nat) * 4096 \<le> x \<Longrightarrow> i \<le> x div 4096"
  by (metis div_le_mono nonzero_mult_div_cancel_right zero_neq_numeral)

section \<open>Bits of words\<close>

text \<open>\<open>u64::trailing_zeros\<close> and \<open>u64::count_ones\<close>.\<close>

definition trailing_zeros :: "u64 \<Rightarrow> nat" where
  "trailing_zeros w = length (takeWhile (\<lambda>i. \<not> bit w i) [0..<64])"

definition count_ones :: "u64 \<Rightarrow> nat" where
  "count_ones w = length (filter (bit w) [0..<64])"

lemma takeWhile_upt_spec:
  "length (takeWhile P [0..<n]) \<le> n"
  "i < length (takeWhile P [0..<n]) \<Longrightarrow> P i"
  "length (takeWhile P [0..<n]) < n \<Longrightarrow> \<not> P (length (takeWhile P [0..<n]))"
proof -
  show le: "length (takeWhile P [0..<n]) \<le> n"
    using length_takeWhile_le [of P "[0..<n]"] by simp
  show "P i" if i: "i < length (takeWhile P [0..<n])" for i
  proof -
    have "takeWhile P [0..<n] ! i = [0..<n] ! i" using i by (rule takeWhile_nth)
    with i le have "takeWhile P [0..<n] ! i = i" by simp
    then have "i \<in> set (takeWhile P [0..<n])" using i by (metis nth_mem)
    then show ?thesis by (auto dest: set_takeWhileD)
  qed
  show "\<not> P (length (takeWhile P [0..<n]))" if "length (takeWhile P [0..<n]) < n"
    using nth_length_takeWhile [of P "[0..<n]"] that by simp
qed

lemma bit_word64_lt: "bit (w::u64) i \<Longrightarrow> i < 64"
  using bit_imp_le_length [of w i] by simp

lemma bit_word8_lt: "bit (w::u8) i \<Longrightarrow> i < 8"
  using bit_imp_le_length [of w i] by simp

lemma word64_eq_0_iff: "(w::u64) = 0 \<longleftrightarrow> (\<forall>i<64. \<not> bit w i)"
proof
  assume "\<forall>i<64. \<not> bit w i"
  then show "w = 0" by (intro bit_word_eqI) simp
qed simp

lemma trailing_zeros_least: "i < trailing_zeros w \<Longrightarrow> \<not> bit w i"
  unfolding trailing_zeros_def by (rule takeWhile_upt_spec(2))

lemma trailing_zeros_lt:
  assumes "w \<noteq> 0"
  shows "trailing_zeros w < 64" and "bit w (trailing_zeros w)"
proof -
  show lt: "trailing_zeros w < 64"
  proof (rule ccontr)
    assume "\<not> trailing_zeros w < 64"
    then have "\<forall>i<64. \<not> bit w i" using trailing_zeros_least [of _ w] by simp
    then show False using assms word64_eq_0_iff by blast
  qed
  then show "bit w (trailing_zeros w)"
    unfolding trailing_zeros_def using takeWhile_upt_spec(3) [of "\<lambda>i. \<not> bit w i" 64] by simp
qed

text \<open>The three masks the allocators build: one bit, the bits below, the bits from \<open>n\<close> on.\<close>

lemma bit_one_shl [bitops]: "bit (push_bit n (1::'a::len word)) i \<longleftrightarrow> i = n \<and> n < LENGTH('a)"
  by (auto simp: bit_exp_iff)

lemma bit_two_power [bitops]: "bit (2 ^ n :: 'a::len word) i \<longleftrightarrow> i = n \<and> n < LENGTH('a)"
  by (auto simp: bit_exp_iff)

lemma low_mask_eq: "push_bit n (1::'a::len word) - 1 = mask n"
  by (simp add: mask_eq_exp_minus_1 push_bit_eq_mult)

lemma bit_two_power_minus_one [bitops]:
  "bit (2 ^ n - 1 :: 'a::len word) i \<longleftrightarrow> i < n \<and> i < LENGTH('a)"
  using bit_mask_iff [where ?'a = "'a word", of n i] by (auto simp: mask_eq_exp_minus_1)

lemma bit_low_mask [bitops]:
  "bit (push_bit n (1::'a::len word) - 1) i \<longleftrightarrow> i < n \<and> i < LENGTH('a)"
  by (simp add: bit_two_power_minus_one)

lemma bit_word_not [bitops]: "bit (NOT w) i \<longleftrightarrow> i < LENGTH('a) \<and> \<not> bit (w::'a::len word) i"
  by (auto simp: bit_not_iff dest: bit_imp_le_length)

lemmas bit_bin [bitops] = bit_and_iff bit_or_iff bit_xor_iff

lemma clear_bit_less:
  assumes "bit (w::'a::len word) b"
  shows "unat (w AND NOT (2 ^ b)) < unat w"
proof -
  let ?v = "w AND NOT (2 ^ b)"
  have "?v \<le> w" by (rule word_and_le2)
  moreover have "?v \<noteq> w"
  proof
    assume "?v = w"
    then have "bit ?v b" using assms by simp
    then show False using bit_imp_le_length [OF assms] by (simp add: bitops)
  qed
  ultimately have "?v < w" by simp
  then show ?thesis by (simp add: word_less_nat_alt)
qed

section \<open>\<open>Vec\<close> operations\<close>

text \<open>\<open>Vec::swap_remove(i)\<close>: the last element takes the place of the removed one.\<close>

definition swap_remove :: "nat \<Rightarrow> 'a list \<Rightarrow> 'a list" where
  "swap_remove i xs = butlast (xs[i := last xs])"

lemma length_swap_remove [simp, vec_ops]: "length (swap_remove i xs) = length xs - 1"
  by (simp add: swap_remove_def)

lemma mset_swap_remove [vec_ops]:
  assumes "i < length xs"
  shows "mset (swap_remove i xs) = mset xs - {#xs ! i#}"
proof -
  let ?ys = "xs[i := last xs]"
  have ne: "xs \<noteq> []" using assms by auto
  then have "?ys \<noteq> []" by simp
  have "last ?ys = last xs"
    using assms ne by (cases "i = length xs - 1") (simp_all add: last_conv_nth nth_list_update)
  then have "mset ?ys = add_mset (last xs) (mset (butlast ?ys))"
    using \<open>?ys \<noteq> []\<close> append_butlast_last_id [of ?ys]
    by (metis add_mset_add_single mset.simps mset_append)
  moreover have "mset ?ys = add_mset (last xs) (mset xs - {#xs ! i#})"
    using assms by (simp add: mset_update)
  ultimately show ?thesis by (simp add: swap_remove_def)
qed

lemma set_swap_remove [vec_ops]:
  assumes "i < length xs" and "distinct xs"
  shows "set (swap_remove i xs) = set xs - {xs ! i}" and "distinct (swap_remove i xs)"
proof -
  have m: "mset (swap_remove i xs) = mset xs - {#xs ! i#}"
    using assms(1) by (rule mset_swap_remove)
  have "mset (remove1 (xs ! i) xs) = mset xs - {#xs ! i#}" by simp
  with m have eq: "mset (swap_remove i xs) = mset (remove1 (xs ! i) xs)" by simp
  from mset_eq_setD [OF eq] show "set (swap_remove i xs) = set xs - {xs ! i}"
    using assms(2) by (simp add: set_remove1_eq)
  show "distinct (swap_remove i xs)"
    using mset_eq_imp_distinct_iff [OF eq] assms(2) by simp
qed

end
