(* ===== verification/Frame_Bitmap.thy ===== *)
theory Frame_Bitmap
  imports Bedrock_Prelude
begin

text \<open>
  The frame bitmap of \<open>kernel/src/mm/phys_alloc.rs\<close>: one bit per 4 KiB frame, kept in bytes.
  Single bits are written through \<open>u8\<close> pointers while the scans read whole \<open>u64\<close> words from
  the same memory, so the model keeps the bytes and reads words from them in little-endian
  order. \<open>frame_used\<close> is the abstract view, a set of used frames; the lemmas say that the byte
  writes and the word reads both agree with it.
\<close>

section \<open>Bytes and words\<close>

fun le_u64 :: "u8 list \<Rightarrow> u64" where
  "le_u64 [] = 0"
| "le_u64 (b # bs) = ucast b OR push_bit 8 (le_u64 bs)"

text \<open>\<open>*bitmap_u64.add(wi)\<close>\<close>

definition read_u64 :: "u8 list \<Rightarrow> nat \<Rightarrow> u64" where
  "read_u64 bm wi = le_u64 (take 8 (drop (8 * wi) bm))"

definition is_used_bit :: "u8 list \<Rightarrow> nat \<Rightarrow> bool" where
  "is_used_bit bm idx = (drop_bit (idx mod 8) (bm ! (idx div 8)) AND 1 = 1)"

definition set_used_bit :: "u8 list \<Rightarrow> nat \<Rightarrow> u8 list" where
  "set_used_bit bm idx = bm[idx div 8 := bm ! (idx div 8) OR push_bit (idx mod 8) 1]"

definition set_free_bit :: "u8 list \<Rightarrow> nat \<Rightarrow> u8 list" where
  "set_free_bit bm idx = bm[idx div 8 := bm ! (idx div 8) AND NOT (push_bit (idx mod 8) 1)]"

text \<open>The bitmap as a predicate on frames.\<close>

definition frame_used :: "u8 list \<Rightarrow> nat \<Rightarrow> bool" where
  "frame_used bm idx = bit (bm ! (idx div 8)) (idx mod 8)"

definition free_set :: "u8 list \<Rightarrow> nat \<Rightarrow> nat set" where
  "free_set bm n = {i. i < n \<and> \<not> frame_used bm i}"

lemma finite_free_set [simp]: "finite (free_set bm n)"
  by (simp add: free_set_def)

section \<open>Word reads agree with byte writes\<close>

lemma is_used_bit_iff [simp]: "is_used_bit bm idx \<longleftrightarrow> frame_used bm idx"
proof -
  let ?w = "drop_bit (idx mod 8) (bm ! (idx div 8))"
  have "?w AND 1 = of_bool (odd ?w)" by (simp add: and_one_eq mod_2_eq_odd)
  moreover have "odd ?w \<longleftrightarrow> bit (bm ! (idx div 8)) (idx mod 8)"
    by (simp add: bit_iff_odd_drop_bit)
  ultimately show ?thesis by (simp add: is_used_bit_def frame_used_def)
qed

lemma bit_le_u64:
  "i < 64 \<Longrightarrow> bit (le_u64 bs) i \<longleftrightarrow> i div 8 < length bs \<and> bit (bs ! (i div 8)) (i mod 8)"
proof (induction bs arbitrary: i)
  case Nil
  then show ?case by simp
next
  case (Cons b bs)
  show ?case
  proof (cases "i < 8")
    case True
    then show ?thesis using Cons.prems by (simp add: bitops bit_push_bit_iff bit_ucast_iff)
  next
    case False
    then have "i div 8 = Suc ((i - 8) div 8)" "i mod 8 = (i - 8) mod 8"
      by (simp_all add: le_div_geq le_mod_geq)
    moreover have "\<not> bit (ucast b :: u64) i"
      using False by (auto simp: bit_ucast_iff dest: bit_word8_lt)
    moreover have "bit (push_bit 8 (le_u64 bs)) i \<longleftrightarrow> bit (le_u64 bs) (i - 8)"
      using False Cons.prems by (simp add: bit_push_bit_iff)
    ultimately show ?thesis using Cons.IH [of "i - 8"] Cons.prems by (simp add: bitops)
  qed
qed

lemma bit_read_u64:
  assumes "8 * wi + 8 \<le> length bm" and "i < 64"
  shows "bit (read_u64 bm wi) i \<longleftrightarrow> frame_used bm (wi * 64 + i)"
proof -
  have "i div 8 < 8" using assms(2) by simp
  moreover have "wi * 64 + i = i + (8 * wi) * 8" by simp
  then have "(wi * 64 + i) div 8 = 8 * wi + i div 8" "(wi * 64 + i) mod 8 = i mod 8"
    by (simp_all only: div_mult_self1 mod_mult_self1)
  ultimately show ?thesis using assms by (simp add: read_u64_def bit_le_u64 frame_used_def)
qed

lemma length_set_bit [simp]:
  "length (set_used_bit bm idx) = length bm" "length (set_free_bit bm idx) = length bm"
  by (simp_all add: set_used_bit_def set_free_bit_def)

lemma div_mod_8_eq: "(j::nat) div 8 = idx div 8 \<Longrightarrow> j mod 8 = idx mod 8 \<longleftrightarrow> j = idx"
  by (metis mult_div_mod_eq)

lemma frame_used_set_used [simp]:
  assumes "idx div 8 < length bm"
  shows "frame_used (set_used_bit bm idx) j \<longleftrightarrow> j = idx \<or> frame_used bm j"
proof (cases "j div 8 = idx div 8")
  case True
  then show ?thesis using assms div_mod_8_eq [OF True]
    by (auto simp: frame_used_def set_used_bit_def bitops)
next
  case False
  then show ?thesis using assms by (auto simp: frame_used_def set_used_bit_def)
qed

lemma frame_used_set_free [simp]:
  assumes "idx div 8 < length bm"
  shows "frame_used (set_free_bit bm idx) j \<longleftrightarrow> j \<noteq> idx \<and> frame_used bm j"
proof (cases "j div 8 = idx div 8")
  case True
  then show ?thesis using assms div_mod_8_eq [OF True]
    by (auto simp: frame_used_def set_free_bit_def bitops)
next
  case False
  then show ?thesis using assms by (auto simp: frame_used_def set_free_bit_def)
qed

lemma set_free_set_used:
  assumes "\<not> frame_used bm idx"
  shows "set_free_bit (set_used_bit bm idx) idx = bm"
proof (cases "idx div 8 < length bm")
  case True
  let ?b = "bm ! (idx div 8)"
  have "(?b OR push_bit (idx mod 8) 1) AND NOT (push_bit (idx mod 8) 1) = ?b"
    using assms by (intro bit_word_eqI) (auto simp: frame_used_def bitops)
  then show ?thesis using True by (simp add: set_free_bit_def set_used_bit_def)
next
  case False
  then show ?thesis by (simp add: set_free_bit_def set_used_bit_def list_update_beyond)
qed

lemma free_set_set_used:
  "idx div 8 < length bm \<Longrightarrow> free_set (set_used_bit bm idx) n = free_set bm n - {idx}"
  by (auto simp: free_set_def)

lemma free_set_set_free:
  "idx div 8 < length bm \<Longrightarrow> idx < n \<Longrightarrow> free_set (set_free_bit bm idx) n = insert idx (free_set bm n)"
  by (auto simp: free_set_def)

section \<open>Marking a run of frames\<close>

fun mark_used :: "u8 list \<Rightarrow> nat list \<Rightarrow> u8 list" where
  "mark_used bm [] = bm"
| "mark_used bm (i # is) = mark_used (set_used_bit bm i) is"

fun mark_free :: "u8 list \<Rightarrow> nat list \<Rightarrow> u8 list" where
  "mark_free bm [] = bm"
| "mark_free bm (i # is) = mark_free (set_free_bit bm i) is"

lemma length_mark [simp]: "length (mark_used bm is) = length bm" "length (mark_free bm is) = length bm"
  by (induction "is" arbitrary: bm) simp_all

lemma frame_used_mark_used [simp]:
  "(\<And>i. i \<in> set is \<Longrightarrow> i div 8 < length bm) \<Longrightarrow>
   frame_used (mark_used bm is) j \<longleftrightarrow> j \<in> set is \<or> frame_used bm j"
  by (induction "is" arbitrary: bm) auto

lemma frame_used_mark_free [simp]:
  "(\<And>i. i \<in> set is \<Longrightarrow> i div 8 < length bm) \<Longrightarrow>
   frame_used (mark_free bm is) j \<longleftrightarrow> j \<notin> set is \<and> frame_used bm j"
  by (induction "is" arbitrary: bm) auto

section \<open>Counting free frames word by word\<close>

text \<open>The loop of \<open>count_free_locked\<close>, over the word indices that are left.\<close>

definition tail_word_mask :: "nat \<Rightarrow> nat \<Rightarrow> u64" where
  "tail_word_mask total_frames wi =
     (let total_words = (total_frames + 63) div 64 in
      if wi = total_words - 1 then
        (let rem = total_frames mod 64 in if rem = 0 then - 1 else push_bit rem 1 - 1)
      else - 1)"

fun count_free_words :: "u8 list \<Rightarrow> nat \<Rightarrow> nat list \<Rightarrow> nat \<Rightarrow> nat" where
  "count_free_words bm n [] free = free"
| "count_free_words bm n (wi # ws) free =
     (let m = tail_word_mask n wi; w = read_u64 bm wi AND m
      in count_free_words bm n ws (free + (count_ones m - count_ones w)))"

definition count_free_bits :: "u8 list \<Rightarrow> nat \<Rightarrow> nat" where
  "count_free_bits bm n = count_free_words bm n [0..<(n + 63) div 64] 0"

lemma ceil_div_64:
  assumes "n mod 64 \<noteq> 0"
  shows "(n + 63) div 64 = Suc ((n::nat) div 64)"
proof -
  define q r where "q = n div 64" and "r = n mod 64"
  have n: "n + 63 = 64 * q + (r + 63)" "1 \<le> r" "r < 64"
    using assms by (auto simp: q_def r_def)
  then have "(r + 63) div 64 = 1" by (simp add: div_nat_eqI)
  then have "(64 * q + (r + 63)) div 64 = q + 1" by simp
  then show ?thesis using n by (simp add: q_def)
qed

lemma words_cover: "(n::nat) \<le> (n + 63) div 64 * 64"
proof -
  have "n + 63 = (n + 63) div 64 * 64 + (n + 63) mod 64" by simp
  moreover have "(n + 63) mod 64 \<le> 63" using mod_less_divisor [of 64 "n + 63"] by linarith
  ultimately show ?thesis by linarith
qed

lemma frame_in_words: "i < n \<Longrightarrow> i div 64 < ((n::nat) + 63) div 64"
  using words_cover [of n] by (intro less_mult_imp_div_less) linarith

lemma frame_in_bitmap:
  assumes "8 * ((n + 63) div 64) \<le> length bm" "i < n"
  shows "i div 8 < length bm"
proof -
  have "i < (8 * ((n + 63) div 64)) * 8" using assms(2) words_cover [of n] by linarith
  then have "i div 8 < 8 * ((n + 63) div 64)" by (rule less_mult_imp_div_less)
  with assms(1) show ?thesis by simp
qed

lemma bit_tail_word_mask:
  assumes "wi < (n + 63) div 64" "i < 64"
  shows "bit (tail_word_mask n wi) i \<longleftrightarrow> wi * 64 + i < n"
proof (cases "wi = (n + 63) div 64 - 1 \<and> n mod 64 \<noteq> 0")
  case True
  have words: "(n + 63) div 64 = Suc (n div 64)" using True by (simp add: ceil_div_64)
  then have "wi = n div 64" using True by simp
  then have "wi * 64 + n mod 64 = n" by simp
  then have "wi * 64 + i < n \<longleftrightarrow> i < n mod 64" by (metis nat_add_left_cancel_less)
  then show ?thesis using True assms by (simp add: tail_word_mask_def Let_def bitops)
next
  case False
  then have "(wi + 1) * 64 \<le> n" using assms(1) by auto
  then have "wi * 64 + i < n" using assms(2) by simp
  moreover have "tail_word_mask n wi = - 1" using False by (auto simp: tail_word_mask_def Let_def)
  ultimately show ?thesis using assms(2) by simp
qed

lemma count_ones_diff:
  "count_ones m - count_ones (w AND m) = card {i. i < 64 \<and> bit m i \<and> \<not> bit w i}"
proof -
  have card: "count_ones x = card {i. i < 64 \<and> bit x i}" for x
    by (simp add: count_ones_def length_filter_conv_card cong: conj_cong)
  let ?M = "{i. i < 64 \<and> bit m i}" and ?W = "{i. i < 64 \<and> bit (w AND m) i}"
  have "?W \<subseteq> ?M" by (auto simp: bitops)
  then have "card (?M - ?W) = card ?M - card ?W" by (intro card_Diff_subset) auto
  moreover have "?M - ?W = {i. i < 64 \<and> bit m i \<and> \<not> bit w i}" by (auto simp: bitops)
  ultimately show ?thesis by (simp add: card)
qed

lemma card_word_slice:
  assumes "8 * wi + 8 \<le> length bm" "wi < (n + 63) div 64"
  shows "card {i. i < 64 \<and> bit (tail_word_mask n wi) i \<and> \<not> bit (read_u64 bm wi) i} =
         card (free_set bm n \<inter> {wi * 64..<wi * 64 + 64})"
proof -
  let ?A = "{i. i < 64 \<and> bit (tail_word_mask n wi) i \<and> \<not> bit (read_u64 bm wi) i}"
  have "free_set bm n \<inter> {wi * 64..<wi * 64 + 64} = (\<lambda>i. wi * 64 + i) ` ?A"
  proof (rule set_eqI, rule iffI)
    fix x assume x: "x \<in> free_set bm n \<inter> {wi * 64..<wi * 64 + 64}"
    define i where "i = x - wi * 64"
    from x have i: "i < 64" "x = wi * 64 + i" by (auto simp: i_def)
    with x assms have "i \<in> ?A" by (simp add: free_set_def bit_read_u64 bit_tail_word_mask)
    with i show "x \<in> (\<lambda>i. wi * 64 + i) ` ?A" by blast
  next
    fix x assume "x \<in> (\<lambda>i. wi * 64 + i) ` ?A"
    then show "x \<in> free_set bm n \<inter> {wi * 64..<wi * 64 + 64}"
      using assms by (auto simp: free_set_def bit_read_u64 bit_tail_word_mask)
  qed
  moreover have "inj_on (\<lambda>i. wi * 64 + i) ?A" by (auto intro: inj_onI)
  ultimately show ?thesis by (simp add: card_image)
qed

lemma count_free_words_eq:
  assumes "b \<le> (n + 63) div 64" "8 * ((n + 63) div 64) \<le> length bm" "a \<le> b"
  shows "count_free_words bm n [a..<b] acc = acc + card (free_set bm n \<inter> {a * 64..<b * 64})"
  using assms(3)
proof (induction "b - a" arbitrary: a acc)
  case 0
  then show ?case by simp
next
  case (Suc k)
  let ?S = "free_set bm n"
  have ab: "a < b" using Suc.hyps by simp
  then have up: "[a..<b] = a # [Suc a..<b]" by (simp add: upt_conv_Cons)
  have len: "8 * a + 8 \<le> length bm" "a < (n + 63) div 64" using ab assms(1,2) by auto
  have split: "?S \<inter> {a * 64..<b * 64} =
      (?S \<inter> {a * 64..<a * 64 + 64}) \<union> (?S \<inter> {Suc a * 64..<b * 64})"
    using ab by auto
  have "card (?S \<inter> {a * 64..<b * 64}) =
      card (?S \<inter> {a * 64..<a * 64 + 64}) + card (?S \<inter> {Suc a * 64..<b * 64})"
    unfolding split by (rule card_Un_disjoint) auto
  moreover have "count_free_words bm n [Suc a..<b] x = x + card (?S \<inter> {Suc a * 64..<b * 64})" for x
    using Suc.hyps ab by (intro Suc.hyps(1)) auto
  ultimately show ?case
    using card_word_slice [OF len] by (simp add: up Let_def count_ones_diff)
qed

lemma count_free_bits_eq:
  assumes "8 * ((n + 63) div 64) \<le> length bm"
  shows "count_free_bits bm n = card (free_set bm n)"
proof -
  have "free_set bm n \<inter> {0 * 64..<(n + 63) div 64 * 64} = free_set bm n"
    by (auto simp: free_set_def)
  then show ?thesis
    using count_free_words_eq [of "(n + 63) div 64" n bm 0 0] assms
    by (simp add: count_free_bits_def)
qed

end
