(* ===== verification/Phys_Alloc.thy ===== *)
theory Phys_Alloc
  imports Frame_Bitmap
begin

text \<open>
  The physical frame allocator \<open>BitmapAllocator\<close> of \<open>kernel/src/mm/phys_alloc.rs\<close>: boot-time
  construction, single-frame allocation, freeing and reservation. Addresses and counters are
  \<open>nat\<close>; where the source's \<open>u64\<close> arithmetic can overflow on firmware-supplied values the
  wrap-around of the release build is written out (\<open>wadd64\<close>, \<open>wsub64\<close>), and \<open>debug_assert!\<close>
  is the no-op it is there. Frame indices are below \<open>2^52\<close>, so index times 4096 fits. The lock
  \<open>inner\<close> makes each operation atomic; the \<open>Relaxed\<close> hint and counter are read and written
  under it, so operations are functions on one state. A failed \<open>assert!\<close> is \<open>None\<close>.
\<close>

section \<open>Data\<close>

datatype alloc_error = NoFrames | InvalidCount

datatype region_kind =
    Usable | Reserved | AcpiReclaimable | AcpiNvs
  | BootServicesCode | BootServicesData | LoaderCode | LoaderData

record memory_region =
  mr_base :: nat
  mr_size :: nat
  mr_kind :: region_kind

record phys_alloc =
  bitmap :: "u8 list"
  total_frames :: nat
  alloc_end :: nat
  kernel_start :: nat
  kernel_end :: nat
  usable_regions :: "(nat \<times> nat) list"
  free_count :: nat
  next_free_hint :: nat
  next_free :: nat

section \<open>Construction\<close>

definition find_max_addr :: "memory_region list \<Rightarrow> nat" where
  "find_max_addr mm =
     fold max (map (\<lambda>r. saturating_add64 (mr_base r) (mr_size r))
       (filter (\<lambda>r. mr_kind r = Usable) mm)) 0"

text \<open>The frames \<open>start_frame..end_frame\<close> that \<open>clear_region\<close> and \<open>mark_region_used\<close> visit.\<close>

definition region_frames :: "nat \<Rightarrow> nat \<Rightarrow> nat \<Rightarrow> nat list" where
  "region_frames base sz nframes =
     (let start_frame = base div 4096;
          stop = saturating_add64 base sz;
          end_frame = (if stop = u64_max then nframes else min (wadd64 stop 4095 div 4096) nframes)
      in [start_frame..<end_frame])"

definition clear_region :: "u8 list \<Rightarrow> memory_region \<Rightarrow> nat \<Rightarrow> u8 list" where
  "clear_region bm r nframes = mark_free bm (region_frames (mr_base r) (mr_size r) nframes)"

definition mark_region_used :: "u8 list \<Rightarrow> memory_region \<Rightarrow> nat \<Rightarrow> u8 list" where
  "mark_region_used bm r nframes = mark_used bm (region_frames (mr_base r) (mr_size r) nframes)"

fun clear_usable :: "u8 list \<Rightarrow> memory_region list \<Rightarrow> nat \<Rightarrow> u8 list" where
  "clear_usable bm [] nframes = bm"
| "clear_usable bm (r # rs) nframes =
     clear_usable (if mr_kind r = Usable then clear_region bm r nframes else bm) rs nframes"

definition page_down :: "nat \<Rightarrow> nat" where
  "page_down a = a - a mod 4096"

definition MAX_USABLE_REGIONS :: nat where
  "MAX_USABLE_REGIONS = 32"

definition usable_spans :: "memory_region list \<Rightarrow> (nat \<times> nat) list" where
  "usable_spans mm =
     map (\<lambda>r. (mr_base r, mr_size r)) (filter (\<lambda>r. mr_kind r = Usable \<and> 0 < mr_size r) mm)"

definition with_seeded_free_count :: "phys_alloc \<Rightarrow> phys_alloc" where
  "with_seeded_free_count s = s\<lparr>free_count := count_free_bits (bitmap s) (total_frames s)\<rparr>"

text \<open>
  The bitmap \<open>BitmapAllocator::new\<close> builds. \<open>mem\<close> is what the memory chosen for it held
  before: the constructor writes \<open>bitmap_len\<close> bytes of it, the word scans read up to the next
  multiple of eight.
\<close>

definition boot_bitmap ::
  "(nat \<Rightarrow> u8) \<Rightarrow> nat \<Rightarrow> memory_region list \<Rightarrow> nat \<Rightarrow> nat \<Rightarrow> nat \<Rightarrow> u8 list" where
  "boot_bitmap mem base mm ks ke nframes =
     (let bitmap_len = (nframes + 7) div 8;
          bm0 = map (\<lambda>i. if i < bitmap_len then 255 else mem i) [0..<8 * ((nframes + 63) div 64)];
          bm1 = clear_usable bm0 mm nframes;
          bm2 = mark_region_used bm1
                  \<lparr>mr_base = base, mr_size = bitmap_len, mr_kind = Reserved\<rparr> nframes;
          bm3 = (if 0 < nframes then set_used_bit bm2 0 else bm2)
      in if ks < ke
         then mark_region_used bm3 \<lparr>mr_base = ks, mr_size = ke - ks, mr_kind = Reserved\<rparr> nframes
         else bm3)"

definition bitmap_base :: "nat \<times> nat \<Rightarrow> nat \<Rightarrow> nat" where
  "bitmap_base region kend =
     (if fst region < kend then page_down (wadd64 kend 4095) else fst region)"

text \<open>\<open>BitmapAllocator::new\<close>; the asserts are checked in the order of the source, and any
  failure is a panic.\<close>

definition phys_new ::
  "(nat \<Rightarrow> u8) \<Rightarrow> nat \<times> nat \<Rightarrow> memory_region list \<Rightarrow> nat \<Rightarrow> nat \<Rightarrow> phys_alloc option" where
  "phys_new mem region mm kstart kend =
     (let region_base = fst region; region_size = snd region;
          region_end = wadd64 region_base region_size;
          max_addr = find_max_addr mm;
          nframes = wadd64 max_addr 4095 div 4096;
          bitmap_len = (nframes + 7) div 8;
          base = bitmap_base region kend;
          ks = page_down kstart;
          ke = page_down (wadd64 kend 4095);
          hint = base div 4096
      in if region_size = 0 then None
         else if \<not> (region_base \<le> base \<and> wadd64 base bitmap_len \<le> region_end) then None
         else if MAX_USABLE_REGIONS < length (usable_spans mm) then None
         else Some (with_seeded_free_count
           \<lparr>bitmap = boot_bitmap mem base mm ks ke nframes, total_frames = nframes,
            alloc_end = max_addr, kernel_start = ks, kernel_end = ke,
            usable_regions = usable_spans mm,
            free_count = 0, next_free_hint = hint, next_free = hint\<rparr>))"

section \<open>Operations\<close>

definition free_frames_exact :: "phys_alloc \<Rightarrow> nat" where
  "free_frames_exact s = count_free_bits (bitmap s) (total_frames s)"

definition is_used :: "phys_alloc \<Rightarrow> nat \<Rightarrow> bool" where
  "is_used s idx = is_used_bit (bitmap s) idx"

definition set_used :: "phys_alloc \<Rightarrow> nat \<Rightarrow> phys_alloc" where
  "set_used s idx = s\<lparr>bitmap := set_used_bit (bitmap s) idx\<rparr>"

definition set_free :: "phys_alloc \<Rightarrow> nat \<Rightarrow> phys_alloc" where
  "set_free s idx = s\<lparr>bitmap := set_free_bit (bitmap s) idx\<rparr>"

definition is_reserved_frame :: "phys_alloc \<Rightarrow> nat \<Rightarrow> bool" where
  "is_reserved_frame s idx =
     (if idx = 0 then True
      else let addr = idx * 4096 in kernel_start s \<le> addr \<and> addr < kernel_end s)"

text \<open>The inner \<open>while candidates != 0\<close> loop of \<open>alloc\<close>, on one word.\<close>

function alloc_word :: "phys_alloc \<Rightarrow> nat \<Rightarrow> u64 \<Rightarrow> phys_alloc \<times> nat option" where
  "alloc_word s wi cand =
     (if cand = 0 then (s, None)
      else
        let b = trailing_zeros cand;
            idx = wi * 64 + b;
            cand' = cand AND NOT (push_bit b 1)
        in if is_reserved_frame s idx then alloc_word s wi cand'
           else
             let s1 = (set_used s idx)\<lparr>next_free := idx + 1, next_free_hint := idx + 1\<rparr>;
                 addr = idx * 4096
             in if kernel_start s \<le> addr \<and> addr < kernel_end s
                then alloc_word (set_free s1 idx) wi cand'
                else (s1\<lparr>free_count := wsub64 (free_count s1) 1\<rparr>, Some addr))"
  by pat_completeness auto
termination
  by (relation "measure (\<lambda>(s, wi, cand). unat cand)")
     (auto simp: clear_bit_less trailing_zeros_lt)

declare alloc_word.simps [simp del]

definition first_candidates :: "nat \<Rightarrow> nat \<Rightarrow> phys_alloc \<Rightarrow> nat \<Rightarrow> u64" where
  "first_candidates start_word start_bit s wi =
     (NOT (read_u64 (bitmap s) wi)
      AND (if wi = start_word \<and> 0 < start_bit then NOT (push_bit start_bit 1 - 1) else NOT 0))
      AND (if wi = (total_frames s + 63) div 64 - 1 \<and> total_frames s mod 64 \<noteq> 0
           then push_bit (total_frames s mod 64) 1 - 1 else NOT 0)"

definition wrap_candidates :: "phys_alloc \<Rightarrow> nat \<Rightarrow> u64" where
  "wrap_candidates s wi =
     NOT (read_u64 (bitmap s) wi)
     AND (if wi = (total_frames s + 63) div 64 - 1 \<and> total_frames s mod 64 \<noteq> 0
          then push_bit (total_frames s mod 64) 1 - 1 else NOT 0)"

fun alloc_pass ::
  "(phys_alloc \<Rightarrow> nat \<Rightarrow> u64) \<Rightarrow> phys_alloc \<Rightarrow> nat list \<Rightarrow> phys_alloc \<times> nat option" where
  "alloc_pass cands s [] = (s, None)"
| "alloc_pass cands s (wi # ws) =
     (case alloc_word s wi (cands s wi) of
        (s', Some addr) \<Rightarrow> (s', Some addr)
      | (s', None) \<Rightarrow> alloc_pass cands s' ws)"

definition alloc :: "phys_alloc \<Rightarrow> phys_alloc \<times> nat option" where
  "alloc s =
     (let start_idx = max (next_free_hint s) (next_free s);
          total_words = (total_frames s + 63) div 64;
          start_word = start_idx div 64;
          start_bit = start_idx mod 64
      in case alloc_pass (first_candidates start_word start_bit) s [start_word..<total_words] of
           (s', Some addr) \<Rightarrow> (s', Some addr)
         | (s', None) \<Rightarrow> alloc_pass wrap_candidates s' [0..<start_word])"

fun reserve_frames :: "phys_alloc \<Rightarrow> nat list \<Rightarrow> phys_alloc" where
  "reserve_frames s [] = s"
| "reserve_frames s (f # fs) =
     reserve_frames
       (if f < total_frames s \<and> \<not> is_used s f
        then (set_used s f)\<lparr>free_count := wsub64 (free_count s) 1\<rparr> else s) fs"

definition reserve_region :: "phys_alloc \<Rightarrow> nat \<Rightarrow> nat \<Rightarrow> phys_alloc" where
  "reserve_region s start stop =
     (let start_frame = start div 4096;
          end_frame = (if stop = u64_max then total_frames s
                       else min (wadd64 stop 4095 div 4096) (total_frames s))
      in reserve_frames s [start_frame..<end_frame])"

definition reserve_range :: "phys_alloc \<Rightarrow> nat \<Rightarrow> nat \<Rightarrow> phys_alloc" where
  "reserve_range s addr sz = reserve_region s addr (saturating_add64 addr sz)"

definition free :: "phys_alloc \<Rightarrow> nat \<Rightarrow> phys_alloc" where
  "free s addr =
     (let idx = addr div 4096 in
      if total_frames s \<le> idx then s
      else if idx = 0 \<or> kernel_start s \<le> idx * 4096 \<and> idx * 4096 < kernel_end s then s
      else
        let s1 = set_free s idx;
            s2 = s1\<lparr>free_count := wadd64 (free_count s1) 1\<rparr>;
            s3 = (if idx < next_free s2 then s2\<lparr>next_free := idx\<rparr> else s2)
        in if idx < next_free_hint s3 then s3\<lparr>next_free_hint := idx\<rparr> else s3)"

fun free_frames_from :: "phys_alloc \<Rightarrow> nat \<Rightarrow> nat list \<Rightarrow> phys_alloc" where
  "free_frames_from s addr [] = s"
| "free_frames_from s addr (i # is) = free_frames_from (free s (wadd64 addr (i * 4096))) addr is"

definition free_frames :: "phys_alloc \<Rightarrow> nat \<Rightarrow> nat \<Rightarrow> phys_alloc" where
  "free_frames s addr n = (if n = 0 then s else free_frames_from s addr [0..<n])"

section \<open>The invariant\<close>

text \<open>
  The documented invariants of the allocator (INV-PA-01 to INV-PA-04, ALLOC-001 to ALLOC-006)
  as one predicate: the bitmap has a bit for each frame, the cursor and its hint agree and stay
  inside the bitmap, the reserved frames are marked used, and the free-frame counter is exact.
\<close>

definition pa_inv :: "phys_alloc \<Rightarrow> bool" where
  "pa_inv s \<longleftrightarrow>
     length (bitmap s) = 8 * ((total_frames s + 63) div 64)
     \<and> total_frames s \<le> 4503599627370496
     \<and> next_free_hint s = next_free s \<and> next_free s \<le> total_frames s
     \<and> (\<forall>i<total_frames s. is_reserved_frame s i \<longrightarrow> is_used s i)
     \<and> free_count s = card (free_set (bitmap s) (total_frames s))"

lemma pa_inv_frame: "pa_inv s \<Longrightarrow> i < total_frames s \<Longrightarrow> i div 8 < length (bitmap s)"
  by (rule frame_in_bitmap) (auto simp: pa_inv_def)

lemma pa_inv_word: "pa_inv s \<Longrightarrow> wi < (total_frames s + 63) div 64 \<Longrightarrow> 8 * wi + 8 \<le> length (bitmap s)"
  by (auto simp: pa_inv_def)

lemma pa_inv_reserved: "pa_inv s \<Longrightarrow> i < total_frames s \<Longrightarrow> is_reserved_frame s i \<Longrightarrow> is_used s i"
  by (simp add: pa_inv_def)

lemma is_used_eq: "is_used s i \<longleftrightarrow> frame_used (bitmap s) i"
  by (simp add: is_used_def)

section \<open>Allocation\<close>

text \<open>What a successful search does to the state.\<close>

definition take_frame :: "phys_alloc \<Rightarrow> nat \<Rightarrow> phys_alloc" where
  "take_frame s idx =
     s\<lparr>bitmap := set_used_bit (bitmap s) idx, next_free := idx + 1, next_free_hint := idx + 1,
       free_count := wsub64 (free_count s) 1\<rparr>"

text \<open>
  The second kernel-image test of the loop is dead: \<open>is_reserved_frame\<close> has already rejected
  those frames. So one word is either exhausted with the state unchanged, or yields one of its
  candidate frames.
\<close>

lemma alloc_word_cases:
  "(alloc_word s wi cand = (s, None) \<and> (\<forall>i. bit cand i \<longrightarrow> is_reserved_frame s (wi * 64 + i)))
   \<or> (\<exists>i. bit cand i \<and> \<not> is_reserved_frame s (wi * 64 + i) \<and>
          alloc_word s wi cand = (take_frame s (wi * 64 + i), Some ((wi * 64 + i) * 4096)))"
proof (induction s wi cand rule: alloc_word.induct)
  case (1 s wi cand)
  let ?b = "trailing_zeros cand"
  let ?idx = "wi * 64 + ?b"
  let ?cand = "cand AND NOT (push_bit ?b 1)"
  show ?case
  proof (cases "cand = 0")
    case True
    then show ?thesis by (simp add: alloc_word.simps [of s wi 0])
  next
    case False
    then have b: "bit cand ?b" by (rule trailing_zeros_lt)
    have sub: "bit ?cand i \<longleftrightarrow> bit cand i \<and> i \<noteq> ?b" for i
      using bit_word64_lt [of cand i] trailing_zeros_lt(1) [OF False] by (auto simp: bitops)
    show ?thesis
    proof (cases "is_reserved_frame s ?idx")
      case True
      have "alloc_word s wi cand = alloc_word s wi ?cand"
        using False True by (subst alloc_word.simps) (simp add: Let_def)
      then show ?thesis using "1.IH"(1) [OF False refl refl refl True] True sub by metis
    next
      case free: False
      then have "\<not> (kernel_start s \<le> ?idx * 4096 \<and> ?idx * 4096 < kernel_end s)"
        by (auto simp: is_reserved_frame_def Let_def split: if_splits)
      then have "alloc_word s wi cand = (take_frame s ?idx, Some (?idx * 4096))"
        using False free
        by (subst alloc_word.simps) (auto simp: Let_def take_frame_def set_used_def)
      with b free show ?thesis by blast
    qed
  qed
qed

lemma alloc_pass_cases:
  "(alloc_pass c s ws = (s, None) \<and>
      (\<forall>wi\<in>set ws. \<forall>i. bit (c s wi) i \<longrightarrow> is_reserved_frame s (wi * 64 + i)))
   \<or> (\<exists>wi\<in>set ws. \<exists>i. bit (c s wi) i \<and> \<not> is_reserved_frame s (wi * 64 + i) \<and>
          alloc_pass c s ws = (take_frame s (wi * 64 + i), Some ((wi * 64 + i) * 4096)))"
proof (induction ws)
  case Nil
  then show ?case by simp
next
  case (Cons wi ws)
  from alloc_word_cases [of s wi "c s wi"] show ?case
  proof (elim disjE conjE exE)
    assume "alloc_word s wi (c s wi) = (s, None)"
      "\<forall>i. bit (c s wi) i \<longrightarrow> is_reserved_frame s (wi * 64 + i)"
    with Cons.IH show ?case by auto
  next
    fix i assume "bit (c s wi) i" "\<not> is_reserved_frame s (wi * 64 + i)"
      "alloc_word s wi (c s wi) = (take_frame s (wi * 64 + i), Some ((wi * 64 + i) * 4096))"
    then show ?case by auto
  qed
qed

lemma tail_mask_word:
  "(if wi = (n + 63) div 64 - 1 \<and> n mod 64 \<noteq> 0 then push_bit (n mod 64) 1 - 1 else NOT 0)
   = tail_word_mask n wi"
  by (simp add: tail_word_mask_def Let_def)

lemma bit_wrap_candidates:
  assumes "pa_inv s" "wi < (total_frames s + 63) div 64" "i < 64"
  shows "bit (wrap_candidates s wi) i \<longleftrightarrow> wi * 64 + i < total_frames s \<and> \<not> is_used s (wi * 64 + i)"
  unfolding wrap_candidates_def tail_mask_word
  using assms bit_read_u64 [OF pa_inv_word, OF assms]
  by (auto simp: bitops bit_tail_word_mask is_used_eq)

lemma bit_first_candidates:
  assumes "pa_inv s" "wi < (total_frames s + 63) div 64" "i < 64"
  shows "bit (first_candidates sw sb s wi) i \<longleftrightarrow>
    wi * 64 + i < total_frames s \<and> \<not> is_used s (wi * 64 + i) \<and> (wi = sw \<longrightarrow> sb \<le> i)"
  unfolding first_candidates_def tail_mask_word
  using assms bit_read_u64 [OF pa_inv_word, OF assms]
  by (auto simp: bitops bit_tail_word_mask is_used_eq)

lemma first_pass_cases:
  assumes inv: "pa_inv s"
  shows "(alloc_pass (first_candidates sw sb) s [sw..<(total_frames s + 63) div 64] = (s, None) \<and>
      (\<forall>i<total_frames s. sw * 64 + sb \<le> i \<and> sb < 64 \<longrightarrow> is_used s i))
   \<or> (\<exists>idx<total_frames s. \<not> is_used s idx \<and> \<not> is_reserved_frame s idx \<and>
        alloc_pass (first_candidates sw sb) s [sw..<(total_frames s + 63) div 64]
          = (take_frame s idx, Some (idx * 4096)))"
    (is "(?P = _ \<and> _) \<or> _")
  using alloc_pass_cases [of "first_candidates sw sb" s "[sw..<(total_frames s + 63) div 64]"]
proof (elim disjE conjE bexE exE)
  assume none: "?P = (s, None)" and all: "\<forall>wi\<in>set [sw..<(total_frames s + 63) div 64].
      \<forall>i. bit (first_candidates sw sb s wi) i \<longrightarrow> is_reserved_frame s (wi * 64 + i)"
  have "is_used s i" if i: "i < total_frames s" "sw * 64 + sb \<le> i" "sb < 64" for i
  proof (rule ccontr)
    assume free: "\<not> is_used s i"
    have wi: "i div 64 < (total_frames s + 63) div 64" "sw \<le> i div 64"
      using i frame_in_words [OF i(1)] by auto
    have "i div 64 = sw \<longrightarrow> sb \<le> i mod 64"
      using i(2) by (metis add.commute add_le_cancel_right mult_div_mod_eq mult.commute)
    then have "bit (first_candidates sw sb s (i div 64)) (i mod 64)"
      using bit_first_candidates [OF inv wi(1), of "i mod 64" sw sb] free i(1) by simp
    then have "is_reserved_frame s i" using all wi by fastforce
    with pa_inv_reserved [OF inv i(1)] free show False by simp
  qed
  with none show ?thesis by blast
next
  fix wi i
  assume wi: "wi \<in> set [sw..<(total_frames s + 63) div 64]"
    and i: "bit (first_candidates sw sb s wi) i" "\<not> is_reserved_frame s (wi * 64 + i)"
    and eq: "?P = (take_frame s (wi * 64 + i), Some ((wi * 64 + i) * 4096))"
  have "wi * 64 + i < total_frames s" "\<not> is_used s (wi * 64 + i)"
    using bit_first_candidates [OF inv _ bit_word64_lt [OF i(1)]] wi i(1) by auto
  with i(2) eq show ?thesis by blast
qed

lemma wrap_pass_cases:
  assumes inv: "pa_inv s" and sw: "sw \<le> (total_frames s + 63) div 64"
  shows "(alloc_pass wrap_candidates s [0..<sw] = (s, None) \<and>
      (\<forall>i<total_frames s. i div 64 < sw \<longrightarrow> is_used s i))
   \<or> (\<exists>idx<total_frames s. \<not> is_used s idx \<and> \<not> is_reserved_frame s idx \<and>
        alloc_pass wrap_candidates s [0..<sw] = (take_frame s idx, Some (idx * 4096)))"
    (is "(?P = _ \<and> _) \<or> _")
  using alloc_pass_cases [of wrap_candidates s "[0..<sw]"]
proof (elim disjE conjE bexE exE)
  assume none: "?P = (s, None)" and all: "\<forall>wi\<in>set [0..<sw].
      \<forall>i. bit (wrap_candidates s wi) i \<longrightarrow> is_reserved_frame s (wi * 64 + i)"
  have "is_used s i" if i: "i < total_frames s" "i div 64 < sw" for i
  proof (rule ccontr)
    assume free: "\<not> is_used s i"
    have "bit (wrap_candidates s (i div 64)) (i mod 64)"
      using bit_wrap_candidates [OF inv frame_in_words [OF i(1)], of "i mod 64"] free i(1) by simp
    then have "is_reserved_frame s i" using all i(2) by fastforce
    with pa_inv_reserved [OF inv i(1)] free show False by simp
  qed
  with none show ?thesis by blast
next
  fix wi i
  assume wi: "wi \<in> set [0..<sw]"
    and i: "bit (wrap_candidates s wi) i" "\<not> is_reserved_frame s (wi * 64 + i)"
    and eq: "?P = (take_frame s (wi * 64 + i), Some ((wi * 64 + i) * 4096))"
  have "wi * 64 + i < total_frames s" "\<not> is_used s (wi * 64 + i)"
    using bit_wrap_candidates [OF inv _ bit_word64_lt [OF i(1)]] wi i(1) sw by auto
  with i(2) eq show ?thesis by blast
qed

lemma alloc_cases:
  assumes inv: "pa_inv s"
  obtains
    (none) "alloc s = (s, None)"
      "\<And>i. i < total_frames s \<Longrightarrow> \<not> is_used s i \<Longrightarrow>
         next_free s div 64 * 64 \<le> i \<and> i < next_free s"
  | (some) idx where "idx < total_frames s" "\<not> is_used s idx" "\<not> is_reserved_frame s idx"
      "alloc s = (take_frame s idx, Some (idx * 4096))"
proof -
  let ?sw = "next_free s div 64" and ?sb = "next_free s mod 64"
  have cur: "max (next_free_hint s) (next_free s) = next_free s"
    and nf: "next_free s \<le> total_frames s" using inv by (auto simp: pa_inv_def)
  have sw: "?sw \<le> (total_frames s + 63) div 64"
    using nf words_cover [of "total_frames s"] div_le_mono [of "next_free s" _ 64]
    by (metis le_trans nonzero_mult_div_cancel_right zero_neq_numeral)
  note alloc_eq = alloc_def [of s, unfolded cur Let_def]
  from first_pass_cases [OF inv, of ?sw ?sb] show thesis
  proof (elim disjE conjE exE)
    assume p1: "alloc_pass (first_candidates ?sw ?sb) s [?sw..<(total_frames s + 63) div 64] = (s, None)"
      and hi: "\<forall>i<total_frames s. ?sw * 64 + ?sb \<le> i \<and> ?sb < 64 \<longrightarrow> is_used s i"
    from wrap_pass_cases [OF inv sw] show thesis
    proof (elim disjE conjE exE)
      assume p2: "alloc_pass wrap_candidates s [0..<?sw] = (s, None)"
        and lo: "\<forall>i<total_frames s. i div 64 < ?sw \<longrightarrow> is_used s i"
      show thesis
      proof (rule none)
        show "alloc s = (s, None)" by (simp add: alloc_eq p1 p2)
        fix i assume i: "i < total_frames s" "\<not> is_used s i"
        then have "\<not> next_free s \<le> i" "\<not> i div 64 < ?sw" using hi lo by auto
        moreover have "i div 64 * 64 \<le> i" by simp
        ultimately show "next_free s div 64 * 64 \<le> i \<and> i < next_free s"
          by (meson le_trans mult_le_mono1 not_le)
      qed
    next
      fix idx assume "idx < total_frames s" "\<not> is_used s idx" "\<not> is_reserved_frame s idx"
        "alloc_pass wrap_candidates s [0..<?sw] = (take_frame s idx, Some (idx * 4096))"
      with p1 show thesis by (intro some) (simp_all add: alloc_eq)
    qed
  next
    fix idx assume "idx < total_frames s" "\<not> is_used s idx" "\<not> is_reserved_frame s idx"
      "alloc_pass (first_candidates ?sw ?sb) s [?sw..<(total_frames s + 63) div 64]
         = (take_frame s idx, Some (idx * 4096))"
    then show thesis by (intro some) (simp_all add: alloc_eq)
  qed
qed

section \<open>Every operation keeps the invariant\<close>

lemma card_free_set_le: "card (free_set bm n) \<le> n"
proof -
  have "free_set bm n \<subseteq> {..<n}" by (auto simp: free_set_def)
  then show ?thesis using card_mono [of "{..<n}" "free_set bm n"] by simp
qed

lemma pa_inv_free_count:
  assumes "pa_inv s"
  shows "free_count s \<le> total_frames s" and "free_count s + 1 \<le> u64_max"
  using assms card_free_set_le [of "bitmap s" "total_frames s"]
  by (auto simp: pa_inv_def u64_max_def)

lemma is_reserved_frame_cong:
  "kernel_start s' = kernel_start s \<Longrightarrow> kernel_end s' = kernel_end s \<Longrightarrow>
   is_reserved_frame s' i = is_reserved_frame s i"
  by (simp add: is_reserved_frame_def)

lemma free_count_take:
  assumes inv: "pa_inv s" and idx: "idx < total_frames s" "\<not> is_used s idx"
  shows "wsub64 (free_count s) 1 = card (free_set (set_used_bit (bitmap s) idx) (total_frames s))"
proof -
  have mem: "idx \<in> free_set (bitmap s) (total_frames s)"
    using idx by (simp add: free_set_def is_used_eq)
  then have pos: "1 \<le> free_count s"
    using inv by (auto simp: pa_inv_def card_gt_0_iff Suc_le_eq)
  then have "wsub64 (free_count s) 1 = free_count s - 1"
    using pa_inv_free_count(2) [OF inv] by (intro wsub64_exact) auto
  also have "\<dots> = card (free_set (bitmap s) (total_frames s) - {idx})"
    using inv mem by (simp add: pa_inv_def)
  finally show ?thesis using pa_inv_frame [OF inv idx(1)] by (simp add: free_set_set_used)
qed

lemma take_frame_inv:
  assumes inv: "pa_inv s" and idx: "idx < total_frames s" "\<not> is_used s idx"
  shows "pa_inv (take_frame s idx)"
  using inv idx free_count_take [OF assms] pa_inv_frame [OF inv idx(1)]
  by (auto simp: pa_inv_def take_frame_def is_used_eq cong: is_reserved_frame_cong)

lemma used_take_frame:
  "pa_inv s \<Longrightarrow> idx < total_frames s \<Longrightarrow> is_used (take_frame s idx) j \<longleftrightarrow> j = idx \<or> is_used s j"
  by (simp add: take_frame_def is_used_eq pa_inv_frame)

lemma alloc_inv:
  assumes "pa_inv s"
  shows "pa_inv (fst (alloc s))"
  using assms by (cases rule: alloc_cases [OF assms]) (auto intro: take_frame_inv)

text \<open>Freeing: either nothing happens (out of range, reserved), or the bit is cleared.\<close>

definition put_frame :: "phys_alloc \<Rightarrow> nat \<Rightarrow> phys_alloc" where
  "put_frame s idx =
     s\<lparr>bitmap := set_free_bit (bitmap s) idx, free_count := wadd64 (free_count s) 1,
       next_free := min idx (next_free s), next_free_hint := min idx (next_free_hint s)\<rparr>"

lemma free_eq:
  "free s addr =
     (if addr div 4096 < total_frames s \<and> \<not> is_reserved_frame s (addr div 4096)
      then put_frame s (addr div 4096) else s)"
  by (auto simp: free_def Let_def is_reserved_frame_def put_frame_def set_free_def min_def)

lemma put_frame_inv:
  assumes inv: "pa_inv s" and idx: "idx < total_frames s" "is_used s idx" "\<not> is_reserved_frame s idx"
  shows "pa_inv (put_frame s idx)"
proof -
  have nin: "idx \<notin> free_set (bitmap s) (total_frames s)"
    using idx by (simp add: free_set_def is_used_eq)
  have "wadd64 (free_count s) 1 = free_count s + 1"
    using pa_inv_free_count(2) [OF inv] by (rule wadd64_exact)
  also have "\<dots> = card (free_set (set_free_bit (bitmap s) idx) (total_frames s))"
    using inv nin idx(1) pa_inv_frame [OF inv idx(1)] by (simp add: pa_inv_def free_set_set_free)
  finally show ?thesis
    using inv idx pa_inv_frame [OF inv idx(1)]
    by (auto simp: pa_inv_def put_frame_def is_used_eq cong: is_reserved_frame_cong)
qed

lemma free_inv: "pa_inv s \<Longrightarrow> is_used s (addr div 4096) \<Longrightarrow> pa_inv (free s addr)"
  by (simp add: free_eq put_frame_inv)

lemma used_put_frame:
  "pa_inv s \<Longrightarrow> idx < total_frames s \<Longrightarrow> is_used (put_frame s idx) j \<longleftrightarrow> j \<noteq> idx \<and> is_used s j"
  by (simp add: put_frame_def is_used_eq pa_inv_frame)

text \<open>Reserving a run of frames.\<close>

lemma reserve_frames_spec:
  assumes "pa_inv s"
  shows "pa_inv (reserve_frames s fs)
    \<and> total_frames (reserve_frames s fs) = total_frames s
    \<and> (\<forall>i<total_frames s. is_used (reserve_frames s fs) i \<longleftrightarrow> i \<in> set fs \<or> is_used s i)"
  using assms
proof (induction fs arbitrary: s)
  case Nil
  then show ?case by simp
next
  case (Cons f fs)
  show ?case
  proof (cases "f < total_frames s \<and> \<not> is_used s f")
    case True
    define t where "t = (set_used s f)\<lparr>free_count := wsub64 (free_count s) 1\<rparr>"
    have inv: "pa_inv t"
      using Cons.prems True free_count_take [OF Cons.prems, of f] pa_inv_frame [OF Cons.prems, of f]
      by (auto simp: pa_inv_def t_def set_used_def is_used_eq cong: is_reserved_frame_cong)
    have used: "is_used t i \<longleftrightarrow> i = f \<or> is_used s i" for i
      using True pa_inv_frame [OF Cons.prems, of f] by (simp add: t_def set_used_def is_used_eq)
    have nf: "total_frames t = total_frames s" by (simp add: t_def set_used_def)
    have "reserve_frames s (f # fs) = reserve_frames t fs" using True by (simp add: t_def)
    with Cons.IH [OF inv] show ?thesis unfolding nf used by auto
  next
    case False
    then show ?thesis using Cons.IH [OF Cons.prems] by auto
  qed
qed

lemma reserve_region_inv: "pa_inv s \<Longrightarrow> pa_inv (reserve_region s start stop)"
  by (simp add: reserve_region_def reserve_frames_spec)

section \<open>The boot-time bitmap\<close>

lemma region_frames_lt: "i \<in> set (region_frames base sz n) \<Longrightarrow> i < n"
  by (auto simp: region_frames_def Let_def split: if_splits)

lemma region_frames_in_bitmap:
  "8 * ((n + 63) div 64) \<le> length bm \<Longrightarrow> i \<in> set (region_frames base sz n) \<Longrightarrow> i div 8 < length bm"
  by (blast intro: frame_in_bitmap region_frames_lt)

definition in_region :: "nat \<Rightarrow> nat \<Rightarrow> memory_region \<Rightarrow> bool" where
  "in_region nframes i r \<longleftrightarrow> i \<in> set (region_frames (mr_base r) (mr_size r) nframes)"

lemma length_clear_usable [simp]: "length (clear_usable bm rs n) = length bm"
  by (induction rs arbitrary: bm) (simp_all add: clear_region_def)

lemma frame_used_clear_usable:
  assumes "8 * ((n + 63) div 64) \<le> length bm"
  shows "frame_used (clear_usable bm rs n) i \<longleftrightarrow>
    frame_used bm i \<and> \<not> (\<exists>r\<in>set rs. mr_kind r = Usable \<and> in_region n i r)"
  using assms
proof (induction rs arbitrary: bm)
  case Nil
  then show ?case by simp
next
  case (Cons r rs)
  have "frame_used (clear_region bm r n) i \<longleftrightarrow> \<not> in_region n i r \<and> frame_used bm i"
    using region_frames_in_bitmap [OF Cons.prems]
    by (simp add: clear_region_def in_region_def)
  with Cons.IH [of "if mr_kind r = Usable then clear_region bm r n else bm"] Cons.prems
  show ?case by (auto simp: clear_region_def)
qed

lemma frame_used_mark_region_used:
  assumes "8 * ((n + 63) div 64) \<le> length bm"
  shows "frame_used (mark_region_used bm r n) i \<longleftrightarrow> in_region n i r \<or> frame_used bm i"
  using region_frames_in_bitmap [OF assms] by (simp add: mark_region_used_def in_region_def)

lemma bit_0xFF: "k < 8 \<Longrightarrow> bit (255 :: u8) k"
proof -
  assume "k < 8"
  have "(255 :: u8) = mask 8" by (simp add: mask_eq_exp_minus_1)
  then show ?thesis using \<open>k < 8\<close> by (simp only: bit_mask_iff) simp
qed

lemma frame_used_initial:
  assumes "i < n"
  shows "frame_used (map (\<lambda>i. if i < (n + 7) div 8 then 255 else mem i) [0..<8 * ((n + 63) div 64)]) i"
proof -
  have "i div 8 < (n + 7) div 8" using assms by linarith
  moreover have "i div 8 < 8 * ((n + 63) div 64)"
    using frame_in_bitmap [of n "replicate (8 * ((n + 63) div 64)) 0" i] assms by simp
  ultimately show ?thesis using bit_0xFF [of "i mod 8"] by (simp add: frame_used_def)
qed

text \<open>
  The frames free after construction are exactly those touched by a usable region that are
  not frame 0, not under the bitmap itself and not under the kernel image.
\<close>

lemma length_boot_bitmap [simp]: "length (boot_bitmap mem base mm ks ke n) = 8 * ((n + 63) div 64)"
  by (simp add: boot_bitmap_def Let_def mark_region_used_def)

lemma frame_used_boot_bitmap:
  assumes i: "i < n"
  shows "frame_used (boot_bitmap mem base mm ks ke n) i \<longleftrightarrow>
    \<not> (\<exists>r\<in>set mm. mr_kind r = Usable \<and> in_region n i r)
    \<or> in_region n i \<lparr>mr_base = base, mr_size = (n + 7) div 8, mr_kind = Reserved\<rparr>
    \<or> i = 0
    \<or> ks < ke \<and> in_region n i \<lparr>mr_base = ks, mr_size = ke - ks, mr_kind = Reserved\<rparr>"
proof -
  define bm0 where "bm0 = map (\<lambda>i. if i < (n + 7) div 8 then 255 else mem i) [0..<8 * ((n + 63) div 64)]"
  define bm1 where "bm1 = clear_usable bm0 mm n"
  define bm2 where
    "bm2 = mark_region_used bm1 \<lparr>mr_base = base, mr_size = (n + 7) div 8, mr_kind = Reserved\<rparr> n"
  define bm3 where "bm3 = set_used_bit bm2 0"
  have len: "length bm0 = 8 * ((n + 63) div 64)" "length bm1 = 8 * ((n + 63) div 64)"
      "length bm2 = 8 * ((n + 63) div 64)" "length bm3 = 8 * ((n + 63) div 64)"
    by (simp_all add: bm0_def bm1_def bm2_def bm3_def mark_region_used_def)
  have u0: "frame_used bm0 i" using i unfolding bm0_def by (rule frame_used_initial)
  have u1: "frame_used bm1 i \<longleftrightarrow> \<not> (\<exists>r\<in>set mm. mr_kind r = Usable \<and> in_region n i r)"
    using frame_used_clear_usable [of n bm0 mm i] u0 len(1) by (simp add: bm1_def)
  have u2: "frame_used bm2 i \<longleftrightarrow>
      in_region n i \<lparr>mr_base = base, mr_size = (n + 7) div 8, mr_kind = Reserved\<rparr> \<or> frame_used bm1 i"
    unfolding bm2_def by (rule frame_used_mark_region_used) (simp add: len)
  have "0 div 8 < length bm2" using i by (intro frame_in_bitmap [of n]) (auto simp: len)
  then have u3: "frame_used bm3 i \<longleftrightarrow> i = 0 \<or> frame_used bm2 i"
    unfolding bm3_def by (rule frame_used_set_used)
  have "boot_bitmap mem base mm ks ke n =
      (if ks < ke then mark_region_used bm3 \<lparr>mr_base = ks, mr_size = ke - ks, mr_kind = Reserved\<rparr> n
       else bm3)"
    using i by (simp add: boot_bitmap_def Let_def bm0_def bm1_def bm2_def bm3_def)
  moreover have "frame_used (mark_region_used bm3 r n) i \<longleftrightarrow> in_region n i r \<or> frame_used bm3 i" for r
    by (rule frame_used_mark_region_used) (simp add: len)
  ultimately show ?thesis using u1 u2 u3 by auto
qed

text \<open>
  What firmware and the bootloader guarantee: physical addresses have at most 52 bits, and the
  region offered for the bitmap lies inside the usable memory.
\<close>

definition boot_map_ok :: "nat \<times> nat \<Rightarrow> memory_region list \<Rightarrow> nat \<Rightarrow> bool" where
  "boot_map_ok region mm kend \<longleftrightarrow>
     (\<forall>r\<in>set mm. mr_base r + mr_size r \<le> 4503599627370496) \<and> kend \<le> 4503599627370496
     \<and> fst region + snd region \<le> find_max_addr mm"

text \<open>Frame \<open>i\<close> and the byte range \<open>[base, base + size)\<close> have a byte in common.\<close>

definition frame_overlaps :: "nat \<Rightarrow> nat \<Rightarrow> nat \<Rightarrow> bool" where
  "frame_overlaps i base sz \<longleftrightarrow> base < (i + 1) * 4096 \<and> i * 4096 < base + sz"

lemma div_4096_le_iff: "(b::nat) div 4096 \<le> i \<longleftrightarrow> b < (i + 1) * 4096"
  by (simp add: less_mult_imp_div_less div_less_iff_less_mult flip: less_Suc_eq_le)

lemma lt_ceil_4096_iff: "i < ((e::nat) + 4095) div 4096 \<longleftrightarrow> i * 4096 < e"
proof -
  have "i < (e + 4095) div 4096 \<longleftrightarrow> \<not> (e + 4095) div 4096 < i + 1" by auto
  also have "\<dots> \<longleftrightarrow> \<not> e + 4095 < (i + 1) * 4096"
    by (simp only: div_less_iff_less_mult [OF zero_less_numeral])
  also have "\<dots> \<longleftrightarrow> i * 4096 < e" by auto
  finally show ?thesis .
qed

lemma in_region_iff:
  assumes "mr_base r + mr_size r \<le> 4503599627370496 * 2"
  shows "in_region n i r \<longleftrightarrow> i < n \<and> frame_overlaps i (mr_base r) (mr_size r)"
proof -
  have "saturating_add64 (mr_base r) (mr_size r) = mr_base r + mr_size r"
      "mr_base r + mr_size r \<noteq> u64_max" and
      "wadd64 (mr_base r + mr_size r) 4095 = mr_base r + mr_size r + 4095"
    using assms by (simp_all add: saturating_add64_def u64_max_def wadd64_exact)
  then show ?thesis
    by (auto simp: in_region_def region_frames_def Let_def frame_overlaps_def
        div_4096_le_iff lt_ceil_4096_iff)
qed

lemma fold_max_bounds:
  "(\<And>x. x \<in> set xs \<Longrightarrow> x \<le> (b::nat)) \<Longrightarrow> a \<le> b \<Longrightarrow> fold max xs a \<le> b"
  by (induction xs arbitrary: a) auto

lemma find_max_addr_le:
  assumes "boot_map_ok region mm kend"
  shows "find_max_addr mm \<le> 4503599627370496"
  using assms unfolding find_max_addr_def
  by (intro fold_max_bounds) (auto simp: boot_map_ok_def saturating_add64_def)

lemma page_down_props:
  "page_down a \<le> a" "4096 dvd page_down a" "a < page_down a + 4096"
proof -
  show "page_down a \<le> a" by (simp add: page_down_def)
  show "4096 dvd page_down a" by (simp add: page_down_def dvd_minus_mod)
  have "a mod 4096 < 4096" "a mod 4096 \<le> a" by simp_all
  then show "a < page_down a + 4096" unfolding page_down_def by linarith
qed

lemma phys_new_fields:
  assumes new: "phys_new mem region mm kstart kend = Some s" and ok: "boot_map_ok region mm kend"
  shows "total_frames s = (find_max_addr mm + 4095) div 4096"
    and "kernel_start s = page_down kstart" and "kernel_end s = page_down (kend + 4095)"
    and "next_free s = bitmap_base region kend div 4096" and "next_free_hint s = next_free s"
    and "bitmap s = boot_bitmap mem (bitmap_base region kend) mm (kernel_start s) (kernel_end s) (total_frames s)"
    and "free_count s = count_free_bits (bitmap s) (total_frames s)"
    and "bitmap_base region kend + (total_frames s + 7) div 8 \<le> find_max_addr mm"
proof -
  have max: "find_max_addr mm \<le> 4503599627370496" using ok by (rule find_max_addr_le)
  have kend: "kend \<le> 4503599627370496" and reg: "fst region + snd region \<le> find_max_addr mm"
    using ok by (auto simp: boot_map_ok_def)
  have exact: "wadd64 (find_max_addr mm) 4095 = find_max_addr mm + 4095" "wadd64 kend 4095 = kend + 4095"
      "wadd64 (fst region) (snd region) = fst region + snd region"
    using max kend reg by (simp_all add: wadd64_exact u64_max_def)
  note unf = new [unfolded phys_new_def Let_def with_seeded_free_count_def exact]
  show nf: "total_frames s = (find_max_addr mm + 4095) div 4096"
    and "kernel_start s = page_down kstart" and "kernel_end s = page_down (kend + 4095)"
    and "next_free s = bitmap_base region kend div 4096" and "next_free_hint s = next_free s"
    and "bitmap s = boot_bitmap mem (bitmap_base region kend) mm (kernel_start s) (kernel_end s) (total_frames s)"
    and "free_count s = count_free_bits (bitmap s) (total_frames s)"
    using unf by (auto split: if_splits)
  have base: "bitmap_base region kend \<le> 4503599627370496 + 4095"
    using kend max reg page_down_props(1) [of "kend + 4095"] exact
    by (simp add: bitmap_base_def)
  have "(total_frames s + 7) div 8 \<le> 4503599627370496" using nf max by linarith
  with base have "wadd64 (bitmap_base region kend) ((total_frames s + 7) div 8) =
      bitmap_base region kend + (total_frames s + 7) div 8"
    by (intro wadd64_exact) (simp add: u64_max_def)
  moreover have "wadd64 (bitmap_base region kend) ((total_frames s + 7) div 8) \<le> fst region + snd region"
    using unf nf by (auto split: if_splits)
  ultimately show "bitmap_base region kend + (total_frames s + 7) div 8 \<le> find_max_addr mm"
    using reg by simp
qed

lemma kernel_region_overlaps:
  assumes "4096 dvd ks" "4096 dvd ke" "ks < ke"
  shows "frame_overlaps i ks (ke - ks) \<longleftrightarrow> ks \<le> i * 4096 \<and> i * 4096 < ke"
proof -
  obtain a where "ks = 4096 * a" using assms(1) by (elim dvdE)
  then show ?thesis using assms(3) by (auto simp: frame_overlaps_def)
qed

lemma phys_new_used:
  assumes new: "phys_new mem region mm kstart kend = Some s" and ok: "boot_map_ok region mm kend"
    and i: "i < total_frames s"
  shows "is_used s i \<longleftrightarrow>
    \<not> (\<exists>r\<in>set mm. mr_kind r = Usable \<and> frame_overlaps i (mr_base r) (mr_size r))
    \<or> is_reserved_frame s i
    \<or> frame_overlaps i (bitmap_base region kend) ((total_frames s + 7) div 8)"
proof -
  note fields = phys_new_fields [OF new ok]
  have max: "find_max_addr mm \<le> 4503599627370496" using ok by (rule find_max_addr_le)
  have kend: "kernel_end s \<le> 4503599627370496 + 4095"
    using ok fields(3) page_down_props(1) [of "kend + 4095"] by (simp add: boot_map_ok_def)
  have mm: "in_region (total_frames s) i r \<longleftrightarrow> frame_overlaps i (mr_base r) (mr_size r)"
    if "r \<in> set mm" for r
  proof -
    have "mr_base r + mr_size r \<le> 4503599627370496 * 2"
      using ok that by (auto simp: boot_map_ok_def dest!: bspec)
    from in_region_iff [OF this] i show ?thesis by simp
  qed
  have bm: "in_region (total_frames s) i
      \<lparr>mr_base = bitmap_base region kend, mr_size = (total_frames s + 7) div 8, mr_kind = Reserved\<rparr>
    \<longleftrightarrow> frame_overlaps i (bitmap_base region kend) ((total_frames s + 7) div 8)"
    using fields(8) max i by (subst in_region_iff) auto
  have ker: "kernel_start s < kernel_end s \<Longrightarrow> in_region (total_frames s) i
      \<lparr>mr_base = kernel_start s, mr_size = kernel_end s - kernel_start s, mr_kind = Reserved\<rparr>
    \<longleftrightarrow> kernel_start s \<le> i * 4096 \<and> i * 4096 < kernel_end s"
    using kend i fields(2,3) page_down_props(2)
    by (subst in_region_iff) (auto simp: kernel_region_overlaps)
  have res: "is_reserved_frame s i \<longleftrightarrow> i = 0 \<or> kernel_start s \<le> i * 4096 \<and> i * 4096 < kernel_end s"
    by (simp add: is_reserved_frame_def Let_def)
  show ?thesis
    unfolding is_used_eq res by (subst fields(6), subst frame_used_boot_bitmap [OF i])
      (use mm bm ker in auto)
qed

lemma phys_new_inv:
  assumes new: "phys_new mem region mm kstart kend = Some s" and ok: "boot_map_ok region mm kend"
  shows "pa_inv s"
proof -
  note fields = phys_new_fields [OF new ok]
  have max: "find_max_addr mm \<le> 4503599627370496" using ok by (rule find_max_addr_le)
  have len: "length (bitmap s) = 8 * ((total_frames s + 63) div 64)"
    by (subst fields(6)) simp
  have "bitmap_base region kend div 4096 \<le> (find_max_addr mm + 4095) div 4096"
    using fields(8) by (intro div_le_mono) linarith
  then have nf: "next_free s \<le> total_frames s" using fields(1,4) by simp
  have "total_frames s \<le> 4503599627370496" using fields(1) max by simp
  moreover have "\<forall>i<total_frames s. is_reserved_frame s i \<longrightarrow> is_used s i"
    using phys_new_used [OF new ok] by blast
  ultimately show ?thesis
    using len nf fields(5,7) by (simp add: pa_inv_def count_free_bits_eq)
qed

end
