(* ===== verification/Phys_Contig.thy ===== *)
theory Phys_Contig
  imports Phys_Alloc
begin

text \<open>
  Contiguous allocation in \<open>kernel/src/mm/phys_alloc.rs\<close>: the closures \<open>emit\<close> and \<open>find_run\<close>,
  the search loop of \<open>alloc_contig_core\<close> and the entry points built on it. The loops of
  \<open>find_run\<close> carry a run \<open>(run_start, run_len)\<close> from one bitmap word to the next exactly as the
  source does, including the two places where the carried run covers frames that are in use.
\<close>

section \<open>Finding a run\<close>

definition emit :: "nat \<Rightarrow> nat \<Rightarrow> nat \<Rightarrow> nat \<Rightarrow> nat option" where
  "emit cnt align_pages rs rl =
     (if rl < cnt then None
      else let off = (align_pages - rs mod align_pages) mod align_pages
           in if off + cnt \<le> rl then Some (rs + off) else None)"

text \<open>The innermost loop: the end of the free bits starting at \<open>i\<close>.\<close>

function free_end :: "u64 \<Rightarrow> nat \<Rightarrow> nat \<Rightarrow> nat" where
  "free_end w nbits i =
     (if i < nbits \<and> w AND push_bit i 1 = 0 then free_end w nbits (i + 1) else i)"
  by pat_completeness auto
termination
  by (relation "measure (\<lambda>(w, nbits, i). nbits - i)") auto

declare free_end.simps [simp del]

lemma free_end_bounds: "i \<le> free_end w nbits i \<and> (i \<le> nbits \<longrightarrow> free_end w nbits i \<le> nbits)"
proof (induction w nbits i rule: free_end.induct)
  case (1 w nbits i)
  then show ?case by (cases "i < nbits \<and> w AND push_bit i 1 = 0") (auto simp: free_end.simps [of w nbits i])
qed

lemma free_end_gt: "i < nbits \<Longrightarrow> w AND push_bit i 1 = 0 \<Longrightarrow> i < free_end w nbits i"
  using free_end_bounds [of "i + 1" w nbits] by (subst free_end.simps) auto

text \<open>The bit loop of one word: an aligned run was found, or the run carried onward.\<close>

datatype run_scan = Found nat | Carry nat nat

function scan_bits ::
  "nat \<Rightarrow> nat \<Rightarrow> nat \<Rightarrow> u64 \<Rightarrow> nat \<Rightarrow> nat \<Rightarrow> nat \<Rightarrow> nat \<Rightarrow> run_scan" where
  "scan_bits cnt al wi w nbits i run_start run_len =
     (if i < nbits then
        if w AND push_bit i 1 = 0 then
          (let e = free_end w nbits i; len = e - i
           in case emit cnt al (wi * 64 + i) len of
                Some a \<Rightarrow> Found a
              | None \<Rightarrow> scan_bits cnt al wi w nbits e (wi * 64 + i) len)
        else scan_bits cnt al wi w nbits (i + 1) run_start run_len
      else Carry run_start run_len)"
  by pat_completeness auto
termination
proof (relation "measure (\<lambda>(cnt, al, wi, w, nbits, i, rs, rl). nbits - i)", goal_cases)
  case (2 cnt al wi w nbits i rs rl e len)
  then show ?case using free_end_gt [of i nbits w] by simp
qed auto

declare scan_bits.simps [simp del]

definition run_nbits :: "phys_alloc \<Rightarrow> nat \<Rightarrow> nat" where
  "run_nbits s wi =
     (let last_bits = (if total_frames s mod 64 = 0 then 64 else total_frames s mod 64)
      in if wi = (total_frames s + 63) div 64 - 1 then last_bits else 64)"

text \<open>The word at \<open>wi\<close> with the bits outside \<open>[lo, hi)\<close> marked used.\<close>

definition window_word :: "phys_alloc \<Rightarrow> nat \<Rightarrow> nat \<Rightarrow> nat \<Rightarrow> nat \<Rightarrow> nat \<Rightarrow> u64" where
  "window_word s lo hi start_word end_word wi =
     (let nbits = run_nbits s wi;
          word_mask = (if nbits = 64 then - 1 else push_bit nbits 1 - 1);
          w = read_u64 (bitmap s) wi AND word_mask;
          w = (if wi = start_word \<and> lo mod 64 \<noteq> 0 then w OR (push_bit (lo mod 64) 1 - 1) else w)
      in if wi = end_word - 1 \<and> hi mod 64 \<noteq> 0
         then w OR (NOT (push_bit (hi mod 64) 1 - 1) AND word_mask) else w)"

text \<open>
  The loop over words. In a word with used bits the source extends a carried run by
  \<open>(!w).trailing_zeros()\<close> and restarts the bit loop after it.
\<close>

fun find_run_words ::
  "nat \<Rightarrow> nat \<Rightarrow> (nat \<Rightarrow> nat) \<Rightarrow> (nat \<Rightarrow> u64) \<Rightarrow> nat list \<Rightarrow> nat \<Rightarrow> nat \<Rightarrow> nat option" where
  "find_run_words cnt al nbits word [] run_start run_len = None"
| "find_run_words cnt al nbits word (wi # ws) run_start run_len =
     (let w = word wi in
      if w = 0 then
        (let rs = (if run_len = 0 then wi * 64 else run_start); rl = run_len + nbits wi
         in case emit cnt al rs rl of
              Some a \<Rightarrow> Some a
            | None \<Rightarrow> find_run_words cnt al nbits word ws rs rl)
      else if 0 < run_len then
        (let lead = trailing_zeros (NOT w)
         in case emit cnt al run_start (run_len + lead) of
              Some a \<Rightarrow> Some a
            | None \<Rightarrow>
                (case scan_bits cnt al wi w (nbits wi) (lead + 1) run_start 0 of
                   Found a \<Rightarrow> Some a
                 | Carry rs rl \<Rightarrow> find_run_words cnt al nbits word ws rs rl))
      else
        (case scan_bits cnt al wi w (nbits wi) 0 run_start run_len of
           Found a \<Rightarrow> Some a
         | Carry rs rl \<Rightarrow> find_run_words cnt al nbits word ws rs rl))"

definition end_word_of :: "nat \<Rightarrow> nat" where
  "end_word_of hi = hi div 64 + (if hi mod 64 = 0 then 0 else 1)"

definition find_run :: "phys_alloc \<Rightarrow> nat \<Rightarrow> nat \<Rightarrow> nat \<Rightarrow> nat \<Rightarrow> nat option" where
  "find_run s cnt al lo hi =
     (if hi \<le> lo then None
      else let start_word = lo div 64; end_word = end_word_of hi
           in find_run_words cnt al (run_nbits s) (window_word s lo hi start_word end_word)
                [start_word..<end_word] 0 0)"

section \<open>Bounds of the runs found\<close>

lemma emit_Some:
  assumes "emit cnt al rs rl = Some a"
  shows "rs \<le> a" "a + cnt \<le> rs + rl" "0 < al \<Longrightarrow> a mod al = 0"
proof -
  have a: "a = rs + (al - rs mod al) mod al" and le: "(al - rs mod al) mod al + cnt \<le> rl"
    using assms by (auto simp: emit_def Let_def split: if_splits)
  from a show "rs \<le> a" by simp
  from a le show "a + cnt \<le> rs + rl" by simp
  have "(rs + (al - rs mod al)) mod al = 0" if "0 < al"
  proof -
    have "rs mod al \<le> al" using that by (simp add: less_imp_le)
    then have "rs + (al - rs mod al) = (rs - rs mod al) + al" by simp
    moreover have "al dvd (rs - rs mod al) + al" by (intro dvd_add dvd_minus_mod dvd_refl)
    ultimately show ?thesis by (simp add: mod_eq_0_iff_dvd)
  qed
  then show "a mod al = 0" if "0 < al" using that by (simp add: a mod_add_right_eq)
qed

lemma bit_test_eq: "(w::u64) AND push_bit i 1 = 0 \<longleftrightarrow> \<not> bit w i"
proof
  assume eq: "w AND push_bit i 1 = 0"
  show "\<not> bit w i"
  proof
    assume "bit w i"
    then have "bit (w AND push_bit i 1) i" using bit_word64_lt [of w i] by (simp add: bitops)
    with eq show False by simp
  qed
next
  assume "\<not> bit w i"
  then show "w AND push_bit i 1 = 0" by (intro bit_word_eqI) (auto simp: bitops)
qed

text \<open>
  A run is carried inside the window: it starts at or after \<open>lo\<close> and ends at or before \<open>b\<close>.
\<close>

definition run_ok :: "nat \<Rightarrow> nat \<Rightarrow> nat \<Rightarrow> nat \<Rightarrow> bool" where
  "run_ok lo b rs rl \<longleftrightarrow> rl = 0 \<or> lo \<le> rs \<and> rs + rl \<le> b"

definition found_ok :: "nat \<Rightarrow> nat \<Rightarrow> nat \<Rightarrow> nat \<Rightarrow> nat \<Rightarrow> bool" where
  "found_ok lo b cnt al a \<longleftrightarrow> lo \<le> a \<and> a + cnt \<le> b \<and> (0 < al \<longrightarrow> a mod al = 0)"

lemma emit_found_ok:
  "emit cnt al rs rl = Some a \<Longrightarrow> lo \<le> rs \<Longrightarrow> rs + rl \<le> b \<Longrightarrow> found_ok lo b cnt al a"
  unfolding found_ok_def using emit_Some [of cnt al rs rl a] by auto

lemma run_ok_mono: "run_ok lo b rs rl \<Longrightarrow> b \<le> b' \<Longrightarrow> run_ok lo b' rs rl"
  by (auto simp: run_ok_def)

lemma found_ok_mono: "found_ok lo b cnt al a \<Longrightarrow> b \<le> b' \<Longrightarrow> found_ok lo b' cnt al a"
  by (auto simp: found_ok_def)

lemma scan_bits_ok:
  assumes "\<And>j. j < nbits \<Longrightarrow> \<not> bit w j \<Longrightarrow> lo \<le> wi * 64 + j"
    and "run_ok lo (wi * 64 + nbits) rs rl"
  shows "case scan_bits cnt al wi w nbits i rs rl of
      Found a \<Rightarrow> found_ok lo (wi * 64 + nbits) cnt al a
    | Carry rs' rl' \<Rightarrow> run_ok lo (wi * 64 + nbits) rs' rl'"
  using assms
proof (induction cnt al wi w nbits i rs rl rule: scan_bits.induct)
  case (1 cnt al wi w nbits i rs rl)
  let ?e = "free_end w nbits i"
  show ?case
  proof (cases "i < nbits")
    case False
    then show ?thesis using "1.prems" by (simp add: scan_bits.simps [of cnt al wi w nbits i])
  next
    case i: True
    show ?thesis
    proof (cases "w AND push_bit i 1 = 0")
      case False
      then show ?thesis
        using "1.IH"(2) [OF i False "1.prems"] i by (subst scan_bits.simps) simp
    next
      case free: True
      have e: "i < ?e" "?e \<le> nbits"
        using free_end_gt [OF i free] free_end_bounds [of i w nbits] i by auto
      have lo: "lo \<le> wi * 64 + i" using "1.prems"(1) [OF i] bit_test_eq [THEN iffD1, OF free] by blast
      show ?thesis
      proof (cases "emit cnt al (wi * 64 + i) (?e - i)")
        case (Some a)
        then have "found_ok lo (wi * 64 + nbits) cnt al a"
          using lo e by (auto intro: emit_found_ok)
        then show ?thesis using i free Some by (subst scan_bits.simps) (simp add: Let_def)
      next
        case None
        have "run_ok lo (wi * 64 + nbits) (wi * 64 + i) (?e - i)"
          using lo e by (simp add: run_ok_def)
        from "1.IH"(1) [OF i free refl refl None "1.prems"(1) this] show ?thesis
          using i free None by (subst scan_bits.simps) (simp add: Let_def)
      qed
    qed
  qed
qed

text \<open>
  The word loop, for words whose in-window bits start at \<open>lo\<close> and whose leading used bits end
  inside the word: every run found lies in \<open>[lo, b)\<close>.
\<close>

definition words_ok :: "nat \<Rightarrow> nat \<Rightarrow> (nat \<Rightarrow> nat) \<Rightarrow> (nat \<Rightarrow> u64) \<Rightarrow> nat list \<Rightarrow> bool" where
  "words_ok lo b nbits word ws \<longleftrightarrow>
     (\<forall>wi\<in>set ws. (\<forall>j<nbits wi. \<not> bit (word wi) j \<longrightarrow> lo \<le> wi * 64 + j) \<and>
        0 < nbits wi \<and> nbits wi \<le> 64 \<and> wi * 64 + nbits wi \<le> b \<and>
        wi * 64 + trailing_zeros (NOT (word wi)) \<le> b)"

lemma find_run_words_ok:
  assumes "words_ok lo b nbits word [k..<n]"
    and "run_ok lo (k * 64) rs rl" "find_run_words cnt al nbits word [k..<n] rs rl = Some a"
  shows "found_ok lo b cnt al a"
  using assms
proof (induction "n - k" arbitrary: k rs rl)
  case 0
  then show ?case by simp
next
  case (Suc m)
  then have k: "k < n" and up: "[k..<n] = k # [Suc k..<n]" by (auto simp: upt_conv_Cons)
  let ?w = "word k" and ?nb = "nbits k"
  from Suc.prems(1) k have wk: "\<And>j. j < ?nb \<Longrightarrow> \<not> bit ?w j \<Longrightarrow> lo \<le> k * 64 + j"
      "0 < ?nb" "k * 64 + trailing_zeros (NOT ?w) \<le> b" "k * 64 + ?nb \<le> b" "?nb \<le> 64"
    and rest: "words_ok lo b nbits word [Suc k..<n]"
    by (auto simp: words_ok_def up)
  have next_k: "find_run_words cnt al nbits word [Suc k..<n] rs' rl' = Some a \<Longrightarrow>
      run_ok lo (k * 64 + ?nb) rs' rl' \<Longrightarrow> found_ok lo b cnt al a" for rs' rl'
  proof -
    assume run: "find_run_words cnt al nbits word [Suc k..<n] rs' rl' = Some a"
      and ok: "run_ok lo (k * 64 + ?nb) rs' rl'"
    have "run_ok lo (Suc k * 64) rs' rl'" using ok wk(5) by (auto elim: run_ok_mono)
    moreover have "m = n - Suc k" using Suc.hyps(2) by simp
    ultimately show ?thesis using Suc.hyps(1) [of "Suc k" rs' rl'] rest run by blast
  qed
  have scan: "case scan_bits cnt al k ?w ?nb i rs 0 of Found a' \<Rightarrow> found_ok lo b cnt al a'
      | Carry rs' rl' \<Rightarrow> run_ok lo (k * 64 + ?nb) rs' rl'" for i
  proof -
    have "run_ok lo (k * 64 + ?nb) rs 0" by (simp add: run_ok_def)
    from scan_bits_ok [where w = "?w" and al = al and cnt = cnt and i = i, OF wk(1) this] wk(4) show ?thesis
      by (auto split: run_scan.splits elim: found_ok_mono)
  qed
  show ?case
  proof (cases "?w = 0")
    case True
    define rs' rl' where "rs' = (if rl = 0 then k * 64 else rs)" and "rl' = rl + ?nb"
    have "lo \<le> k * 64" using wk(1) [of 0] wk(2) True by simp
    then have in_win: "lo \<le> rs'" "rs' + rl' \<le> k * 64 + ?nb"
      using Suc.prems(2) by (auto simp: rs'_def rl'_def run_ok_def)
    show ?thesis
    proof (cases "emit cnt al rs' rl'")
      case None
      then have "find_run_words cnt al nbits word [Suc k..<n] rs' rl' = Some a"
        using Suc.prems(3) True by (simp add: up Let_def rs'_def rl'_def)
      then show ?thesis using in_win by (intro next_k) (auto simp: run_ok_def)
    next
      case (Some a')
      then have "a' = a" using Suc.prems(3) True by (simp add: up Let_def rs'_def rl'_def)
      then show ?thesis
        using emit_found_ok [OF Some in_win] wk(4) by (auto elim: found_ok_mono)
    qed
  next
    case False
    let ?lead = "trailing_zeros (NOT ?w)"
    show ?thesis
    proof (cases "0 < rl \<and> emit cnt al rs (rl + ?lead) \<noteq> None")
      case True
      then have "emit cnt al rs (rl + ?lead) = Some a"
        using Suc.prems(3) False by (auto simp: up Let_def)
      moreover have "lo \<le> rs" "rs + (rl + ?lead) \<le> b"
        using True Suc.prems(2) wk(3,4) by (auto simp: run_ok_def)
      ultimately show ?thesis by (auto intro: emit_found_ok)
    next
      case no_emit: False
      define i where "i = (if 0 < rl then ?lead + 1 else 0)"
      have "(case scan_bits cnt al k ?w ?nb i rs 0 of Found a' \<Rightarrow> Some a'
          | Carry rs' rl' \<Rightarrow> find_run_words cnt al nbits word [Suc k..<n] rs' rl') = Some a"
        using Suc.prems(3) False no_emit by (auto simp: up Let_def i_def split: if_splits)
      then show ?thesis using scan [of i] next_k by (auto split: run_scan.splits)
    qed
  qed
qed

lemma trailing_zeros_le: "trailing_zeros w \<le> 64"
  unfolding trailing_zeros_def using takeWhile_upt_spec(1) [of "\<lambda>i. \<not> bit w i" 64] .

lemma trailing_zeros_le_bit: "bit w j \<Longrightarrow> trailing_zeros w \<le> j"
  using trailing_zeros_least [of j w] by (cases "j < trailing_zeros w") auto

lemma run_nbits_bounds: "0 < run_nbits s wi" "run_nbits s wi \<le> 64"
proof -
  have "total_frames s mod 64 < 64" by simp
  then show "0 < run_nbits s wi" "run_nbits s wi \<le> 64"
    by (auto simp: run_nbits_def Let_def simp del: mod_less_divisor)
qed

lemma window_word_low:
  assumes "lo div 64 \<le> wi" "\<not> bit (window_word s lo hi (lo div 64) ew wi) j" "j < 64"
  shows "lo \<le> wi * 64 + j"
proof (cases "wi = lo div 64")
  case True
  then have "lo mod 64 \<le> j"
    using assms(2,3) by (auto simp: window_word_def Let_def bitops split: if_splits)
  then show ?thesis using True div_mult_mod_eq [of lo 64] by linarith
next
  case False
  then have "lo div 64 + 1 \<le> wi" using assms(1) by simp
  then have "(lo div 64 + 1) * 64 \<le> wi * 64" by (rule mult_le_mono1)
  moreover have "lo < (lo div 64 + 1) * 64" using div_mult_mod_eq [of lo 64] by simp
  ultimately show ?thesis by linarith
qed

lemma window_words_ok:
  "words_ok lo (end_word_of hi * 64) (run_nbits s)
     (window_word s lo hi (lo div 64) (end_word_of hi)) [lo div 64..<end_word_of hi]"
proof -
  have "wi * 64 + 64 \<le> end_word_of hi * 64" if "wi < end_word_of hi" for wi
    using that by (metis Suc_leI add.commute mult_Suc mult_le_mono1)
  moreover have "trailing_zeros w \<le> 64" for w by (rule trailing_zeros_le)
  ultimately show ?thesis
    unfolding words_ok_def using run_nbits_bounds window_word_low
    by (fastforce intro: order_trans [OF add_left_mono])
qed

lemma find_run_ok:
  assumes "find_run s cnt al lo hi = Some a"
  shows "found_ok lo (end_word_of hi * 64) cnt al a"
proof -
  have "find_run_words cnt al (run_nbits s) (window_word s lo hi (lo div 64) (end_word_of hi))
      [lo div 64..<end_word_of hi] 0 0 = Some a"
    using assms by (auto simp: find_run_def Let_def split: if_splits)
  moreover have "run_ok lo (lo div 64 * 64) 0 0" by (simp add: run_ok_def)
  ultimately show ?thesis using find_run_words_ok [OF window_words_ok] by blast
qed

text \<open>With the window inside the managed memory, so is every run found.\<close>

lemma window_words_in_total:
  assumes lo: "lo < hi" and hi: "hi \<le> total_frames s"
  shows "words_ok lo (total_frames s) (run_nbits s)
     (window_word s lo hi (lo div 64) (end_word_of hi)) [lo div 64..<end_word_of hi]"
  unfolding words_ok_def
proof (intro ballI conjI allI impI)
  let ?n = "total_frames s" and ?W = "window_word s lo hi (lo div 64) (end_word_of hi)"
  fix wi assume "wi \<in> set [lo div 64..<end_word_of hi]"
  then have wi: "lo div 64 \<le> wi" "wi < end_word_of hi" by auto
  have hw: "end_word_of hi \<le> (?n + 63) div 64"
  proof -
    have "end_word_of hi = (hi + 63) div 64"
      by (cases "hi mod 64 = 0") (auto simp: end_word_of_def ceil_div_64 elim!: dvdE)
    then show ?thesis using hi by (simp add: div_le_mono)
  qed
  show "0 < run_nbits s wi" "run_nbits s wi \<le> 64" by (rule run_nbits_bounds)+
  show "lo \<le> wi * 64 + j" if "j < run_nbits s wi" "\<not> bit (?W wi) j" for j
    using window_word_low [OF wi(1) that(2)] that(1) run_nbits_bounds(2) [of s wi] by simp
  show le: "wi * 64 + run_nbits s wi \<le> ?n"
  proof (cases "wi = (?n + 63) div 64 - 1")
    case True
    then show ?thesis
      using wi(2) hw words_cover [of ?n] div_mult_mod_eq [of ?n 64]
      by (cases "?n mod 64 = 0") (auto simp: run_nbits_def Let_def ceil_div_64)
  next
    case False
    then have "wi < ?n div 64" using wi(2) hw
      by (cases "?n mod 64 = 0") (auto simp: ceil_div_64)
    then have "(wi + 1) * 64 \<le> ?n div 64 * 64" by (intro mult_le_mono1) simp
    then show ?thesis
      using False div_times_less_eq_dividend [of ?n 64] by (auto simp: run_nbits_def Let_def)
  qed
  show "wi * 64 + trailing_zeros (NOT (?W wi)) \<le> ?n"
  proof (cases "run_nbits s wi = 64")
    case True
    then show ?thesis using le trailing_zeros_le [of "NOT (?W wi)"] by linarith
  next
    case False
    then have nb: "run_nbits s wi < 64" using run_nbits_bounds(2) [of s wi] by simp
    have "\<not> (wi = lo div 64 \<and> run_nbits s wi < lo mod 64)"
    proof
      assume w: "wi = lo div 64 \<and> run_nbits s wi < lo mod 64"
      have last: "wi = (?n + 63) div 64 - 1" "run_nbits s wi = ?n mod 64" "?n mod 64 \<noteq> 0"
        using False by (auto simp: run_nbits_def Let_def split: if_splits)
      then have "wi = ?n div 64" by (simp add: ceil_div_64)
      then show False using w last lo hi div_mult_mod_eq [of ?n 64] div_mult_mod_eq [of lo 64]
        by linarith
    qed
    then have "\<not> bit (?W wi) (run_nbits s wi)"
      using False by (auto simp: window_word_def Let_def bitops)
    then have "bit (NOT (?W wi)) (run_nbits s wi)" using nb by (simp add: bitops)
    then show ?thesis using trailing_zeros_le_bit le by (meson add_left_mono order_trans)
  qed
qed

lemma find_run_in_total:
  assumes "find_run s cnt al lo hi = Some a" "hi \<le> total_frames s"
  shows "found_ok lo (total_frames s) cnt al a"
proof -
  have "find_run_words cnt al (run_nbits s) (window_word s lo hi (lo div 64) (end_word_of hi))
      [lo div 64..<end_word_of hi] 0 0 = Some a" and "lo < hi"
    using assms by (auto simp: find_run_def Let_def split: if_splits)
  moreover have "run_ok lo (lo div 64 * 64) 0 0" by (simp add: run_ok_def)
  ultimately show ?thesis
    using find_run_words_ok [OF window_words_in_total] assms(2) by blast
qed

section \<open>The search loop and the entry points\<close>

definition range_overlaps_kernel :: "phys_alloc \<Rightarrow> nat \<Rightarrow> nat \<Rightarrow> bool" where
  "range_overlaps_kernel s start_idx cnt =
     (if start_idx = 0 then True
      else let addr = start_idx * 4096; stop = addr + cnt * 4096
           in kernel_start s < stop \<and> addr < kernel_end s)"

fun set_used_all :: "phys_alloc \<Rightarrow> nat list \<Rightarrow> phys_alloc" where
  "set_used_all s [] = s"
| "set_used_all s (j # js) = set_used_all (set_used s j) js"

fun set_free_all :: "phys_alloc \<Rightarrow> nat list \<Rightarrow> phys_alloc" where
  "set_free_all s [] = s"
| "set_free_all s (j # js) = set_free_all (set_free s j) js"

text \<open>
  The outer \<open>loop\<close>: \<open>cur\<close> is the cursor read under the lock; the window starts as
  \<open>[cur, hi_cap)\<close> and wraps once to \<open>[0, cur)\<close>.
\<close>

function contig_loop ::
  "phys_alloc \<Rightarrow> nat \<Rightarrow> nat \<Rightarrow> nat \<Rightarrow> nat \<Rightarrow> nat \<Rightarrow> nat \<Rightarrow> bool \<Rightarrow>
   phys_alloc \<times> (alloc_error, nat) result" where
  "contig_loop s cnt al hi_cap cur lo hi tried_wrap =
     (case find_run s cnt al lo hi of
        Some run_start \<Rightarrow>
          if range_overlaps_kernel s run_start cnt then
            (if run_start + 1 + cnt > hi then
               (if \<not> tried_wrap \<and> hi = hi_cap
                then contig_loop s cnt al hi_cap cur 0 cur True
                else (s, Inl NoFrames))
             else contig_loop s cnt al hi_cap cur (run_start + 1) hi tried_wrap)
          else
            (let s1 = (set_used_all s [run_start..<run_start + cnt])
                        \<lparr>next_free := run_start + cnt, next_free_hint := run_start + cnt\<rparr>;
                 addr = run_start * 4096; end_addr = addr + cnt * 4096
             in if kernel_start s < end_addr \<and> addr < kernel_end s
                then contig_loop (set_free_all s1 [run_start..<run_start + cnt])
                       cnt al hi_cap cur (run_start + 1) hi tried_wrap
                else (s1\<lparr>free_count := wsub64 (free_count s1) cnt\<rparr>, Inr addr))
      | None \<Rightarrow>
          (if \<not> tried_wrap \<and> hi = hi_cap
           then contig_loop s cnt al hi_cap cur 0 cur True
           else (s, Inl NoFrames)))"
  by pat_completeness auto
termination
  by (relation "measures [\<lambda>(s, cnt, al, hc, cur, lo, hi, tried). if tried then 0 else 1,
        \<lambda>(s, cnt, al, hc, cur, lo, hi, tried). end_word_of hi * 64 + 1 - lo]")
     (auto simp: found_ok_def dest!: find_run_ok)

declare contig_loop.simps [simp del]

definition is_power_of_two :: "nat \<Rightarrow> bool" where
  "is_power_of_two n \<longleftrightarrow> (n \<in> set (map (\<lambda>k. 2 ^ k) [0..<64]))"

definition alloc_contig_core ::
  "phys_alloc \<Rightarrow> nat \<Rightarrow> nat \<Rightarrow> nat \<Rightarrow> phys_alloc \<times> (alloc_error, nat) result" where
  "alloc_contig_core s cnt align_pages hi_cap =
     (if cnt = 0 \<or> total_frames s < cnt \<or> hi_cap < cnt then (s, Inl InvalidCount)
      else if align_pages = 0 \<or> \<not> is_power_of_two align_pages then (s, Inl InvalidCount)
      else let cur = max (next_free_hint s) (next_free s)
           in contig_loop s cnt align_pages hi_cap cur cur hi_cap False)"

definition try_alloc_contiguous :: "phys_alloc \<Rightarrow> nat \<Rightarrow> phys_alloc \<times> (alloc_error, nat) result" where
  "try_alloc_contiguous s cnt = alloc_contig_core s cnt 1 (total_frames s)"

definition alloc_contiguous :: "phys_alloc \<Rightarrow> nat \<Rightarrow> phys_alloc \<times> nat option" where
  "alloc_contiguous s cnt =
     (case try_alloc_contiguous s cnt of (s', Inr a) \<Rightarrow> (s', Some a) | (s', Inl _) \<Rightarrow> (s', None))"

definition alloc_contiguous_checked :: "phys_alloc \<Rightarrow> nat \<Rightarrow> phys_alloc \<times> nat option" where
  "alloc_contiguous_checked s cnt =
     (case try_alloc_contiguous s cnt of (s', Inr a) \<Rightarrow> (s', Some a) | (s', Inl _) \<Rightarrow> (s', None))"

definition try_alloc_contiguous_below ::
  "phys_alloc \<Rightarrow> nat \<Rightarrow> nat \<Rightarrow> phys_alloc \<times> (alloc_error, nat) result" where
  "try_alloc_contiguous_below s cnt max_paddr =
     (let hi_cap = min (max_paddr div 4096) (total_frames s)
      in if hi_cap = 0 \<or> hi_cap < cnt then (s, Inl NoFrames)
         else alloc_contig_core s cnt 1 hi_cap)"

definition try_alloc_contiguous_aligned ::
  "phys_alloc \<Rightarrow> nat \<Rightarrow> nat \<Rightarrow> phys_alloc \<times> (alloc_error, nat) result" where
  "try_alloc_contiguous_aligned s cnt align_pages =
     alloc_contig_core s cnt align_pages (total_frames s)"

text \<open>The \<open>PhysicalMemoryAllocator\<close> service: one frame by \<open>alloc\<close>, more by a contiguous run.\<close>

definition alloc_frames :: "phys_alloc \<Rightarrow> nat \<Rightarrow> phys_alloc \<times> nat option" where
  "alloc_frames s cnt = (if cnt = 1 then alloc s else alloc_contiguous s cnt)"

end
