(* ===== verification/Phys_Props.thy ===== *)
theory Phys_Props
  imports Phys_Contig
begin

text \<open>
  The properties of the physical frame allocator: an interface locale for frame allocators with
  its interpretation on the bitmap allocator, ownership histories over \<open>alloc\<close>, \<open>free\<close> and
  \<open>reserve_region\<close>, and a sample machine on which the allocator is evaluated.
\<close>

section \<open>The interface of a frame allocator\<close>

text \<open>
  What the rest of the memory manager relies on: an allocation takes one frame that was not in
  use, a failed allocation changes nothing, and freeing a frame in use releases just that frame.
\<close>

locale frame_allocator =
  fixes inv :: "'s \<Rightarrow> bool"
    and live :: "'s \<Rightarrow> nat set"
    and alloc_op :: "'s \<Rightarrow> 's \<times> nat option"
    and free_op :: "'s \<Rightarrow> nat \<Rightarrow> 's"
  assumes alloc_Some_law: "inv s \<Longrightarrow> alloc_op s = (s', Some a) \<Longrightarrow>
      inv s' \<and> 4096 dvd a \<and> a div 4096 \<notin> live s \<and> live s' = insert (a div 4096) (live s)"
    and alloc_None_law: "inv s \<Longrightarrow> alloc_op s = (s', None) \<Longrightarrow> s' = s"
    and free_law: "inv s \<Longrightarrow> f \<in> live s \<Longrightarrow> inv (free_op s (f * 4096)) \<and> live (free_op s (f * 4096)) = live s - {f}"
begin

text \<open>Handing a frame back right after taking it leaves the same frames in use.\<close>

lemma alloc_free_live:
  assumes "inv s" "alloc_op s = (s', Some a)"
  shows "live (free_op s' a) = live s"
proof -
  note law = alloc_Some_law [OF assms]
  then have "a div 4096 * 4096 = a" by simp
  with law free_law [of s' "a div 4096"] show ?thesis by simp
qed

text \<open>A set of frames held by the clients, all of them in use, is not touched by an allocation.\<close>

lemma alloc_fresh:
  assumes "inv s" "own \<subseteq> live s" "alloc_op s = (s', Some a)"
  shows "a div 4096 \<notin> own" "insert (a div 4096) own \<subseteq> live s'"
  using alloc_Some_law [OF assms(1,3)] assms(2) by auto

lemma free_owned:
  assumes "inv s" "own \<subseteq> live s" "f \<in> own"
  shows "inv (free_op s (f * 4096))" "own - {f} \<subseteq> live (free_op s (f * 4096))"
  using free_law [of s f] assms by auto

end

text \<open>The frames a client may hold: in range, marked used, neither frame 0 nor the kernel image.\<close>

definition live_frames :: "phys_alloc \<Rightarrow> nat set" where
  "live_frames s = {f. f < total_frames s \<and> is_used s f \<and> \<not> is_reserved_frame s f}"

lemma live_take_frame:
  assumes "pa_inv s" "f < total_frames s" "\<not> is_reserved_frame s f"
  shows "live_frames (take_frame s f) = insert f (live_frames s)"
proof -
  have "total_frames (take_frame s f) = total_frames s"
    "is_reserved_frame (take_frame s f) j = is_reserved_frame s j" for j
    by (simp_all add: take_frame_def is_reserved_frame_def)
  then show ?thesis using assms by (auto simp: live_frames_def used_take_frame)
qed

lemma live_put_frame:
  assumes "pa_inv s" "f < total_frames s"
  shows "live_frames (put_frame s f) = live_frames s - {f}"
proof -
  have "total_frames (put_frame s f) = total_frames s"
    "is_reserved_frame (put_frame s f) j = is_reserved_frame s j" for j
    by (simp_all add: put_frame_def is_reserved_frame_def)
  then show ?thesis using assms by (auto simp: live_frames_def used_put_frame)
qed

lemma alloc_Some_take:
  assumes "pa_inv s" "alloc s = (s', Some a)"
  obtains f where "a = f * 4096" "f < total_frames s" "\<not> is_used s f" "\<not> is_reserved_frame s f"
    "s' = take_frame s f"
  using assms(2) by (cases rule: alloc_cases [OF assms(1)]) auto

interpretation bitmap: frame_allocator pa_inv live_frames alloc free
proof unfold_locales
  fix s s' a assume inv: "pa_inv s" and al: "alloc s = (s', Some a)"
  then obtain f where f: "a = f * 4096" "f < total_frames s" "\<not> is_used s f"
    "\<not> is_reserved_frame s f" "s' = take_frame s f" by (rule alloc_Some_take)
  moreover have "f \<notin> live_frames s" using f(3) by (simp add: live_frames_def)
  ultimately show "pa_inv s' \<and> 4096 dvd a \<and> a div 4096 \<notin> live_frames s
      \<and> live_frames s' = insert (a div 4096) (live_frames s)"
    using inv by (simp add: take_frame_inv live_take_frame)
next
  fix s s' assume "pa_inv s" "alloc s = (s', None)"
  then show "s' = s" by (cases rule: alloc_cases) auto
next
  fix s f assume "pa_inv s" "f \<in> live_frames s"
  then show "pa_inv (free s (f * 4096)) \<and> live_frames (free s (f * 4096)) = live_frames s - {f}"
    by (auto simp: live_frames_def free_eq put_frame_inv live_put_frame [unfolded live_frames_def])
qed

section \<open>Ownership histories\<close>

text \<open>
  A client that frees only what it holds, with boot code reserving address ranges in between.
  The second component is the set of frames handed out and not yet given back.
\<close>

inductive owner_step :: "phys_alloc \<times> nat set \<Rightarrow> phys_alloc \<times> nat set \<Rightarrow> bool" where
  take: "alloc s = (s', Some a) \<Longrightarrow> owner_step (s, own) (s', insert (a div 4096) own)"
| full: "alloc s = (s', None) \<Longrightarrow> owner_step (s, own) (s', own)"
| give: "f \<in> own \<Longrightarrow> owner_step (s, own) (free s (f * 4096), own - {f})"
| reserve: "owner_step (s, own) (reserve_region s start stop, own)"

inductive_cases owner_stepE: "owner_step (s, own) y"

definition owner_inv :: "phys_alloc \<times> nat set \<Rightarrow> bool" where
  "owner_inv c \<longleftrightarrow> pa_inv (fst c) \<and> snd c \<subseteq> live_frames (fst c)"

lemma reserve_frames_kernel [simp]:
  "kernel_start (reserve_frames s fs) = kernel_start s" "kernel_end (reserve_frames s fs) = kernel_end s"
  by (induction fs arbitrary: s) (auto simp: set_used_def)

lemma live_reserve_region:
  assumes "pa_inv s"
  shows "live_frames s \<subseteq> live_frames (reserve_region s start stop)"
proof -
  have "is_reserved_frame (reserve_region s start stop) f = is_reserved_frame s f" for f
    by (simp add: reserve_region_def is_reserved_frame_def Let_def)
  then show ?thesis
    using reserve_frames_spec [OF assms] by (auto simp: live_frames_def reserve_region_def Let_def)
qed

lemma owner_step_inv:
  assumes "owner_step c c'" "owner_inv c"
  shows "owner_inv c'"
  using assms
proof (induction rule: owner_step.induct)
  case (take s s' a own)
  then show ?case
    using bitmap.alloc_Some_law [of s s' a] bitmap.alloc_fresh(2) [of s own s' a]
    by (simp add: owner_inv_def)
next
  case (full s s' own)
  then show ?case using bitmap.alloc_None_law [of s s'] by (simp add: owner_inv_def)
next
  case (give f own s)
  then show ?case using bitmap.free_owned [of s own f] by (simp add: owner_inv_def)
next
  case (reserve s own start stop)
  then show ?case
    using live_reserve_region [of s start stop] reserve_region_inv by (auto simp: owner_inv_def)
qed

lemma owner_run_inv: "owner_step\<^sup>*\<^sup>* c c' \<Longrightarrow> owner_inv c \<Longrightarrow> owner_inv c'"
  by (induction rule: rtranclp_induct) (auto intro: owner_step_inv)

section \<open>A sample machine\<close>

text \<open>
  Eight frames of usable memory with the kernel image in frame 4: the bitmap goes to frame 5,
  the cursor starts there, and frames 1, 2, 3, 6 and 7 are free. \<open>tiny6\<close> and \<open>tiny7\<close> are the
  states after one and two allocations.
\<close>

definition tiny_map :: "memory_region list" where
  "tiny_map = [\<lparr>mr_base = 0, mr_size = 32768, mr_kind = Usable\<rparr>]"

definition tiny_at :: "u8 \<Rightarrow> nat \<Rightarrow> nat \<Rightarrow> phys_alloc" where
  "tiny_at b n cur = \<lparr>bitmap = [b, 0, 0, 0, 0, 0, 0, 0], total_frames = 8, alloc_end = 32768,
     kernel_start = 16384, kernel_end = 20480, usable_regions = [(0, 32768)],
     free_count = n, next_free_hint = cur, next_free = cur\<rparr>"

lemma tiny_at_sel [simp]:
  "bitmap (tiny_at b n c) = [b, 0, 0, 0, 0, 0, 0, 0]" "total_frames (tiny_at b n c) = 8"
  "kernel_start (tiny_at b n c) = 16384" "kernel_end (tiny_at b n c) = 20480"
  "free_count (tiny_at b n c) = n" "next_free_hint (tiny_at b n c) = c"
  "next_free (tiny_at b n c) = c"
  by (simp_all add: tiny_at_def)

abbreviation tiny :: phys_alloc where "tiny \<equiv> tiny_at 49 5 5"
abbreviation tiny6 :: phys_alloc where "tiny6 \<equiv> tiny_at 113 4 7"
abbreviation tiny7 :: phys_alloc where "tiny7 \<equiv> tiny_at 241 3 8"

lemmas tiny_eval = region_frames_def u64_arith upt_conv_Cons set_free_bit_def set_used_bit_def

lemma tiny_bitmap: "boot_bitmap (\<lambda>_. 0) 20480 tiny_map 16384 20480 8 = [49, 0, 0, 0, 0, 0, 0, 0]"
proof -
  have "map (\<lambda>i. if i = 0 then 255 else (0::u8)) [0..<8] = [255, 0, 0, 0, 0, 0, 0, 0]"
    by (simp add: upt_conv_Cons)
  moreover have "clear_usable [255, 0, 0, 0, 0, 0, 0, 0] tiny_map 8 = [0, 0, 0, 0, 0, 0, 0, 0]"
    by (simp add: tiny_map_def clear_region_def tiny_eval)
  moreover have "mark_region_used [0, 0, 0, 0, 0, 0, 0, 0]
      \<lparr>mr_base = 20480, mr_size = Suc 0, mr_kind = Reserved\<rparr> 8 = [32, 0, 0, 0, 0, 0, 0, 0]"
    by (simp add: mark_region_used_def tiny_eval)
  moreover have "mark_region_used [33, 0, 0, 0, 0, 0, 0, 0]
      \<lparr>mr_base = 16384, mr_size = 4096, mr_kind = Reserved\<rparr> 8 = [49, 0, 0, 0, 0, 0, 0, 0]"
    by (simp add: mark_region_used_def tiny_eval)
  moreover have "set_used_bit [32, 0, 0, 0, 0, 0, 0, 0] 0 = [33, 0, 0, 0, 0, 0, 0, 0]"
    by (simp add: set_used_bit_def)
  ultimately show ?thesis by (simp add: boot_bitmap_def)
qed

lemma free_set_code: "free_set bm n = set (filter (\<lambda>i. \<not> frame_used bm i) [0..<n])"
  by (auto simp: free_set_def)

lemma tiny_count: "count_free_bits [49, 0, 0, 0, 0, 0, 0, 0] 8 = 5"
proof -
  have "free_set [49, 0, 0, 0, 0, 0, 0, 0] 8 = {1, 2, 3, 6, 7}"
    by (auto simp: free_set_code frame_used_def upt_conv_Cons)
  then show ?thesis by (simp add: count_free_bits_eq)
qed

lemma tiny_boot: "phys_new (\<lambda>_. 0) (0, 32768) tiny_map 16384 20480 = Some tiny"
proof -
  have "find_max_addr tiny_map = 32768" by (simp add: tiny_map_def find_max_addr_def u64_arith)
  moreover have "usable_spans tiny_map = [(0, 32768)]" by (simp add: tiny_map_def usable_spans_def)
  ultimately show ?thesis
    by (simp add: phys_new_def u64_arith bitmap_base_def page_down_def MAX_USABLE_REGIONS_def
        with_seeded_free_count_def tiny_bitmap tiny_count tiny_at_def)
qed

lemma tiny_map_ok: "boot_map_ok (0, 32768) tiny_map 20480"
  by (simp add: boot_map_ok_def tiny_map_def find_max_addr_def saturating_add64_def u64_max_def)

lemma tiny_inv: "pa_inv tiny"
  using tiny_boot tiny_map_ok by (rule phys_new_inv)

text \<open>One step of the word loop on concrete candidates.\<close>

lemma alloc_word_0: "alloc_word s wi 0 = (s, None)"
  by (simp add: alloc_word.simps [of s wi 0])

lemma alloc_word_take:
  assumes "cand \<noteq> 0" "trailing_zeros cand = b" "\<not> is_reserved_frame s (wi * 64 + b)"
  shows "alloc_word s wi cand = (take_frame s (wi * 64 + b), Some ((wi * 64 + b) * 4096))"
  using assms by (subst alloc_word.simps)
    (auto simp: Let_def take_frame_def set_used_def is_reserved_frame_def split: if_splits)

lemma tiny_take: "take_frame tiny 6 = tiny6" "take_frame tiny6 7 = tiny7"
  by (simp_all add: take_frame_def tiny_at_def set_used_bit_def u64_arith)

lemma tiny_reserved: "is_reserved_frame (tiny_at b n c) i \<longleftrightarrow> i = 0 \<or> i = 4"
  by (auto simp: is_reserved_frame_def)

lemma tiny_alloc: "alloc tiny = (tiny6, Some 24576)"
proof -
  have "first_candidates 0 5 tiny 0 = 192" by (simp add: first_candidates_def read_u64_def)
  moreover have "trailing_zeros 192 = 6" by (simp add: trailing_zeros_def upt_conv_Cons)
  ultimately show ?thesis
    using alloc_word_take [of 192 6 tiny 0] by (simp add: alloc_def tiny_take tiny_reserved)
qed

lemma tiny6_alloc: "alloc tiny6 = (tiny7, Some 28672)"
proof -
  have "first_candidates 0 7 tiny6 0 = 128" by (simp add: first_candidates_def read_u64_def)
  moreover have "trailing_zeros 128 = 7" by (simp add: trailing_zeros_def upt_conv_Cons)
  ultimately show ?thesis
    using alloc_word_take [of 128 7 tiny6 0] by (simp add: alloc_def tiny_take tiny_reserved)
qed

lemma tiny7_alloc: "alloc tiny7 = (tiny7, None)"
proof -
  have "first_candidates 0 8 tiny7 0 = 0" by (simp add: first_candidates_def read_u64_def)
  then show ?thesis using alloc_word_0 [of tiny7 0] by (simp add: alloc_def)
qed

lemma tiny7_inv: "pa_inv tiny6" "pa_inv tiny7"
  using alloc_inv [of tiny] alloc_inv [of tiny6] by (auto simp: tiny_inv tiny_alloc tiny6_alloc)

lemma tiny7_free: "\<not> is_used tiny7 2" "is_used tiny7 7"
  by (simp_all add: is_used_eq frame_used_def)

section \<open>Properties of the frame allocator\<close>

text \<open>C2: whenever \<open>alloc\<close> succeeds, the address is that of a frame inside the managed range that
  was free and is neither frame 0 nor part of the kernel image; afterwards exactly that frame has changed from free to used, the
  free counter has dropped by one and the invariant still holds.\<close>

theorem alloc_takes_one_free_frame:
  assumes "pa_inv s" "alloc s = (s', Some a)"
  shows "\<exists>f<total_frames s. a = f * 4096 \<and> \<not> is_used s f \<and> \<not> is_reserved_frame s f
    \<and> (\<forall>j. is_used s' j \<longleftrightarrow> j = f \<or> is_used s j)
    \<and> free_count s = free_count s' + 1 \<and> pa_inv s'"
proof -
  obtain f where f: "a = f * 4096" "f < total_frames s" "\<not> is_used s f" "\<not> is_reserved_frame s f"
    "s' = take_frame s f" using assms by (rule alloc_Some_take)
  have "f \<in> free_set (bitmap s) (total_frames s)"
    using f by (simp add: free_set_def is_used_eq)
  then have "0 < free_count s" using assms(1) by (auto simp: pa_inv_def card_gt_0_iff)
  then have "free_count s = free_count s' + 1"
    using f(5) pa_inv_free_count(2) [OF assms(1)] wsub64_exact [of 1 "free_count s"]
    by (simp add: take_frame_def)
  with f assms(1) show ?thesis by (auto simp: used_take_frame take_frame_inv)
qed

theorem alloc_takes_one_free_frame_witness:
  "\<exists>f<8. 24576 = f * 4096 \<and> \<not> is_used tiny f \<and> free_count tiny = free_count tiny6 + 1"
  using alloc_takes_one_free_frame [OF tiny_inv tiny_alloc] by auto

text \<open>when \<open>alloc\<close> reports exhaustion the allocator is unchanged, and every frame still free
  lies in the bitmap word of the cursor, below the cursor: the wrap-around pass covers all the
  words before it.\<close>

theorem alloc_None_only_cursor_word:
  assumes "pa_inv s" "alloc s = (s', None)"
  shows "s' = s \<and> (\<forall>i. i < total_frames s \<and> \<not> is_used s i \<longrightarrow>
    next_free s div 64 * 64 \<le> i \<and> i < next_free s)"
  using assms(2) by (cases rule: alloc_cases [OF assms(1)]) auto

theorem alloc_None_only_cursor_word_witness:
  "\<not> is_used tiny7 2 \<and> next_free tiny7 div 64 * 64 \<le> 2 \<and> 2 < next_free tiny7"
  using alloc_None_only_cursor_word [OF tiny7_inv(2) tiny7_alloc] tiny7_free(1) by simp

text \<open>C13: the exhaustion report is not exact. Booting a machine with eight frames and allocating
  three times fails the third time, with three frames free: the wrap-around pass stops before
  the cursor's own word.\<close>

theorem alloc_fails_with_free_frames:
  "\<exists>s0 s1 s2. phys_new (\<lambda>_. 0) (0, 32768) tiny_map 16384 20480 = Some s0
    \<and> alloc s0 = (s1, Some 24576) \<and> alloc s1 = (s2, Some 28672)
    \<and> alloc s2 = (s2, None) \<and> free_count s2 = 3 \<and> \<not> is_used s2 2 \<and> \<not> is_reserved_frame s2 2"
  using tiny_boot tiny_alloc tiny6_alloc tiny7_alloc tiny7_free
  by (auto simp: tiny_reserved)

text \<open>C1: no double allocation. In every history of allocations, of frees of frames the clients
  hold and of reservations, starting at a freshly booted allocator with nothing handed out, an
  allocation never returns a frame some client still holds, nor frame 0 or a frame of the kernel image.\<close>

theorem no_double_allocation:
  assumes "phys_new mem region mm kstart kend = Some s0" "boot_map_ok region mm kend"
    and "owner_step\<^sup>*\<^sup>* (s0, {}) (s, own)" and "alloc s = (s', Some a)"
  shows "a div 4096 \<notin> own \<and> \<not> is_reserved_frame s (a div 4096) \<and> own \<subseteq> live_frames s"
proof -
  have "owner_inv (s0, {})" using phys_new_inv [OF assms(1,2)] by (simp add: owner_inv_def)
  with assms(3) have "owner_inv (s, own)" by (rule owner_run_inv)
  then have inv: "pa_inv s" "own \<subseteq> live_frames s" by (simp_all add: owner_inv_def)
  obtain f where "a = f * 4096" "\<not> is_reserved_frame s f"
    using inv(1) assms(4) by (rule alloc_Some_take) simp
  with bitmap.alloc_fresh(1) [OF inv assms(4)] inv(2) show ?thesis by simp
qed

theorem no_double_allocation_witness:
  "alloc tiny6 = (tiny7, Some 28672) \<and> (7::nat) \<notin> {6} \<and> {6} \<subseteq> live_frames tiny6"
proof -
  have "owner_step\<^sup>*\<^sup>* (tiny, {}) (tiny6, {6})"
    using owner_step.take [OF tiny_alloc, of "{}"] by (intro r_into_rtranclp) simp
  from no_double_allocation [OF tiny_boot tiny_map_ok this tiny6_alloc]
  show ?thesis by (simp add: tiny6_alloc)
qed

text \<open>C10: the constructor establishes the invariant, and the boot bitmap is exact: a frame is
  free if and only if some usable region touches it, it is neither frame 0 nor part of the
  kernel image, and the bitmap itself does not lie in it.\<close>

theorem boot_state_exact:
  assumes "phys_new mem region mm kstart kend = Some s" "boot_map_ok region mm kend"
  shows "pa_inv s \<and> (\<forall>i<total_frames s. \<not> is_used s i \<longleftrightarrow>
      (\<exists>r\<in>set mm. mr_kind r = Usable \<and> frame_overlaps i (mr_base r) (mr_size r))
      \<and> \<not> is_reserved_frame s i
      \<and> \<not> frame_overlaps i (bitmap_base region kend) ((total_frames s + 7) div 8))"
  using phys_new_inv [OF assms] phys_new_used [OF assms] by blast

theorem boot_state_exact_witness:
  "pa_inv tiny \<and> \<not> is_used tiny 3"
  using boot_state_exact [OF tiny_boot tiny_map_ok]
  by (auto simp: tiny_map_def frame_overlaps_def bitmap_base_def page_down_def u64_arith tiny_reserved)

text \<open>freeing the frame just allocated restores the bitmap bit for bit and the free counter,
  and moves the cursor back to the frame or further.\<close>

theorem free_undoes_alloc:
  assumes "pa_inv s" "alloc s = (s', Some a)"
  shows "bitmap (free s' a) = bitmap s \<and> free_count (free s' a) = free_count s
    \<and> next_free (free s' a) = a div 4096"
proof -
  obtain f where f: "a = f * 4096" "f < total_frames s" "\<not> is_used s f" "\<not> is_reserved_frame s f"
    "s' = take_frame s f" using assms by (rule alloc_Some_take)
  have "\<not> is_reserved_frame s' f" "total_frames s' = total_frames s"
    using f(4,5) by (auto simp: take_frame_def is_reserved_frame_def Let_def split: if_splits)
  with f have free: "free s' a = put_frame s' f" by (simp add: free_eq)
  have "0 < free_count s" using f(2,3) assms(1)
    by (auto simp: pa_inv_def card_gt_0_iff free_set_def is_used_eq)
  then have "wadd64 (wsub64 (free_count s) 1) 1 = free_count s"
    using pa_inv_free_count(2) [OF assms(1)] by (simp add: wadd64_exact wsub64_exact)
  moreover have "set_free_bit (set_used_bit (bitmap s) f) f = bitmap s"
    using f(2,3) assms(1) by (simp add: set_free_set_used is_used_eq pa_inv_frame)
  ultimately show ?thesis
    unfolding free by (simp add: put_frame_def take_frame_def f(1,5))
qed

theorem free_undoes_alloc_witness: "bitmap (free tiny6 24576) = [49, 0, 0, 0, 0, 0, 0, 0]"
  using free_undoes_alloc [OF tiny_inv tiny_alloc] by simp

text \<open>reserving the bytes from \<open>start\<close> to \<open>stop\<close> marks exactly the frames with a byte in
  that range, keeps every other frame as it was, and keeps the invariant, the free counter
  included.\<close>

theorem reserve_region_exact:
  assumes "pa_inv s" "stop \<le> 4503599627370496"
  shows "pa_inv (reserve_region s start stop) \<and> (\<forall>i<total_frames s.
    is_used (reserve_region s start stop) i \<longleftrightarrow>
      start < (i + 1) * 4096 \<and> i * 4096 < stop \<or> is_used s i)"
proof -
  have "stop \<noteq> u64_max" "wadd64 stop 4095 = stop + 4095"
    using assms(2) by (simp_all add: u64_max_def wadd64_exact)
  then have "reserve_region s start stop =
      reserve_frames s [start div 4096..<min ((stop + 4095) div 4096) (total_frames s)]"
    by (simp add: reserve_region_def)
  then show ?thesis
    using reserve_frames_spec [OF assms(1)]
    by (auto simp: div_4096_le_iff lt_ceil_4096_iff simp del: add_mult_distrib mult_Suc)
qed

theorem reserve_region_exact_witness:
  "is_used (reserve_region tiny 8191 8193) 1 \<and> is_used (reserve_region tiny 8191 8193) 2
   \<and> \<not> is_used (reserve_region tiny 8191 8193) 3"
  using reserve_region_exact [OF tiny_inv, of 8193 8191]
  by (simp add: is_used_eq [of tiny] frame_used_def)

text \<open>the free-frame counter maintained by every operation equals a full recount of the
  bitmap, so \<open>free_frames\<close> statistics never drift.\<close>

theorem free_counter_exact:
  assumes "pa_inv s"
  shows "free_frames_exact s = free_count s \<and> free_frames_exact s = card {f. f < total_frames s \<and> \<not> is_used s f}"
proof -
  have "{f. f < total_frames s \<and> \<not> is_used s f} = free_set (bitmap s) (total_frames s)"
    by (simp add: free_set_def is_used_eq)
  then show ?thesis using assms by (simp add: free_frames_exact_def pa_inv_def count_free_bits_eq)
qed

theorem free_counter_exact_witness: "free_frames_exact tiny7 = 3"
  using free_counter_exact [OF tiny7_inv(2)] by simp

end
