(* ===== verification/Contig_Props.thy ===== *)
theory Contig_Props
  imports Phys_Props
begin

text \<open>
  What contiguous allocation guarantees and what it does not: the range returned is aligned, in
  bounds and clear of the kernel image, and its frames end up marked used; but the run carried
  across bitmap words may cover frames that were in use, and the wrap-around search of the
  bounded variant may pass the ceiling.
\<close>

section \<open>The search loop\<close>

definition take_run :: "phys_alloc \<Rightarrow> nat \<Rightarrow> nat \<Rightarrow> phys_alloc" where
  "take_run s r cnt =
     (set_used_all s [r..<r + cnt])\<lparr>next_free := r + cnt, next_free_hint := r + cnt,
        free_count := wsub64 (free_count s) cnt\<rparr>"

lemma set_used_all_fields [simp]:
  "total_frames (set_used_all s fs) = total_frames s" "kernel_start (set_used_all s fs) = kernel_start s"
  "kernel_end (set_used_all s fs) = kernel_end s" "free_count (set_used_all s fs) = free_count s"
  by (induction fs arbitrary: s) (auto simp: set_used_def)

lemma bitmap_set_used_all: "bitmap (set_used_all s fs) = mark_used (bitmap s) fs"
  by (induction fs arbitrary: s) (auto simp: set_used_def)

lemma contig_loop_found:
  assumes "find_run s cnt al lo hi = Some r" "\<not> range_overlaps_kernel s r cnt"
  shows "contig_loop s cnt al hi_cap cur lo hi tried = (take_run s r cnt, Inr (r * 4096))"
  using assms by (subst contig_loop.simps)
    (auto simp: Let_def take_run_def range_overlaps_kernel_def split: if_splits)

lemma contig_loop_none:
  assumes "find_run s cnt al lo hi = None"
  shows "contig_loop s cnt al hi_cap cur lo hi tried =
    (if \<not> tried \<and> hi = hi_cap then contig_loop s cnt al hi_cap cur 0 cur True else (s, Inl NoFrames))"
  using assms by (subst contig_loop.simps) auto

lemma contig_loop_overlap:
  assumes "find_run s cnt al lo hi = Some r" "range_overlaps_kernel s r cnt"
  shows "contig_loop s cnt al hi_cap cur lo hi tried =
    (if r + 1 + cnt > hi
     then if \<not> tried \<and> hi = hi_cap then contig_loop s cnt al hi_cap cur 0 cur True
          else (s, Inl NoFrames)
     else contig_loop s cnt al hi_cap cur (r + 1) hi tried)"
  using assms by (subst contig_loop.simps) auto

text \<open>A search either fails and changes nothing, or takes an aligned run inside the bitmap that
  avoids the kernel image.\<close>

lemma contig_loop_cases:
  assumes "hi \<le> total_frames s" "cur \<le> total_frames s"
  shows "contig_loop s cnt al hi_cap cur lo hi tried = (s, Inl NoFrames)
    \<or> (\<exists>r. found_ok 0 (total_frames s) cnt al r \<and> \<not> range_overlaps_kernel s r cnt
         \<and> contig_loop s cnt al hi_cap cur lo hi tried = (take_run s r cnt, Inr (r * 4096)))"
  using assms
proof (induction s cnt al hi_cap cur lo hi tried rule: contig_loop.induct)
  case (1 s cnt al hi_cap cur lo hi tried)
  show ?case
  proof (cases "find_run s cnt al lo hi")
    case None
    then show ?thesis using "1.IH"(1) "1.prems" by (auto simp: contig_loop_none)
  next
    case (Some r)
    have ok: "found_ok 0 (total_frames s) cnt al r"
      using find_run_in_total [OF Some "1.prems"(1)] by (auto simp: found_ok_def)
    show ?thesis
    proof (cases "range_overlaps_kernel s r cnt")
      case True
      then show ?thesis
        using "1.IH"(2,3) [OF Some True] Some "1.prems" by (auto simp: contig_loop_overlap)
    next
      case False
      then show ?thesis using ok contig_loop_found [OF Some False] by blast
    qed
  qed
qed

lemma run_clear_of_kernel:
  assumes "\<not> range_overlaps_kernel s r cnt" "r \<le> j" "j < r + cnt"
  shows "\<not> is_reserved_frame s j"
proof -
  have "r \<noteq> 0" and k: "(r + cnt) * 4096 \<le> kernel_start s \<or> kernel_end s \<le> r * 4096"
    using assms(1) by (auto simp: range_overlaps_kernel_def Let_def algebra_simps split: if_splits)
  moreover have "(j + 1) * 4096 \<le> (r + cnt) * 4096" "r * 4096 \<le> j * 4096" using assms(2,3) by auto
  ultimately show ?thesis using assms(2) by (auto simp: is_reserved_frame_def Let_def)
qed

lemma take_run_used:
  assumes "pa_inv s" "r + cnt \<le> total_frames s"
  shows "is_used (take_run s r cnt) j \<longleftrightarrow> r \<le> j \<and> j < r + cnt \<or> is_used s j"
proof -
  have "i div 8 < length (bitmap s)" if "i \<in> set [r..<r + cnt]" for i
    using that assms(2) by (intro pa_inv_frame [OF assms(1)]) auto
  from frame_used_mark_used [of "[r..<r + cnt]", OF this] show ?thesis
    by (auto simp: take_run_def is_used_eq bitmap_set_used_all)
qed

lemma alloc_contig_core_cases:
  assumes inv: "pa_inv s" and cap: "hi_cap \<le> total_frames s"
    and res: "alloc_contig_core s cnt al hi_cap = (s', Inr a)"
  obtains r where "0 < cnt" "a = r * 4096" "r mod al = 0" "r + cnt \<le> total_frames s"
    "\<not> range_overlaps_kernel s r cnt" "s' = take_run s r cnt"
proof -
  let ?cur = "max (next_free_hint s) (next_free s)"
  have "?cur \<le> total_frames s" using inv by (simp add: pa_inv_def)
  moreover have "0 < cnt" "0 < al"
    and "contig_loop s cnt al hi_cap ?cur ?cur hi_cap False = (s', Inr a)"
    using res by (auto simp: alloc_contig_core_def Let_def split: if_splits)
  ultimately show thesis
    using contig_loop_cases [OF cap, of ?cur cnt al hi_cap ?cur False] that
    by (auto simp: found_ok_def)
qed

section \<open>A sample machine with two holes\<close>

text \<open>
  Seventy frames of which only 60 to 63, 68 and 69 are usable memory; the bitmap is in frame 68.
\<close>

definition holes_map :: "memory_region list" where
  "holes_map = [\<lparr>mr_base = 245760, mr_size = 16384, mr_kind = Usable\<rparr>,
                \<lparr>mr_base = 278528, mr_size = 8192, mr_kind = Usable\<rparr>]"

definition holes :: phys_alloc where
  "holes = \<lparr>bitmap = [255, 255, 255, 255, 255, 255, 255, 15, 223, 0, 0, 0, 0, 0, 0, 0],
     total_frames = 70, alloc_end = 286720, kernel_start = 4096, kernel_end = 8192,
     usable_regions = [(245760, 16384), (278528, 8192)],
     free_count = 5, next_free_hint = 68, next_free = 68\<rparr>"

lemma holes_sel [simp]:
  "bitmap holes = [255, 255, 255, 255, 255, 255, 255, 15, 223, 0, 0, 0, 0, 0, 0, 0]"
  "total_frames holes = 70" "kernel_start holes = 4096" "kernel_end holes = 8192"
  "free_count holes = 5" "next_free_hint holes = 68" "next_free holes = 68"
  by (simp_all add: holes_def)

abbreviation holes_bits :: "u8 list" where
  "holes_bits \<equiv> [255, 255, 255, 255, 255, 255, 255, 15, 223, 0, 0, 0, 0, 0, 0, 0]"

lemma holes_bitmap: "boot_bitmap (\<lambda>_. 0) 278528 holes_map 4096 8192 70 = holes_bits"
proof -
  have "map (\<lambda>i. if i < 9 then 255 else (0::u8)) [0..<16] =
      [255, 255, 255, 255, 255, 255, 255, 255, 255, 0, 0, 0, 0, 0, 0, 0]"
    by (simp add: upt_conv_Cons)
  moreover have "clear_usable [255, 255, 255, 255, 255, 255, 255, 255, 255, 0, 0, 0, 0, 0, 0, 0]
      holes_map 70 = [255, 255, 255, 255, 255, 255, 255, 15, 207, 0, 0, 0, 0, 0, 0, 0]"
    by (simp add: holes_map_def clear_region_def tiny_eval)
  moreover have "mark_region_used [255, 255, 255, 255, 255, 255, 255, 15, 207, 0, 0, 0, 0, 0, 0, 0]
      \<lparr>mr_base = 278528, mr_size = 9, mr_kind = Reserved\<rparr> 70 = holes_bits"
    by (simp add: mark_region_used_def tiny_eval)
  moreover have "set_used_bit holes_bits 0 = holes_bits"
    by (simp add: set_used_bit_def)
  moreover have "mark_region_used holes_bits
      \<lparr>mr_base = 4096, mr_size = 4096, mr_kind = Reserved\<rparr> 70 = holes_bits"
    by (simp add: mark_region_used_def tiny_eval)
  ultimately show ?thesis by (simp add: boot_bitmap_def)
qed

lemma holes_count: "count_free_bits holes_bits 70 = 5"
proof -
  have "filter (\<lambda>i. \<not> frame_used holes_bits i) [0..<70] = [60, 61, 62, 63, 69]"
    by (simp add: frame_used_def upt_conv_Cons)
  then have "free_set holes_bits 70 = set [60, 61, 62, 63, 69]"
    unfolding free_set_code by (rule arg_cong)
  then show ?thesis by (subst count_free_bits_eq) simp_all
qed

lemma holes_boot: "phys_new (\<lambda>_. 0) (278528, 8192) holes_map 4096 8192 = Some holes"
proof -
  have "find_max_addr holes_map = 286720" by (simp add: holes_map_def find_max_addr_def u64_arith)
  moreover have "usable_spans holes_map = [(245760, 16384), (278528, 8192)]"
    by (simp add: holes_map_def usable_spans_def)
  ultimately show ?thesis
    by (simp add: phys_new_def u64_arith bitmap_base_def page_down_def MAX_USABLE_REGIONS_def
        with_seeded_free_count_def holes_bitmap holes_count holes_def)
qed

lemma holes_map_ok: "boot_map_ok (278528, 8192) holes_map 8192"
  by (simp add: boot_map_ok_def holes_map_def find_max_addr_def saturating_add64_def u64_max_def)

lemma holes_inv: "pa_inv holes"
  using holes_boot holes_map_ok by (rule phys_new_inv)

text \<open>The bit loops on a word whose used bits are the lowest \<open>k\<close>.\<close>

lemma bit_test_power: "(w::u64) AND 2 ^ i = 0 \<longleftrightarrow> \<not> bit w i"
  using bit_test_eq [of w i] by simp

lemma free_end_all:
  "i \<le> nbits \<Longrightarrow> (\<And>j. i \<le> j \<Longrightarrow> j < nbits \<Longrightarrow> \<not> bit w j) \<Longrightarrow> free_end w nbits i = nbits"
proof (induction w nbits i rule: free_end.induct)
  case (1 w nbits i)
  then show ?case
    by (cases "i < nbits") (auto simp: free_end.simps [of w nbits i] free_end.simps [of w nbits nbits] bit_test_power)
qed

lemma scan_bits_skip:
  assumes "i \<le> k" "k \<le> nbits" "\<And>j. i \<le> j \<Longrightarrow> j < k \<Longrightarrow> bit w j"
  shows "scan_bits cnt al wi w nbits i rs rl = scan_bits cnt al wi w nbits k rs rl"
  using assms
proof (induction "k - i" arbitrary: i)
  case (Suc n)
  then have "i < nbits" "bit w i" by auto
  then have "scan_bits cnt al wi w nbits i rs rl = scan_bits cnt al wi w nbits (i + 1) rs rl"
    by (subst scan_bits.simps) (simp add: bit_test_power)
  also have "\<dots> = scan_bits cnt al wi w nbits k rs rl" using Suc by (intro Suc.hyps(1)) auto
  finally show ?case .
qed simp

lemma scan_bits_low_mask:
  assumes "k < nbits" "nbits \<le> 64"
  shows "scan_bits cnt al wi (2 ^ k - 1) nbits 0 rs rl =
    (case emit cnt al (wi * 64 + k) (nbits - k) of
       Some a \<Rightarrow> Found a | None \<Rightarrow> Carry (wi * 64 + k) (nbits - k))"
proof -
  let ?w = "2 ^ k - 1 :: u64"
  have b: "bit ?w j \<longleftrightarrow> j < k" if "j < 64" for j
    using that bit_two_power_minus_one [of k j, where ?'a = 64] assms by auto
  have "scan_bits cnt al wi ?w nbits 0 rs rl = scan_bits cnt al wi ?w nbits k rs rl"
    using assms b by (intro scan_bits_skip) auto
  also have "\<dots> = (case emit cnt al (wi * 64 + k) (nbits - k) of Some a \<Rightarrow> Found a
      | None \<Rightarrow> scan_bits cnt al wi ?w nbits nbits (wi * 64 + k) (nbits - k))"
    using assms b [of k] free_end_all [of k nbits ?w] b
    by (subst scan_bits.simps) (simp add: bit_test_power Let_def)
  finally show ?thesis by (simp add: scan_bits.simps split: option.splits)
qed

lemma holes_words:
  "window_word holes 68 70 1 2 1 = 2 ^ 5 - 1"
  "window_word holes 0 68 0 2 0 = 2 ^ 60 - 1"
  "window_word holes 0 68 0 2 1 = 63"
  by (simp_all add: window_word_def run_nbits_def read_u64_def)

lemma holes_find_run:
  "find_run holes 6 1 68 70 = None" "find_run holes 6 1 0 68 = Some 60" "find_run holes 3 1 0 68 = Some 60"
proof -
  have upt: "[Suc 0..<2] = [1]" "[0..<2] = [0, 1]" by (simp_all add: upt_conv_Cons)
  have scans: "scan_bits 6 1 1 (2 ^ 5 - 1) 6 0 0 0 = Carry 69 1"
    "scan_bits 6 1 0 (2 ^ 60 - 1) 64 0 0 0 = Carry 60 4"
    "scan_bits 3 1 0 (2 ^ 60 - 1) 64 0 0 0 = Found 60"
    by (subst scan_bits_low_mask; simp add: emit_def)+
  have lead: "trailing_zeros (NOT 63) = 6" by (simp add: trailing_zeros_def upt_conv_Cons)
  have nbits: "run_nbits holes 0 = 64" "run_nbits holes 1 = 6" by (simp_all add: run_nbits_def)
  have w: "(2 ^ 5 - 1 :: u64) \<noteq> 0" "(2 ^ 60 - 1 :: u64) \<noteq> 0" by simp_all
  have ends: "end_word_of 70 = 2" "end_word_of 68 = 2" by (simp_all add: end_word_of_def)
  note eval = find_run_def Let_def ends upt
  show "find_run holes 6 1 68 70 = None"
    using scans(1) holes_words(1) nbits(2) w(1) by (simp add: eval)
  show "find_run holes 6 1 0 68 = Some 60"
    using scans(2) holes_words(2,3) nbits w(2) lead by (simp add: eval emit_def)
  show "find_run holes 3 1 0 68 = Some 60"
    using scans(3) holes_words(2,3) nbits w(2) by (simp add: eval)
qed

lemma holes_contig: "try_alloc_contiguous holes 6 = (take_run holes 60 6, Inr 245760)"
  "try_alloc_contiguous_below holes 3 253952 = (take_run holes 60 3, Inr 245760)"
proof -
  have k: "\<not> range_overlaps_kernel holes 60 6" "\<not> range_overlaps_kernel holes 60 3"
    by (simp_all add: range_overlaps_kernel_def)
  have p2: "is_power_of_two (Suc 0)"
    unfolding is_power_of_two_def by (auto intro: image_eqI [of _ _ 0])
  have empty: "find_run holes 3 1 68 62 = None" by (simp add: find_run_def)
  show "try_alloc_contiguous holes 6 = (take_run holes 60 6, Inr 245760)"
    using contig_loop_none [OF holes_find_run(1), of 70 68 False] p2
      contig_loop_found [OF holes_find_run(2) k(1), of 70 68 True]
    by (simp add: try_alloc_contiguous_def alloc_contig_core_def)
  show "try_alloc_contiguous_below holes 3 253952 = (take_run holes 60 3, Inr 245760)"
    using contig_loop_none [OF empty, of 62 68 False] p2
      contig_loop_found [OF holes_find_run(3) k(2), of 62 68 True]
    by (simp add: try_alloc_contiguous_below_def alloc_contig_core_def)
qed

section \<open>Properties of contiguous allocation\<close>

text \<open>C11: a contiguous allocation that succeeds returns a page-aligned run that has the requested
  alignment, lies inside the managed range and contains neither frame 0 nor a frame of the
  kernel image; afterwards every frame of the run is marked used and the rest of the bitmap is
  as before.\<close>

theorem contiguous_run_bounds:
  assumes "pa_inv s" "hi_cap \<le> total_frames s"
    and "alloc_contig_core s cnt align_pages hi_cap = (s', Inr a)"
  shows "\<exists>r. a = r * 4096 \<and> r mod align_pages = 0 \<and> r + cnt \<le> total_frames s
    \<and> (\<forall>j. r \<le> j \<and> j < r + cnt \<longrightarrow> \<not> is_reserved_frame s j)
    \<and> (\<forall>j. is_used s' j \<longleftrightarrow> r \<le> j \<and> j < r + cnt \<or> is_used s j)"
proof -
  obtain r where r: "a = r * 4096" "r mod align_pages = 0" "r + cnt \<le> total_frames s"
    "\<not> range_overlaps_kernel s r cnt" "s' = take_run s r cnt"
    using assms by (rule alloc_contig_core_cases)
  have "\<not> is_reserved_frame s j" if "r \<le> j" "j < r + cnt" for j
    using r(4) that by (rule run_clear_of_kernel)
  with r show ?thesis using take_run_used [OF assms(1) r(3)] by auto
qed


theorem contiguous_run_bounds_witness:
  "\<exists>r::nat. 245760 = r * 4096 \<and> r + 6 \<le> 70 \<and> is_used (take_run holes 60 6) 65"
  using contiguous_run_bounds [OF holes_inv _ holes_contig(1) [unfolded try_alloc_contiguous_def]]
  by auto

text \<open>C12: contiguous allocation can hand out frames that are in use. On a freshly booted machine
  whose usable memory is frames 60 to 63, 68 and 69, a request for six frames returns frames 60
  to 65, of which 64 and 65 are marked used: in the word that ends a carried run the source
  adds the number of leading used bits to the run.\<close>

theorem contiguous_double_allocation:
  "\<exists>s. phys_new (\<lambda>_. 0) (278528, 8192) holes_map 4096 8192 = Some s
    \<and> (\<exists>s'. try_alloc_contiguous s 6 = (s', Inr (60 * 4096))) \<and> is_used s 64 \<and> is_used s 65"
  using holes_boot holes_contig(1) by (auto simp: is_used_eq frame_used_def)

text \<open>the bounded variant does not respect its ceiling. With the cursor above the ceiling the
  wrap-around pass searches up to the cursor, so a request for three frames below physical
  address 253952 returns a run that ends at 258048.\<close>

theorem contiguous_below_exceeds_ceiling:
  "\<exists>s s' a. phys_new (\<lambda>_. 0) (278528, 8192) holes_map 4096 8192 = Some s
    \<and> try_alloc_contiguous_below s 3 253952 = (s', Inr a) \<and> 253952 < a + 3 * 4096"
  using holes_boot holes_contig(2) by fastforce

end
