(* ===== verification/Frame_Count.thy ===== *)
theory Frame_Count
  imports Phys_Props
begin

text \<open>
  Reference counts of shared frames (\<open>kernel/src/mm/framecnt.rs\<close>). The table is built by the
  first \<open>share_frame\<close>; an entry \<open>0\<close> stands for one untracked owner, an entry \<open>n\<close> for \<open>n\<close> owners.
  Every operation but \<open>unshare\<close> is one atomic read-modify-write, so the operations are modelled as
  state transformers; \<open>unshare\<close> is two of them, \<open>unshare_update\<close> followed by the compare-exchange
  that \<open>privatize\<close> also performs, and the histories below let other operations run in between.
\<close>

section \<open>The table\<close>

type_synonym fc_table = "u32 list option"

text \<open>\<open>TABLE.call_once\<close>: one zero entry per frame.\<close>

definition table :: "nat \<Rightarrow> fc_table \<Rightarrow> u32 list" where
  "table nframes t = (case t of Some es \<Rightarrow> es | None \<Rightarrow> replicate nframes 0)"

text \<open>The index of a frame's entry, when the table has one.\<close>

definition slot :: "u32 list \<Rightarrow> nat \<Rightarrow> nat option" where
  "slot es phys = (let i = phys div 4096 in if i < length es then Some i else None)"

text \<open>\<open>TABLE.get().and_then(|t| slot(t, phys))\<close>: the table, and the index in it.\<close>

definition tracked :: "fc_table \<Rightarrow> nat \<Rightarrow> (u32 list \<times> nat) option" where
  "tracked t phys =
     (case t of None \<Rightarrow> None | Some es \<Rightarrow> (case slot es phys of None \<Rightarrow> None | Some i \<Rightarrow> Some (es, i)))"

definition share_frame :: "nat \<Rightarrow> fc_table \<Rightarrow> nat \<Rightarrow> fc_table" where
  "share_frame nframes t phys =
     (let es = table nframes t in
      case slot es phys of
        None \<Rightarrow> Some es
      | Some i \<Rightarrow> Some (es[i := (if es ! i = 0 then 2 else es ! i + 1)]))"

definition is_sole_owner :: "fc_table \<Rightarrow> nat \<Rightarrow> bool" where
  "is_sole_owner t phys =
     (case tracked t phys of None \<Rightarrow> True | Some (es, i) \<Rightarrow> es ! i = 0 \<or> es ! i = 1)"

definition decref_or_free :: "phys_alloc \<Rightarrow> fc_table \<Rightarrow> nat \<Rightarrow> phys_alloc \<times> fc_table" where
  "decref_or_free s t phys =
     (case tracked t phys of
        None \<Rightarrow> (free s phys, t)
      | Some (es, i) \<Rightarrow>
          if es ! i = 0 then (free s phys, t)
          else if es ! i = 1 then (free s phys, Some (es[i := es ! i - 1]))
          else (s, Some (es[i := es ! i - 1])))"

definition privatize :: "fc_table \<Rightarrow> nat \<Rightarrow> fc_table" where
  "privatize t phys =
     (case tracked t phys of
        None \<Rightarrow> t
      | Some (es, i) \<Rightarrow> if es ! i = 1 then Some (es[i := 0]) else t)"

text \<open>The first half of \<open>unshare\<close>, with the flag that the counter was 2, and \<open>unshare\<close> itself.\<close>

definition unshare_update :: "fc_table \<Rightarrow> nat \<Rightarrow> fc_table \<times> bool" where
  "unshare_update t phys =
     (case tracked t phys of
        None \<Rightarrow> (t, False)
      | Some (es, i) \<Rightarrow>
          if 2 \<le> es ! i then (Some (es[i := es ! i - 1]), es ! i = 2) else (t, False))"

definition unshare :: "fc_table \<Rightarrow> nat \<Rightarrow> fc_table" where
  "unshare t phys =
     (case unshare_update t phys of (t', True) \<Rightarrow> privatize t' phys | (t', False) \<Rightarrow> t')"

section \<open>The number of owners an entry stands for\<close>

definition entry :: "fc_table \<Rightarrow> nat \<Rightarrow> u32" where
  "entry t f = (case t of None \<Rightarrow> 0 | Some es \<Rightarrow> if f < length es then es ! f else 0)"

definition owners_of :: "u32 \<Rightarrow> nat" where
  "owners_of e = (if e = 0 then 1 else unat e)"

text \<open>The table covers the frames of the allocator once it exists.\<close>

definition fc_wf :: "nat \<Rightarrow> fc_table \<Rightarrow> bool" where
  "fc_wf n t \<longleftrightarrow> (case t of None \<Rightarrow> True | Some es \<Rightarrow> length es = n)"

lemma owners_of_simps [simp]: "0 < owners_of e" "owners_of 0 = 1"
  by (simp_all add: owners_of_def unat_gt_0)

lemma owners_of_1: "owners_of e = Suc 0 \<longleftrightarrow> e = 0 \<or> e = 1"
  by (auto simp: owners_of_def word_unat_eq_iff)

text \<open>What each operation does to the owners of a frame \<open>f\<close>, and that it leaves the others alone.\<close>

lemma entry_share_frame:
  assumes "fc_wf n t" "f < n" "owners_of (entry t f) < 4294967295"
  shows "owners_of (entry (share_frame n t (f * 4096)) f) = owners_of (entry t f) + 1"
    and "g \<noteq> f \<Longrightarrow> entry (share_frame n t (f * 4096)) g = entry t g"
    and "fc_wf n (share_frame n t (f * 4096))"
proof -
  let ?e = "entry t f"
  have tab: "length (table n t) = n" "table n t ! f = ?e" "g < n \<Longrightarrow> table n t ! g = entry t g" for g
    using assms by (auto simp: table_def fc_wf_def entry_def split: option.splits)
  have eq: "share_frame n t (f * 4096) = Some ((table n t)[f := (if ?e = 0 then 2 else ?e + 1)])"
    using assms(2) tab by (simp add: share_frame_def slot_def)
  show "fc_wf n (share_frame n t (f * 4096))" by (simp add: eq fc_wf_def tab)
  show "g \<noteq> f \<Longrightarrow> entry (share_frame n t (f * 4096)) g = entry t g"
    using tab(1) tab(3) [of g] assms(1)
    by (cases "g < n") (auto simp: eq entry_def fc_wf_def split: option.splits)
  have "unat (?e + 1) = unat ?e + 1" if "?e \<noteq> 0"
    using assms(3) that by (simp add: owners_of_def unat_word_ariths(1))
  moreover have "?e + 1 \<noteq> 0" if "?e \<noteq> 0"
    using calculation [OF that] by (metis add_is_0 one_neq_zero unat_0)
  ultimately show "owners_of (entry (share_frame n t (f * 4096)) f) = owners_of ?e + 1"
    using assms(2) tab(1) by (auto simp: eq entry_def [of "Some _"] owners_of_def)
qed

lemma tracked_eq:
  assumes "fc_wf n t" "f < n"
  shows "tracked t (f * 4096) = map_option (\<lambda>es. (es, f)) t"
  using assms by (auto simp: tracked_def slot_def fc_wf_def split: option.splits)

lemma entry_upd:
  "f < length es \<Longrightarrow> entry (Some (es[f := v])) g = (if g = f then v else entry (Some es) g)"
  by (auto simp: entry_def)

lemma owners_of_minus_1:
  assumes "e \<noteq> 0" "e \<noteq> 1"
  shows "owners_of (e - 1) = owners_of e - 1" "e - 1 \<noteq> 0"
proof -
  show ne: "e - 1 \<noteq> 0" using assms by simp
  show "owners_of (e - 1) = owners_of e - 1"
    using assms ne unat_minus_one [of e] by (simp add: owners_of_def)
qed

lemma decref_or_free_spec:
  assumes wf: "fc_wf n t" and f: "f < n" and res: "decref_or_free s t (f * 4096) = (s', t')"
  shows "owners_of (entry t f) = 1 \<Longrightarrow> s' = free s (f * 4096) \<and> entry t' f = 0"
    and "owners_of (entry t f) \<noteq> 1 \<Longrightarrow>
      s' = s \<and> owners_of (entry t' f) = owners_of (entry t f) - 1 \<and> entry t' f \<noteq> 0"
    and "g \<noteq> f \<Longrightarrow> entry t' g = entry t g" and "fc_wf n t'"
proof -
  consider "t = None" "s' = free s (f * 4096)" "t' = t"
    | es where "t = Some es" "length es = n" "es ! f = 0" "s' = free s (f * 4096)" "t' = t"
    | es where "t = Some es" "length es = n" "es ! f = 1" "s' = free s (f * 4096)" "t' = Some (es[f := 0])"
    | es where "t = Some es" "length es = n" "es ! f \<noteq> 0" "es ! f \<noteq> 1" "s' = s"
        "t' = Some (es[f := es ! f - 1])"
    using res wf tracked_eq [OF wf f]
    by (cases t) (auto simp: decref_or_free_def fc_wf_def split: if_splits)
  note cs = this
  show "owners_of (entry t f) = 1 \<Longrightarrow> s' = free s (f * 4096) \<and> entry t' f = 0"
    using f by (cases rule: cs) (auto simp: entry_upd owners_of_1 entry_def)
  show "owners_of (entry t f) \<noteq> 1 \<Longrightarrow>
      s' = s \<and> owners_of (entry t' f) = owners_of (entry t f) - 1 \<and> entry t' f \<noteq> 0"
    using f owners_of_minus_1 [of "entry t f"]
    by (cases rule: cs) (auto simp: entry_upd owners_of_1 entry_def)
  show "g \<noteq> f \<Longrightarrow> entry t' g = entry t g" using f by (cases rule: cs) (auto simp: entry_upd)
  show "fc_wf n t'" using wf by (cases rule: cs) (auto simp: fc_wf_def)
qed

lemma unshare_update_spec:
  assumes wf: "fc_wf n t" and f: "f < n" and ge: "2 \<le> owners_of (entry t f)"
  shows "owners_of (entry (fst (unshare_update t (f * 4096))) f) = owners_of (entry t f) - 1"
    and "g \<noteq> f \<Longrightarrow> entry (fst (unshare_update t (f * 4096))) g = entry t g"
    and "fc_wf n (fst (unshare_update t (f * 4096)))"
    and "snd (unshare_update t (f * 4096)) \<longleftrightarrow> owners_of (entry t f) = 2"
proof -
  have ne: "entry t f \<noteq> 0" "entry t f \<noteq> 1" using ge by (auto simp: owners_of_def)
  then obtain es where es: "t = Some es" "length es = n" "es ! f = entry t f"
    using wf f by (auto simp: entry_def fc_wf_def split: option.splits if_splits)
  have "2 \<le> entry t f" using ge ne by (simp add: owners_of_def word_le_nat_alt)
  then have eq: "unshare_update t (f * 4096) = (Some (es[f := entry t f - 1]), entry t f = 2)"
    using tracked_eq [OF wf f] es by (simp add: unshare_update_def)
  show "owners_of (entry (fst (unshare_update t (f * 4096))) f) = owners_of (entry t f) - 1"
    unfolding eq using f es(2) owners_of_minus_1 [OF ne] by (simp add: entry_upd)
  show "g \<noteq> f \<Longrightarrow> entry (fst (unshare_update t (f * 4096))) g = entry t g"
    unfolding eq using f es(1,2) by (simp add: entry_upd)
  show "fc_wf n (fst (unshare_update t (f * 4096)))" unfolding eq using es(2) by (simp add: fc_wf_def)
  show "snd (unshare_update t (f * 4096)) \<longleftrightarrow> owners_of (entry t f) = 2"
    unfolding eq using ne by (simp add: owners_of_def word_unat_eq_iff)
qed

lemma privatize_spec:
  assumes "fc_wf n t"
  shows "owners_of (entry (privatize t (f * 4096)) g) = owners_of (entry t g)"
    and "entry t g = 0 \<Longrightarrow> entry (privatize t (f * 4096)) g = 0"
    and "fc_wf n (privatize t (f * 4096))"
  using assms
  by (auto simp: privatize_def tracked_def slot_def fc_wf_def entry_def owners_of_def Let_def nth_list_update
      split: option.splits if_splits)

section \<open>Copy-on-write histories\<close>

text \<open>
  The clients of the table: address spaces that map frames. \<open>own f\<close> counts the mappings of frame
  \<open>f\<close>. A frame enters with one mapping, a fork adds one (below the counter's maximum), an unmap or
  a teardown drops one through \<open>decref_or_free\<close>, an aborted fork takes its share back, and the
  normalising compare-exchange may happen at any time on any frame.
\<close>

type_synonym cow = "phys_alloc \<times> fc_table \<times> (nat \<Rightarrow> nat)"

inductive cow_step :: "cow \<Rightarrow> cow \<Rightarrow> bool" where
  cow_alloc: "alloc s = (s', Some a) \<Longrightarrow> cow_step (s, t, own) (s', t, own(a div 4096 := 1))"
| cow_share: "0 < own f \<Longrightarrow> own f < 4294967295 \<Longrightarrow>
    cow_step (s, t, own) (s, share_frame (total_frames s) t (f * 4096), own(f := own f + 1))"
| cow_drop: "0 < own f \<Longrightarrow> decref_or_free s t (f * 4096) = (s', t') \<Longrightarrow>
    cow_step (s, t, own) (s', t', own(f := own f - 1))"
| cow_unshare: "2 \<le> own f \<Longrightarrow>
    cow_step (s, t, own) (s, fst (unshare_update t (f * 4096)), own(f := own f - 1))"
| cow_privatize: "cow_step (s, t, own) (s, privatize t (f * 4096), own)"

definition cow_inv :: "cow \<Rightarrow> bool" where
  "cow_inv c = (case c of (s, t, own) \<Rightarrow>
     pa_inv s \<and> fc_wf (total_frames s) t
     \<and> (\<forall>f. own f = 0 \<longrightarrow> entry t f = 0)
     \<and> (\<forall>f. 0 < own f \<longrightarrow> f \<in> live_frames s \<and> owners_of (entry t f) = own f))"

lemma total_frames_alloc: "pa_inv s \<Longrightarrow> alloc s = (s', r) \<Longrightarrow> total_frames s' = total_frames s"
  by (cases rule: alloc_cases [of s]) (auto simp: take_frame_def)

lemma total_frames_free [simp]: "total_frames (free s a) = total_frames s"
  by (simp add: free_eq put_frame_def)

lemma live_frames_bound: "f \<in> live_frames s \<Longrightarrow> f < total_frames s"
  by (simp add: live_frames_def)

lemma cow_alloc_inv:
  assumes inv: "cow_inv (s, t, own)" and al: "alloc s = (s', Some a)"
  shows "cow_inv (s', t, own(a div 4096 := 1))"
proof -
  have pa: "pa_inv s" using inv by (simp add: cow_inv_def)
  note law = bitmap.alloc_Some_law [OF pa al]
  have "own (a div 4096) = 0" using inv law by (auto simp: cow_inv_def split: if_splits)
  then have "entry t (a div 4096) = 0" using inv by (auto simp: cow_inv_def split: if_splits)
  then show ?thesis
    using inv law total_frames_alloc [OF pa al] by (auto simp: cow_inv_def)
qed

lemma cow_drop_inv:
  assumes inv: "cow_inv (s, t, own)" and pos: "0 < own f"
    and res: "decref_or_free s t (f * 4096) = (s', t')"
  shows "cow_inv (s', t', own(f := own f - 1))"
    and "own f = 1 \<Longrightarrow> live_frames s' = live_frames s - {f}" and "own f \<noteq> 1 \<Longrightarrow> s' = s"
proof -
  have own: "\<And>g. own g = 0 \<Longrightarrow> entry t g = 0"
      "\<And>g. own g \<noteq> 0 \<Longrightarrow> g \<in> live_frames s \<and> owners_of (entry t g) = own g"
    and pa: "pa_inv s" and wf: "fc_wf (total_frames s) t"
    using inv by (auto simp: cow_inv_def split: if_splits)
  have f: "f \<in> live_frames s" "owners_of (entry t f) = own f" using own(2) [of f] pos by auto
  note spec = decref_or_free_spec [OF wf live_frames_bound [OF f(1)] res]
  note free = bitmap.free_law [OF pa f(1)]
  show "own f = 1 \<Longrightarrow> live_frames s' = live_frames s - {f}" using spec(1) f free by simp
  show "own f \<noteq> 1 \<Longrightarrow> s' = s" using spec(2) f by simp
  show "cow_inv (s', t', own(f := own f - 1))"
  proof (cases "own f = 1")
    case True
    then have "s' = free s (f * 4096)" "entry t' f = 0" using spec(1) f by auto
    then show ?thesis using True spec(3,4) own free by (auto simp: cow_inv_def)
  next
    case False
    then have "s' = s" "owners_of (entry t' f) = own f - 1" using spec(2) f by auto
    then show ?thesis using False pos spec(3,4) own pa by (auto simp: cow_inv_def)
  qed
qed

lemma cow_step_inv: "cow_step c c' \<Longrightarrow> cow_inv c \<Longrightarrow> cow_inv c'"
proof (induction rule: cow_step.induct)
  case (cow_share own f s t)
  then have f: "f < total_frames s" "fc_wf (total_frames s) t" "owners_of (entry t f) = own f"
    by (auto simp: cow_inv_def live_frames_def split: if_splits)
  with cow_share show ?case
    using entry_share_frame [of "total_frames s" t f] by (auto simp: cow_inv_def split: if_splits)
next
  case (cow_unshare own f s t)
  then have f: "f < total_frames s" "fc_wf (total_frames s) t" "owners_of (entry t f) = own f"
    by (auto simp: cow_inv_def live_frames_def split: if_splits)
  with cow_unshare show ?case
    using unshare_update_spec [of "total_frames s" t f] by (auto simp: cow_inv_def split: if_splits)
next
  case (cow_privatize s t own f)
  then show ?case
    using privatize_spec [of "total_frames s" t] by (auto simp: cow_inv_def split: if_splits)
next
  case (cow_alloc s s' a t own)
  from cow_alloc_inv [OF this(2,1)] show ?case .
next
  case (cow_drop own f s t s' t')
  from cow_drop_inv(1) [OF this(3,1,2)] show ?case .
qed

lemma cow_run_inv: "cow_step\<^sup>*\<^sup>* c c' \<Longrightarrow> cow_inv c \<Longrightarrow> cow_inv c'"
  by (induction rule: rtranclp_induct) (auto intro: cow_step_inv)

section \<open>Properties of the reference counts\<close>

text \<open>C3: a shared frame lives as long as it has an owner. In every copy-on-write history from
  boot, each frame with a mapping is in use in the allocator and is never handed out again;
  \<open>is_sole_owner\<close> answers whether there is exactly one mapping; and dropping a mapping frees the
  frame if it was the last one and otherwise leaves the allocator alone.\<close>

theorem shared_frames_live_until_last_drop:
  assumes "phys_new mem region mm kstart kend = Some s0" "boot_map_ok region mm kend"
    and "cow_step\<^sup>*\<^sup>* (s0, None, \<lambda>_. 0) (s, t, own)" and "0 < own f"
  shows "f \<in> live_frames s \<and> (is_sole_owner t (f * 4096) \<longleftrightarrow> own f = 1)
    \<and> (\<forall>s' a. alloc s = (s', Some a) \<longrightarrow> a div 4096 \<noteq> f)
    \<and> live_frames (fst (decref_or_free s t (f * 4096))) =
        (if own f = 1 then live_frames s - {f} else live_frames s)"
proof -
  have "cow_inv (s0, None, \<lambda>_. 0)"
    using phys_new_inv [OF assms(1,2)] by (simp add: cow_inv_def fc_wf_def entry_def)
  with assms(3) have inv: "cow_inv (s, t, own)" by (rule cow_run_inv)
  then have pa: "pa_inv s" and wf: "fc_wf (total_frames s) t"
    and f: "f \<in> live_frames s" "owners_of (entry t f) = own f"
    using assms(4) by (auto simp: cow_inv_def)
  have "is_sole_owner t (f * 4096) \<longleftrightarrow> entry t f = 0 \<or> entry t f = 1"
    using tracked_eq [OF wf live_frames_bound [OF f(1)]] wf live_frames_bound [OF f(1)]
    by (auto simp: is_sole_owner_def entry_def fc_wf_def split: option.splits)
  then have "is_sole_owner t (f * 4096) \<longleftrightarrow> own f = 1" using f(2) owners_of_1 [of "entry t f"] by simp
  moreover have "\<forall>s' a. alloc s = (s', Some a) \<longrightarrow> a div 4096 \<noteq> f"
    using bitmap.alloc_Some_law [OF pa] f(1) by blast
  moreover obtain s' t' where d: "decref_or_free s t (f * 4096) = (s', t')" by force
  ultimately show ?thesis using cow_drop_inv(2,3) [OF inv assms(4) d] f(1) by auto
qed

theorem shared_frames_live_until_last_drop_witness:
  "6 \<in> live_frames tiny6 \<and> \<not> is_sole_owner (share_frame 8 None (6 * 4096)) (6 * 4096)"
proof -
  let ?own = "(\<lambda>_. 0)(6 := 1 :: nat)"
  have "cow_step (tiny, None, \<lambda>_. 0) (tiny6, None, ?own)"
    using cow_alloc [OF tiny_alloc, of None "\<lambda>_. 0"] by simp
  moreover have "cow_step (tiny6, None, ?own) (tiny6, share_frame 8 None (6 * 4096), ?own(6 := 2))"
    using cow_share [of ?own 6 tiny6 None] by (simp add: numeral_2_eq_2)
  ultimately have "cow_step\<^sup>*\<^sup>* (tiny, None, \<lambda>_. 0) (tiny6, share_frame 8 None (6 * 4096), ?own(6 := 2))"
    by (rule converse_rtranclp_into_rtranclp [OF _ r_into_rtranclp])
  from shared_frames_live_until_last_drop [OF tiny_boot tiny_map_ok this, of 6] show ?thesis by simp
qed

text \<open>an aborted fork leaves no trace. \<open>unshare\<close> after \<open>share_frame\<close> gives every frame back the
  number of owners it had, and a frame that was untracked is untracked again.\<close>

theorem unshare_undoes_share:
  assumes "fc_wf n t" "f < n" "owners_of (entry t f) < 4294967295"
  shows "owners_of (entry (unshare (share_frame n t (f * 4096)) (f * 4096)) g) = owners_of (entry t g)
    \<and> (entry t f = 0 \<longrightarrow> entry (unshare (share_frame n t (f * 4096)) (f * 4096)) f = 0)"
proof -
  define u where "u = share_frame n t (f * 4096)"
  note sh = entry_share_frame [OF assms, folded u_def]
  define v where "v = fst (unshare_update u (f * 4096))"
  have ge: "2 \<le> owners_of (entry u f)" using sh(1) owners_of_simps(1) [of "entry t f"] by linarith
  note un = unshare_update_spec [OF sh(3) assms(2) ge, folded v_def]
  have eq: "unshare u (f * 4096) = (if owners_of (entry u f) = 2 then privatize v (f * 4096) else v)"
    using un(4) by (auto simp: unshare_def v_def split: prod.splits bool.splits)
  have "owners_of (entry v g) = owners_of (entry t g)" for g using sh un by (cases "g = f") auto
  moreover have "entry (privatize v (f * 4096)) f = 0" if "entry t f = 0"
  proof -
    have "entry v f = 0 \<or> entry v f = 1" using that sh(1) un(1) owners_of_1 [of "entry v f"] by simp
    moreover have "tracked v (f * 4096) = map_option (\<lambda>es. (es, f)) v"
      using un(3) assms(2) by (rule tracked_eq)
    ultimately show ?thesis
      by (cases v) (auto simp: privatize_def entry_def split: if_splits)
  qed
  ultimately show ?thesis
    unfolding u_def [symmetric] eq using privatize_spec(1) [OF un(3)] sh(1) by auto
qed

theorem unshare_undoes_share_witness:
  "owners_of (entry (unshare (share_frame 8 (Some (replicate 8 0)) (3 * 4096)) (3 * 4096)) 3) = 1"
  using unshare_undoes_share [of 8 "Some (replicate 8 0)" 3 3] by (simp add: fc_wf_def entry_def)

end
