(* ===== verification/Rust_Str.thy ===== *)
theory Rust_Str
  imports Bedrock_Prelude
begin

text \<open>
  The operations of Rust's \<open>str\<close> the kernel uses, on strings as lists of bytes: \<open>split\<close> on a
  one-byte separator, \<open>join\<close>, \<open>contains\<close>, \<open>find\<close> and decimal digits.
\<close>

fun split_on :: "'a \<Rightarrow> 'a list \<Rightarrow> 'a list list" where
  "split_on c [] = [[]]"
| "split_on c (x # xs) =
     (if x = c then [] # split_on c xs
      else case split_on c xs of p # ps \<Rightarrow> (x # p) # ps | [] \<Rightarrow> [[x]])"

fun join_on :: "'a \<Rightarrow> 'a list list \<Rightarrow> 'a list" where
  "join_on c [] = []"
| "join_on c [x] = x"
| "join_on c (x # y # zs) = x @ c # join_on c (y # zs)"

text \<open>\<open>str::find(c)\<close>: the offset of the first occurrence.\<close>

definition find_byte :: "'a \<Rightarrow> 'a list \<Rightarrow> nat option" where
  "find_byte c s = (if c \<in> set s then Some (length (takeWhile (\<lambda>x. x \<noteq> c) s)) else None)"

definition strip_slash :: "string \<Rightarrow> string" where
  "strip_slash s = (case s of [] \<Rightarrow> [] | x # xs \<Rightarrow> if x = CHR ''/'' then xs else s)"

definition is_ascii_digit :: "char \<Rightarrow> bool" where
  "is_ascii_digit ch \<longleftrightarrow> 48 \<le> (of_char ch :: nat) \<and> (of_char ch :: nat) \<le> 57"

lemma split_on_ne [simp]: "split_on c xs \<noteq> []"
  by (cases xs) (auto split: list.splits)

lemma join_split [simp]: "join_on c (split_on c xs) = xs"
proof (induction xs)
  case (Cons x xs)
  obtain y ys where "split_on c xs = y # ys" by (cases "split_on c xs") auto
  with Cons show ?case by (cases ys) auto
qed simp

lemma split_on_single: "c \<notin> set xs \<Longrightarrow> split_on c xs = [xs]"
  by (induction xs) auto

lemma split_on_append: "c \<notin> set xs \<Longrightarrow> split_on c (xs @ c # ys) = xs # split_on c ys"
  by (induction xs) auto

lemma split_on_no_sep: "x \<in> set (split_on c xs) \<Longrightarrow> c \<notin> set x"
proof (induction xs arbitrary: x)
  case (Cons y ys)
  then show ?case
    by (cases "split_on c ys") (auto split: if_splits)
qed simp

lemma split_join:
  "xs \<noteq> [] \<Longrightarrow> \<forall>x\<in>set xs. c \<notin> set x \<Longrightarrow> split_on c (join_on c xs) = xs"
  by (induction c xs rule: join_on.induct) (auto simp: split_on_append split_on_single)

text \<open>Segments: the non-empty pieces, as \<open>split('/').filter(|s| !s.is_empty())\<close> yields them.\<close>

definition nonempty_pieces :: "'a \<Rightarrow> 'a list \<Rightarrow> 'a list list" where
  "nonempty_pieces c s = filter (\<lambda>p. p \<noteq> []) (split_on c s)"

lemma nonempty_pieces_props:
  "x \<in> set (nonempty_pieces c s) \<Longrightarrow> x \<noteq> [] \<and> c \<notin> set x"
  by (auto simp: nonempty_pieces_def dest: split_on_no_sep)

lemma nonempty_pieces_Nil [simp]: "nonempty_pieces c [] = []"
  by (simp add: nonempty_pieces_def)

lemma nonempty_pieces_join:
  assumes "\<forall>x\<in>set xs. x \<noteq> [] \<and> c \<notin> set x"
  shows "nonempty_pieces c (join_on c xs) = xs"
proof (cases "xs = []")
  case False
  with assms have "split_on c (join_on c xs) = xs" by (intro split_join) auto
  with assms show ?thesis by (simp add: nonempty_pieces_def)
qed simp

text \<open>A path without empty pieces is determined by its pieces.\<close>

lemma join_nonempty_pieces:
  assumes "s = [] \<or> [] \<notin> set (split_on c s)"
  shows "join_on c (nonempty_pieces c s) = s"
proof (cases "s = []")
  case False
  then have "nonempty_pieces c s = split_on c s"
    using assms by (auto simp: nonempty_pieces_def filter_id_conv)
  then show ?thesis by simp
qed simp

lemma find_byte_Some:
  assumes "find_byte c s = Some n"
  shows "n < length s" "take n s @ c # drop (n + 1) s = s" "c \<notin> set (take n s)"
proof -
  from assms have c: "c \<in> set s" and n: "n = length (takeWhile (\<lambda>x. x \<noteq> c) s)"
    by (auto simp: find_byte_def split: if_splits)
  have d: "dropWhile (\<lambda>x. x \<noteq> c) s \<noteq> []" using c by (auto simp: dropWhile_eq_Nil_conv)
  have "takeWhile (\<lambda>x. x \<noteq> c) s @ dropWhile (\<lambda>x. x \<noteq> c) s = s" by simp
  moreover have "hd (dropWhile (\<lambda>x. x \<noteq> c) s) = c" using hd_dropWhile [OF d] by simp
  ultimately have eq: "s = takeWhile (\<lambda>x. x \<noteq> c) s @ c # tl (dropWhile (\<lambda>x. x \<noteq> c) s)"
    using d by (metis list.collapse)
  then have t: "take n s = takeWhile (\<lambda>x. x \<noteq> c) s" "drop (n + 1) s = tl (dropWhile (\<lambda>x. x \<noteq> c) s)"
    and "n < length s"
    using n by (metis append_eq_conv_conj, metis Suc_eq_plus1 append_Cons append_Nil append_assoc
        append_eq_conv_conj length_append_singleton, metis add_Suc_right length_Cons length_append
        less_add_Suc1)
  then show "n < length s" "take n s @ c # drop (n + 1) s = s" using eq by auto
  show "c \<notin> set (take n s)" using t(1) by (auto dest: set_takeWhileD)
qed

lemma find_byte_None [simp]: "find_byte c s = None \<longleftrightarrow> c \<notin> set s"
  by (simp add: find_byte_def)

lemma find_byte_absent: "c \<notin> set s \<Longrightarrow> find_byte c s = None"
  by simp

lemma find_byte_append: "c \<notin> set xs \<Longrightarrow> find_byte c (xs @ c # ys) = Some (length xs)"
  by (simp add: find_byte_def takeWhile_append)

end
