(* ===== verification/Unispace_Path.thy ===== *)
theory Unispace_Path
  imports Rust_Str
begin

text \<open>
  Errors of the object namespace and its path parser (\<open>kernel/src/unispace/path.rs\<close>), with the
  well-formedness of parsed paths and the parse/print round trip.
\<close>

section \<open>Errors\<close>

datatype vfs_error =
    V_NotFound | V_AlreadyExists | V_NotADirectory | V_IsADirectory | V_IOError | V_NoSpace
  | V_CrossDeviceLink | V_InvalidInput | V_NameTooLong | V_NotEmpty | V_BadFileDescriptor
  | V_MountBusy | V_InvalidDevice | V_FileTooLarge | V_ReadOnly | V_NotSupported | V_Loop

datatype unispace_error =
    U_InvalidPath | U_NotFound | U_NotADirectory | U_IsADirectory | U_MethodNotFound
  | U_DecodeError | U_SchemaMismatch | U_Unsupported | U_OutOfMemory | U_BadAddress
  | U_InvalidArgument | U_AccessDenied | U_Vfs vfs_error

datatype object_kind = K_File | K_Dir | K_Device | K_Service

record listing_entry =
  le_name :: string
  le_kind :: object_kind

section \<open>The parser\<close>

record parsed_path =
  components :: "string list"
  path_method :: "string option"

text \<open>The final component with its optional \<open>:method\<close> selector.\<close>

definition split_last :: "string \<Rightarrow> (unispace_error, string \<times> string option) result" where
  "split_last last_seg =
     (case find_byte (CHR '':'') last_seg of
        Some pos \<Rightarrow>
          if pos = 0 then Inl U_InvalidPath
          else let name = take pos last_seg; sel = drop (pos + 1) last_seg
               in if name = [] \<or> sel = [] then Inl U_InvalidPath else Inr (name, Some sel)
      | None \<Rightarrow> Inr (last_seg, None))"

definition bad_segment :: "string \<Rightarrow> bool" where
  "bad_segment seg \<longleftrightarrow> seg = ''.'' \<or> seg = ''..'' \<or> CHR '':'' \<in> set seg"

definition parse :: "string \<Rightarrow> (unispace_error, parsed_path) result" where
  "parse path =
     (let trimmed = strip_slash path in
      if trimmed = [] then Inr \<lparr>components = [], path_method = None\<rparr>
      else let raw = nonempty_pieces (CHR ''/'') trimmed in
      if raw = [] then Inr \<lparr>components = [], path_method = None\<rparr>
      else case split_last (last raw) of
             Inl e \<Rightarrow> Inl e
           | Inr (name, method) \<Rightarrow>
               let raw = butlast raw @ [name] in
               if list_ex bad_segment raw then Inl U_InvalidPath
               else Inr \<lparr>components = raw, path_method = method\<rparr>)"

section \<open>Well-formed paths\<close>

definition good_component :: "string \<Rightarrow> bool" where
  "good_component c \<longleftrightarrow> c \<noteq> [] \<and> CHR ''/'' \<notin> set c \<and> \<not> bad_segment c"

definition good_path :: "parsed_path \<Rightarrow> bool" where
  "good_path p \<longleftrightarrow> (\<forall>c\<in>set (components p). good_component c)
     \<and> (\<forall>m. path_method p = Some m \<longrightarrow> components p \<noteq> [] \<and> m \<noteq> [] \<and> CHR ''/'' \<notin> set m)"

text \<open>The canonical spelling of a parsed path.\<close>

definition render :: "parsed_path \<Rightarrow> string" where
  "render p = CHR ''/'' # join_on (CHR ''/'') (components p)
     @ (case path_method p of None \<Rightarrow> [] | Some m \<Rightarrow> CHR '':'' # m)"

lemma split_last_Inr:
  assumes "split_last seg = Inr (name, m)"
  shows "seg = name @ (case m of None \<Rightarrow> [] | Some sel \<Rightarrow> CHR '':'' # sel)"
    "CHR '':'' \<notin> set name" "m \<noteq> Some []" "m \<noteq> None \<Longrightarrow> name \<noteq> []"
  using assms find_byte_Some [of "CHR '':''" seg]
  by (auto simp: split_last_def Let_def split: option.splits if_splits)

lemma split_last_render:
  assumes "CHR '':'' \<notin> set name" "name \<noteq> []" "m \<noteq> Some []"
  shows "split_last (name @ (case m of None \<Rightarrow> [] | Some sel \<Rightarrow> CHR '':'' # sel)) = Inr (name, m)"
  using assms
  by (cases m) (auto simp: split_last_def find_byte_append find_byte_absent)

lemma nonempty_pieces_strip: "nonempty_pieces (CHR ''/'') (strip_slash s) = nonempty_pieces (CHR ''/'') s"
  by (cases s) (auto simp: strip_slash_def nonempty_pieces_def)

lemma parse_pieces:
  "parse path =
     (let raw = nonempty_pieces (CHR ''/'') path in
      if raw = [] then Inr \<lparr>components = [], path_method = None\<rparr>
      else case split_last (last raw) of
             Inl e \<Rightarrow> Inl e
           | Inr (name, method) \<Rightarrow>
               if list_ex bad_segment (butlast raw @ [name]) then Inl U_InvalidPath
               else Inr \<lparr>components = butlast raw @ [name], path_method = method\<rparr>)"
proof -
  have "strip_slash path = [] \<Longrightarrow> nonempty_pieces (CHR ''/'') path = []"
    by (metis nonempty_pieces_Nil nonempty_pieces_strip)
  then show ?thesis
    by (auto simp: parse_def Let_def nonempty_pieces_strip split: sum.splits)
qed

lemma parse_good:
  assumes "parse path = Inr p"
  shows "good_path p"
proof -
  let ?raw = "nonempty_pieces (CHR ''/'') path"
  have "?raw = [] \<and> p = \<lparr>components = [], path_method = None\<rparr> \<or>
    (\<exists>name m. ?raw \<noteq> [] \<and> split_last (last ?raw) = Inr (name, m) \<and>
      \<not> list_ex bad_segment (butlast ?raw @ [name]) \<and>
      p = \<lparr>components = butlast ?raw @ [name], path_method = m\<rparr>)"
    using assms by (auto simp: parse_pieces Let_def split: if_splits sum.splits)
  then show ?thesis
  proof (elim disjE exE conjE)
    fix name m
    assume raw: "?raw \<noteq> []" and sl: "split_last (last ?raw) = Inr (name, m)"
      and ok: "\<not> list_ex bad_segment (butlast ?raw @ [name])"
      and p: "p = \<lparr>components = butlast ?raw @ [name], path_method = m\<rparr>"
    have "\<forall>x\<in>set ?raw. x \<noteq> [] \<and> CHR ''/'' \<notin> set x" by (auto dest: nonempty_pieces_props)
    then have bl: "\<forall>x\<in>set (butlast ?raw). x \<noteq> [] \<and> CHR ''/'' \<notin> set x"
      and "last ?raw \<noteq> []" "CHR ''/'' \<notin> set (last ?raw)"
      using raw by (auto dest: in_set_butlastD)
    moreover note split_last_Inr [OF sl]
    ultimately have "name \<noteq> []" "CHR ''/'' \<notin> set name" "m \<noteq> Some []"
      "\<And>s. m = Some s \<Longrightarrow> CHR ''/'' \<notin> set s"
      by (auto split: option.splits)
    with bl ok show ?thesis
      by (auto simp: p good_path_def good_component_def list_ex_iff)
  qed (simp add: good_path_def)
qed

lemma pieces_append:
  assumes "CHR ''/'' \<notin> set t" "\<forall>c\<in>set cs. c \<noteq> [] \<and> CHR ''/'' \<notin> set c" "cs \<noteq> []"
  shows "nonempty_pieces (CHR ''/'') (join_on (CHR ''/'') cs @ t) = butlast cs @ [last cs @ t]"
proof -
  have "join_on (CHR ''/'') cs @ t = join_on (CHR ''/'') (butlast cs @ [last cs @ t])"
    using assms(3) by (induction "CHR ''/''" cs rule: join_on.induct) (auto split: list.splits)
  also have "nonempty_pieces (CHR ''/'') \<dots> = butlast cs @ [last cs @ t]"
    using assms by (intro nonempty_pieces_join) (auto dest: in_set_butlastD)
  finally show ?thesis .
qed

lemma parse_render:
  assumes "good_path p"
  shows "parse (render p) = Inr p"
proof (cases "components p = []")
  case True
  with assms have "path_method p = None" by (auto simp: good_path_def)
  with True show ?thesis by (cases p) (simp add: render_def parse_def strip_slash_def)
next
  case False
  let ?cs = "components p" and ?t = "case path_method p of None \<Rightarrow> [] | Some m \<Rightarrow> CHR '':'' # m"
  have cs: "\<forall>c\<in>set ?cs. good_component c" and t: "CHR ''/'' \<notin> set ?t" "path_method p \<noteq> Some []"
    using assms by (auto simp: good_path_def split: option.splits)
  have "nonempty_pieces (CHR ''/'') (render p) = butlast ?cs @ [last ?cs @ ?t]"
    using pieces_append [OF t(1) _ False] cs
    by (simp add: render_def nonempty_pieces_def good_component_def)
  moreover have last: "good_component (last ?cs)" using cs False by simp
  then have "split_last (last ?cs @ ?t) = Inr (last ?cs, path_method p)"
    using t(2) by (intro split_last_render) (auto simp: good_component_def bad_segment_def)
  ultimately show ?thesis
    using cs False by (cases p) (auto simp: parse_pieces Let_def list_ex_iff good_component_def dest: in_set_butlastD)
qed

section \<open>Properties\<close>

text \<open>C18: the path parser is the inverse of printing. Every parsed path is well formed (components
  non-empty, without separators and relative names, a method only on a final component), printing
  and parsing a well-formed path gives it back, and parsing is insensitive to a leading slash and
  to repeated slashes.\<close>

theorem path_parse_roundtrip:
  "(parse s = Inr p \<longrightarrow> good_path p \<and> parse (render p) = Inr p)
   \<and> (good_path q \<longrightarrow> parse (render q) = Inr q)
   \<and> parse (CHR ''/'' # s) = parse s"
  using parse_good parse_render by (auto simp: parse_pieces nonempty_pieces_def)

theorem path_parse_roundtrip_witness:
  "parse ''/proc//self:exit'' = Inr \<lparr>components = [''proc'', ''self''], path_method = Some ''exit''\<rparr>
   \<and> render \<lparr>components = [''proc'', ''self''], path_method = Some ''exit''\<rparr> = ''/proc/self:exit''
   \<and> parse ''/proc/self:exit'' = Inr \<lparr>components = [''proc'', ''self''], path_method = Some ''exit''\<rparr>"
proof -
  let ?p = "\<lparr>components = [''proc'', ''self''], path_method = Some ''exit''\<rparr>"
  have "parse ''/proc//self:exit'' = Inr ?p"
    by (simp add: parse_pieces nonempty_pieces_def split_last_def find_byte_def bad_segment_def)
  with path_parse_roundtrip [of "''/proc//self:exit''" ?p ?p] show ?thesis
    by (simp add: render_def)
qed

end
