(* ===== verification/Caps.thy ===== *)
theory Caps
  imports Unispace_Path
begin

text \<open>
  Path capabilities (\<open>kernel/src/caps/mod.rs\<close>) and the task lineage they consult
  (\<open>kernel/src/task/mod.rs\<close>). Both variants of the access check are modelled: the one on joined
  path strings (\<open>check_path\<close>) and the allocation-free one on components (\<open>check_path_on\<close>) that the
  system-call path uses. The current task and the lineage map are read from a \<open>sched_view\<close>.
\<close>

section \<open>Permissions and capabilities\<close>

datatype perm = Perm_R | Perm_RW

definition perm_from_u8 :: "u8 \<Rightarrow> perm option" where
  "perm_from_u8 v = (if v = 1 then Some Perm_R else if v = 3 then Some Perm_RW else None)"

definition perm_as_u8 :: "perm \<Rightarrow> u8" where
  "perm_as_u8 p = (case p of Perm_R \<Rightarrow> 1 | Perm_RW \<Rightarrow> 3)"

fun covers :: "perm \<Rightarrow> perm \<Rightarrow> bool" where
  "covers Perm_RW _ = True"
| "covers Perm_R Perm_R = True"
| "covers _ _ = False"

record cap =
  cap_path :: string
  cap_method :: "string option"
  cap_perm :: perm

definition MAX_CAP_PATH_LEN :: nat where "MAX_CAP_PATH_LEN = 256"
definition MAX_CAP_METHOD_LEN :: nat where "MAX_CAP_METHOD_LEN = 64"
definition MAX_CAPS_PER_TASK :: nat where "MAX_CAPS_PER_TASK = 8192"

section \<open>Lookup on path strings\<close>

fun has_perm :: "cap list \<Rightarrow> string \<Rightarrow> string option \<Rightarrow> perm \<Rightarrow> bool" where
  "has_perm [] path method want = False"
| "has_perm (c # cs) path method want =
     (if cap_path c = path \<and> cap_method c = method \<and> covers (cap_perm c) want then True
      else has_perm cs path method want)"

definition join_path :: "string list \<Rightarrow> string" where
  "join_path comps = join_on (CHR ''/'') comps"

definition has_ancestor_r :: "cap list \<Rightarrow> string list \<Rightarrow> bool" where
  "has_ancestor_r caps comps =
     (if comps = [] then True
      else list_all (\<lambda>i. has_perm caps (join_path (take (i + 1) comps)) None Perm_R)
             [0..<length comps - 1])"

section \<open>The lineage and process aliases\<close>

record sched_view =
  sv_current :: "nat option"
  sv_lineage :: "(nat \<times> nat) list"

text \<open>The loop of \<open>is_ancestor\<close>; \<open>seen\<close> is its hash set.\<close>

function anc_walk :: "(nat \<times> nat) list \<Rightarrow> nat \<Rightarrow> nat list \<Rightarrow> nat \<Rightarrow> bool" where
  "anc_walk lin ancestor seen cur =
     (if cur \<in> set seen then False
      else case map_of lin cur of
             Some ppid \<Rightarrow>
               if ppid = ancestor then True
               else if ppid = 0 then False
               else anc_walk lin ancestor (cur # seen) ppid
           | None \<Rightarrow> False)"
  by pat_completeness auto
termination
proof (relation "measure (\<lambda>(lin, a, seen, cur). card (fst ` set lin - set seen))", goal_cases)
  case (2 lin a seen cur ppid)
  then have "cur \<in> fst ` set lin" by (metis domI dom_map_of_conv_image_fst)
  with 2 have "fst ` set lin - set (cur # seen) \<subset> fst ` set lin - set seen" by auto
  then show ?case by (simp add: psubset_card_mono)
qed simp

declare anc_walk.simps [simp del]

definition is_ancestor :: "(nat \<times> nat) list \<Rightarrow> nat \<Rightarrow> nat \<Rightarrow> bool" where
  "is_ancestor lin ancestor descendant =
     (if ancestor = descendant then True else anc_walk lin ancestor [] descendant)"

definition is_numeric_pid :: "string \<Rightarrow> bool" where
  "is_numeric_pid s = (if s = [] \<or> 20 < length s then False else list_all is_ascii_digit s)"

fun parse_digits :: "nat \<Rightarrow> string \<Rightarrow> nat option" where
  "parse_digits v [] = Some v"
| "parse_digits v (b # bs) =
     (case checked_mul64 v 10 of
        None \<Rightarrow> None
      | Some w \<Rightarrow> (case checked_add64 w (of_char b - 48) of None \<Rightarrow> None | Some x \<Rightarrow> parse_digits x bs))"

definition parse_pid :: "string \<Rightarrow> nat option" where
  "parse_pid s = (if \<not> is_numeric_pid s then None else parse_digits 0 s)"

definition canonicalize_proc_alias ::
  "sched_view \<Rightarrow> string list \<Rightarrow> (unispace_error, string list option) result" where
  "canonicalize_proc_alias sv comps =
     (if 2 \<le> length comps \<and> comps ! 0 = ''proc'' \<and> comps ! 1 \<noteq> ''self'' then
        (case parse_pid (comps ! 1) of
           Some target \<Rightarrow>
             (case sv_current sv of
                Some caller \<Rightarrow>
                  if is_ancestor (sv_lineage sv) caller target
                  then Inr (Some (comps ! 0 # ''self'' # drop 2 comps))
                  else Inl U_NotFound
              | None \<Rightarrow> Inr None)
         | None \<Rightarrow> Inr None)
      else Inr None)"

section \<open>Lookup on components\<close>

definition segs :: "string \<Rightarrow> string list" where
  "segs p = nonempty_pieces (CHR ''/'') p"

definition cap_matches_components :: "cap \<Rightarrow> string list \<Rightarrow> string option \<Rightarrow> bool" where
  "cap_matches_components c comps method =
     (if cap_method c \<noteq> method then False else segs (cap_path c) = comps)"

text \<open>The iterator \<open>it\<close> of the source is the list of segments left.\<close>

fun match_prefix :: "string list \<Rightarrow> string list \<Rightarrow> bool" where
  "match_prefix it [] = (it = [])"
| "match_prefix [] (d # comps) = False"
| "match_prefix (s # it) (d # comps) = (if s = d then match_prefix it comps else False)"

definition cap_matches_prefix :: "cap \<Rightarrow> string list \<Rightarrow> nat \<Rightarrow> bool" where
  "cap_matches_prefix c comps n = match_prefix (segs (cap_path c)) (take n comps)"

definition has_perm_on :: "cap list \<Rightarrow> string list \<Rightarrow> string option \<Rightarrow> perm \<Rightarrow> bool" where
  "has_perm_on caps comps method want =
     list_ex (\<lambda>c. cap_matches_components c comps method \<and> covers (cap_perm c) want) caps"

definition has_ancestor_r_on :: "cap list \<Rightarrow> string list \<Rightarrow> bool" where
  "has_ancestor_r_on caps comps =
     list_all (\<lambda>n. list_ex (\<lambda>c. cap_matches_prefix c comps n \<and> covers (cap_perm c) Perm_R) caps)
       [1..<length comps]"

section \<open>The access checks\<close>

definition check_path_on ::
  "sched_view \<Rightarrow> cap list option \<Rightarrow> string list \<Rightarrow> string option \<Rightarrow> perm \<Rightarrow> (unispace_error, unit) result" where
  "check_path_on sv ocaps comps method leaf_want =
     (case ocaps of
        None \<Rightarrow> Inr ()
      | Some caps \<Rightarrow>
          if caps = [] \<and> comps \<noteq> [] then Inl U_NotFound
          else case canonicalize_proc_alias sv comps of
            Inl e \<Rightarrow> Inl e
          | Inr canon_opt \<Rightarrow>
              let comp_ref = (case canon_opt of Some v \<Rightarrow> v | None \<Rightarrow> comps) in
              if \<not> has_ancestor_r_on caps comp_ref then Inl U_NotFound
              else if method \<noteq> None then
                (if \<not> has_perm_on caps comp_ref None Perm_R then Inl U_NotFound
                 else if \<not> has_perm_on caps comp_ref method leaf_want then
                   (if has_perm_on caps comp_ref method Perm_R \<and> leaf_want = Perm_RW
                    then Inl U_AccessDenied else Inl U_MethodNotFound)
                 else Inr ())
              else if \<not> has_perm_on caps comp_ref None leaf_want then
                (if has_perm_on caps comp_ref None Perm_R \<and> leaf_want = Perm_RW
                 then Inl U_AccessDenied else Inl U_NotFound)
              else Inr ())"

definition check_path ::
  "sched_view \<Rightarrow> cap list option \<Rightarrow> string list \<Rightarrow> string option \<Rightarrow> perm \<Rightarrow> (unispace_error, unit) result" where
  "check_path sv ocaps comps method leaf_want =
     (case ocaps of
        None \<Rightarrow> Inr ()
      | Some caps \<Rightarrow>
          if caps = [] \<and> comps \<noteq> [] then Inl U_NotFound
          else case canonicalize_proc_alias sv comps of
            Inl e \<Rightarrow> Inl e
          | Inr canon_opt \<Rightarrow>
              let comp_ref = (case canon_opt of Some v \<Rightarrow> v | None \<Rightarrow> comps) in
              if \<not> has_ancestor_r caps comp_ref then Inl U_NotFound
              else let leaf_path = join_path comp_ref in
              if method \<noteq> None then
                (if \<not> has_perm caps leaf_path None Perm_R then Inl U_NotFound
                 else if \<not> has_perm caps leaf_path method leaf_want then
                   (if has_perm caps leaf_path method Perm_R \<and> leaf_want = Perm_RW
                    then Inl U_AccessDenied else Inl U_MethodNotFound)
                 else Inr ())
              else
                (if \<not> has_perm caps leaf_path None leaf_want then
                   (if has_perm caps leaf_path None Perm_R \<and> leaf_want = Perm_RW
                    then Inl U_AccessDenied else Inl U_NotFound)
                 else Inr ()))"

section \<open>Directory listings and method tables\<close>

text \<open>The visibility test of one listing entry in \<open>filter_listing_on\<close>.\<close>

definition proc_child_allowed :: "sched_view \<Rightarrow> string \<Rightarrow> bool" where
  "proc_child_allowed sv name =
     (case parse_pid name of
        Some pid \<Rightarrow> (case sv_current sv of Some caller \<Rightarrow> is_ancestor (sv_lineage sv) caller pid | None \<Rightarrow> False)
      | None \<Rightarrow> False)"

definition listing_visible_on :: "sched_view \<Rightarrow> cap list \<Rightarrow> string list \<Rightarrow> listing_entry \<Rightarrow> bool" where
  "listing_visible_on sv caps dir_components e =
     (let is_proc_numeric_child = (dir_components = [''proc''] \<and> is_numeric_pid (le_name e));
          ancestor_allows = (if is_proc_numeric_child then proc_child_allowed sv (le_name e) else False);
          want = (if is_proc_numeric_child \<and> ancestor_allows then ''self'' else le_name e)
      in list_ex (\<lambda>c. cap_method c = None \<and> covers (cap_perm c) Perm_R
           \<and> match_prefix (segs (cap_path c)) (dir_components @ [want])) caps)"

definition filter_listing_on ::
  "sched_view \<Rightarrow> cap list \<Rightarrow> string list \<Rightarrow> listing_entry list \<Rightarrow> listing_entry list" where
  "filter_listing_on sv caps dir_components names = filter (listing_visible_on sv caps dir_components) names"

definition listing_visible :: "sched_view \<Rightarrow> cap list \<Rightarrow> string \<Rightarrow> listing_entry \<Rightarrow> bool" where
  "listing_visible sv caps dir_path e =
     (if dir_path = ''proc'' \<and> is_numeric_pid (le_name e) \<and> proc_child_allowed sv (le_name e)
      then has_perm caps ''proc/self'' None Perm_R
      else let child_path = (if dir_path = [] then le_name e else dir_path @ ''/'' @ le_name e)
           in has_perm caps child_path None Perm_R)"

definition filter_listing ::
  "sched_view \<Rightarrow> cap list \<Rightarrow> string \<Rightarrow> listing_entry list \<Rightarrow> listing_entry list" where
  "filter_listing sv caps dir_path names = filter (listing_visible sv caps dir_path) names"

text \<open>\<open>filter_methods_by_perm\<close> and \<open>filter_owned_methods_by_perm\<close>; \<open>name_of\<close> reads the name of a
  method descriptor.\<close>

definition filter_methods_by_perm :: "('m \<Rightarrow> string) \<Rightarrow> cap list \<Rightarrow> string \<Rightarrow> 'm list \<Rightarrow> 'm list" where
  "filter_methods_by_perm name_of caps leaf_path methods =
     filter (\<lambda>m. has_perm caps leaf_path (Some (name_of m)) Perm_R) methods"

section \<open>Validation and inheritance\<close>

definition is_control :: "char \<Rightarrow> bool" where
  "is_control b \<longleftrightarrow> (of_char b :: nat) < 32 \<or> (of_char b :: nat) = 127"

fun contains_dslash :: "string \<Rightarrow> bool" where
  "contains_dslash (x # y # zs) \<longleftrightarrow> x = CHR ''/'' \<and> y = CHR ''/'' \<or> contains_dslash (y # zs)"
| "contains_dslash _ \<longleftrightarrow> False"

definition bad_method :: "string \<Rightarrow> bool" where
  "bad_method m \<longleftrightarrow> m = [] \<or> MAX_CAP_METHOD_LEN < length m \<or> CHR ''/'' \<in> set m \<or> CHR '':'' \<in> set m
     \<or> list_ex is_control m"

definition bad_path_seg :: "string \<Rightarrow> bool" where
  "bad_path_seg seg \<longleftrightarrow> seg = [] \<or> seg = ''.'' \<or> seg = ''..'' \<or> CHR '':'' \<in> set seg \<or> list_ex is_control seg"

definition validate_cap :: "cap \<Rightarrow> (unispace_error, unit) result" where
  "validate_cap c =
     (let path = cap_path c in
      if MAX_CAP_PATH_LEN < length path then Inl U_InvalidArgument
      else if (case cap_method c of Some m \<Rightarrow> bad_method m | None \<Rightarrow> False) then Inl U_InvalidArgument
      else if path \<noteq> [] \<and> (hd path = CHR ''/'' \<or> last path = CHR ''/'' \<or> contains_dslash path)
        then Inl U_InvalidArgument
      else if path \<noteq> [] \<and> list_ex bad_path_seg (split_on (CHR ''/'') path) then Inl U_InvalidArgument
      else Inr ())"

fun is_subset :: "cap list \<Rightarrow> cap list \<Rightarrow> bool" where
  "is_subset parent [] = True"
| "is_subset parent (c # child) =
     (if \<not> has_perm parent (cap_path c) (cap_method c) (cap_perm c) then False
      else is_subset parent child)"

end
