(* ===== verification/Caps_Grant.thy ===== *)
theory Caps_Grant
  imports Caps
begin

text \<open>
  How capability sets come to be (\<open>kernel/src/caps/mod.rs\<close>, \<open>kernel/src/task/mod.rs\<close>,
  \<open>kernel/src/unispace/provider/proc.rs\<close>): the enumerated set of INIT, inheritance at spawn,
  grants to the current task and their propagation to its ancestors, and the supervisor window
  that mirrors a set. Whether a window can be allocated for a task is the answer \<open>win\<close> of the
  frame allocator and the page tables, indexed by process identifier.
\<close>

section \<open>The supervisor window\<close>

definition CAP_SLOT_SIZE :: nat where "CAP_SLOT_SIZE = 16384"

definition le32 :: "nat \<Rightarrow> u8 list" where
  "le32 n = map (\<lambda>k. of_nat (n div 256 ^ k)) [0..<4]"

definition str_bytes :: "string \<Rightarrow> u8 list" where
  "str_bytes s = map of_char s"

text \<open>The zero bytes written until the offset is a multiple of four.\<close>

definition pad4 :: "nat \<Rightarrow> u8 list" where
  "pad4 off = replicate ((4 - off mod 4) mod 4) 0"

definition field_bytes :: "nat \<Rightarrow> string \<Rightarrow> u8 list" where
  "field_bytes off s = le32 (length s) @ str_bytes s @ pad4 (off + 4 + length s)"

definition cap_entry :: "nat \<Rightarrow> cap \<Rightarrow> u8 list" where
  "cap_entry off c =
     (let p = field_bytes off (cap_path c);
          m = (case cap_method c of
                 Some m \<Rightarrow> field_bytes (off + length p) m
               | None \<Rightarrow> le32 4294967295)
      in p @ m @ [perm_as_u8 (cap_perm c), 0, 0, 0])"

fun serialize_loop :: "cap list \<Rightarrow> nat \<Rightarrow> nat \<Rightarrow> nat \<times> u8 list" where
  "serialize_loop [] off n_written = (n_written, [])"
| "serialize_loop (c # cs) off n_written =
     (if off + 8 + length (cap_path c) + 8
           + (case cap_method c of Some m \<Rightarrow> length m | None \<Rightarrow> 0) + 4 > CAP_SLOT_SIZE
      then (n_written, [])
      else let e = cap_entry off c; r = serialize_loop cs (off + length e) (n_written + 1)
           in (fst r, e @ snd r))"

definition serialize_to_page :: "cap list \<Rightarrow> u8 list" where
  "serialize_to_page caps =
     (let r = serialize_loop caps 4 0; body = le32 (fst r) @ snd r
      in body @ replicate (CAP_SLOT_SIZE - length body) 0)"

section \<open>Tasks and grants\<close>

record task_caps =
  tc_arc :: "cap list option"
  tc_vm :: nat
  tc_phys :: nat
  tc_page :: "u8 list"

definition current_caps :: "task_caps option \<Rightarrow> cap list option" where
  "current_caps cur =
     (case cur of
        None \<Rightarrow> None
      | Some t \<Rightarrow>
          (case tc_arc t of
             None \<Rightarrow> if tc_vm t = 0 then None else Some []
           | Some caps \<Rightarrow> Some caps))"

text \<open>\<open>install_caps\<close>: a window for the task, filled with the given set.\<close>

definition install_caps :: "nat option \<Rightarrow> cap list \<Rightarrow> (nat \<times> u8 list) option" where
  "install_caps win caps = map_option (\<lambda>phys. (phys, serialize_to_page caps)) win"

text \<open>
  The loop over existing entries: the first entry with the key, if any, and whether it had to be
  upgraded.
\<close>

fun grant_existing :: "cap list \<Rightarrow> string \<Rightarrow> string option \<Rightarrow> perm \<Rightarrow> (bool \<times> cap list) option" where
  "grant_existing [] path method perm = None"
| "grant_existing (c # cs) path method perm =
     (if cap_path c = path \<and> cap_method c = method then
        (if covers (cap_perm c) perm then Some (False, c # cs)
         else Some (True, c\<lparr>cap_perm := perm\<rparr> # cs))
      else map_option (\<lambda>(ch, cs'). (ch, c # cs')) (grant_existing cs path method perm))"

definition write_page :: "task_caps \<Rightarrow> cap list \<Rightarrow> task_caps" where
  "write_page t caps = (if tc_phys t \<noteq> 0 then t\<lparr>tc_page := serialize_to_page caps\<rparr> else t)"

definition grant_to_task ::
  "nat option \<Rightarrow> task_caps \<Rightarrow> string \<Rightarrow> string option \<Rightarrow> perm \<Rightarrow> task_caps \<times> (unispace_error, unit) result" where
  "grant_to_task win t path method perm =
     (let c = \<lparr>cap_path = path, cap_method = method, cap_perm = perm\<rparr> in
      case tc_arc t of
        None \<Rightarrow>
          (case validate_cap c of
             Inl e \<Rightarrow> (t, Inl e)
           | Inr _ \<Rightarrow>
               (case install_caps win [c] of
                  Some (phys, page) \<Rightarrow>
                    (t\<lparr>tc_phys := phys, tc_page := page, tc_arc := Some [c]\<rparr>, Inr ())
                | None \<Rightarrow> (t, Inl U_OutOfMemory)))
      | Some caps \<Rightarrow>
          if MAX_CAPS_PER_TASK \<le> length caps then (t, Inl U_OutOfMemory)
          else case grant_existing caps path method perm of
            Some (False, _) \<Rightarrow> (t, Inr ())
          | Some (True, caps') \<Rightarrow> (write_page (t\<lparr>tc_arc := Some caps'\<rparr>) caps', Inr ())
          | None \<Rightarrow>
              (case validate_cap c of
                 Inl e \<Rightarrow> (t, Inl e)
               | Inr _ \<Rightarrow>
                   let caps' = caps @ [c]
                   in (write_page (t\<lparr>tc_arc := Some caps'\<rparr>) caps', Inr ())))"

text \<open>The tasks by process identifier, live and zombie.\<close>

type_synonym task_map = "nat \<Rightarrow> task_caps option"

definition grant_to_current ::
  "(nat \<Rightarrow> nat option) \<Rightarrow> nat option \<Rightarrow> task_map \<Rightarrow> string \<Rightarrow> string option \<Rightarrow> perm
     \<Rightarrow> task_map \<times> (unispace_error, unit) result" where
  "grant_to_current win cur tasks path method perm =
     (case cur of
        None \<Rightarrow> (tasks, Inr ())
      | Some pid \<Rightarrow>
          (case tasks pid of
             None \<Rightarrow> (tasks, Inr ())
           | Some t \<Rightarrow>
               (case grant_to_task (win pid) t path method perm of
                  (t', r) \<Rightarrow> (tasks(pid \<mapsto> t'), r))))"

text \<open>\<open>grant_cap_to_pid\<close> and its inner \<open>do_grant\<close>, which installs an empty window first.\<close>

definition do_grant :: "nat option \<Rightarrow> task_caps \<Rightarrow> cap \<Rightarrow> task_caps \<times> (unispace_error, unit) result" where
  "do_grant win t0 c =
     (case (case tc_arc t0 of
              Some caps \<Rightarrow> Some (t0, caps)
            | None \<Rightarrow>
                (case install_caps win [] of
                   Some (phys, page) \<Rightarrow>
                     Some (t0\<lparr>tc_phys := phys, tc_page := page, tc_arc := Some []\<rparr>, [])
                 | None \<Rightarrow> None)) of
        None \<Rightarrow> (t0, Inl U_OutOfMemory)
      | Some (t, caps) \<Rightarrow>
          if MAX_CAPS_PER_TASK \<le> length caps then (t, Inl U_OutOfMemory)
          else case grant_existing caps (cap_path c) (cap_method c) (cap_perm c) of
            Some (False, _) \<Rightarrow> (t, Inr ())
          | Some (True, caps') \<Rightarrow> (write_page (t\<lparr>tc_arc := Some caps'\<rparr>) caps', Inr ())
          | None \<Rightarrow> (write_page (t\<lparr>tc_arc := Some (caps @ [c])\<rparr>) (caps @ [c]), Inr ()))"

definition grant_cap_to_pid ::
  "(nat \<Rightarrow> nat option) \<Rightarrow> task_map \<Rightarrow> nat \<Rightarrow> cap \<Rightarrow> task_map \<times> (unispace_error, unit) result" where
  "grant_cap_to_pid win tasks pid c =
     (case validate_cap c of
        Inl e \<Rightarrow> (tasks, Inl e)
      | Inr _ \<Rightarrow>
          (case tasks pid of
             None \<Rightarrow> (tasks, Inl U_NotFound)
           | Some t \<Rightarrow> (case do_grant (win pid) t c of (t', r) \<Rightarrow> (tasks(pid \<mapsto> t'), r))))"

function chain_walk :: "(nat \<times> nat) list \<Rightarrow> nat list \<Rightarrow> nat \<Rightarrow> nat list" where
  "chain_walk lin seen pid =
     (if pid \<in> set seen then []
      else case map_of lin pid of
             Some ppid \<Rightarrow> if ppid = 0 then [] else ppid # chain_walk lin (pid # seen) ppid
           | None \<Rightarrow> [])"
  by pat_completeness auto
termination
proof (relation "measure (\<lambda>(lin, seen, pid). card (fst ` set lin - set seen))", goal_cases)
  case (2 lin seen pid ppid)
  then have "pid \<in> fst ` set lin" by (metis domI dom_map_of_conv_image_fst)
  with 2 have "fst ` set lin - set (pid # seen) \<subset> fst ` set lin - set seen" by auto
  then show ?case by (simp add: psubset_card_mono)
qed simp

declare chain_walk.simps [simp del]

definition lineage_chain :: "(nat \<times> nat) list \<Rightarrow> nat \<Rightarrow> nat list" where
  "lineage_chain lin pid = chain_walk lin [] pid"

fun grant_all :: "(nat \<Rightarrow> nat option) \<Rightarrow> task_map \<Rightarrow> nat list \<Rightarrow> cap \<Rightarrow> task_map" where
  "grant_all win tasks [] c = tasks"
| "grant_all win tasks (pid # pids) c = grant_all win (fst (grant_cap_to_pid win tasks pid c)) pids c"

definition propagate_cap_to_parents ::
  "(nat \<Rightarrow> nat option) \<Rightarrow> sched_view \<Rightarrow> task_map \<Rightarrow> string \<Rightarrow> string option \<Rightarrow> perm \<Rightarrow> task_map" where
  "propagate_cap_to_parents win sv tasks path method perm =
     (let tasks1 = fst (grant_to_current win (sv_current sv) tasks path method perm) in
      case sv_current sv of
        None \<Rightarrow> tasks1
      | Some start \<Rightarrow>
          grant_all win tasks1 (lineage_chain (sv_lineage sv) start)
            \<lparr>cap_path = path, cap_method = method, cap_perm = perm\<rparr>)"

section \<open>Inheritance at spawn\<close>

fun validate_all :: "cap list \<Rightarrow> (unispace_error, unit) result" where
  "validate_all [] = Inr ()"
| "validate_all (c # cs) = (case validate_cap c of Inl e \<Rightarrow> Inl e | Inr _ \<Rightarrow> validate_all cs)"

text \<open>The capability part of \<open>spawn_proc\<close>. A permission byte of 2 cannot occur in a \<open>Perm\<close>.\<close>

definition spawn_child_caps :: "cap list option \<Rightarrow> cap list \<Rightarrow> (unispace_error, cap list) result" where
  "spawn_child_caps parent provided =
     (case validate_all provided of
        Inl e \<Rightarrow> Inl e
      | Inr _ \<Rightarrow>
          if MAX_CAPS_PER_TASK < length provided then Inl U_OutOfMemory
          else case parent of
            Some pc \<Rightarrow> if \<not> is_subset pc provided then Inl U_InvalidArgument else Inr provided
          | None \<Rightarrow> Inr provided)"

end
