(* ===== verification/Caps_Props.thy ===== *)
theory Caps_Props
  imports Caps_Grant
begin

text \<open>
  Properties of the capability system: the two access checks, inheritance at spawn, grants, the lineage walk and the supervisor window.
\<close>

section \<open>Lookup\<close>

lemma has_perm_iff:
  "has_perm caps path method want \<longleftrightarrow>
     (\<exists>c\<in>set caps. cap_path c = path \<and> cap_method c = method \<and> covers (cap_perm c) want)"
  by (induction caps) auto

lemma covers_trans: "covers p q \<Longrightarrow> covers q r \<Longrightarrow> covers p r"
  by (cases p; cases q; cases r) auto

lemma covers_R [simp]: "covers p Perm_R"
  by (cases p) auto

lemma covers_refl [simp]: "covers p p"
  by (cases p) auto

lemma has_perm_R: "has_perm caps p m w \<Longrightarrow> has_perm caps p m Perm_R"
  by (auto simp: has_perm_iff)

lemma match_prefix_iff [simp]: "match_prefix it comps \<longleftrightarrow> it = comps"
  by (induction it comps rule: match_prefix.induct) auto

definition valid_caps :: "cap list \<Rightarrow> bool" where
  "valid_caps caps \<longleftrightarrow> (\<forall>c\<in>set caps. validate_cap c = Inr ())"

text \<open>A component as the parser delivers it: non-empty and without a separator.\<close>

definition plain :: "string list \<Rightarrow> bool" where
  "plain comps \<longleftrightarrow> (\<forall>c\<in>set comps. c \<noteq> [] \<and> CHR ''/'' \<notin> set c)"

lemma validate_cap_segs:
  assumes "validate_cap c = Inr ()"
  shows "join_path (segs (cap_path c)) = cap_path c"
proof -
  have "cap_path c = [] \<or> [] \<notin> set (split_on (CHR ''/'') (cap_path c))"
    using assms
    by (auto simp: validate_cap_def Let_def list_ex_iff bad_path_seg_def split: if_splits)
  then show ?thesis unfolding join_path_def segs_def by (rule join_nonempty_pieces)
qed

lemma segs_join: "plain comps \<Longrightarrow> segs (join_path comps) = comps"
  unfolding segs_def join_path_def plain_def by (rule nonempty_pieces_join)

lemma segs_eq_iff:
  "validate_cap c = Inr () \<Longrightarrow> plain comps \<Longrightarrow> segs (cap_path c) = comps \<longleftrightarrow> cap_path c = join_path comps"
  using validate_cap_segs segs_join by metis

lemma has_perm_on_eq:
  assumes "valid_caps caps" "plain comps"
  shows "has_perm_on caps comps m w = has_perm caps (join_path comps) m w"
  using assms segs_eq_iff
  by (auto simp: has_perm_on_def has_perm_iff list_ex_iff cap_matches_components_def valid_caps_def)

text \<open>Every method capability sits on an object that can itself be read.\<close>

definition methods_readable :: "cap list \<Rightarrow> bool" where
  "methods_readable caps \<longleftrightarrow>
     (\<forall>c\<in>set caps. cap_method c \<noteq> None \<longrightarrow> has_perm caps (cap_path c) None Perm_R)"

lemma plain_take: "plain comps \<Longrightarrow> plain (take n comps)"
  by (auto simp: plain_def dest: in_set_takeD)

lemma ancestor_step_eq:
  assumes "valid_caps caps" "methods_readable caps" "plain comps"
  shows "list_ex (\<lambda>c. cap_matches_prefix c comps n \<and> covers (cap_perm c) Perm_R) caps
    \<longleftrightarrow> has_perm caps (join_path (take n comps)) None Perm_R"
proof
  assume "list_ex (\<lambda>c. cap_matches_prefix c comps n \<and> covers (cap_perm c) Perm_R) caps"
  then obtain c where c: "c \<in> set caps" "segs (cap_path c) = take n comps"
    by (auto simp: list_ex_iff cap_matches_prefix_def)
  then have "cap_path c = join_path (take n comps)"
    using segs_eq_iff [OF _ plain_take [OF assms(3)]] assms(1) by (auto simp: valid_caps_def)
  moreover have "has_perm caps (cap_path c) None Perm_R"
    using c(1) assms(2) by (cases "cap_method c") (auto simp: methods_readable_def has_perm_iff)
  ultimately show "has_perm caps (join_path (take n comps)) None Perm_R" by simp
next
  assume "has_perm caps (join_path (take n comps)) None Perm_R"
  then obtain c where "c \<in> set caps" "cap_path c = join_path (take n comps)"
    by (auto simp: has_perm_iff)
  moreover from this(2) have "segs (cap_path c) = take n comps"
    using segs_join [OF plain_take [OF assms(3)]] by simp
  ultimately show "list_ex (\<lambda>c. cap_matches_prefix c comps n \<and> covers (cap_perm c) Perm_R) caps"
    unfolding list_ex_iff cap_matches_prefix_def by (intro bexI [of _ c]) simp_all
qed

lemma has_ancestor_r_on_eq:
  assumes "valid_caps caps" "methods_readable caps" "plain comps"
  shows "has_ancestor_r_on caps comps = has_ancestor_r caps comps"
proof -
  have "set [1..<length comps] = Suc ` set [0..<length comps - 1]"
    by (cases comps) (simp_all only: set_upt image_Suc_atLeastLessThan list.size, auto)
  then show ?thesis
    unfolding has_ancestor_r_on_def has_ancestor_r_def ancestor_step_eq [OF assms] list_all_iff
    by (simp only: ball_simps Suc_eq_plus1) simp
qed

lemma canonicalize_plain:
  assumes "canonicalize_proc_alias sv comps = Inr (Some comps')" "plain comps"
  shows "plain comps'"
proof -
  have "comps' = ''proc'' # ''self'' # drop 2 comps"
    using assms(1) by (auto simp: canonicalize_proc_alias_def split: if_splits option.splits)
  moreover have "plain (drop 2 comps)" using assms(2) by (auto simp: plain_def dest: in_set_dropD)
  ultimately show ?thesis by (simp add: plain_def)
qed

section \<open>The lineage walk\<close>

inductive lineage_path :: "(nat \<times> nat) list \<Rightarrow> nat \<Rightarrow> nat \<Rightarrow> bool" for lin where
  parent: "map_of lin d = Some a \<Longrightarrow> lineage_path lin d a"
| grand: "map_of lin d = Some p \<Longrightarrow> p \<noteq> 0 \<Longrightarrow> lineage_path lin p a \<Longrightarrow> lineage_path lin d a"

inductive_cases lineage_pathE: "lineage_path lin d a"

text \<open>The visited set: each member's parent is neither the goal nor 0, and was visited next.\<close>

definition walked :: "(nat \<times> nat) list \<Rightarrow> nat \<Rightarrow> nat list \<Rightarrow> nat \<Rightarrow> bool" where
  "walked lin a seen cur \<longleftrightarrow>
     (\<forall>s\<in>set seen. \<exists>p. map_of lin s = Some p \<and> p \<noteq> a \<and> p \<noteq> 0 \<and> (p \<in> set seen \<or> p = cur))"

lemma cycle_no_path:
  "lineage_path lin d a \<Longrightarrow> walked lin a seen cur \<Longrightarrow> cur \<in> set seen \<Longrightarrow> d \<notin> set seen"
proof (induction rule: lineage_path.induct)
  case (parent d a)
  show ?case
  proof
    assume "d \<in> set seen"
    with parent(2) have "\<exists>p. map_of lin d = Some p \<and> p \<noteq> a" unfolding walked_def by blast
    with parent(1) show False by simp
  qed
next
  case (grand d p a)
  show ?case
  proof
    assume "d \<in> set seen"
    with grand(5,6) have "\<exists>q. map_of lin d = Some q \<and> q \<in> set seen" unfolding walked_def by blast
    with grand show False by simp
  qed
qed

lemma anc_walk_iff:
  "walked lin a seen cur \<Longrightarrow> anc_walk lin a seen cur \<longleftrightarrow> lineage_path lin cur a"
proof (induction lin a seen cur rule: anc_walk.induct)
  case (1 lin a seen cur)
  show ?case
  proof (cases "cur \<in> set seen")
    case True
    with cycle_no_path [OF _ 1(2) True] show ?thesis by (subst anc_walk.simps) auto
  next
    case False
    show ?thesis
    proof (cases "map_of lin cur")
      case None
      with False show ?thesis by (subst anc_walk.simps) (auto elim: lineage_pathE)
    next
      case (Some p)
      consider "p = a" | "p \<noteq> a" "p = 0" | "p \<noteq> a" "p \<noteq> 0" by auto
      then show ?thesis
      proof cases
        case 3
        then have "walked lin a (cur # seen) p" using 1(2) Some by (auto simp: walked_def)
        with 1(1) [OF False Some 3] have "anc_walk lin a (cur # seen) p \<longleftrightarrow> lineage_path lin p a" .
        with False Some 3 show ?thesis
          by (subst anc_walk.simps) (auto intro: lineage_path.intros elim: lineage_pathE)
      next
        case 1
        with False Some show ?thesis by (subst anc_walk.simps) (auto intro: lineage_path.intros)
      next
        case 2
        with False Some show ?thesis by (subst anc_walk.simps) (auto elim: lineage_pathE)
      qed
    qed
  qed
qed

lemma is_ancestor_iff: "is_ancestor lin a d \<longleftrightarrow> a = d \<or> lineage_path lin d a"
  using anc_walk_iff [of lin a "[]" d] by (simp add: is_ancestor_def walked_def)

section \<open>Inheritance\<close>

lemma is_subset_iff:
  "is_subset parent child \<longleftrightarrow>
     (\<forall>c\<in>set child. has_perm parent (cap_path c) (cap_method c) (cap_perm c))"
  by (induction child) auto

lemma is_subset_covers:
  assumes "is_subset parent child" "c \<in> set child" "covers (cap_perm c) w"
  obtains c' where "c' \<in> set parent" "cap_path c' = cap_path c" "cap_method c' = cap_method c"
    "covers (cap_perm c') w"
proof -
  have "has_perm parent (cap_path c) (cap_method c) (cap_perm c)"
    using assms(1,2) by (simp add: is_subset_iff)
  then obtain c' where "c' \<in> set parent" "cap_path c' = cap_path c" "cap_method c' = cap_method c"
    "covers (cap_perm c') (cap_perm c)" by (auto simp: has_perm_iff)
  with that covers_trans [OF _ assms(3)] show thesis by blast
qed

lemma has_perm_on_mono:
  assumes "is_subset parent child" "has_perm_on child comps m w"
  shows "has_perm_on parent comps m w"
proof -
  obtain c where c: "c \<in> set child" "cap_matches_components c comps m" "covers (cap_perm c) w"
    using assms(2) by (auto simp: has_perm_on_def list_ex_iff)
  obtain c' where c': "c' \<in> set parent" "cap_path c' = cap_path c" "cap_method c' = cap_method c"
    "covers (cap_perm c') w" using assms(1) c(1,3) by (rule is_subset_covers)
  then have "cap_matches_components c' comps m" using c(2) by (simp add: cap_matches_components_def split: if_splits)
  with c' show ?thesis unfolding has_perm_on_def list_ex_iff by (intro bexI [of _ c']) simp_all
qed

lemma has_ancestor_r_on_mono:
  assumes "is_subset parent child" "has_ancestor_r_on child comps"
  shows "has_ancestor_r_on parent comps"
  unfolding has_ancestor_r_on_def list_all_iff
proof
  fix n assume "n \<in> set [1..<length comps]"
  with assms(2) have "\<exists>c\<in>set child. cap_matches_prefix c comps n"
    by (simp add: has_ancestor_r_on_def list_all_iff list_ex_iff)
  then obtain c where c: "c \<in> set child" "cap_matches_prefix c comps n" by blast
  obtain c' where "c' \<in> set parent" "cap_path c' = cap_path c"
    using assms(1) c(1) covers_R by (rule is_subset_covers)
  moreover from this(2) c(2) have "cap_matches_prefix c' comps n" by (simp add: cap_matches_prefix_def)
  ultimately show "list_ex (\<lambda>c. cap_matches_prefix c comps n \<and> covers (cap_perm c) Perm_R) parent"
    unfolding list_ex_iff by (intro bexI [of _ c']) simp_all
qed

lemma check_path_on_Ok:
  "check_path_on sv (Some caps) comps m w = Inr () \<longleftrightarrow>
     (\<exists>canon. canonicalize_proc_alias sv comps = Inr canon \<and>
       (let cs = (case canon of Some v \<Rightarrow> v | None \<Rightarrow> comps)
        in has_ancestor_r_on caps cs \<and> (m \<noteq> None \<longrightarrow> has_perm_on caps cs None Perm_R)
           \<and> has_perm_on caps cs m w))"
  by (auto simp: check_path_on_def Let_def has_perm_on_def split: sum.splits if_splits)

lemma check_path_on_mono:
  assumes "is_subset parent child" "check_path_on sv (Some child) comps m w = Inr ()"
  shows "check_path_on sv (Some parent) comps m w = Inr ()"
proof -
  note mono = has_perm_on_mono [OF assms(1)] has_ancestor_r_on_mono [OF assms(1)]
  obtain canon where "canonicalize_proc_alias sv comps = Inr canon" and
    "let cs = (case canon of Some v \<Rightarrow> v | None \<Rightarrow> comps)
     in has_ancestor_r_on child cs \<and> (m \<noteq> None \<longrightarrow> has_perm_on child cs None Perm_R)
        \<and> has_perm_on child cs m w"
    using assms(2) unfolding check_path_on_Ok by blast
  then show ?thesis
    unfolding check_path_on_Ok by (intro exI [of _ canon]) (auto simp: Let_def intro: mono)
qed

text \<open>The capability sets that processes can hold by successive spawns from a root process.\<close>

inductive spawned :: "cap list \<Rightarrow> cap list \<Rightarrow> bool" for root where
  root: "spawned root root"
| spawn: "spawned root parent \<Longrightarrow> spawn_child_caps (Some parent) provided = Inr child \<Longrightarrow>
    spawned root child"

lemma spawn_child_caps_Inr:
  assumes "spawn_child_caps (Some parent) provided = Inr child"
  shows "child = provided" "is_subset parent child" "valid_caps child"
proof -
  show "child = provided" "is_subset parent child"
    using assms by (auto simp: spawn_child_caps_def split: sum.splits if_splits)
  have "validate_all cs = Inr () \<Longrightarrow> valid_caps cs" for cs
    by (induction cs) (auto simp: valid_caps_def split: sum.splits)
  then show "valid_caps child"
    using assms by (auto simp: spawn_child_caps_def split: sum.splits if_splits)
qed

lemma spawned_mono:
  "spawned root caps \<Longrightarrow> check_path_on sv (Some caps) comps m w = Inr () \<Longrightarrow>
   check_path_on sv (Some root) comps m w = Inr ()"
  by (induction rule: spawned.induct) (auto dest: spawn_child_caps_Inr(2) check_path_on_mono)

section \<open>Sample capability sets\<close>

abbreviation mk_cap :: "string \<Rightarrow> string option \<Rightarrow> perm \<Rightarrow> cap" where
  "mk_cap p m w \<equiv> \<lparr>cap_path = p, cap_method = m, cap_perm = w\<rparr>"

definition demo_view :: sched_view where
  "demo_view = \<lparr>sv_current = Some 1, sv_lineage = [(2, 1), (3, 2), (1, 0)]\<rparr>"

definition demo_caps :: "cap list" where
  "demo_caps = [mk_cap ''proc'' None Perm_R, mk_cap ''proc/self'' None Perm_R,
                mk_cap ''proc/self'' (Some ''kill'') Perm_RW]"

lemmas caps_eval =
  segs_def nonempty_pieces_def validate_cap_def bad_path_seg_def bad_method_def is_control_def
  MAX_CAP_PATH_LEN_def MAX_CAP_METHOD_LEN_def has_ancestor_r_def has_ancestor_r_on_def
  cap_matches_prefix_def has_perm_on_def cap_matches_components_def join_path_def

lemma demo_caps_valid: "valid_caps demo_caps" "methods_readable demo_caps"
  by (simp_all add: demo_caps_def valid_caps_def methods_readable_def caps_eval)

section \<open>Properties\<close>

text \<open>C15: the two access checks agree wherever every method capability sits on a readable object.
  For validated capability sets and components without separators, the check on components used
  by system calls gives the same answer, errors included, as the check on path strings.\<close>

theorem check_path_variants_agree:
  assumes "valid_caps caps" "methods_readable caps" "plain comps"
  shows "check_path_on sv (Some caps) comps m w = check_path sv (Some caps) comps m w"
proof (cases "canonicalize_proc_alias sv comps")
  case (Inr canon)
  let ?cs = "case canon of Some v \<Rightarrow> v | None \<Rightarrow> comps"
  have "plain ?cs" using canonicalize_plain [of sv comps] Inr assms(3) by (auto split: option.splits)
  then show ?thesis
    using has_ancestor_r_on_eq [OF assms(1,2), of ?cs] has_perm_on_eq [OF assms(1), of ?cs] Inr
    by (simp add: check_path_on_def check_path_def Let_def)
qed (simp add: check_path_on_def check_path_def)

theorem check_path_variants_agree_witness:
  "check_path_on demo_view (Some demo_caps) [''proc'', ''self''] (Some ''kill'') Perm_RW
   = check_path demo_view (Some demo_caps) [''proc'', ''self''] (Some ''kill'') Perm_RW"
  using check_path_variants_agree [OF demo_caps_valid, of "[''proc'', ''self'']" demo_view "Some ''kill''" Perm_RW]
  by (simp add: plain_def)

text \<open>C16: without that condition the two checks differ. A method capability on a directory lets the
  component-wise check traverse it, although the directory itself is not readable: here it grants
  access where the string check reports that nothing exists.\<close>

theorem check_path_on_accepts_method_as_ancestor:
  "\<exists>caps. valid_caps caps
    \<and> check_path sv (Some caps) [''a'', ''b''] None Perm_R = Inl U_NotFound
    \<and> check_path_on sv (Some caps) [''a'', ''b''] None Perm_R = Inr ()"
proof -
  let ?caps = "[mk_cap ''a'' (Some ''m'') Perm_R, mk_cap ''a/b'' None Perm_R]"
  have no_alias: "canonicalize_proc_alias sv [''a'', ''b''] = Inr None"
    by (simp add: canonicalize_proc_alias_def)
  have "valid_caps ?caps" by (simp add: valid_caps_def caps_eval)
  moreover have "check_path sv (Some ?caps) [''a'', ''b''] None Perm_R = Inl U_NotFound"
    by (simp add: check_path_def no_alias caps_eval)
  moreover have "check_path_on sv (Some ?caps) [''a'', ''b''] None Perm_R = Inr ()"
    by (simp add: check_path_on_def no_alias caps_eval)
  ultimately show ?thesis by blast
qed

text \<open>C14: no privilege escalation through spawning. Whatever the access check grants to a process
  whose capabilities come from any chain of spawns, it grants to the root of the chain.\<close>

theorem spawn_never_escalates:
  assumes "spawned root caps" "check_path_on sv (Some caps) comps m w = Inr ()"
  shows "check_path_on sv (Some root) comps m w = Inr ()"
  using assms by (rule spawned_mono)

lemma demo_check:
  "check_path_on demo_view (Some demo_caps) [''proc'', ''3''] (Some ''kill'') Perm_RW = Inr ()"
proof -
  have "parse_pid ''3'' = Some 3"
    by (simp add: parse_pid_def is_numeric_pid_def is_ascii_digit_def u64_arith
        checked_mul64_def checked_add64_def)
  moreover have "is_ancestor (sv_lineage demo_view) 1 3"
    unfolding is_ancestor_iff demo_view_def
    by (simp add: lineage_path.grand [of _ 3 2] lineage_path.parent [of _ 2])
  ultimately have "canonicalize_proc_alias demo_view [''proc'', ''3''] = Inr (Some [''proc'', ''self''])"
    by (simp add: canonicalize_proc_alias_def demo_view_def)
  then show ?thesis by (simp add: check_path_on_def demo_caps_def caps_eval)
qed

theorem spawn_never_escalates_witness:
  "check_path_on demo_view (Some (mk_cap ''dev'' None Perm_RW # demo_caps)) [''proc'', ''3''] (Some ''kill'') Perm_RW
   = Inr ()"
proof -
  let ?root = "mk_cap ''dev'' None Perm_RW # demo_caps"
  have "spawn_child_caps (Some ?root) demo_caps = Inr demo_caps"
    by (simp add: spawn_child_caps_def demo_caps_def caps_eval MAX_CAPS_PER_TASK_def)
  then have "spawned ?root demo_caps" by (rule spawned.spawn [OF spawned.root])
  then show ?thesis using demo_check by (rule spawn_never_escalates)
qed

text \<open>the cycle-guarded walk of \<open>is_ancestor\<close> decides ancestry exactly: it answers whether the
  descendant is the ancestor or has it on its chain of parents, for every lineage map, cyclic ones
  included.\<close>

theorem is_ancestor_exact: "is_ancestor lin a d \<longleftrightarrow> a = d \<or> lineage_path lin d a"
  by (rule is_ancestor_iff)

end
