(* ===== verification/Caps_Grants.thy ===== *)
theory Caps_Grants
  imports Caps_Props
begin

text \<open>
  Grants keep capability sets well formed, add exactly the requested permission, and keep the
  supervisor window in step with the set.
\<close>

definition cap_key :: "cap \<Rightarrow> string \<times> string option" where
  "cap_key c = (cap_path c, cap_method c)"

text \<open>What a task's set always satisfies: validated entries, one per key, mirrored in the window.\<close>

definition task_ok :: "task_caps \<Rightarrow> bool" where
  "task_ok t \<longleftrightarrow> (\<forall>caps. tc_arc t = Some caps \<longrightarrow>
     valid_caps caps \<and> distinct (map cap_key caps)
     \<and> (tc_phys t \<noteq> 0 \<longrightarrow> tc_page t = serialize_to_page caps))"

definition task_perm :: "task_caps \<Rightarrow> string \<Rightarrow> string option \<Rightarrow> perm \<Rightarrow> bool" where
  "task_perm t path method want =
     (case tc_arc t of None \<Rightarrow> False | Some caps \<Rightarrow> has_perm caps path method want)"

lemma grant_existing_None:
  "grant_existing caps path method perm = None \<longleftrightarrow> (path, method) \<notin> cap_key ` set caps"
  by (induction caps) (auto simp: cap_key_def)

lemma validate_cap_perm: "validate_cap (c\<lparr>cap_perm := p\<rparr>) = validate_cap c"
  by (simp add: validate_cap_def Let_def)

lemma grant_existing_Some:
  assumes "grant_existing caps path method perm = Some (ch, caps')"
  shows "map cap_key caps' = map cap_key caps" "valid_caps caps \<Longrightarrow> valid_caps caps'"
    "\<not> ch \<Longrightarrow> caps' = caps" "has_perm caps' path method perm"
    "has_perm caps p m w \<Longrightarrow> has_perm caps' p m w"
    "distinct (map cap_key caps) \<Longrightarrow> has_perm caps' p m w \<Longrightarrow>
       has_perm caps p m w \<or> p = path \<and> m = method \<and> covers perm w"
proof -
  have "map cap_key caps' = map cap_key caps \<and> (valid_caps caps \<longrightarrow> valid_caps caps')
    \<and> (\<not> ch \<longrightarrow> caps' = caps) \<and> has_perm caps' path method perm
    \<and> (has_perm caps p m w \<longrightarrow> has_perm caps' p m w)
    \<and> (has_perm caps' p m w \<longrightarrow> has_perm caps p m w \<or> p = path \<and> m = method \<and> covers perm w)"
    using assms
  proof (induction caps arbitrary: caps')
    case (Cons c cs)
    show ?case
    proof (cases "cap_path c = path \<and> cap_method c = method")
      case True
      with Cons.prems show ?thesis
        by (cases perm; cases "cap_perm c"; cases w)
           (auto simp: valid_caps_def validate_cap_perm cap_key_def split: if_splits)
    next
      case False
      then obtain cs' where "grant_existing cs path method perm = Some (ch, cs')" "caps' = c # cs'"
        using Cons.prems by auto
      with Cons.IH [of cs'] show ?thesis by (auto simp: valid_caps_def)
    qed
  qed simp
  then show "map cap_key caps' = map cap_key caps" "valid_caps caps \<Longrightarrow> valid_caps caps'"
    "\<not> ch \<Longrightarrow> caps' = caps" "has_perm caps' path method perm"
    "has_perm caps p m w \<Longrightarrow> has_perm caps' p m w"
    "distinct (map cap_key caps) \<Longrightarrow> has_perm caps' p m w \<Longrightarrow>
       has_perm caps p m w \<or> p = path \<and> m = method \<and> covers perm w" by auto
qed

lemma write_page_fields [simp]:
  "tc_arc (write_page t caps) = tc_arc t" "tc_phys (write_page t caps) = tc_phys t"
  by (simp_all add: write_page_def)

text \<open>The three ways a grant succeeds.\<close>

lemma grant_to_task_cases:
  assumes "grant_to_task win t path method perm = (t', Inr ())"
  obtains (fresh) phys where "tc_arc t = None" "validate_cap (mk_cap path method perm) = Inr ()"
      "t' = t\<lparr>tc_phys := phys, tc_page := serialize_to_page [mk_cap path method perm],
              tc_arc := Some [mk_cap path method perm]\<rparr>"
  | (existing) caps ch caps' where "tc_arc t = Some caps"
      "grant_existing caps path method perm = Some (ch, caps')"
      "t' = (if ch then write_page (t\<lparr>tc_arc := Some caps'\<rparr>) caps' else t)"
  | (append) caps where "tc_arc t = Some caps" "grant_existing caps path method perm = None"
      "validate_cap (mk_cap path method perm) = Inr ()"
      "t' = write_page (t\<lparr>tc_arc := Some (caps @ [mk_cap path method perm])\<rparr>)
              (caps @ [mk_cap path method perm])"
  using assms
  by (auto simp: grant_to_task_def install_caps_def Let_def
      split: option.splits sum.splits if_splits prod.splits bool.splits)

section \<open>Properties\<close>

text \<open>C17: a grant gives exactly the requested permission. When \<open>grant_to_current\<close> succeeds on a task,
  the task has the permission, keeps all it had, gains nothing else, and its set stays validated,
  free of duplicate keys and mirrored in the supervisor window.\<close>

theorem grant_is_exact:
  assumes "task_ok t" "grant_to_task win t path method perm = (t', Inr ())"
  shows "task_ok t' \<and> (\<forall>p m w. task_perm t' p m w \<longleftrightarrow>
    task_perm t p m w \<or> p = path \<and> m = method \<and> covers perm w)"
  using assms(2)
proof (cases rule: grant_to_task_cases)
  case (fresh phys)
  then show ?thesis by (auto simp: task_ok_def task_perm_def valid_caps_def)
next
  case (existing caps ch caps')
  note g = grant_existing_Some [OF existing(2)]
  have ok: "valid_caps caps" "distinct (map cap_key caps)"
    "tc_phys t \<noteq> 0 \<Longrightarrow> tc_page t = serialize_to_page caps"
    using assms(1) existing(1) by (auto simp: task_ok_def)
  have arc: "tc_arc t' = Some caps'" using existing(1,3) g(3) by (cases ch) auto
  have "task_ok t'"
    using existing(3) ok g(1,2,3) arc unfolding task_ok_def
    by (cases ch) (auto simp: write_page_def existing(1))
  moreover have "task_perm t' p m w = has_perm caps' p m w" "task_perm t p m w = has_perm caps p m w" for p m w
    using arc existing(1) by (simp_all add: task_perm_def)
  moreover have "has_perm caps' path method w" if "covers perm w" for w
    using g(4) that covers_trans by (auto simp: has_perm_iff)
  then have "has_perm caps' p m w \<longleftrightarrow> has_perm caps p m w \<or> p = path \<and> m = method \<and> covers perm w" for p m w
    using g(5) g(6) [OF ok(2)] by blast
  ultimately show ?thesis by simp
next
  case (append caps)
  have "(path, method) \<notin> cap_key ` set caps" using append(2) by (simp add: grant_existing_None)
  then have "task_ok t'"
    using append assms(1)
    by (auto simp: task_ok_def valid_caps_def write_page_def cap_key_def)
  moreover have "task_perm t' p m w \<longleftrightarrow> task_perm t p m w \<or> p = path \<and> m = method \<and> covers perm w" for p m w
    using append(1,4) by (auto simp: task_perm_def has_perm_iff)
  ultimately show ?thesis by auto
qed

theorem grant_is_exact_witness:
  "task_perm (fst (grant_to_task (Some 4096) \<lparr>tc_arc = None, tc_vm = 1, tc_phys = 0, tc_page = []\<rparr> ''A'' None Perm_RW))
     ''A'' None Perm_R"
proof -
  let ?t = "\<lparr>tc_arc = None, tc_vm = 1, tc_phys = 0, tc_page = []\<rparr>"
  have ok: "task_ok ?t" by (simp add: task_ok_def)
  obtain t' where t': "grant_to_task (Some 4096) ?t ''A'' None Perm_RW = (t', Inr ())"
    by (simp add: grant_to_task_def install_caps_def caps_eval Let_def)
  from grant_is_exact [OF ok t'] have "task_perm t' ''A'' None Perm_R" by simp
  with t' show ?thesis by simp
qed

end
