(* ===== verification/Caps_Window.thy ===== *)
theory Caps_Window
  imports Caps_Props
begin

text \<open>
  The supervisor window: a decoder for the documented entry format, and the proof that it reads
  back the capabilities \<open>serialize_to_page\<close> wrote, within the window.
\<close>

section \<open>Decoding\<close>

definition dec32 :: "u8 list \<Rightarrow> nat" where
  "dec32 bs = unat (bs ! 0) + 256 * unat (bs ! 1) + 65536 * unat (bs ! 2) + 16777216 * unat (bs ! 3)"

definition dec_str :: "u8 list \<Rightarrow> string" where
  "dec_str bs = map (\<lambda>b. char_of (unat b)) bs"

text \<open>A length-prefixed field, padded to a multiple of four.\<close>

definition dec_field :: "u8 list \<Rightarrow> string \<times> u8 list" where
  "dec_field bs = (let n = dec32 bs in (dec_str (take n (drop 4 bs)), drop (4 + n + (4 - n mod 4) mod 4) bs))"

fun decode_caps :: "nat \<Rightarrow> u8 list \<Rightarrow> cap list option" where
  "decode_caps 0 bs = Some []"
| "decode_caps (Suc n) bs =
     (let (path, bs1) = dec_field bs;
          (method, bs2) = (if dec32 bs1 = 4294967295 then (None, drop 4 bs1)
                           else case dec_field bs1 of (m, r) \<Rightarrow> (Some m, r))
      in case (perm_from_u8 (hd bs2), decode_caps n (drop 4 bs2)) of
           (Some p, Some cs) \<Rightarrow> Some (\<lparr>cap_path = path, cap_method = method, cap_perm = p\<rparr> # cs)
         | _ \<Rightarrow> None)"

definition decode_window :: "u8 list \<Rightarrow> cap list option" where
  "decode_window page = decode_caps (dec32 page) (drop 4 page)"

section \<open>Reading back\<close>

lemma length_le32 [simp]: "length (le32 n) = 4"
  by (simp add: le32_def)

lemma length_pad4: "length (pad4 off) = (4 - off mod 4) mod 4"
  by (simp add: pad4_def)

lemma le32_eq:
  "le32 n = [of_nat n, of_nat (n div 256), of_nat (n div 65536), of_nat (n div 16777216)]"
  by (simp add: le32_def upt_conv_Cons)

lemma base256:
  fixes n :: nat
  shows "n mod 256 + 256 * (n div 256 mod 256) + 65536 * (n div 65536 mod 256)
    + 16777216 * (n div 16777216) = n"
proof -
  define q1 q2 q3 where "q1 = n div 256" and "q2 = q1 div 256" and "q3 = q2 div 256"
  have d: "n div 65536 = q2" "n div 16777216 = q3"
    by (simp_all add: q1_def q2_def q3_def flip: div_mult2_eq)
  have "n = 256 * q1 + n mod 256" "q1 = 256 * q2 + q1 mod 256" "q2 = 256 * q3 + q2 mod 256"
    by (simp_all add: q1_def q2_def q3_def)
  then show ?thesis unfolding d q1_def [symmetric] by linarith
qed

lemma dec32_le32:
  assumes "n < 4294967296"
  shows "dec32 (le32 n @ bs) = n"
proof -
  have "n div 16777216 < 256" using assms by auto
  then show ?thesis using base256 [of n] by (simp add: dec32_def le32_eq unat_of_nat)
qed

lemma unat_of_char: "unat (of_char c :: u8) = of_char c"
proof -
  have "(of_char c :: u8) = of_nat (of_char c)" by (simp add: of_nat_of_char)
  moreover have "(of_char c :: nat) < 256" by (rule nat_of_char_less_256)
  ultimately show ?thesis by (simp add: unat_of_nat)
qed

lemma dec_str_bytes [simp]: "dec_str (str_bytes s) = s"
  by (simp add: dec_str_def str_bytes_def unat_of_char comp_def)

lemma length_str_bytes [simp]: "length (str_bytes s) = length s"
  by (simp add: str_bytes_def)

lemma dec_field_bytes:
  assumes "off mod 4 = 0" "length s < 4294967295"
  shows "dec_field (field_bytes off s @ bs) = (s, bs)"
proof -
  have "(off + 4 + length s) mod 4 = length s mod 4" using assms(1) by presburger
  then have len: "length (pad4 (off + 4 + length s)) = (4 - length s mod 4) mod 4"
    by (simp add: length_pad4)
  have "dec32 (field_bytes off s @ bs) = length s"
    using assms(2) by (simp add: field_bytes_def dec32_le32)
  then show ?thesis
    using len by (simp add: dec_field_def Let_def field_bytes_def)
qed

lemma pad_to_4:
  fixes n :: nat
  shows "(4 + n + (4 - n mod 4) mod 4) mod 4 = 0" "(4 - n mod 4) mod 4 \<le> 3"
proof -
  have "n mod 4 < 4" by simp
  then consider "n mod 4 = 0" | "n mod 4 = 1" | "n mod 4 = 2" | "n mod 4 = 3" by linarith
  then show "(4 + n + (4 - n mod 4) mod 4) mod 4 = 0" by cases (simp_all, presburger+)
  show "(4 - n mod 4) mod 4 \<le> 3" using mod_less_divisor [of 4 "4 - n mod 4"] by linarith
qed

lemma length_field_bytes:
  assumes "off mod 4 = 0"
  shows "length (field_bytes off s) mod 4 = 0" "length (field_bytes off s) \<le> 7 + length s"
proof -
  have "(off + 4 + length s) mod 4 = length s mod 4" using assms by presburger
  then have "length (field_bytes off s) = 4 + length s + (4 - length s mod 4) mod 4"
    by (simp add: field_bytes_def length_pad4)
  then show "length (field_bytes off s) mod 4 = 0" "length (field_bytes off s) \<le> 7 + length s"
    using pad_to_4 [of "length s"] by simp_all
qed

lemma perm_roundtrip [simp]: "perm_from_u8 (perm_as_u8 p) = Some p"
  by (cases p) (simp_all add: perm_from_u8_def perm_as_u8_def)

text \<open>One entry, and the whole body.\<close>

definition entry_ok :: "cap \<Rightarrow> bool" where
  "entry_ok c \<longleftrightarrow> length (cap_path c) < 4294967295
     \<and> (case cap_method c of Some m \<Rightarrow> length m < 4294967295 | None \<Rightarrow> True)"

definition entry_bound :: "cap \<Rightarrow> nat" where
  "entry_bound c = 20 + length (cap_path c) + (case cap_method c of Some m \<Rightarrow> length m | None \<Rightarrow> 0)"

lemma length_cap_entry:
  assumes "off mod 4 = 0"
  shows "length (cap_entry off c) mod 4 = 0" "length (cap_entry off c) \<le> entry_bound c"
proof -
  let ?p = "field_bytes off (cap_path c)"
  have p: "length ?p mod 4 = 0" "length ?p \<le> 7 + length (cap_path c)"
    using length_field_bytes [OF assms] by auto
  have off: "(off + length ?p) mod 4 = 0" using assms p(1) by presburger
  show "length (cap_entry off c) mod 4 = 0"
    using p(1) length_field_bytes(1) [OF off]
    by (auto simp: cap_entry_def Let_def split: option.splits)
  have "length (field_bytes (off + length ?p) m) \<le> 7 + length m" for m
    using length_field_bytes(2) [OF off] .
  from this [of "the (cap_method c)"] show "length (cap_entry off c) \<le> entry_bound c"
    using p(2) by (auto simp: cap_entry_def entry_bound_def Let_def split: option.splits)
qed

lemma decode_entry:
  assumes "off mod 4 = 0" "entry_ok c"
  shows "decode_caps (Suc n) (cap_entry off c @ bs) = map_option ((#) c) (decode_caps n bs)"
proof -
  let ?p = "field_bytes off (cap_path c)"
  have off: "(off + length ?p) mod 4 = 0"
    using assms(1) length_field_bytes(1) [OF assms(1), of "cap_path c"] by presburger
  have p: "dec_field (?p @ r) = (cap_path c, r)" for r
    using assms by (intro dec_field_bytes) (auto simp: entry_ok_def)
  show ?thesis
  proof (cases "cap_method c")
    case None
    then show ?thesis
      using p by (cases c) (simp add: cap_entry_def dec32_le32 split: option.splits)
  next
    case (Some m)
    let ?m = "field_bytes (off + length ?p) m"
    have "length m < 4294967295" using assms(2) Some by (simp add: entry_ok_def)
    then have m: "dec_field (?m @ r) = (m, r)" "dec32 (?m @ r) \<noteq> 4294967295" for r
      using dec_field_bytes [OF off] by (simp_all add: field_bytes_def dec32_le32)
    then show ?thesis using Some p m by (cases c) (simp add: cap_entry_def Let_def split: option.splits)
  qed
qed

lemma serialize_loop_decode:
  assumes "off mod 4 = 0" "\<forall>c\<in>set caps. entry_ok c"
  shows "\<exists>k\<le>length caps. fst (serialize_loop caps off n) = n + k
    \<and> decode_caps k (snd (serialize_loop caps off n) @ bs) = Some (take k caps)"
  using assms
proof (induction caps arbitrary: off n)
  case (Cons c cs)
  show ?case
  proof (cases "serialize_loop (c # cs) off n = (n, [])")
    case False
    let ?e = "cap_entry off c"
    have eq: "serialize_loop (c # cs) off n =
        (fst (serialize_loop cs (off + length ?e) (n + 1)), ?e @ snd (serialize_loop cs (off + length ?e) (n + 1)))"
      using False by (auto simp: Let_def split: if_splits)
    have "(off + length ?e) mod 4 = 0"
      using Cons.prems(1) length_cap_entry(1) [OF Cons.prems(1), of c] by presburger
    from Cons.IH [OF this, of "n + 1"] Cons.prems(2) obtain k where k: "k \<le> length cs"
      "fst (serialize_loop cs (off + length ?e) (n + 1)) = n + 1 + k"
      "decode_caps k (snd (serialize_loop cs (off + length ?e) (n + 1)) @ bs) = Some (take k cs)"
      by auto
    with Cons.prems show ?thesis
      by (intro exI [of _ "Suc k"]) (simp add: eq decode_entry del: serialize_loop.simps decode_caps.simps)
  qed (auto intro: exI [of _ 0])
qed simp

lemma serialize_loop_length:
  assumes "off mod 4 = 0" "off \<le> CAP_SLOT_SIZE"
  shows "off + length (snd (serialize_loop caps off n)) \<le> CAP_SLOT_SIZE"
  using assms
proof (induction caps arbitrary: off n)
  case (Cons c cs)
  let ?e = "cap_entry off c"
  have e: "length ?e \<le> entry_bound c" "(off + length ?e) mod 4 = 0"
    using length_cap_entry [OF Cons.prems(1), of c] Cons.prems(1) by presburger+
  show ?case
  proof (cases "off + entry_bound c \<le> CAP_SLOT_SIZE")
    case True
    with Cons.IH [OF e(2), of "n + 1"] e(1) show ?thesis by (auto simp: entry_bound_def Let_def)
  next
    case False
    with Cons.prems show ?thesis by (simp add: entry_bound_def)
  qed
qed simp

lemma serialize_loop_all:
  assumes "off mod 4 = 0" "off + sum_list (map entry_bound caps) \<le> CAP_SLOT_SIZE"
  shows "fst (serialize_loop caps off n) = n + length caps"
  using assms
proof (induction caps arbitrary: off n)
  case (Cons c cs)
  let ?e = "cap_entry off c"
  have e: "length ?e \<le> entry_bound c" "(off + length ?e) mod 4 = 0"
    using length_cap_entry [OF Cons.prems(1), of c] Cons.prems(1) by presburger+
  with Cons.IH [OF e(2), of "n + 1"] Cons.prems(2) show ?case
    by (auto simp: entry_bound_def Let_def split: option.splits)
qed simp

lemma valid_entry_ok: "validate_cap c = Inr () \<Longrightarrow> entry_ok c"
  by (auto simp: validate_cap_def entry_ok_def bad_method_def MAX_CAP_PATH_LEN_def
      MAX_CAP_METHOD_LEN_def Let_def split: if_splits option.splits)

section \<open>Properties\<close>

text \<open>the supervisor window mirrors the capability set. For a validated set of at most the
  maximal number of entries the serialized window has exactly the size of the slot, and reading
  it back by the documented format gives a prefix of the set, the whole set when it fits.\<close>

theorem window_reads_back:
  assumes "valid_caps caps" "length caps \<le> MAX_CAPS_PER_TASK"
  shows "length (serialize_to_page caps) = CAP_SLOT_SIZE
    \<and> (\<exists>k\<le>length caps. decode_window (serialize_to_page caps) = Some (take k caps)
         \<and> (4 + sum_list (map entry_bound caps) \<le> CAP_SLOT_SIZE \<longrightarrow> k = length caps))"
proof -
  let ?r = "serialize_loop caps 4 0"
  let ?z = "replicate (CAP_SLOT_SIZE - length (le32 (fst ?r) @ snd ?r)) (0::u8)"
  have ok: "\<forall>c\<in>set caps. entry_ok c" using assms(1) valid_entry_ok by (auto simp: valid_caps_def)
  have len: "4 + length (snd ?r) \<le> CAP_SLOT_SIZE"
    by (rule serialize_loop_length) (simp_all add: CAP_SLOT_SIZE_def)
  obtain k where k: "k \<le> length caps" "fst ?r = k" "decode_caps k (snd ?r @ ?z) = Some (take k caps)"
    using serialize_loop_decode [OF _ ok, of 4 0 ?z] by auto
  have page: "serialize_to_page caps = le32 k @ snd ?r @ ?z"
    using k(2) by (simp add: serialize_to_page_def Let_def)
  have "dec32 (serialize_to_page caps) = k"
    unfolding page using k(1) assms(2) by (intro dec32_le32) (simp add: MAX_CAPS_PER_TASK_def)
  then have "decode_window (serialize_to_page caps) = Some (take k caps)"
    using k(3) by (simp add: decode_window_def page)
  moreover have "length (serialize_to_page caps) = CAP_SLOT_SIZE" using len by (simp add: page)
  moreover have "4 + sum_list (map entry_bound caps) \<le> CAP_SLOT_SIZE \<Longrightarrow> k = length caps"
    using serialize_loop_all [of 4 caps 0] k(2) by simp
  ultimately show ?thesis using k(1) by blast
qed

theorem window_reads_back_witness:
  "decode_window (serialize_to_page demo_caps) = Some demo_caps"
proof -
  have "length demo_caps \<le> MAX_CAPS_PER_TASK" by (simp add: demo_caps_def MAX_CAPS_PER_TASK_def)
  moreover have "4 + sum_list (map entry_bound demo_caps) \<le> CAP_SLOT_SIZE"
    by (simp add: demo_caps_def entry_bound_def CAP_SLOT_SIZE_def)
  ultimately show ?thesis using window_reads_back [OF demo_caps_valid(1)] by auto
qed

end
