(* ===== verification/Caps_Init.thy ===== *)
theory Caps_Init
  imports Caps_Props
begin

text \<open>
  The capabilities of INIT (\<open>full_caps_for_init\<close> in \<open>kernel/src/caps/mod.rs\<close>): the enumeration in
  the order of the source, and that each of its entries can be used.
\<close>

section \<open>The enumeration\<close>

definition objs :: "string list \<Rightarrow> (string \<times> string option) list" where
  "objs ps = map (\<lambda>p. (p, None)) ps"

definition meths :: "string \<Rightarrow> string list \<Rightarrow> (string \<times> string option) list" where
  "meths p ms = map (\<lambda>m. (p, Some m)) ms"

text \<open>The directories whose contents are enumerated further on.\<close>

definition init_tops :: "string list" where
  "init_tops = [''A'', ''B'', ''sys'', ''dev'', ''drivers'', ''driver'', ''input'', ''kernel'', ''proc'']"

definition init_mids :: "string list" where
  "init_mids = [''sys/mm'', ''sys/arch'', ''sys/pci'', ''sys/platform'', ''sys/smp'', ''sys/sched'',
       ''sys/acpi'', ''sys/fs'', ''sys/input'', ''kernel/mm'', ''kernel/mm/heap'',
       ''kernel/mm/vmm'', ''kernel/smp'', ''kernel/sched'', ''kernel/acpi'', ''kernel/dump'',
       ''kernel/arch'', ''kernel/platform'', ''dev/pci'', ''dev/block'', ''dev/usb'',
       ''dev/input'']"

definition init_procs :: "string list" where
  "init_procs = [''proc/self'', ''proc/self/status'', ''proc/self/mem'', ''proc/self/args'',
       ''proc/self/caps'', ''proc/self/std'', ''proc/self/std/in'', ''proc/self/std/out'',
       ''proc/self/std/err'']"

definition init_vdirs :: "string list" where
  "init_vdirs = [''A'', ''B'', ''A/init'', ''B/EFI'', ''B/EFI/BEDROCK'']"

text \<open>The keys passed to \<open>add\<close>, each with \<open>Perm::RW\<close>.\<close>

definition init_groups :: "(string \<times> string option) list list" where
  "init_groups =
    [objs [''''],
     objs init_tops,
     objs [''sys/version'', ''sys/phys_mem'', ''sys/cpus'', ''sys/features''],
     objs [''dev/fb''],
     meths ''dev/fb'' [''mode'', ''clear''],
     objs [''dev/random''],
     objs [''dev/urandom''],
     objs init_mids,
     objs [''sys/arch/satp''],
     concat (map (\<lambda>prefix. objs [prefix @ ''/debugserial'', prefix @ ''/audio'']
              @ meths (prefix @ ''/audio'') [''play_tone'', ''play_pcm'']
              @ objs [prefix @ ''/ps2'', prefix @ ''/usb'']) [''drivers'', ''driver'']),
     objs [''dev/pci'', ''dev/pci/count'', ''dev/pci_count'', ''dev/block'', ''dev/block/count'',
       ''dev/block_count'', ''dev/usb'', ''dev/usb/count'', ''dev/input'',
       ''dev/input/devices'', ''dev/input/events'', ''dev/input/overflows'', ''dev/input/kbd''],
     meths ''dev/input/kbd'' [''get'', ''flush''],
     objs [''input/devices'', ''input/events'', ''input/overflows'', ''input/kbd''],
     meths ''input/kbd'' [''get'', ''flush''],
     objs [''sys/mm/layout'', ''sys/mm/physmap'', ''sys/arch/cpufeat'', ''sys/arch/paging'',
       ''sys/arch/lapic'', ''sys/arch/satp'', ''sys/pci/ecam'', ''sys/platform/apic'',
       ''sys/platform/ioapic'', ''sys/platform/pit'', ''sys/platform/interrupts'',
       ''sys/smp/count'', ''sys/sched/counts'', ''sys/acpi/cpus'', ''sys/acpi/mcfg'',
       ''sys/acpi/dmar'', ''sys/acpi/tables'', ''sys/fs/mounts'', ''sys/input/ps2''],
     objs [''kernel/mm/heap'', ''kernel/mm/heap/chunks'', ''kernel/mm/heap_chunks'',
       ''kernel/mm/phys'', ''kernel/mm/vmm'', ''kernel/mm/vmm/clones'',
       ''kernel/mm/vmm_clones'', ''kernel/mm/vmm/cpu_roots'', ''kernel/mm/vmm_cpu_roots'',
       ''kernel/mm/fault''],
     meths ''kernel/mm/vmm'' [''translate''],
     objs [''kernel/arch/syscall'', ''kernel/arch/gdt''],
     objs [''kernel/smp/cpus'', ''kernel/smp/states'', ''kernel/smp/ap_ready'',
       ''kernel/sched/snapshot'', ''kernel/sched/queue'', ''kernel/sched/lineage'',
       ''kernel/sched/kstacks''],
     objs [''kernel/acpi/platform''],
     objs [''kernel/dump/in_progress'', ''kernel/dump/last''],
     objs [''kernel/platform/apic''],
     objs [''kernel/timer''],
     meths ''kernel/timer'' [''sleep'', ''sleep_ms'', ''until'', ''epoch_secs''],
     objs [''kernel/bootargs''],
     objs init_procs,
     meths ''proc/self'' [''exit'', ''kill'', ''spawn_caps'', ''brk'', ''mmap'', ''munmap'',
       ''wait''],
     meths ''proc/self/std/out'' [''get''],
     meths ''proc/self/std/err'' [''get''],
     meths ''proc/self/std/in'' [''get''],
     concat (map (\<lambda>d. objs [d] @ meths d [''create'', ''mkdir'', ''rmdir'', ''unlink'',
       ''rename'', ''symlink'', ''link'', ''mkfifo'', ''mknod'', ''stat'', ''lstat'',
       ''readlink'', ''truncate'', ''chmod'', ''chown'', ''utimens''])
       init_vdirs),
     concat (map (\<lambda>f. objs [f] @ meths f [''stat'', ''truncate'', ''chmod'', ''chown'',
       ''utimens'', ''readlink''])
              [''A/init/test'', ''A/init'', ''B/EFI/BEDROCK/INIT'',
       ''B/EFI/BEDROCK/STARTUP.WAV'', ''B/EFI/BEDROCK/DOOM'', ''B/EFI/BEDROCK/FREEDOOM.WAD'',
       ''B/EFI/BEDROCK/POSIXCHECK''])]"

text \<open>The closure \<open>add\<close>.\<close>

fun add_cap :: "cap \<Rightarrow> cap list \<Rightarrow> cap list" where
  "add_cap new [] = [new]"
| "add_cap new (c # cs) =
     (if cap_path c = cap_path new \<and> cap_method c = cap_method new then
        (if covers (cap_perm c) (cap_perm new) then c # cs
         else if covers (cap_perm new) (cap_perm c) then c\<lparr>cap_perm := cap_perm new\<rparr> # cs
         else c # add_cap new cs)
      else c # add_cap new cs)"

definition full_caps_for_init :: "cap list" where
  "full_caps_for_init =
     take MAX_CAPS_PER_TASK
       (fold (\<lambda>(p, m). add_cap (mk_cap p m Perm_RW)) (concat init_groups) [])"

section \<open>Reachability of the entries\<close>

definition rw_keys :: "(string \<times> string option) set \<Rightarrow> cap list \<Rightarrow> bool" where
  "rw_keys K caps \<longleftrightarrow> (\<forall>c\<in>set caps. cap_perm c = Perm_RW) \<and> (\<lambda>c. (cap_path c, cap_method c)) ` set caps = K
     \<and> distinct (map (\<lambda>c. (cap_path c, cap_method c)) caps)"

lemma rw_keys_add:
  assumes "rw_keys K caps"
  shows "rw_keys (insert (p, m) K) (add_cap (mk_cap p m Perm_RW) caps)"
  using assms
proof (induction caps arbitrary: K)
  case (Cons c cs)
  let ?k = "(cap_path c, cap_method c)"
  have cs: "rw_keys (K - {?k}) cs" and k: "?k \<in> K" and c: "cap_perm c = Perm_RW"
    using Cons.prems by (fastforce simp: rw_keys_def image_iff)+
  show ?case
  proof (cases "?k = (p, m)")
    case True
    with Cons.prems k c show ?thesis by (auto simp: rw_keys_def insert_absorb)
  next
    case False
    with Cons.IH [OF cs] c k show ?thesis by (auto simp: rw_keys_def)
  qed
qed (simp add: rw_keys_def)

lemma rw_keys_fold:
  "rw_keys K caps \<Longrightarrow>
   rw_keys (set ks \<union> K) (fold (\<lambda>(p, m). add_cap (mk_cap p m Perm_RW)) ks caps)"
proof (induction ks arbitrary: K caps)
  case (Cons k ks)
  obtain p m where "k = (p, m)" by force
  with Cons.IH [OF rw_keys_add [OF Cons.prems, of p m]] show ?case by simp
qed simp

text \<open>
  What makes a key usable: its path and method are valid, the directories above it are among
  \<open>init_dirs\<close>, and a method sits on an object of \<open>init_methods\<close>.
\<close>

definition init_dirs :: "string list" where
  "init_dirs = init_tops @ init_procs @ init_vdirs @ init_mids"

text \<open>The directories above a path, by cutting it before each separator.\<close>

fun dir_prefixes :: "string \<Rightarrow> string list" where
  "dir_prefixes [] = []"
| "dir_prefixes (x # xs) = (if x = CHR ''/'' then [[]] else []) @ map ((#) x) (dir_prefixes xs)"

lemma dir_prefixes_append:
  "CHR ''/'' \<notin> set x \<Longrightarrow> dir_prefixes (x @ CHR ''/'' # r) = x # map (\<lambda>q. x @ CHR ''/'' # q) (dir_prefixes r)"
  by (induction x) (auto simp: comp_def)

lemma dir_prefixes_single: "CHR ''/'' \<notin> set x \<Longrightarrow> dir_prefixes x = []"
  by (induction x) auto

lemma join_take_in_dir_prefixes:
  "plain cs \<Longrightarrow> 1 \<le> n \<Longrightarrow> n < length cs \<Longrightarrow> join_path (take n cs) \<in> set (dir_prefixes (join_path cs))"
proof (induction cs arbitrary: n rule: induct_list012)
  case (3 x y zs)
  have x: "CHR ''/'' \<notin> set x" and pl: "plain (y # zs)" using "3.prems"(1) by (auto simp: plain_def)
  have eq: "dir_prefixes (join_path (x # y # zs)) =
      x # map (\<lambda>q. x @ CHR ''/'' # q) (dir_prefixes (join_path (y # zs)))"
    using dir_prefixes_append [OF x] by (simp add: join_path_def)
  show ?case
  proof (cases "n = 1")
    case True
    then show ?thesis unfolding eq by (simp add: join_path_def)
  next
    case False
    then obtain k where n: "n = Suc (Suc k)"
      using "3.prems"(2) by (metis One_nat_def Suc_le_D not_one_le_zero old.nat.exhaust)
    with "3.prems"(3) have "join_path (take (Suc k) (y # zs)) \<in> set (dir_prefixes (join_path (y # zs)))"
      by (intro "3.IH"(2) pl) auto
    then have "x @ CHR ''/'' # join_path (take (Suc k) (y # zs)) \<in> set (dir_prefixes (join_path (x # y # zs)))"
      unfolding eq by auto
    moreover have "join_path (take n (x # y # zs)) = x @ CHR ''/'' # join_path (take (Suc k) (y # zs))"
      by (simp add: n join_path_def)
    ultimately show ?thesis by simp
  qed
qed simp_all

definition path_ok :: "string \<Rightarrow> bool" where
  "path_ok p \<longleftrightarrow> validate_cap (mk_cap p None Perm_RW) = Inr ()
     \<and> list_all (\<lambda>d. d \<in> set init_dirs) (dir_prefixes p)
     \<and> (case segs p of a # b # _ \<Rightarrow> a = ''proc'' \<longrightarrow> b = ''self'' | _ \<Rightarrow> True)"

text \<open>Membership with the evaluation order of a loop.\<close>

fun mem_list :: "'a \<Rightarrow> 'a list \<Rightarrow> bool" where
  "mem_list x [] = False"
| "mem_list x (y # ys) = (if x = y then True else mem_list x ys)"

lemma mem_list_iff: "x \<in> set ys \<longleftrightarrow> mem_list x ys"
  by (induction ys) auto

lemma init_dirs_granted: "d \<in> set init_dirs \<Longrightarrow> (d, None) \<in> set (concat init_groups)"
  by (auto simp: init_dirs_def init_groups_def objs_def)

lemma printable:
  "is_control (CHR ''.'') = False" "is_control (CHR ''/'') = False"
  "is_control (CHR ''2'') = False" "is_control (CHR ''A'') = False"
  "is_control (CHR ''B'') = False" "is_control (CHR ''C'') = False"
  "is_control (CHR ''D'') = False" "is_control (CHR ''E'') = False"
  "is_control (CHR ''F'') = False" "is_control (CHR ''H'') = False"
  "is_control (CHR ''I'') = False" "is_control (CHR ''K'') = False"
  "is_control (CHR ''M'') = False" "is_control (CHR ''N'') = False"
  "is_control (CHR ''O'') = False" "is_control (CHR ''P'') = False"
  "is_control (CHR ''R'') = False" "is_control (CHR ''S'') = False"
  "is_control (CHR ''T'') = False" "is_control (CHR ''U'') = False"
  "is_control (CHR ''V'') = False" "is_control (CHR ''W'') = False"
  "is_control (CHR ''X'') = False" "is_control (CHR ''_'') = False"
  "is_control (CHR ''a'') = False" "is_control (CHR ''b'') = False"
  "is_control (CHR ''c'') = False" "is_control (CHR ''d'') = False"
  "is_control (CHR ''e'') = False" "is_control (CHR ''f'') = False"
  "is_control (CHR ''g'') = False" "is_control (CHR ''h'') = False"
  "is_control (CHR ''i'') = False" "is_control (CHR ''k'') = False"
  "is_control (CHR ''l'') = False" "is_control (CHR ''m'') = False"
  "is_control (CHR ''n'') = False" "is_control (CHR ''o'') = False"
  "is_control (CHR ''p'') = False" "is_control (CHR ''q'') = False"
  "is_control (CHR ''r'') = False" "is_control (CHR ''s'') = False"
  "is_control (CHR ''t'') = False" "is_control (CHR ''u'') = False"
  "is_control (CHR ''v'') = False" "is_control (CHR ''w'') = False"
  "is_control (CHR ''x'') = False" "is_control (CHR ''y'') = False"
  by (simp_all add: is_control_def)

lemmas path_eval =
  segs_def nonempty_pieces_def validate_cap_def bad_path_seg_def bad_method_def
  MAX_CAP_PATH_LEN_def MAX_CAP_METHOD_LEN_def printable mem_list_iff

text \<open>The objects that have methods.\<close>

definition init_method_objs :: "string list" where
  "init_method_objs = [''dev/fb'', ''drivers/audio'', ''driver/audio'', ''dev/input/kbd'', ''input/kbd'',
     ''kernel/mm/vmm'', ''kernel/timer'', ''proc/self'', ''proc/self/std/out'', ''proc/self/std/err'',
     ''proc/self/std/in'', ''A'', ''B'', ''A/init'', ''B/EFI'', ''B/EFI/BEDROCK'', ''A/init/test'',
     ''B/EFI/BEDROCK/INIT'', ''B/EFI/BEDROCK/STARTUP.WAV'', ''B/EFI/BEDROCK/DOOM'',
     ''B/EFI/BEDROCK/FREEDOOM.WAD'', ''B/EFI/BEDROCK/POSIXCHECK'']"

fun key_ok :: "string \<times> string option \<Rightarrow> bool" where
  "key_ok (p, None) = path_ok p"
| "key_ok (p, Some m) = (p \<in> set init_method_objs \<and> \<not> bad_method m)"

lemma key_ok_objs: "list_all key_ok (objs ps) = list_all path_ok ps"
  by (induction ps) (auto simp: objs_def)

lemma key_ok_meths:
  "list_all key_ok (meths p (m # ms)) =
     (p \<in> set init_method_objs \<and> list_all (\<lambda>m. \<not> bad_method m) (m # ms))"
  by (induction ms) (auto simp: meths_def)

lemma list_all_concat_map: "list_all P (concat (map f xs)) = list_all (\<lambda>x. list_all P (f x)) xs"
  by (induction xs) auto

lemma init_keys_ok: "list_all (list_all key_ok) init_groups"
  by (simp only: init_groups_def list.pred_inject key_ok_objs key_ok_meths list_all_concat_map
      list_all_append)
    (simp add: key_ok_objs key_ok_meths path_ok_def path_eval init_dirs_def init_method_objs_def init_tops_def init_procs_def
      init_vdirs_def init_mids_def)

lemma granted_rules:
  "(p, None) \<in> set (objs ps) \<longleftrightarrow> mem_list p ps" "(p, None) \<in> set (meths q ms) \<longleftrightarrow> False"
  "(p, None) \<in> set (concat (map f (x # xs))) \<longleftrightarrow>
     (if (p, None) \<in> set (f x) then True else (p, None) \<in> set (concat (map f xs)))"
  "(p, None) \<in> set (concat (map f [])) \<longleftrightarrow> False"
  "(p, None) \<in> set (concat (g # gs)) \<longleftrightarrow> (if (p, None) \<in> set g then True else (p, None) \<in> set (concat gs))"
  "(p, None) \<in> set (concat []) \<longleftrightarrow> False"
  "(p, None) \<in> set (a @ b) \<longleftrightarrow> (if (p, None) \<in> set a then True else (p, None) \<in> set b)"
  by (auto simp: objs_def meths_def mem_list_iff)

lemma init_method_objs_granted:
  "list_all (\<lambda>p. (p, None) \<in> set (concat init_groups)) init_method_objs"
  unfolding init_method_objs_def list.pred_inject init_groups_def init_tops_def init_procs_def
    init_vdirs_def init_mids_def
  by (simp only: granted_rules) simp

lemma init_length: "length (concat init_groups) \<le> MAX_CAPS_PER_TASK"
  by (simp add: init_groups_def objs_def meths_def init_tops_def init_procs_def init_vdirs_def
      init_mids_def MAX_CAPS_PER_TASK_def)

lemma init_rw_keys: "rw_keys (set (concat init_groups)) full_caps_for_init"
proof -
  let ?caps = "fold (\<lambda>(p, m). add_cap (mk_cap p m Perm_RW)) (concat init_groups) []"
  have keys: "rw_keys (set (concat init_groups)) ?caps"
    using rw_keys_fold [of "{}" "[]" "concat init_groups"] by (simp add: rw_keys_def)
  have "length caps = card K" if "rw_keys K caps" for K caps
    using that distinct_card [of "map (\<lambda>c. (cap_path c, cap_method c)) caps"] by (simp add: rw_keys_def)
  from this [OF keys] have "length ?caps = card (set (concat init_groups))" .
  also have "\<dots> \<le> MAX_CAPS_PER_TASK" using card_length init_length by (rule le_trans)
  finally have "full_caps_for_init = ?caps" by (simp only: full_caps_for_init_def take_all)
  then show ?thesis using keys by simp
qed

lemma init_has_perm: "has_perm full_caps_for_init p m w \<longleftrightarrow> (p, m) \<in> set (concat init_groups)"
proof -
  have eq: "(\<lambda>c. (cap_path c, cap_method c)) ` set full_caps_for_init = set (concat init_groups)"
    and rw: "\<And>c. c \<in> set full_caps_for_init \<Longrightarrow> cap_perm c = Perm_RW"
    using init_rw_keys by (auto simp: rw_keys_def)
  show ?thesis unfolding has_perm_iff eq [symmetric] using rw by (auto simp: image_iff)
qed

lemma init_key_facts:
  assumes "(p, m) \<in> set (concat init_groups)"
  shows "path_ok p" "validate_cap (mk_cap p m Perm_RW) = Inr ()" "(p, None) \<in> set (concat init_groups)"
proof -
  have ok: "key_ok k" if "k \<in> set (concat init_groups)" for k
    using init_keys_ok that by (auto simp: list_all_iff)
  show none: "(p, None) \<in> set (concat init_groups)"
    using assms ok [OF assms] init_method_objs_granted by (cases m) (auto simp: list_all_iff)
  show path: "path_ok p" using ok [OF none] by simp
  show "validate_cap (mk_cap p m Perm_RW) = Inr ()"
    using path ok [OF assms]
    by (cases m) (auto simp: path_ok_def validate_cap_def Let_def split: if_splits)
qed

lemma init_valid: "valid_caps full_caps_for_init" "methods_readable full_caps_for_init"
proof -
  have rw: "rw_keys (set (concat init_groups)) full_caps_for_init" by (rule init_rw_keys)
  have "validate_cap c = Inr () \<and> (cap_path c, None) \<in> set (concat init_groups)"
    if "c \<in> set full_caps_for_init" for c
  proof -
    have "(cap_path c, cap_method c) \<in> set (concat init_groups)" "cap_perm c = Perm_RW"
      using rw that unfolding rw_keys_def by blast+
    with init_key_facts [OF this(1)] show ?thesis by (cases c) simp
  qed
  then show "valid_caps full_caps_for_init" "methods_readable full_caps_for_init"
    by (simp_all add: valid_caps_def methods_readable_def init_has_perm)
qed

lemma init_usable:
  assumes "(p, m) \<in> set (concat init_groups)"
  shows "check_path_on sv (Some full_caps_for_init) (segs p) m Perm_RW = Inr ()"
proof -
  note facts = init_key_facts [OF assms]
  have plain: "plain (segs p)" by (auto simp: plain_def segs_def dest: nonempty_pieces_props)
  have jp: "join_path (segs p) = p" using validate_cap_segs [of "mk_cap p m Perm_RW"] facts(2) by simp
  have no_alias: "canonicalize_proc_alias sv (segs p) = Inr None"
    using facts(1) by (auto simp: canonicalize_proc_alias_def path_ok_def split: list.splits)
  have "has_perm full_caps_for_init (join_path (take n (segs p))) None Perm_R"
    if "1 \<le> n" "n < length (segs p)" for n
  proof -
    have "join_path (take n (segs p)) \<in> set (dir_prefixes p)"
      using join_take_in_dir_prefixes [OF plain that] jp by simp
    with facts(1) have "join_path (take n (segs p)) \<in> set init_dirs"
      by (auto simp: path_ok_def list_all_iff)
    then show ?thesis unfolding init_has_perm by (rule init_dirs_granted)
  qed
  then have "has_ancestor_r full_caps_for_init (segs p)" by (auto simp: has_ancestor_r_def list_all_iff)
  then have "has_ancestor_r_on full_caps_for_init (segs p)"
    using has_ancestor_r_on_eq [OF init_valid plain] by simp
  then show ?thesis
    unfolding check_path_on_Ok using no_alias facts(3) assms
    by (auto simp: has_perm_on_eq [OF init_valid(1) plain] jp init_has_perm)
qed

section \<open>Properties\<close>

text \<open>INIT can use everything it is granted. The enumerated set is validated, has no duplicate
  keys and loses nothing to truncation; for each key of the enumeration the access check on
  components grants reading and writing, so no directory above a granted object is missing.\<close>

theorem init_caps_usable:
  assumes "(p, m) \<in> set (concat init_groups)"
  shows "valid_caps full_caps_for_init
    \<and> distinct (map (\<lambda>c. (cap_path c, cap_method c)) full_caps_for_init)
    \<and> has_perm full_caps_for_init p m Perm_RW
    \<and> check_path_on sv (Some full_caps_for_init) (segs p) m Perm_RW = Inr ()"
  using init_valid(1) init_rw_keys init_has_perm init_usable [OF assms] assms
  by (simp add: rw_keys_def)

theorem init_caps_usable_witness:
  "check_path_on demo_view (Some full_caps_for_init) [''proc'', ''self'', ''std''] None Perm_RW = Inr ()"
proof -
  have "(''proc/self/std'', None) \<in> set (concat init_groups)"
    by (rule init_dirs_granted) (simp add: init_dirs_def init_procs_def)
  from init_caps_usable [OF this] show ?thesis by (simp add: caps_eval)
qed

end
