(* ===== verification/Timer_Queue.thy ===== *)
theory Timer_Queue
  imports Bedrock_Prelude
begin

text \<open>
  The queue of pending timers (\<open>kernel/src/services/timer_queue.rs\<close>). The source keeps the entries
  in a \<open>BinaryHeap\<close> ordered by reversed deadline. Of the heap it uses that \<open>peek\<close> and \<open>pop\<close> yield
  an entry with the smallest deadline; which one, among equal deadlines, is not specified. The
  model keeps the entries in a list and takes the position of that entry from a parameter
  \<open>sel\<close>; \<open>heap_sel sel\<close> states what the heap guarantees of it.
\<close>

record timer_id =
  ti_cpu :: nat
  ti_seq :: nat

record timer_entry =
  te_id :: timer_id
  te_deadline :: nat
  te_period :: "nat option"
  te_callback :: nat
  te_context :: nat

type_synonym timer_queue = "timer_entry list"

type_synonym heap_order = "timer_entry list \<Rightarrow> nat"

definition heap_sel :: "heap_order \<Rightarrow> bool" where
  "heap_sel sel \<longleftrightarrow> (\<forall>q. q \<noteq> [] \<longrightarrow>
     sel q < length q \<and> (\<forall>e\<in>set q. te_deadline (q ! sel q) \<le> te_deadline e))"

definition heap_peek :: "heap_order \<Rightarrow> timer_queue \<Rightarrow> timer_entry option" where
  "heap_peek sel q = (if sel q < length q then Some (q ! sel q) else None)"

definition heap_pop :: "heap_order \<Rightarrow> timer_queue \<Rightarrow> (timer_entry \<times> timer_queue) option" where
  "heap_pop sel q =
     (if sel q < length q then Some (q ! sel q, take (sel q) q @ drop (sel q + 1) q) else None)"

section \<open>Operations\<close>

definition tq_insert :: "timer_queue \<Rightarrow> timer_entry \<Rightarrow> timer_queue" where
  "tq_insert q e = e # q"

definition tq_cancel :: "timer_queue \<Rightarrow> timer_id \<Rightarrow> timer_queue \<times> bool" where
  "tq_cancel q i = (let q' = filter (\<lambda>e. te_id e \<noteq> i) q in (q', length q' \<noteq> length q))"

text \<open>The loop of \<open>remove\<close> over the drained entries.\<close>

fun tq_remove_loop :: "timer_id \<Rightarrow> timer_entry list \<Rightarrow> timer_entry option \<Rightarrow> timer_entry option \<times> timer_queue" where
  "tq_remove_loop i [] found = (found, [])"
| "tq_remove_loop i (e # es) found =
     (if te_id e = i \<and> found = None then tq_remove_loop i es (Some e)
      else case tq_remove_loop i es found of (f, rest) \<Rightarrow> (f, e # rest))"

definition tq_remove :: "timer_queue \<Rightarrow> timer_id \<Rightarrow> timer_entry option \<times> timer_queue" where
  "tq_remove q i = tq_remove_loop i q None"

definition next_deadline :: "heap_order \<Rightarrow> timer_queue \<Rightarrow> nat option" where
  "next_deadline sel q = map_option te_deadline (heap_peek sel q)"

function drain_expired :: "heap_order \<Rightarrow> timer_queue \<Rightarrow> nat \<Rightarrow> timer_entry list \<times> timer_queue" where
  "drain_expired sel q now_ns =
     (case heap_peek sel q of
        None \<Rightarrow> ([], q)
      | Some e \<Rightarrow>
          if te_deadline e \<le> now_ns then
            (case heap_pop sel q of
               None \<Rightarrow> ([], q)
             | Some (e', q') \<Rightarrow>
                 (case drain_expired sel q' now_ns of (es, r) \<Rightarrow> (e' # es, r)))
          else ([], q))"
  by pat_completeness auto
termination
  by (relation "measure (\<lambda>(sel, q, now). length q)") (auto simp: heap_pop_def split: if_splits)

declare drain_expired.simps [simp del]

section \<open>The heap as a minimum\<close>

lemma heap_peek_None [simp]: "heap_sel sel \<Longrightarrow> heap_peek sel q = None \<longleftrightarrow> q = []"
  by (auto simp: heap_sel_def heap_peek_def)

lemma heap_peek_Some:
  assumes "heap_sel sel" "heap_peek sel q = Some e"
  shows "e \<in> set q" "e' \<in> set q \<Longrightarrow> te_deadline e \<le> te_deadline e'"
proof -
  have e: "e = q ! sel q" "sel q < length q" using assms(2) by (auto simp: heap_peek_def split: if_splits)
  then show "e \<in> set q" by simp
  from e(2) have "q \<noteq> []" by auto
  with assms(1) e(1) show "e' \<in> set q \<Longrightarrow> te_deadline e \<le> te_deadline e'"
    unfolding heap_sel_def by blast
qed

lemma heap_pop_Some:
  assumes "heap_pop sel q = Some (e, q')"
  shows "heap_peek sel q = Some e" "mset q = add_mset e (mset q')" "length q = Suc (length q')"
proof -
  let ?i = "sel q"
  have i: "?i < length q" and e: "e = q ! ?i" and q': "q' = take ?i q @ drop (?i + 1) q"
    using assms by (auto simp: heap_pop_def split: if_splits)
  then have "q = take ?i q @ e # drop (?i + 1) q" by (simp add: id_take_nth_drop)
  then have "mset q = mset (take ?i q @ e # drop (?i + 1) q)" by simp
  then show m: "mset q = add_mset e (mset q')" by (simp add: q')
  then show "length q = Suc (length q')" by (metis size_add_mset size_mset)
  show "heap_peek sel q = Some e" using i e by (simp add: heap_peek_def)
qed

lemma heap_pop_peek: "heap_peek sel q = Some e \<Longrightarrow> \<exists>q'. heap_pop sel q = Some (e, q')"
  by (auto simp: heap_peek_def heap_pop_def split: if_splits)

lemma next_deadline_None [simp]: "heap_sel sel \<Longrightarrow> next_deadline sel q = None \<longleftrightarrow> q = []"
  by (simp add: next_deadline_def)

lemma next_deadline_Min:
  assumes "heap_sel sel"
  shows "next_deadline sel q = (if q = [] then None else Some (Min (te_deadline ` set q)))"
proof (cases "heap_peek sel q")
  case (Some e)
  have "Min (te_deadline ` set q) = te_deadline e"
    using heap_peek_Some [OF assms Some] by (intro Min_eqI) auto
  with Some heap_peek_Some(1) [OF assms Some] show ?thesis by (auto simp: next_deadline_def)
qed (use assms in \<open>simp add: next_deadline_def\<close>)

text \<open>Draining splits the queue at the current time.\<close>

lemma drain_expired_spec:
  assumes "heap_sel sel" "drain_expired sel q now = (es, r)"
  shows "mset q = mset es + mset r \<and> (\<forall>e\<in>set es. te_deadline e \<le> now)
    \<and> (\<forall>e\<in>set r. now < te_deadline e) \<and> sorted (map te_deadline es)"
  using assms
proof (induction sel q now arbitrary: es r rule: drain_expired.induct)
  case (1 sel q now)
  show ?case
  proof (cases "heap_peek sel q")
    case None
    with 1 show ?thesis by (auto simp: drain_expired.simps [of sel q])
  next
    case (Some e)
    note min = heap_peek_Some [OF "1.prems"(1) Some]
    show ?thesis
    proof (cases "te_deadline e \<le> now")
      case False
      with 1 Some min(2) show ?thesis by (fastforce simp: drain_expired.simps [of sel q])
    next
      case True
      obtain q' where pop: "heap_pop sel q = Some (e, q')" using heap_pop_peek [OF Some] by blast
      obtain es' where es: "drain_expired sel q' now = (es', r)" "es = e # es'"
        using "1.prems"(2) Some True pop
        by (auto simp: drain_expired.simps [of sel q] split: prod.splits)
      note IH = "1.IH" [OF Some True pop refl "1.prems"(1) es(1)]
      have q: "mset q = add_mset e (mset q')" by (rule heap_pop_Some(2) [OF pop])
      have "set q = insert e (set es' \<union> set r)"
        using arg_cong [OF q, of set_mset] IH arg_cong [of "mset q'" _ set_mset] by auto
      with IH min True q show ?thesis by (auto simp: es(2))
    qed
  qed
qed

end
