(* ===== verification/Universal_Timer.thy ===== *)
theory Universal_Timer
  imports Timer_Queue
begin

text \<open>
  The per-CPU timer bases (\<open>kernel/src/services/universal_timer.rs\<close>). Each base is a timer queue;
  \<open>ut_armed\<close> is what the CPU's one-shot clock event is programmed to, \<open>ut_ipi\<close> the CPUs with a
  reschedule interrupt on the way, \<open>ut_fired\<close> the callbacks run so far. Operations run under the
  base's lock with interrupts off and are atomic; indexing a base that does not exist is a panic.
\<close>

record utimer =
  ut_bases :: "timer_queue list"
  ut_next_seq :: nat
  ut_armed :: "nat option list"
  ut_ipi :: "nat set"
  ut_fired :: "(nat \<times> nat) list"
  ut_resched :: "bool list"

definition ut_new :: "nat \<Rightarrow> utimer" where
  "ut_new max_cpus =
     \<lparr>ut_bases = replicate max_cpus [], ut_next_seq = 1, ut_armed = replicate max_cpus None,
      ut_ipi = {}, ut_fired = [], ut_resched = replicate max_cpus False\<rparr>"

section \<open>Operations\<close>

text \<open>\<open>reprogram\<close>: the clock event of the calling CPU, set to the earliest deadline or stopped.\<close>

definition reprogram :: "heap_order \<Rightarrow> nat \<Rightarrow> utimer \<Rightarrow> timer_queue \<Rightarrow> utimer" where
  "reprogram sel cur ut q = ut\<lparr>ut_armed := (ut_armed ut)[cur := next_deadline sel q]\<rparr>"

definition put_base :: "utimer \<Rightarrow> nat \<Rightarrow> timer_queue \<Rightarrow> utimer" where
  "put_base ut cpu q = ut\<lparr>ut_bases := (ut_bases ut)[cpu := q]\<rparr>"

fun rearm_periodic :: "nat \<Rightarrow> timer_entry list \<Rightarrow> timer_queue \<Rightarrow> timer_queue" where
  "rearm_periodic now [] q = q"
| "rearm_periodic now (e # es) q =
     rearm_periodic now es
       (case te_period e of
          Some period \<Rightarrow> tq_insert q (e\<lparr>te_deadline := saturating_add64 now period\<rparr>)
        | None \<Rightarrow> q)"

definition tick :: "heap_order \<Rightarrow> nat \<Rightarrow> nat \<Rightarrow> utimer \<Rightarrow> utimer option" where
  "tick sel cpu now ut =
     (if cpu < length (ut_bases ut) then
        (case drain_expired sel (ut_bases ut ! cpu) now of
           (expired, rest) \<Rightarrow>
             let q = rearm_periodic now expired rest;
                 ut1 = (put_base ut cpu q)
                         \<lparr>ut_fired := ut_fired ut @ map (\<lambda>e. (te_callback e, te_context e)) expired\<rparr>;
                 ut2 = reprogram sel cpu ut1 q
             in Some (ut2\<lparr>ut_resched := (ut_resched ut2)[cpu := True], ut_ipi := ut_ipi ut2 - {cpu}\<rparr>))
      else None)"

text \<open>The common part of \<open>set\<close> and \<open>set_periodic\<close>.\<close>

definition ut_add ::
  "heap_order \<Rightarrow> nat \<Rightarrow> utimer \<Rightarrow> nat \<Rightarrow> nat option \<Rightarrow> nat \<Rightarrow> nat \<Rightarrow> (utimer \<times> timer_id) option" where
  "ut_add sel cpu ut deadline period cb ctx =
     (let i = \<lparr>ti_cpu = cpu, ti_seq = ut_next_seq ut\<rparr>;
          ut1 = ut\<lparr>ut_next_seq := wadd64 (ut_next_seq ut) 1\<rparr>
      in if cpu < length (ut_bases ut) then
           (let q = ut_bases ut ! cpu;
                q' = tq_insert q \<lparr>te_id = i, te_deadline = deadline, te_period = period,
                                  te_callback = cb, te_context = ctx\<rparr>;
                ut2 = put_base ut1 cpu q'
            in Some (if next_deadline sel q \<noteq> next_deadline sel q' then reprogram sel cpu ut2 q' else ut2, i))
         else None)"

definition ut_set :: "heap_order \<Rightarrow> nat \<Rightarrow> utimer \<Rightarrow> nat \<Rightarrow> nat \<Rightarrow> nat \<Rightarrow> (utimer \<times> timer_id) option" where
  "ut_set sel cpu ut deadline cb ctx = ut_add sel cpu ut deadline None cb ctx"

definition ut_set_periodic ::
  "heap_order \<Rightarrow> nat \<Rightarrow> nat \<Rightarrow> utimer \<Rightarrow> nat \<Rightarrow> nat \<Rightarrow> nat \<Rightarrow> (utimer \<times> timer_id) option" where
  "ut_set_periodic sel cpu now ut interval cb ctx =
     ut_add sel cpu ut (saturating_add64 now interval) (Some interval) cb ctx"

definition ut_cancel :: "heap_order \<Rightarrow> nat \<Rightarrow> utimer \<Rightarrow> timer_id \<Rightarrow> (utimer \<times> bool) option" where
  "ut_cancel sel cur ut i =
     (if ti_cpu i < length (ut_bases ut) then
        (let q = ut_bases ut ! ti_cpu i in
         case tq_cancel q i of
           (q', removed) \<Rightarrow>
             let ut1 = put_base ut (ti_cpu i) q'
             in Some (if removed \<and> next_deadline sel q \<noteq> next_deadline sel q' \<and> ti_cpu i = cur
                      then reprogram sel cur ut1 q' else ut1, removed))
      else None)"

text \<open>\<open>migrate\<close>; the inner option is the result of the source.\<close>

definition ut_migrate ::
  "heap_order \<Rightarrow> nat \<Rightarrow> utimer \<Rightarrow> timer_id \<Rightarrow> nat \<Rightarrow> (utimer \<times> timer_id option) option" where
  "ut_migrate sel cur ut i target =
     (if ti_cpu i < length (ut_bases ut) then
        (case tq_remove (ut_bases ut ! ti_cpu i) i of
           (None, q) \<Rightarrow> Some (put_base ut (ti_cpu i) q, None)
         | (Some e, q) \<Rightarrow>
             let ut1 = put_base ut (ti_cpu i) q;
                 new_id = \<lparr>ti_cpu = target, ti_seq = ut_next_seq ut1\<rparr>;
                 ut2 = ut1\<lparr>ut_next_seq := wadd64 (ut_next_seq ut1) 1\<rparr>
             in if target < length (ut_bases ut2) then
                  (let tq = ut_bases ut2 ! target;
                       tq' = tq_insert tq (e\<lparr>te_id := new_id\<rparr>);
                       ut3 = put_base ut2 target tq'
                   in Some (if next_deadline sel tq \<noteq> next_deadline sel tq'
                            then if target = cur then reprogram sel cur ut3 tq'
                                 else ut3\<lparr>ut_ipi := insert target (ut_ipi ut3)\<rparr>
                            else ut3, Some new_id))
                else None)
      else None)"

section \<open>The invariant\<close>

definition pending :: "utimer \<Rightarrow> timer_entry set" where
  "pending ut = (\<Union>c<length (ut_bases ut). set (ut_bases ut ! c))"

text \<open>The clock event of a CPU fires no later than a deadline, or an interrupt is on the way.\<close>

definition covered :: "utimer \<Rightarrow> nat \<Rightarrow> nat \<Rightarrow> bool" where
  "covered ut c d \<longleftrightarrow> (\<exists>a\<le>d. ut_armed ut ! c = Some a) \<or> c \<in> ut_ipi ut"

definition base_ok :: "utimer \<Rightarrow> nat \<Rightarrow> timer_queue \<Rightarrow> bool" where
  "base_ok ut c q \<longleftrightarrow> distinct (map te_id q)
     \<and> (\<forall>e\<in>set q. ti_cpu (te_id e) = c \<and> ti_seq (te_id e) < ut_next_seq ut \<and> covered ut c (te_deadline e))"

definition ut_inv :: "utimer \<Rightarrow> bool" where
  "ut_inv ut \<longleftrightarrow> length (ut_armed ut) = length (ut_bases ut)
     \<and> (\<forall>c<length (ut_bases ut). base_ok ut c (ut_bases ut ! c))"

lemma ut_inv_new: "ut_inv (ut_new n)"
  by (simp add: ut_inv_def ut_new_def base_ok_def)

text \<open>Changing one base, its clock event and pending interrupts, and raising the sequence number.\<close>

lemma ut_inv_update:
  assumes "ut_inv ut" "c < length (ut_bases ut)"
    and "ut_bases ut' = (ut_bases ut)[c := q]" "ut_next_seq ut \<le> ut_next_seq ut'"
    and "length (ut_armed ut') = length (ut_armed ut)"
    and "\<And>b. b \<noteq> c \<Longrightarrow> ut_armed ut' ! b = ut_armed ut ! b \<and> (b \<in> ut_ipi ut \<longrightarrow> b \<in> ut_ipi ut')"
    and "base_ok ut' c q"
  shows "ut_inv ut'"
  unfolding ut_inv_def
proof (intro conjI allI impI)
  show "length (ut_armed ut') = length (ut_bases ut')" using assms(1,3,5) by (simp add: ut_inv_def)
  fix b assume b: "b < length (ut_bases ut')"
  show "base_ok ut' b (ut_bases ut' ! b)"
  proof (cases "b = c")
    case True
    then show ?thesis using assms(2,3,7) by simp
  next
    case False
    then have "base_ok ut b (ut_bases ut' ! b)" using assms(1,3) b by (simp add: ut_inv_def)
    then show ?thesis using assms(4) assms(6) [OF False] by (fastforce simp: base_ok_def covered_def)
  qed
qed

lemma next_deadline_le:
  assumes "heap_sel sel" "e \<in> set q"
  obtains d where "next_deadline sel q = Some d" "d \<le> te_deadline e"
  using next_deadline_Min [OF assms(1), of q] assms(2) by (cases q) auto

text \<open>A clock event programmed from a queue covers the queue; an unchanged minimum stays covered.\<close>

lemma covered_reprogram:
  assumes "heap_sel sel" "e \<in> set q" "c < length (ut_armed ut)" "ut_armed ut' = (ut_armed ut)[c := next_deadline sel q]"
  shows "covered ut' c (te_deadline e)"
  using assms by (auto simp: covered_def elim: next_deadline_le)

lemma covered_same_min:
  assumes "heap_sel sel" "next_deadline sel q = next_deadline sel q'" "e' \<in> set q'"
    and "\<And>e. e \<in> set q \<Longrightarrow> covered ut c (te_deadline e)"
  shows "covered ut c (te_deadline e')"
proof -
  obtain d where d: "next_deadline sel q' = Some d" "d \<le> te_deadline e'"
    using assms(1,3) by (rule next_deadline_le)
  then have "heap_peek sel q \<noteq> None" "map_option te_deadline (heap_peek sel q) = Some d"
    using assms(2) by (auto simp: next_deadline_def)
  then obtain e where "heap_peek sel q = Some e" "te_deadline e = d" by auto
  then have "covered ut c d" using assms(4) heap_peek_Some(1) [OF assms(1)] by blast
  then show ?thesis using d(2) by (auto simp: covered_def)
qed

section \<open>Every operation keeps the invariant\<close>

lemma distinct_mset_subset:
  assumes "distinct xs" "mset ys \<subseteq># mset xs"
  shows "distinct ys"
proof -
  obtain zs where "mset xs = mset (ys @ zs)"
    using assms(2) by (metis ex_mset mset_append mset_subset_eq_exists_conv)
  with assms(1) have "distinct (ys @ zs)" using mset_eq_imp_distinct_iff by blast
  then show ?thesis by simp
qed

lemma base_ok_subset:
  assumes "base_ok ut c q" "mset q' \<subseteq># mset q"
  shows "base_ok ut c q'"
proof -
  have "mset (map te_id q') \<subseteq># mset (map te_id q)" using assms(2) by (simp add: image_mset_subseteq_mono)
  moreover have "set q' \<subseteq> set q" using assms(2) by (metis set_mset_mono set_mset_mset)
  ultimately show ?thesis using assms(1) distinct_mset_subset by (fastforce simp: base_ok_def)
qed

lemma ut_inv_shrink:
  assumes "ut_inv ut" "c < length (ut_bases ut)" "mset q \<subseteq># mset (ut_bases ut ! c)"
  shows "ut_inv (put_base ut c q)"
proof -
  have "base_ok ut c q" using assms base_ok_subset by (auto simp: ut_inv_def)
  then have "base_ok (put_base ut c q) c q" by (simp add: base_ok_def covered_def put_base_def)
  then show ?thesis by (intro ut_inv_update [OF assms(1,2)]) (simp_all add: put_base_def)
qed

lemma ut_inv_insert:
  assumes sel: "heap_sel sel" and inv: "ut_inv ut" and c: "c < length (ut_bases ut)"
    and seq: "ut_next_seq ut < u64_max"
    and i: "te_id e = \<lparr>ti_cpu = c, ti_seq = ut_next_seq ut\<rparr>"
    and ut': "ut_bases ut' = (ut_bases ut)[c := e # q]" "ut_next_seq ut' = wadd64 (ut_next_seq ut) 1"
      "q = ut_bases ut ! c" "ut_ipi ut \<subseteq> ut_ipi ut'"
      "ut_armed ut' = (if arm then (ut_armed ut)[c := next_deadline sel (e # q)] else ut_armed ut)"
    and cov: "\<not> arm \<Longrightarrow> next_deadline sel q = next_deadline sel (e # q) \<or> c \<in> ut_ipi ut'"
  shows "ut_inv ut'"
proof (rule ut_inv_update [OF inv c ut'(1)])
  have ok: "base_ok ut c q" and len: "c < length (ut_armed ut)" using inv c ut'(3) by (auto simp: ut_inv_def)
  have seq': "ut_next_seq ut' = Suc (ut_next_seq ut)"
    using seq ut'(2) wadd64_exact [of "ut_next_seq ut" 1] by simp
  then show "ut_next_seq ut \<le> ut_next_seq ut'" by simp
  show "length (ut_armed ut') = length (ut_armed ut)" using ut'(5) by simp
  show "ut_armed ut' ! b = ut_armed ut ! b \<and> (b \<in> ut_ipi ut \<longrightarrow> b \<in> ut_ipi ut')" if "b \<noteq> c" for b
    using that ut'(4,5) by auto
  have "ti_seq (te_id x) \<noteq> ti_seq (te_id e)" if "x \<in> set q" for x
    using ok i that by (auto simp: base_ok_def)
  then have "te_id e \<notin> te_id ` set q" by (metis imageE)
  moreover have "covered ut' c (te_deadline e')" if e': "e' \<in> set (e # q)" for e'
  proof (cases arm)
    case True
    with ut'(5) show ?thesis by (intro covered_reprogram [OF sel e' len]) simp
  next
    case False
    have "covered ut' c (te_deadline x)" if "x \<in> set q" for x
      using ok that False ut'(4,5) by (auto simp: base_ok_def covered_def)
    with cov [OF False] covered_same_min [OF sel _ e', of q] show ?thesis
      by (auto simp: covered_def)
  qed
  ultimately show "base_ok ut' c (e # q)"
    using ok i seq' by (auto simp: base_ok_def)
qed

lemma ut_add_inv:
  assumes "heap_sel sel" "ut_inv ut" "ut_next_seq ut < u64_max"
    "ut_add sel cpu ut d p cb ctx = Some (ut', i)"
  shows "ut_inv ut'"
proof -
  define e where "e = \<lparr>te_id = \<lparr>ti_cpu = cpu, ti_seq = ut_next_seq ut\<rparr>, te_deadline = d, te_period = p,
                       te_callback = cb, te_context = ctx\<rparr>"
  define q where "q = ut_bases ut ! cpu"
  let ?arm = "next_deadline sel q \<noteq> next_deadline sel (e # q)"
  have cpu: "cpu < length (ut_bases ut)" using assms(4) by (auto simp: ut_add_def Let_def split: if_splits)
  then have ut': "ut' = (if ?arm then reprogram sel cpu (put_base (ut\<lparr>ut_next_seq := wadd64 (ut_next_seq ut) 1\<rparr>) cpu (e # q)) (e # q)
      else put_base (ut\<lparr>ut_next_seq := wadd64 (ut_next_seq ut) 1\<rparr>) cpu (e # q))"
    using assms(4) by (auto simp: ut_add_def Let_def tq_insert_def e_def q_def)
  show ?thesis
    by (rule ut_inv_insert [OF assms(1,2) cpu assms(3), where e = e and q = q and arm = ?arm])
       (auto simp: ut' e_def reprogram_def put_base_def q_def)
qed

lemma tq_cancel_props:
  assumes "tq_cancel q i = (q', b)"
  shows "mset q' \<subseteq># mset q" "set q' = {e \<in> set q. te_id e \<noteq> i}" "b \<longleftrightarrow> (\<exists>e\<in>set q. te_id e = i)"
proof -
  have q': "q' = filter (\<lambda>e. te_id e \<noteq> i) q" and b: "b \<longleftrightarrow> length q' \<noteq> length q"
    using assms by (auto simp: tq_cancel_def Let_def)
  show "mset q' \<subseteq># mset q" by (simp add: q' multiset_filter_subset)
  show "set q' = {e \<in> set q. te_id e \<noteq> i}" by (simp add: q')
  show "b \<longleftrightarrow> (\<exists>e\<in>set q. te_id e = i)"
  proof
    assume b
    then have "filter (\<lambda>e. te_id e \<noteq> i) q \<noteq> q" using b q' by auto
    then show "\<exists>e\<in>set q. te_id e = i" by (auto simp: filter_id_conv)
  next
    assume "\<exists>e\<in>set q. te_id e = i"
    then have "length q' < length q" unfolding q' by (auto intro: length_filter_less)
    then show b using b by simp
  qed
qed

lemma ut_inv_rearm:
  assumes "heap_sel sel" "ut_inv ut" "c < length (ut_bases ut)"
  shows "ut_inv (reprogram sel c ut (ut_bases ut ! c))"
proof (rule ut_inv_update [OF assms(2,3), where q = "ut_bases ut ! c"])
  have "c < length (ut_armed ut)" using assms(2,3) by (simp add: ut_inv_def)
  then show "base_ok (reprogram sel c ut (ut_bases ut ! c)) c (ut_bases ut ! c)"
    using assms covered_reprogram [OF assms(1), of _ "ut_bases ut ! c" c ut]
    by (auto simp: ut_inv_def base_ok_def reprogram_def)
qed (auto simp: reprogram_def)

lemma ut_cancel_inv:
  assumes "heap_sel sel" "ut_inv ut" "ut_cancel sel cur ut i = Some (ut', b)"
  shows "ut_inv ut'"
proof -
  obtain q' where c: "ti_cpu i < length (ut_bases ut)" and q': "tq_cancel (ut_bases ut ! ti_cpu i) i = (q', b)"
    using assms(3) by (auto simp: ut_cancel_def Let_def split: if_splits prod.splits)
  have "ut_inv (put_base ut (ti_cpu i) q')"
    using assms(2) c tq_cancel_props(1) [OF q'] by (rule ut_inv_shrink)
  moreover from ut_inv_rearm [OF assms(1) this, of "ti_cpu i"] c
  have "ut_inv (reprogram sel (ti_cpu i) (put_base ut (ti_cpu i) q') q')" by (simp add: put_base_def)
  moreover have "ut' \<in> {put_base ut (ti_cpu i) q', reprogram sel (ti_cpu i) (put_base ut (ti_cpu i) q') q'}"
    using assms(3) c q' by (auto simp: ut_cancel_def Let_def split: if_splits)
  ultimately show ?thesis by auto
qed

lemma tq_remove_loop_mset:
  "tq_remove_loop i q f = (f', r) \<Longrightarrow> mset r \<subseteq># mset q \<and> (f' \<noteq> f \<longrightarrow> mset q = add_mset (the f') (mset r))
     \<and> (f = None \<and> f' \<noteq> None \<longrightarrow> te_id (the f') = i) \<and> (f = None \<and> f' = None \<longrightarrow> (\<forall>e\<in>set q. te_id e \<noteq> i))"
proof (induction i q f arbitrary: f' r rule: tq_remove_loop.induct)
  case (2 i e es found)
  show ?case
  proof (cases "te_id e = i \<and> found = None")
    case True
    have same: "tq_remove_loop i es (Some e) = (Some e, es)" for es
      by (induction es) auto
    with True "2.prems" show ?thesis by auto
  next
    case False
    then obtain r' where "tq_remove_loop i es found = (f', r')" "r = e # r'"
      using "2.prems" by (auto split: prod.splits)
    with "2.IH"(2) [OF False, of f' r'] False show ?thesis
      by (auto simp: add_mset_commute)
  qed
qed auto

lemma ut_migrate_inv:
  assumes sel: "heap_sel sel" and inv: "ut_inv ut" and seq: "ut_next_seq ut < u64_max"
    and mig: "ut_migrate sel cur ut i target = Some (ut', r)"
  shows "ut_inv ut'"
proof -
  obtain f q where c: "ti_cpu i < length (ut_bases ut)"
    and rem: "tq_remove_loop i (ut_bases ut ! ti_cpu i) None = (f, q)"
    using mig by (auto simp: ut_migrate_def tq_remove_def split: if_splits prod.splits)
  let ?ut1 = "put_base ut (ti_cpu i) q"
  have inv1: "ut_inv ?ut1"
    using inv c tq_remove_loop_mset [OF rem] by (intro ut_inv_shrink) auto
  show ?thesis
  proof (cases f)
    case None
    with mig c rem inv1 show ?thesis by (auto simp: ut_migrate_def tq_remove_def)
  next
    case (Some e)
    define e' where "e' = e\<lparr>te_id := \<lparr>ti_cpu = target, ti_seq = ut_next_seq ?ut1\<rparr>\<rparr>"
    define tq where "tq = ut_bases ?ut1 ! target"
    let ?arm = "next_deadline sel tq \<noteq> next_deadline sel (e' # tq) \<and> target = cur"
    have t: "target < length (ut_bases ?ut1)"
      using mig c rem Some by (auto simp: ut_migrate_def tq_remove_def put_base_def Let_def split: if_splits)
    have ut': "ut' = (let ut3 = put_base (?ut1\<lparr>ut_next_seq := wadd64 (ut_next_seq ?ut1) 1\<rparr>) target (e' # tq)
        in if next_deadline sel tq \<noteq> next_deadline sel (e' # tq)
           then if target = cur then reprogram sel cur ut3 (e' # tq)
                else ut3\<lparr>ut_ipi := insert target (ut_ipi ut3)\<rparr> else ut3)"
      using mig c rem Some t
      by (auto simp: ut_migrate_def tq_remove_def Let_def tq_insert_def e'_def tq_def put_base_def)
    show ?thesis
      by (rule ut_inv_insert [OF sel inv1 t, where e = e' and q = tq and arm = ?arm])
         (use seq in \<open>auto simp: ut' e'_def tq_def Let_def reprogram_def put_base_def\<close>)
  qed
qed

lemma rearm_periodic_props:
  "mset (map te_id (rearm_periodic now es q)) \<subseteq># mset (map te_id es) + mset (map te_id q)"
  "e \<in> set (rearm_periodic now es q) \<Longrightarrow> e \<in> set q \<or> (\<exists>x\<in>set es. te_id e = te_id x)"
  "set q \<subseteq> set (rearm_periodic now es q)"
proof (induction es arbitrary: q)
  case (Cons x es)
  { case 1
    have "mset (map te_id (case te_period x of Some p \<Rightarrow> tq_insert q (x\<lparr>te_deadline := saturating_add64 now p\<rparr>) | None \<Rightarrow> q))
        \<subseteq># add_mset (te_id x) (mset (map te_id q))"
      by (auto simp: tq_insert_def split: option.splits)
    from subset_mset.order_trans [OF Cons.IH(1) subset_mset.add_left_mono [OF this]] show ?case by simp
  next
    case 2
    then show ?case using Cons.IH(2) by (fastforce simp: tq_insert_def split: option.splits)
  next
    case 3
    have "set q \<subseteq> set (case te_period x of Some p \<Rightarrow> tq_insert q (x\<lparr>te_deadline := saturating_add64 now p\<rparr>) | None \<Rightarrow> q)"
      by (auto simp: tq_insert_def split: option.splits)
    from subset_trans [OF this Cons.IH(3)] show ?case by simp
  }
qed auto

lemma tick_inv:
  assumes sel: "heap_sel sel" and inv: "ut_inv ut" and tick: "tick sel c now ut = Some ut'"
  shows "ut_inv ut'"
proof -
  obtain es r where c: "c < length (ut_bases ut)" and dr: "drain_expired sel (ut_bases ut ! c) now = (es, r)"
    using tick by (auto simp: tick_def split: if_splits prod.splits)
  let ?q = "rearm_periodic now es r"
  note spec = drain_expired_spec [OF sel dr]
  have ok: "base_ok ut c (ut_bases ut ! c)" and len: "c < length (ut_armed ut)"
    using inv c by (auto simp: ut_inv_def)
  have m: "mset (map te_id (ut_bases ut ! c)) = mset (map te_id es) + mset (map te_id r)"
    using spec by simp
  have ut': "ut_bases ut' = (ut_bases ut)[c := ?q]" "ut_next_seq ut' = ut_next_seq ut"
    "ut_armed ut' = (ut_armed ut)[c := next_deadline sel ?q]" "ut_ipi ut' = ut_ipi ut - {c}"
    using tick c dr by (auto simp: tick_def put_base_def reprogram_def Let_def)
  have set: "set (ut_bases ut ! c) = set es \<union> set r"
    using arg_cong [OF conjunct1 [OF spec], of set_mset] by simp
  show ?thesis
  proof (rule ut_inv_update [OF inv c ut'(1)])
    have "distinct (map te_id ?q)"
      using ok rearm_periodic_props(1) [of now es r] m
      by - (rule distinct_mset_subset [of "map te_id (ut_bases ut ! c)"], auto simp: base_ok_def)
    moreover have "ti_cpu (te_id e) = c \<and> ti_seq (te_id e) < ut_next_seq ut" if "e \<in> set ?q" for e
      using rearm_periodic_props(2) [OF that] ok set by (auto simp: base_ok_def)
    ultimately show "base_ok ut' c ?q"
      using covered_reprogram [OF sel _ len ut'(3)] ut'(2) by (auto simp: base_ok_def)
  qed (use ut' in auto)
qed

end
