(* ===== verification/Timer_Props.thy ===== *)
theory Timer_Props
  imports Universal_Timer
begin

text \<open>
  Histories of the timer service and its correctness: no pending timer is lost, a tick fires exactly
  what is due, cancellation is exact.
\<close>

inductive timer_step :: "heap_order \<Rightarrow> utimer \<Rightarrow> utimer \<Rightarrow> bool" for sel where
  ts_set: "ut_set sel cpu ut d cb ctx = Some (ut', i) \<Longrightarrow> timer_step sel ut ut'"
| ts_periodic: "ut_set_periodic sel cpu now ut d cb ctx = Some (ut', i) \<Longrightarrow> timer_step sel ut ut'"
| ts_cancel: "ut_cancel sel cur ut i = Some (ut', b) \<Longrightarrow> timer_step sel ut ut'"
| ts_migrate: "ut_migrate sel cur ut i target = Some (ut', r) \<Longrightarrow> timer_step sel ut ut'"
| ts_tick: "tick sel cpu now ut = Some ut' \<Longrightarrow> timer_step sel ut ut'"

text \<open>The states after \<open>n\<close> operations on a machine with \<open>cpus\<close> processors.\<close>

inductive timer_hist :: "heap_order \<Rightarrow> nat \<Rightarrow> nat \<Rightarrow> utimer \<Rightarrow> bool" for sel cpus where
  th_new: "timer_hist sel cpus 0 (ut_new cpus)"
| th_step: "timer_hist sel cpus n ut \<Longrightarrow> timer_step sel ut ut' \<Longrightarrow> timer_hist sel cpus (Suc n) ut'"

lemma timer_step_inv:
  assumes "timer_step sel ut ut'" "heap_sel sel" "ut_inv ut" "ut_next_seq ut < u64_max"
  shows "ut_inv ut'"
  using assms
  by (cases rule: timer_step.cases)
     (auto simp: ut_set_def ut_set_periodic_def
           intro: ut_add_inv ut_cancel_inv ut_migrate_inv tick_inv)

lemma timer_step_seq:
  assumes "timer_step sel ut ut'" "ut_next_seq ut < u64_max"
  shows "ut_next_seq ut' \<le> Suc (ut_next_seq ut)"
  using assms wadd64_exact [of "ut_next_seq ut" 1]
  by (cases rule: timer_step.cases)
     (auto simp: ut_set_def ut_set_periodic_def ut_add_def ut_cancel_def ut_migrate_def tick_def
        reprogram_def put_base_def Let_def split: if_splits prod.splits option.splits)

lemma timer_hist_inv:
  assumes "timer_hist sel cpus n ut" "heap_sel sel" "n < u64_max - 1"
  shows "ut_inv ut \<and> ut_next_seq ut \<le> Suc n"
  using assms
proof (induction rule: timer_hist.induct)
  case th_new
  show ?case by (simp add: ut_inv_new) (simp add: ut_new_def)
next
  case (th_step n ut ut')
  then have "ut_inv ut" "ut_next_seq ut \<le> Suc n" "ut_next_seq ut < u64_max" by auto
  with th_step show ?case using timer_step_inv timer_step_seq by fastforce
qed

section \<open>What one tick does\<close>

definition rearmed :: "nat \<Rightarrow> timer_entry \<Rightarrow> timer_entry" where
  "rearmed now e = e\<lparr>te_deadline := saturating_add64 now (the (te_period e))\<rparr>"

lemma rearm_periodic_mset:
  "mset (rearm_periodic now es q) = mset q + image_mset (rearmed now) (filter_mset (\<lambda>e. te_period e \<noteq> None) (mset es))"
  by (induction es arbitrary: q) (auto simp: rearmed_def tq_insert_def split: option.splits)

lemma drain_expired_mset:
  assumes "heap_sel sel" "drain_expired sel q now = (es, r)"
  shows "mset es = filter_mset (\<lambda>e. te_deadline e \<le> now) (mset q)"
    "mset r = filter_mset (\<lambda>e. now < te_deadline e) (mset q)"
proof -
  note s = drain_expired_spec [OF assms]
  have f: "filter (\<lambda>e. te_deadline e \<le> now) es = es" "filter (\<lambda>e. te_deadline e \<le> now) r = []"
    "filter (\<lambda>e. now < te_deadline e) es = []" "filter (\<lambda>e. now < te_deadline e) r = r"
    using s by (auto simp: filter_id_conv filter_empty_conv)
  then have "filter_mset (\<lambda>e. te_deadline e \<le> now) (mset es + mset r) = mset es"
    "filter_mset (\<lambda>e. now < te_deadline e) (mset es + mset r) = mset r"
    by (simp_all flip: mset_filter)
  with s show "mset es = filter_mset (\<lambda>e. te_deadline e \<le> now) (mset q)"
    "mset r = filter_mset (\<lambda>e. now < te_deadline e) (mset q)" by auto
qed

lemma tick_cases:
  assumes "heap_sel sel" "c < length (ut_bases ut)"
  obtains es r ut' where "tick sel c now ut = Some ut'"
    "drain_expired sel (ut_bases ut ! c) now = (es, r)"
    "ut_bases ut' = (ut_bases ut)[c := rearm_periodic now es r]"
    "ut_fired ut' = ut_fired ut @ map (\<lambda>e. (te_callback e, te_context e)) es"
    "ut_armed ut' = (ut_armed ut)[c := next_deadline sel (rearm_periodic now es r)]"
proof -
  obtain es r where "drain_expired sel (ut_bases ut ! c) now = (es, r)" by fastforce
  with assms(2) show thesis
    by (intro that [of _ es r]) (auto simp: tick_def put_base_def reprogram_def Let_def)
qed

text \<open>C20: a tick of CPU c at time now runs exactly the callbacks of the entries of c's base whose
  deadline has come, in deadline order; the base keeps the entries not yet due together with the
  periodic ones that fired, moved to now plus their period (saturating), and the clock event is
  programmed to the smallest deadline left or stopped; no other base changes.\<close>

theorem tick_fires_exactly_due:
  assumes "heap_sel sel" "c < length (ut_bases ut)" "c < length (ut_armed ut)"
  shows "\<exists>ut' es. tick sel c now ut = Some ut'
    \<and> mset es = filter_mset (\<lambda>e. te_deadline e \<le> now) (mset (ut_bases ut ! c))
    \<and> sorted (map te_deadline es)
    \<and> ut_fired ut' = ut_fired ut @ map (\<lambda>e. (te_callback e, te_context e)) es
    \<and> mset (ut_bases ut' ! c) = filter_mset (\<lambda>e. now < te_deadline e) (mset (ut_bases ut ! c))
        + image_mset (rearmed now) (filter_mset (\<lambda>e. te_period e \<noteq> None) (mset es))
    \<and> ut_armed ut' ! c = (if ut_bases ut' ! c = [] then None else Some (Min (te_deadline ` set (ut_bases ut' ! c))))
    \<and> (\<forall>b. b \<noteq> c \<longrightarrow> ut_bases ut' ! b = ut_bases ut ! b \<and> ut_armed ut' ! b = ut_armed ut ! b)"
proof -
  obtain es r ut' where t: "tick sel c now ut = Some ut'"
    "drain_expired sel (ut_bases ut ! c) now = (es, r)"
    "ut_bases ut' = (ut_bases ut)[c := rearm_periodic now es r]"
    "ut_fired ut' = ut_fired ut @ map (\<lambda>e. (te_callback e, te_context e)) es"
    "ut_armed ut' = (ut_armed ut)[c := next_deadline sel (rearm_periodic now es r)]"
    using tick_cases [OF assms(1,2)] .
  note m = drain_expired_mset [OF assms(1) t(2)]
  have s: "sorted (map te_deadline es)" using drain_expired_spec [OF assms(1) t(2)] by simp
  have "mset (ut_bases ut' ! c) = filter_mset (\<lambda>e. now < te_deadline e) (mset (ut_bases ut ! c))
      + image_mset (rearmed now) (filter_mset (\<lambda>e. te_period e \<noteq> None) (mset es))"
    using t(3) assms(2) by (simp add: rearm_periodic_mset m)
  moreover have "ut_armed ut' ! c = next_deadline sel (ut_bases ut' ! c)"
    using t(3,5) assms(2,3) by simp
  moreover have "\<forall>b. b \<noteq> c \<longrightarrow> ut_bases ut' ! b = ut_bases ut ! b \<and> ut_armed ut' ! b = ut_armed ut ! b"
    using t(3,5) by simp
  ultimately show ?thesis
    unfolding next_deadline_Min [OF assms(1)] using t(1,4) m(1) s by blast
qed

section \<open>No timer is lost\<close>

text \<open>C19: after any sequence of fewer than 2^64 - 2 operations of the timer service, a timer pending on
  CPU c is covered: c's clock event is armed for no later than its deadline, or a reschedule interrupt
  to c is on the way. Whichever of the two arrives, the tick it causes at or after the deadline succeeds
  and runs the timer's callback; a tick before the deadline arms the clock event for it.\<close>

theorem pending_timers_fire:
  assumes "timer_hist sel cpus n ut" "heap_sel sel" "n < u64_max - 1"
    and "c < length (ut_bases ut)" "e \<in> set (ut_bases ut ! c)"
  shows "((\<exists>a\<le>te_deadline e. ut_armed ut ! c = Some a) \<or> c \<in> ut_ipi ut)
    \<and> (\<exists>ut'. tick sel c now ut = Some ut'
        \<and> (if te_deadline e \<le> now
           then (te_callback e, te_context e) \<in> set (drop (length (ut_fired ut)) (ut_fired ut'))
           else e \<in> set (ut_bases ut' ! c) \<and> (\<exists>a\<le>te_deadline e. ut_armed ut' ! c = Some a)))"
proof
  have inv: "ut_inv ut" using timer_hist_inv [OF assms(1-3)] by simp
  then show "(\<exists>a\<le>te_deadline e. ut_armed ut ! c = Some a) \<or> c \<in> ut_ipi ut"
    using assms(4,5) by (auto simp: ut_inv_def base_ok_def covered_def)
  obtain es r ut' where t: "tick sel c now ut = Some ut'"
    "drain_expired sel (ut_bases ut ! c) now = (es, r)"
    "ut_bases ut' = (ut_bases ut)[c := rearm_periodic now es r]"
    "ut_fired ut' = ut_fired ut @ map (\<lambda>e. (te_callback e, te_context e)) es"
    "ut_armed ut' = (ut_armed ut)[c := next_deadline sel (rearm_periodic now es r)]"
    using tick_cases [OF assms(2,4)] .
  have s: "set es = {e \<in> set (ut_bases ut ! c). te_deadline e \<le> now}"
    "set r = {e \<in> set (ut_bases ut ! c). now < te_deadline e}"
    using drain_expired_mset [OF assms(2) t(2), THEN arg_cong, of set_mset] by auto
  have len: "c < length (ut_armed ut)" using inv assms(4) by (simp add: ut_inv_def)
  have "\<not> te_deadline e \<le> now \<Longrightarrow> e \<in> set (rearm_periodic now es r)"
    using s(2) assms(5) by (auto intro: subsetD [OF rearm_periodic_props(3)])
  then show "\<exists>ut'. tick sel c now ut = Some ut'
        \<and> (if te_deadline e \<le> now
           then (te_callback e, te_context e) \<in> set (drop (length (ut_fired ut)) (ut_fired ut'))
           else e \<in> set (ut_bases ut' ! c) \<and> (\<exists>a\<le>te_deadline e. ut_armed ut' ! c = Some a))"
    using t s(1) assms(4,5) len by (intro exI [of _ ut']) (auto elim: next_deadline_le [OF assms(2)])
qed

text \<open>\<open>cancel\<close> on a state of the service removes the timer with the given id and nothing else, and
  returns whether it was pending; each id is pending at most once, on the base its cpu field names.\<close>

theorem cancel_exact:
  assumes "timer_hist sel cpus n ut" "heap_sel sel" "n < u64_max - 1" "ti_cpu i < length (ut_bases ut)"
  shows "\<exists>ut' b. ut_cancel sel cur ut i = Some (ut', b)
    \<and> b = (\<exists>e\<in>pending ut. te_id e = i) \<and> pending ut' = {e \<in> pending ut. te_id e \<noteq> i}
    \<and> card {e \<in> pending ut. te_id e = i} \<le> 1"
proof -
  have inv: "ut_inv ut" using timer_hist_inv [OF assms(1-3)] by simp
  let ?c = "ti_cpu i"
  obtain q' b where q': "tq_cancel (ut_bases ut ! ?c) i = (q', b)" by fastforce
  note p = tq_cancel_props [OF q']
  obtain ut' where ut': "ut_cancel sel cur ut i = Some (ut', b)" "ut_bases ut' = (ut_bases ut)[?c := q']"
    using q' assms(4) by (auto simp: ut_cancel_def Let_def put_base_def reprogram_def)
  have home: "te_id e = i \<Longrightarrow> x < length (ut_bases ut) \<Longrightarrow> e \<in> set (ut_bases ut ! x) \<Longrightarrow> x = ?c" for e x
    using inv by (auto simp: ut_inv_def base_ok_def)
  have pend_i: "{e \<in> pending ut. te_id e = i} = {e \<in> set (ut_bases ut ! ?c). te_id e = i}"
    using home assms(4) unfolding pending_def by blast
  have b: "b = (\<exists>e\<in>pending ut. te_id e = i)" using p(3) pend_i by blast
  have "pending ut' = {e \<in> pending ut. te_id e \<noteq> i}"
  proof (rule set_eqI)
    fix e
    have "(\<exists>x<length (ut_bases ut). e \<in> set ((ut_bases ut)[?c := q'] ! x))
        \<longleftrightarrow> (\<exists>x<length (ut_bases ut). e \<in> set (ut_bases ut ! x)) \<and> te_id e \<noteq> i"
      using p(2) home by (metis (mono_tags, lifting) assms(4) mem_Collect_eq nth_list_update_eq nth_list_update_neq)
    then show "e \<in> pending ut' \<longleftrightarrow> e \<in> {e \<in> pending ut. te_id e \<noteq> i}"
      by (auto simp: pending_def ut'(2))
  qed
  moreover have "inj_on te_id (set (ut_bases ut ! ?c))"
    using inv assms(4) by (auto simp: ut_inv_def base_ok_def distinct_map)
  then have "x = y" if "x \<in> {e \<in> pending ut. te_id e = i}" "y \<in> {e \<in> pending ut. te_id e = i}" for x y
    using that inj_onD [of te_id "set (ut_bases ut ! ?c)" x y] unfolding pend_i by simp
  then have "card {e \<in> pending ut. te_id e = i} \<le> 1"
    using card_le_Suc0_iff_eq [of "{e \<in> pending ut. te_id e = i}"] unfolding pend_i by simp
  ultimately show ?thesis using ut'(1) b by blast
qed

section \<open>A concrete heap order\<close>

text \<open>The first entry with the smallest deadline, and two timers: one set on CPU 0 and moved to the
  idle CPU 1.\<close>

definition first_min :: heap_order where
  "first_min q = length (takeWhile (\<lambda>e. \<exists>x\<in>set q. te_deadline x < te_deadline e) q)"

lemma first_min_sel: "heap_sel first_min"
  unfolding heap_sel_def
proof (intro allI impI)
  fix q :: timer_queue assume "q \<noteq> []"
  let ?P = "\<lambda>e. \<exists>x\<in>set q. te_deadline x < te_deadline e"
  have "Min (te_deadline ` set q) \<in> te_deadline ` set q" using \<open>q \<noteq> []\<close> by (intro Min_in) auto
  then obtain m where m: "m \<in> set q" "te_deadline m = Min (te_deadline ` set q)" by auto
  then have "\<not> ?P m" by (auto simp: not_less)
  then have "takeWhile ?P q \<noteq> q" using m(1) by (auto simp: takeWhile_eq_all_conv)
  then have "length (takeWhile ?P q) \<noteq> length q" by (metis takeWhile_eq_take take_all order_refl)
  then have len: "first_min q < length q"
    using length_takeWhile_le [of ?P q] unfolding first_min_def by linarith
  then have "\<not> ?P (q ! first_min q)" unfolding first_min_def by (rule nth_length_takeWhile)
  then show "first_min q < length q \<and> (\<forall>e\<in>set q. te_deadline (q ! first_min q) \<le> te_deadline e)"
    using len by (auto simp: not_less)
qed

definition ut_one :: utimer where
  "ut_one = \<lparr>ut_bases = [[\<lparr>te_id = \<lparr>ti_cpu = 0, ti_seq = 1\<rparr>, te_deadline = 50, te_period = Some 10, te_callback = 7, te_context = 8\<rparr>], []],
     ut_next_seq = 2, ut_armed = [Some 50, None], ut_ipi = {}, ut_fired = [], ut_resched = [False, False]\<rparr>"

definition ut_moved :: utimer where
  "ut_moved = \<lparr>ut_bases = [[], [\<lparr>te_id = \<lparr>ti_cpu = 1, ti_seq = 2\<rparr>, te_deadline = 50, te_period = Some 10, te_callback = 7, te_context = 8\<rparr>]],
     ut_next_seq = 3, ut_armed = [Some 50, None], ut_ipi = {1}, ut_fired = [], ut_resched = [False, False]\<rparr>"

lemmas ut_eval = tq_insert_def next_deadline_def heap_peek_def first_min_def Let_def put_base_def
  reprogram_def tq_remove_def saturating_add64_def wadd64_def u64_max_def

lemma ut_one_step: "ut_set_periodic first_min 0 40 (ut_new 2) 10 7 8 = Some (ut_one, \<lparr>ti_cpu = 0, ti_seq = 1\<rparr>)"
  by (simp add: ut_set_periodic_def ut_add_def ut_new_def ut_one_def ut_eval numeral_2_eq_2)

lemma ut_moved_step:
  "ut_migrate first_min 0 ut_one \<lparr>ti_cpu = 0, ti_seq = 1\<rparr> 1 = Some (ut_moved, Some \<lparr>ti_cpu = 1, ti_seq = 2\<rparr>)"
  by (simp add: ut_migrate_def ut_one_def ut_moved_def ut_eval)

lemma ut_one_hist: "timer_hist first_min 2 1 ut_one"
  using th_step [OF th_new ts_periodic [OF ut_one_step]] by simp

lemma ut_moved_hist: "timer_hist first_min 2 2 ut_moved"
  using th_step [OF ut_one_hist ts_migrate [OF ut_moved_step]] by (simp add: numeral_2_eq_2)

theorem tick_fires_exactly_due_witness:
  "\<exists>ut' es. tick first_min 0 60 ut_one = Some ut'
    \<and> ut_fired ut' = map (\<lambda>e. (te_callback e, te_context e)) es
    \<and> mset es = mset (ut_bases ut_one ! 0)"
  using tick_fires_exactly_due [OF first_min_sel, of 0 ut_one 60] by (auto simp: ut_one_def)

theorem pending_timers_fire_witness:
  "\<exists>ut'. tick first_min 1 60 ut_moved = Some ut' \<and> (7, 8) \<in> set (ut_fired ut')"
  using pending_timers_fire [OF ut_moved_hist first_min_sel, of 1 "ut_bases ut_moved ! 1 ! 0" 60]
  by (auto simp: ut_moved_def u64_max_def)

theorem cancel_exact_witness:
  "\<exists>ut'. ut_cancel first_min 1 ut_moved \<lparr>ti_cpu = 1, ti_seq = 2\<rparr> = Some (ut', True) \<and> pending ut' = {}"
proof -
  have "pending ut_moved = set (ut_bases ut_moved ! 1)"
    by (simp add: pending_def ut_moved_def numeral_2_eq_2 lessThan_Suc)
  then show ?thesis
    using cancel_exact [OF ut_moved_hist first_min_sel, of "\<lparr>ti_cpu = 1, ti_seq = 2\<rparr>" 1]
    by (auto simp: ut_moved_def u64_max_def)
qed

text \<open>the reschedule interrupt that \<open>migrate\<close> sends is needed, not a hint. In a reachable state a timer
  is pending on a CPU whose clock event is stopped, and that interrupt is the only thing that will make
  the CPU look at its base.\<close>

theorem migrate_relies_on_ipi:
  "\<exists>ut e. timer_hist first_min 2 2 ut \<and> e \<in> set (ut_bases ut ! 1) \<and> ut_armed ut ! 1 = None \<and> ut_ipi ut = {1}"
  using ut_moved_hist
  by (intro exI [of _ ut_moved] exI [of _ "ut_bases ut_moved ! 1 ! 0"]) (simp add: ut_moved_def)

end
