(* ===== verification/Block_Dev.thy ===== *)
theory Block_Dev
  imports Bedrock_Prelude
begin

text \<open>
  The block device interface (\<open>kernel/src/filesystems/blockdriver/traits.rs\<close>). A driver's \<open>submit\<close>
  takes a state and a batch of requests; it returns the new state, the contents of the callers'
  buffers afterwards (one per request) and the result. The locale \<open>block_device\<close> is the contract the
  layers above rely on: \<open>disk\<close> reads a sector of a driver state, \<open>ok\<close> is the driver's own invariant.
\<close>

datatype io_buffer = Buf "u8 list" | ConstBuf "u8 list" | Phys nat nat

record io_request =
  rq_lba :: nat
  rq_count :: nat
  rq_buffer :: io_buffer
  rq_write :: bool

record io_completions =
  ic_completed :: nat
  ic_errors :: nat

definition all_ok :: "io_completions \<Rightarrow> bool" where
  "all_ok c \<longleftrightarrow> ic_errors c = 0 \<and> ic_completed c \<noteq> 0"

type_synonym 'd submit = "'d \<Rightarrow> io_request list \<Rightarrow> 'd \<times> u8 list list \<times> (string, io_completions) result"

text \<open>The bytes of the caller's slice; a physical buffer is memory the model does not hold.\<close>

fun buf_bytes :: "io_buffer \<Rightarrow> u8 list" where
  "buf_bytes (Buf b) = b"
| "buf_bytes (ConstBuf b) = b"
| "buf_bytes (Phys pa sz) = []"

fun is_phys :: "io_buffer \<Rightarrow> bool" where
  "is_phys (Phys pa sz) = True"
| "is_phys (Buf b) = False"
| "is_phys (ConstBuf b) = False"

section \<open>Batches\<close>

definition rq_range :: "io_request \<Rightarrow> nat set" where
  "rq_range r = {rq_lba r..<rq_lba r + rq_count r}"

text \<open>Sector \<open>i\<close> of a buffer.\<close>

definition sector_of :: "u8 list \<Rightarrow> nat \<Rightarrow> u8 list" where
  "sector_of b i = take 512 (drop (512 * i) b)"

definition written :: "io_request list \<Rightarrow> nat set" where
  "written rs = (\<Union>r\<in>{r \<in> set rs. rq_write r}. rq_range r)"

text \<open>A write asks for at least one sector, ends below the last sector number and carries exactly its bytes.\<close>

definition wf_write :: "io_request \<Rightarrow> bool" where
  "wf_write r \<longleftrightarrow> 0 < rq_count r \<and> rq_lba r + rq_count r \<le> u64_max
     \<and> (is_phys (rq_buffer r) \<or> length (buf_bytes (rq_buffer r)) = 512 * rq_count r)"

fun batch_ok :: "io_request list \<Rightarrow> bool" where
  "batch_ok [] \<longleftrightarrow> True"
| "batch_ok (r # rs) \<longleftrightarrow> batch_ok rs \<and> (rq_write r \<longrightarrow> wf_write r \<and> rq_range r \<inter> written rs = {})"

definition buffered_writes :: "io_request list \<Rightarrow> bool" where
  "buffered_writes rs \<longleftrightarrow> (\<forall>r\<in>set rs. rq_write r \<and> \<not> is_phys (rq_buffer r))"

lemma written_Nil [simp]: "written [] = {}"
  by (simp add: written_def)

lemma written_Cons: "written (r # rs) = (if rq_write r then rq_range r else {}) \<union> written rs"
  by (auto simp: written_def)

lemma written_append: "written (rs @ ss) = written rs \<union> written ss"
  by (auto simp: written_def)

lemma batch_ok_append: "batch_ok (rs @ ss) \<Longrightarrow> batch_ok rs \<and> batch_ok ss"
  by (induction rs) (auto simp: written_append)

section \<open>The contract of a driver\<close>

locale block_device =
  fixes sub :: "'d submit"
    and disk :: "'d \<Rightarrow> nat \<Rightarrow> u8 list"
    and ok :: "'d \<Rightarrow> bool"
  assumes counts: "length rs < 2 ^ 32 \<Longrightarrow> sub d rs = (d', bs, Inr c) \<Longrightarrow> ic_completed c + ic_errors c \<le> length rs"
    and frame: "sub d rs = (d', bs, res) \<Longrightarrow> l \<notin> written rs \<Longrightarrow> disk d' l = disk d l"
    and sector_len: "ok d \<Longrightarrow> length (disk d l) = 512"
    and keeps: "ok d \<Longrightarrow> length rs < 2 ^ 32 \<Longrightarrow> batch_ok rs \<Longrightarrow> sub d rs = (d', bs, Inr c) \<Longrightarrow> ic_errors c = 0 \<Longrightarrow> ok d'"
    and read_data: "ok d \<Longrightarrow> sub d [r] = (d', bs, Inr c) \<Longrightarrow> all_ok c \<Longrightarrow> \<not> rq_write r
      \<Longrightarrow> rq_buffer r = Buf b \<Longrightarrow> 0 < rq_count r \<Longrightarrow> length b = 512 * rq_count r
      \<Longrightarrow> bs = [concat (map (disk d) [rq_lba r..<rq_lba r + rq_count r])]"
    and write_data: "ok d \<Longrightarrow> length rs < 2 ^ 32 \<Longrightarrow> batch_ok rs \<Longrightarrow> buffered_writes rs \<Longrightarrow> sub d rs = (d', bs, Inr c) \<Longrightarrow> all_ok c
      \<Longrightarrow> r \<in> set rs \<Longrightarrow> i < rq_count r \<Longrightarrow> disk d' (rq_lba r + i) = sector_of (buf_bytes (rq_buffer r)) i"
begin

lemma read_frame: "sub d rs = (d', bs, res) \<Longrightarrow> \<forall>r\<in>set rs. \<not> rq_write r \<Longrightarrow> disk d' = disk d"
  by (rule ext, rule frame) (auto simp: written_def)

text \<open>A successful write followed by a successful read of one of its sectors returns what was written.\<close>

lemma read_after_write:
  assumes "ok d" "length rs < 2 ^ 32" "batch_ok rs" "buffered_writes rs" "sub d rs = (d1, bs1, Inr c1)" "all_ok c1"
    and "r \<in> set rs" "i < rq_count r"
    and "sub d1 [\<lparr>rq_lba = rq_lba r + i, rq_count = 1, rq_buffer = Buf b, rq_write = False\<rparr>] = (d2, bs2, Inr c2)"
      "all_ok c2" "length b = 512"
  shows "bs2 = [sector_of (buf_bytes (rq_buffer r)) i]"
proof -
  have "ok d1" using assms(1-6) keeps by (auto simp: all_ok_def)
  from read_data [OF this assms(9,10)] assms(11) have "bs2 = [disk d1 (rq_lba r + i)]" by simp
  then show ?thesis using write_data [OF assms(1-8)] by simp
qed

end

section \<open>A memory disk\<close>

text \<open>A driver that keeps its sectors in memory and applies a batch in order; physical buffers are
  refused.\<close>

type_synonym ram_disk = "nat \<Rightarrow> u8 list"

definition ram_write :: "ram_disk \<Rightarrow> io_request \<Rightarrow> ram_disk" where
  "ram_write d r = (\<lambda>l. if l \<in> rq_range r then sector_of (buf_bytes (rq_buffer r)) (l - rq_lba r) else d l)"

fun ram_exec :: "ram_disk \<Rightarrow> io_request list \<Rightarrow> ram_disk \<times> u8 list list" where
  "ram_exec d [] = (d, [])"
| "ram_exec d (r # rs) =
     (let d' = if rq_write r then ram_write d r else d;
          b = if rq_write r then buf_bytes (rq_buffer r)
              else concat (map d [rq_lba r..<rq_lba r + rq_count r])
      in case ram_exec d' rs of (d'', bs) \<Rightarrow> (d'', b # bs))"

definition ram_submit :: "ram_disk submit" where
  "ram_submit d rs =
     (if \<exists>r\<in>set rs. is_phys (rq_buffer r) then (d, map (buf_bytes \<circ> rq_buffer) rs, Inl ''physical buffer'')
      else case ram_exec d rs of (d', bs) \<Rightarrow> (d', bs, Inr \<lparr>ic_completed = length rs, ic_errors = 0\<rparr>))"

lemma ram_exec_frame: "ram_exec d rs = (d', bs) \<Longrightarrow> l \<notin> written rs \<Longrightarrow> d' l = d l"
  by (induction d rs arbitrary: d' bs rule: ram_exec.induct)
     (auto simp: written_Cons ram_write_def Let_def split: prod.splits if_splits)

lemma ram_exec_data:
  "ram_exec d rs = (d', bs) \<Longrightarrow> batch_ok rs \<Longrightarrow> r \<in> set rs \<Longrightarrow> rq_write r \<Longrightarrow> i < rq_count r
   \<Longrightarrow> d' (rq_lba r + i) = sector_of (buf_bytes (rq_buffer r)) i"
proof (induction d rs arbitrary: d' bs rule: ram_exec.induct)
  case (2 d q rs)
  obtain bs' where ex: "ram_exec (if rq_write q then ram_write d q else d) rs = (d', bs')"
    using "2.prems"(1) by (auto simp: Let_def split: prod.splits)
  show ?case
  proof (cases "r \<in> set rs")
    case True
    with "2.IH" [OF refl refl ex] "2.prems" show ?thesis by simp
  next
    case False
    with "2.prems" have r: "r = q" by simp
    then have "rq_lba r + i \<in> rq_range q" using "2.prems"(5) by (simp add: rq_range_def)
    then have "rq_lba r + i \<notin> written rs" using "2.prems"(2,4) r by (auto simp: disjoint_iff)
    from ram_exec_frame [OF ex this] "2.prems"(4,5) r show ?thesis
      by (simp add: ram_write_def rq_range_def)
  qed
qed simp

definition ram_ok :: "ram_disk \<Rightarrow> bool" where
  "ram_ok d \<longleftrightarrow> (\<forall>l. length (d l) = 512)"

lemma length_sector_of: "length b = 512 * n \<Longrightarrow> i < n \<Longrightarrow> length (sector_of b i) = 512"
  by (simp add: sector_of_def)

lemma ram_exec_ok:
  "ram_exec d rs = (d', bs) \<Longrightarrow> batch_ok rs \<Longrightarrow> \<forall>r\<in>set rs. \<not> is_phys (rq_buffer r) \<Longrightarrow> ram_ok d \<Longrightarrow> ram_ok d'"
proof (induction d rs arbitrary: d' bs rule: ram_exec.induct)
  case (2 d q rs)
  have ok: "ram_ok (ram_write d q)" if "rq_write q"
    using that "2.prems"(2-4) by (auto simp: ram_ok_def ram_write_def wf_write_def rq_range_def intro!: length_sector_of)
  obtain bs' where "ram_exec (if rq_write q then ram_write d q else d) rs = (d', bs')"
    using "2.prems"(1) by (auto simp: Let_def split: prod.splits)
  from "2.IH" [OF refl refl this] "2.prems" ok show ?case by simp
qed simp

interpretation ram: block_device ram_submit "\<lambda>d. d" ram_ok
proof
  fix d d' bs rs and res :: "(string, io_completions) result" and l c r i
  show "ram_submit d rs = (d', bs, Inr c) \<Longrightarrow> ic_completed c + ic_errors c \<le> length rs"
    by (auto simp: ram_submit_def split: if_splits prod.splits)
  show "ram_submit d rs = (d', bs, res) \<Longrightarrow> l \<notin> written rs \<Longrightarrow> d' l = d l"
    by (auto simp: ram_submit_def split: if_splits prod.splits intro: ram_exec_frame)
  show "ram_ok d \<Longrightarrow> batch_ok rs \<Longrightarrow> ram_submit d rs = (d', bs, Inr c) \<Longrightarrow> ram_ok d'"
    by (auto simp: ram_submit_def split: if_splits prod.splits intro: ram_exec_ok)
  show "ram_submit d rs = (d', bs, Inr c) \<Longrightarrow> batch_ok rs \<Longrightarrow> buffered_writes rs \<Longrightarrow> r \<in> set rs \<Longrightarrow>
      i < rq_count r \<Longrightarrow> d' (rq_lba r + i) = sector_of (buf_bytes (rq_buffer r)) i"
    by (auto simp: ram_submit_def buffered_writes_def split: if_splits prod.splits intro: ram_exec_data)
next
  fix d d' :: ram_disk and bs :: "u8 list list" and c r b
  show "ram_submit d [r] = (d', bs, Inr c) \<Longrightarrow> \<not> rq_write r \<Longrightarrow> rq_buffer r = Buf b \<Longrightarrow>
      bs = [concat (map d [rq_lba r..<rq_lba r + rq_count r])]"
    by (auto simp: ram_submit_def)
qed (auto simp: ram_ok_def)

end
