(* ===== verification/Block_Cache.thy ===== *)
theory Block_Cache
  imports Block_Dev
begin

text \<open>
  The sector cache in front of a block device
  (\<open>kernel/src/filesystems/blockdriver/block_cache.rs\<close>). The hash map of sectors is an association
  list with distinct keys; \<open>ord\<close> is the order in which the map's keys are iterated, which the
  hash map does not specify (\<open>key_order\<close> states that it is a permutation of the keys).
\<close>

type_synonym key_iter = "nat list \<Rightarrow> nat list"

definition key_order :: "key_iter \<Rightarrow> bool" where
  "key_order ord \<longleftrightarrow> (\<forall>ks. mset (ord ks) = mset ks)"

definition CACHE_SIZE :: nat where
  "CACHE_SIZE = 4096"

record block_cache =
  bc_sectors :: "(nat \<times> u8 list) list"
  bc_clock :: "nat list"
  bc_hand :: nat

record 'd cached_device =
  cd_inner :: 'd
  cd_cache :: block_cache

definition bc_new :: block_cache where
  "bc_new = \<lparr>bc_sectors = [], bc_clock = [], bc_hand = 0\<rparr>"

section \<open>The hash map\<close>

definition hm_remove :: "nat \<Rightarrow> (nat \<times> 'a) list \<Rightarrow> (nat \<times> 'a) list" where
  "hm_remove k m = filter (\<lambda>p. fst p \<noteq> k) m"

definition hm_insert :: "nat \<Rightarrow> 'a \<Rightarrow> (nat \<times> 'a) list \<Rightarrow> (nat \<times> 'a) list" where
  "hm_insert k v m = (k, v) # hm_remove k m"

section \<open>Eviction and invalidation\<close>

function evict_loop :: "nat \<Rightarrow> block_cache \<Rightarrow> block_cache" where
  "evict_loop target c =
     (if length (bc_sectors c) > target then
        if bc_clock c = [] then c
        else
          (let hand = if bc_hand c \<ge> length (bc_clock c) then 0 else bc_hand c;
               lba = bc_clock c ! hand
           in evict_loop target
                \<lparr>bc_sectors = hm_remove lba (bc_sectors c), bc_clock = swap_remove hand (bc_clock c), bc_hand = hand\<rparr>)
      else c)"
  by pat_completeness auto
termination
  by (relation "measure (\<lambda>(t, c). length (bc_clock c))") auto

declare evict_loop.simps [simp del]

definition maybe_evict :: "block_cache \<Rightarrow> block_cache" where
  "maybe_evict c =
     (if length (bc_sectors c) < CACHE_SIZE then c else evict_loop (CACHE_SIZE - CACHE_SIZE div 4) c)"

text \<open>One stale line: out of the map, and its first position out of the clock.\<close>

definition drop_line :: "nat \<Rightarrow> block_cache \<Rightarrow> block_cache" where
  "drop_line lba c =
     c\<lparr>bc_sectors := hm_remove lba (bc_sectors c),
       bc_clock := (if lba \<in> set (bc_clock c)
                    then swap_remove (length (takeWhile (\<lambda>x. x \<noteq> lba) (bc_clock c))) (bc_clock c)
                    else bc_clock c)\<rparr>"

definition invalidate_range :: "key_iter \<Rightarrow> nat \<Rightarrow> nat \<Rightarrow> block_cache \<Rightarrow> block_cache" where
  "invalidate_range ord start_lba cnt c =
     (if cnt = 0 then c
      else
        (let e = saturating_add64 start_lba cnt;
             stale = filter (\<lambda>l. start_lba \<le> l \<and> l < e) (ord (map fst (bc_sectors c)))
         in fold drop_line stale c))"

section \<open>Reads and writes through the cache\<close>

text \<open>\<open>read\<close>: the cached bytes, after fetching them when absent. \<open>None\<close> is \<open>Err(())\<close>.\<close>

definition bc_read :: "'d submit \<Rightarrow> 'd \<Rightarrow> block_cache \<Rightarrow> nat \<Rightarrow> 'd \<times> block_cache \<times> u8 list option" where
  "bc_read sub d c lba =
     (case map_of (bc_sectors c) lba of
        Some data \<Rightarrow> (d, c, Some data)
      | None \<Rightarrow>
          (case sub d [\<lparr>rq_lba = lba, rq_count = 1, rq_buffer = Buf (replicate 512 0), rq_write = False\<rparr>] of
             (d', bs, Inl e) \<Rightarrow> (d', c, None)
           | (d', bs, Inr cs) \<Rightarrow>
               if \<not> all_ok cs then (d', c, None)
               else
                 (let c1 = maybe_evict c;
                      c2 = c1\<lparr>bc_sectors := hm_insert lba (hd bs) (bc_sectors c1), bc_clock := bc_clock c1 @ [lba]\<rparr>
                  in (d', c2, map_of (bc_sectors c2) lba))))"

text \<open>\<open>read_raw\<close>: the first \<open>min 512 len\<close> bytes of the caller's buffer are overwritten.\<close>

definition read_raw :: "'d submit \<Rightarrow> 'd \<Rightarrow> block_cache \<Rightarrow> nat \<Rightarrow> u8 list \<Rightarrow> 'd \<times> block_cache \<times> u8 list \<times> bool" where
  "read_raw sub d c lba buf =
     (case bc_read sub d c lba of
        (d', c', None) \<Rightarrow> (d', c', buf, False)
      | (d', c', Some data) \<Rightarrow>
          let copy_len = min 512 (length buf)
          in (d', c', take copy_len data @ drop copy_len buf, True))"

definition insert_written :: "nat \<Rightarrow> u8 list \<Rightarrow> block_cache \<Rightarrow> block_cache" where
  "insert_written lba sector c =
     (let c1 = if map_of (bc_sectors c) lba = None
               then (let c0 = maybe_evict c in c0\<lparr>bc_clock := bc_clock c0 @ [lba]\<rparr>) else c
      in c1\<lparr>bc_sectors := hm_insert lba sector (bc_sectors c1)\<rparr>)"

definition apply_write_to_cache :: "key_iter \<Rightarrow> io_request \<Rightarrow> block_cache \<Rightarrow> block_cache" where
  "apply_write_to_cache ord r c =
     (case rq_buffer r of
        Phys pa sz \<Rightarrow> c
      | b \<Rightarrow>
          if rq_count r \<le> 1 \<and> length (buf_bytes b) = 512
          then insert_written (rq_lba r) (buf_bytes b) c
          else invalidate_range ord (rq_lba r) (rq_count r) c)"

definition read_io :: "'d submit \<Rightarrow> 'd \<Rightarrow> block_cache \<Rightarrow> io_request \<Rightarrow> 'd \<times> block_cache \<times> u8 list \<times> bool" where
  "read_io sub d c r =
     (case rq_buffer r of
        Buf buf \<Rightarrow>
          if rq_count r > 1 then
            (case sub d [\<lparr>rq_lba = rq_lba r, rq_count = rq_count r, rq_buffer = Buf buf, rq_write = False\<rparr>] of
               (d', bs, Inl e) \<Rightarrow> (d', c, hd bs, False)
             | (d', bs, Inr cs) \<Rightarrow> (d', c, hd bs, all_ok cs))
          else read_raw sub d c (rq_lba r) buf
      | b \<Rightarrow> (d, c, buf_bytes b, False))"

section \<open>The batch loop\<close>

definition in_run :: "io_request \<Rightarrow> bool" where
  "in_run r \<longleftrightarrow> rq_write r \<and> \<not> is_phys (rq_buffer r)"

function submit_loop ::
  "key_iter \<Rightarrow> 'd submit \<Rightarrow> 'd \<Rightarrow> block_cache \<Rightarrow> io_request list \<Rightarrow> nat \<Rightarrow> nat \<Rightarrow> u8 list list
   \<Rightarrow> 'd \<times> block_cache \<times> u8 list list \<times> nat \<times> nat" where
  "submit_loop ord sub d c [] completed errors bufs = (d, c, bufs, completed, errors)"
| "submit_loop ord sub d c (r # rs) completed errors bufs =
     (if is_phys (rq_buffer r) then
        (case sub d [r] of
           (d', bs, res) \<Rightarrow>
             (if (case res of Inr cs \<Rightarrow> all_ok cs | Inl e \<Rightarrow> False)
              then submit_loop ord sub d' (if rq_write r then invalidate_range ord (rq_lba r) (rq_count r) c else c)
                     rs (wadd32 completed 1) errors (bufs @ [[]])
              else submit_loop ord sub d' c rs completed (wadd32 errors 1) (bufs @ [[]])))
      else if rq_write r then
        (let run = r # takeWhile in_run rs; rest = dropWhile in_run rs; bufs' = bufs @ map (buf_bytes \<circ> rq_buffer) run
         in case sub d run of
              (d', bs, Inr cs) \<Rightarrow>
                submit_loop ord sub d'
                  (if all_ok cs then fold (apply_write_to_cache ord) run c
                   else fold (\<lambda>rr. invalidate_range ord (rq_lba rr) (rq_count rr)) run c)
                  rest (wadd32 completed (ic_completed cs)) (wadd32 errors (ic_errors cs)) bufs'
            | (d', bs, Inl e) \<Rightarrow>
                submit_loop ord sub d' c rest completed (wadd32 errors (length run)) bufs')
      else
        (case read_io sub d c r of
           (d', c', b, success) \<Rightarrow>
             (if success then submit_loop ord sub d' c' rs (wadd32 completed 1) errors (bufs @ [b])
              else submit_loop ord sub d' c' rs completed (wadd32 errors 1) (bufs @ [b]))))"
  by pat_completeness auto
termination
  by (relation "measure (\<lambda>(ord, sub, d, c, rs, _). length rs)") (auto simp: less_Suc_eq_le length_dropWhile_le)

declare submit_loop.simps(2) [simp del]

definition cached_submit :: "key_iter \<Rightarrow> 'd submit \<Rightarrow> 'd cached_device submit" where
  "cached_submit ord sub st reqs =
     (case submit_loop ord sub (cd_inner st) (cd_cache st) reqs 0 0 [] of
        (d, c, bufs, completed, errors) \<Rightarrow>
          (\<lparr>cd_inner = d, cd_cache = c\<rparr>, bufs, Inr \<lparr>ic_completed = completed, ic_errors = errors\<rparr>))"

definition cached_new :: "'d \<Rightarrow> 'd cached_device" where
  "cached_new inner = \<lparr>cd_inner = inner, cd_cache = bc_new\<rparr>"

end
