(* ===== verification/Cache_Props.thy ===== *)
theory Cache_Props
  imports Block_Cache
begin

text \<open>
  The sector cache is transparent: its bookkeeping stays consistent, every cached line equals the
  sector on the device, and the cached device keeps the contract of the device below it.
\<close>

section \<open>The bookkeeping invariant\<close>

definition cache_ok :: "block_cache \<Rightarrow> bool" where
  "cache_ok c \<longleftrightarrow> distinct (map fst (bc_sectors c)) \<and> distinct (bc_clock c)
     \<and> set (bc_clock c) = fst ` set (bc_sectors c) \<and> length (bc_sectors c) \<le> CACHE_SIZE"

lemma set_hm_remove [simp]: "set (hm_remove k m) = {p \<in> set m. fst p \<noteq> k}"
  by (simp add: hm_remove_def)

lemma distinct_hm_remove: "distinct (map fst m) \<Longrightarrow> distinct (map fst (hm_remove k m))"
  by (simp add: hm_remove_def distinct_map_filter)

lemma keys_hm_remove: "fst ` set (hm_remove k m) = fst ` set m - {k}"
  by auto

lemma length_hm_remove_le: "length (hm_remove k m) \<le> length m"
  by (simp add: hm_remove_def)

lemma length_hm_remove: "k \<in> fst ` set m \<Longrightarrow> length (hm_remove k m) < length m"
  unfolding hm_remove_def by (auto intro: length_filter_less)

lemma cache_ok_remove:
  assumes "cache_ok c" "i < length (bc_clock c)"
  shows "cache_ok (c\<lparr>bc_sectors := hm_remove (bc_clock c ! i) (bc_sectors c),
                     bc_clock := swap_remove i (bc_clock c), bc_hand := h\<rparr>)"
  using assms set_swap_remove [OF assms(2)] length_hm_remove_le [of "bc_clock c ! i" "bc_sectors c"]
  by (simp add: cache_ok_def distinct_hm_remove keys_hm_remove del: set_hm_remove)

lemma evict_loop_props:
  assumes "cache_ok c" "0 < target"
  shows "cache_ok (evict_loop target c) \<and> length (bc_sectors (evict_loop target c)) \<le> target
    \<and> set (bc_sectors (evict_loop target c)) \<subseteq> set (bc_sectors c)"
  using assms
proof (induction target c rule: evict_loop.induct)
  case (1 target c)
  show ?case
  proof (cases "length (bc_sectors c) > target \<and> bc_clock c \<noteq> []")
    case True
    define hand where "hand = (if bc_hand c \<ge> length (bc_clock c) then 0 else bc_hand c)"
    define c' where "c' = \<lparr>bc_sectors = hm_remove (bc_clock c ! hand) (bc_sectors c),
        bc_clock = swap_remove hand (bc_clock c), bc_hand = hand\<rparr>"
    have hand: "hand < length (bc_clock c)" using True by (simp add: hand_def)
    have "c' = c\<lparr>bc_sectors := hm_remove (bc_clock c ! hand) (bc_sectors c),
        bc_clock := swap_remove hand (bc_clock c), bc_hand := hand\<rparr>" by (simp add: c'_def)
    then have ok: "cache_ok c'" using cache_ok_remove [OF "1.prems"(1) hand] by simp
    have eq: "evict_loop target c = evict_loop target c'"
      using True by (subst evict_loop.simps) (simp add: Let_def hand_def c'_def)
    have "set (bc_sectors c') \<subseteq> set (bc_sectors c)" by (auto simp: c'_def)
    with "1.IH" [OF _ _ refl refl, folded hand_def, folded c'_def, OF _ _ ok "1.prems"(2)] True eq
    show ?thesis by auto
  next
    case False
    then have "evict_loop target c = c" by (subst evict_loop.simps) auto
    moreover have "length (bc_sectors c) \<le> target"
      using False "1.prems" by (cases "bc_clock c") (auto simp: cache_ok_def)
    ultimately show ?thesis using "1.prems" by simp
  qed
qed

lemma maybe_evict_props:
  assumes "cache_ok c"
  shows "cache_ok (maybe_evict c)" "length (bc_sectors (maybe_evict c)) < CACHE_SIZE"
    "set (bc_sectors (maybe_evict c)) \<subseteq> set (bc_sectors c)"
  using assms evict_loop_props [of c "CACHE_SIZE - CACHE_SIZE div 4"]
  by (auto simp: maybe_evict_def CACHE_SIZE_def)

lemma drop_line_props:
  assumes "cache_ok c"
  shows "cache_ok (drop_line lba c)" "set (bc_sectors (drop_line lba c)) = {p \<in> set (bc_sectors c). fst p \<noteq> lba}"
proof -
  show "set (bc_sectors (drop_line lba c)) = {p \<in> set (bc_sectors c). fst p \<noteq> lba}"
    by (simp add: drop_line_def)
  show "cache_ok (drop_line lba c)"
  proof (cases "lba \<in> set (bc_clock c)")
    case True
    let ?i = "length (takeWhile (\<lambda>x. x \<noteq> lba) (bc_clock c))"
    have "takeWhile (\<lambda>x. x \<noteq> lba) (bc_clock c) \<noteq> bc_clock c" using True by (auto simp: takeWhile_eq_all_conv)
    then have "?i \<noteq> length (bc_clock c)" by (metis takeWhile_eq_take take_all order_refl)
    then have i: "?i < length (bc_clock c)"
      using length_takeWhile_le [of "\<lambda>x. x \<noteq> lba" "bc_clock c"] by linarith
    then have "bc_clock c ! ?i = lba" using nth_length_takeWhile by blast
    with cache_ok_remove [OF assms i, of "bc_hand c"] True show ?thesis by (simp add: drop_line_def)
  next
    case False
    then have "hm_remove lba (bc_sectors c) = bc_sectors c"
      using assms by (auto simp: hm_remove_def filter_id_conv cache_ok_def)
    with False assms show ?thesis by (simp add: drop_line_def)
  qed
qed

lemma fold_drop_line:
  assumes "cache_ok c"
  shows "cache_ok (fold drop_line ks c) \<and> set (bc_sectors (fold drop_line ks c)) = {p \<in> set (bc_sectors c). fst p \<notin> set ks}"
  using assms
proof (induction ks arbitrary: c)
  case (Cons k ks)
  from Cons.IH [OF drop_line_props(1) [OF Cons.prems], of k] drop_line_props(2) [OF Cons.prems, of k]
  show ?case by auto
qed simp

lemma invalidate_range_props:
  assumes "key_order ord" "cache_ok c"
  shows "cache_ok (invalidate_range ord s n c)" "set (bc_sectors (invalidate_range ord s n c)) \<subseteq> set (bc_sectors c)"
    "s + n \<le> u64_max \<Longrightarrow> p \<in> set (bc_sectors (invalidate_range ord s n c)) \<Longrightarrow> fst p \<notin> {s..<s + n}"
proof -
  have "set (ord ks) = set ks" for ks using assms(1) by (metis key_order_def mset_eq_setD)
  then have s: "set (filter (\<lambda>l. s \<le> l \<and> l < saturating_add64 s n) (ord (map fst (bc_sectors c))))
      = {l \<in> fst ` set (bc_sectors c). s \<le> l \<and> l < saturating_add64 s n}" by auto
  note f = fold_drop_line [OF assms(2), of "filter (\<lambda>l. s \<le> l \<and> l < saturating_add64 s n) (ord (map fst (bc_sectors c)))"]
  show "cache_ok (invalidate_range ord s n c)" "set (bc_sectors (invalidate_range ord s n c)) \<subseteq> set (bc_sectors c)"
    using f assms(2) by (auto simp: invalidate_range_def Let_def)
  assume "s + n \<le> u64_max" and p: "p \<in> set (bc_sectors (invalidate_range ord s n c))"
  then have "saturating_add64 s n = s + n" by (simp add: saturating_add64_def)
  with p f s show "fst p \<notin> {s..<s + n}" by (cases "n = 0") (auto simp: invalidate_range_def Let_def)
qed

lemma cache_ok_fresh:
  assumes "cache_ok c" "length (bc_sectors c) < CACHE_SIZE" "lba \<notin> fst ` set (bc_sectors c)"
  shows "cache_ok (c\<lparr>bc_sectors := hm_insert lba v (bc_sectors c), bc_clock := bc_clock c @ [lba]\<rparr>)"
proof -
  have "hm_remove lba (bc_sectors c) = bc_sectors c" using assms(3) by (auto simp: hm_remove_def filter_id_conv)
  then show ?thesis using assms by (auto simp: cache_ok_def hm_insert_def)
qed

lemma cache_upd_swap: "c\<lparr>bc_clock := a, bc_sectors := b\<rparr> = c\<lparr>bc_sectors := b, bc_clock := a\<rparr>"
  by simp

lemma insert_written_props:
  assumes "cache_ok c"
  shows "cache_ok (insert_written lba v c)"
    "set (bc_sectors (insert_written lba v c)) \<subseteq> insert (lba, v) {p \<in> set (bc_sectors c). fst p \<noteq> lba}"
proof -
  have abs: "map_of (bc_sectors c) lba = None \<Longrightarrow> lba \<notin> fst ` set (bc_sectors (maybe_evict c))"
    using maybe_evict_props(3) [OF assms] by (auto simp: map_of_eq_None_iff)
  show "cache_ok (insert_written lba v c)"
  proof (cases "map_of (bc_sectors c) lba")
    case None
    with cache_ok_fresh [OF maybe_evict_props(1,2) [OF assms] abs, of v] show ?thesis
      by (simp add: insert_written_def Let_def cache_upd_swap)
  next
    case (Some w)
    then have k: "lba \<in> fst ` set (bc_sectors c)" by (metis map_of_SomeD fst_conv image_eqI)
    then have "Suc (length (hm_remove lba (bc_sectors c))) \<le> length (bc_sectors c)"
      using length_hm_remove by (metis Suc_leI)
    with Some k assms show ?thesis
      by (auto simp: insert_written_def Let_def cache_ok_def hm_insert_def distinct_hm_remove)
  qed
  show "set (bc_sectors (insert_written lba v c)) \<subseteq> insert (lba, v) {p \<in> set (bc_sectors c). fst p \<noteq> lba}"
    using maybe_evict_props(3) [OF assms] by (auto simp: insert_written_def Let_def hm_insert_def)
qed

lemma apply_write_ok: "key_order ord \<Longrightarrow> cache_ok c \<Longrightarrow> cache_ok (apply_write_to_cache ord r c)"
  by (auto simp: apply_write_to_cache_def insert_written_props invalidate_range_props split: io_buffer.splits)

lemma fold_cache_ok:
  "(\<And>r c. cache_ok c \<Longrightarrow> cache_ok (f r c)) \<Longrightarrow> cache_ok c \<Longrightarrow> cache_ok (fold f rs c)"
  by (induction rs arbitrary: c) auto

lemma bc_read_ok:
  assumes "cache_ok c" "bc_read sub d c lba = (d', c', v)"
  shows "cache_ok c'"
proof -
  have "map_of (bc_sectors c) lba = None \<Longrightarrow> lba \<notin> fst ` set (bc_sectors (maybe_evict c))"
    using maybe_evict_props(3) [OF assms(1)] by (auto simp: map_of_eq_None_iff)
  then show ?thesis
    using assms cache_ok_fresh [OF maybe_evict_props(1,2) [OF assms(1)], of lba]
    by (auto simp: bc_read_def Let_def split: option.splits prod.splits sum.splits if_splits)
qed

lemma read_io_ok: "cache_ok c \<Longrightarrow> read_io sub d c r = (d', c', b, s) \<Longrightarrow> cache_ok c'"
  by (auto simp: read_io_def read_raw_def Let_def split: io_buffer.splits prod.splits sum.splits if_splits option.splits
      dest: bc_read_ok)

section \<open>The batch loop as a step relation\<close>

text \<open>One turn of the loop: the device, the cache, the requests left and the two counters.\<close>

inductive loop_turn ::
  "key_iter \<Rightarrow> 'd submit \<Rightarrow> 'd \<times> block_cache \<times> io_request list \<times> nat \<times> nat
   \<Rightarrow> 'd \<times> block_cache \<times> io_request list \<times> nat \<times> nat \<Rightarrow> bool" for ord sub where
  phys_ok: "is_phys (rq_buffer r) \<Longrightarrow> sub d [r] = (d', bs, Inr cs) \<Longrightarrow> all_ok cs \<Longrightarrow>
    loop_turn ord sub (d, c, r # rs, n, e)
      (d', if rq_write r then invalidate_range ord (rq_lba r) (rq_count r) c else c, rs, wadd32 n 1, e)"
| phys_err: "is_phys (rq_buffer r) \<Longrightarrow> sub d [r] = (d', bs, res) \<Longrightarrow> \<nexists>cs. res = Inr cs \<and> all_ok cs \<Longrightarrow>
    loop_turn ord sub (d, c, r # rs, n, e) (d', c, rs, n, wadd32 e 1)"
| run_ok: "buffered_writes run \<Longrightarrow> run \<noteq> [] \<Longrightarrow> sub d run = (d', bs, Inr cs) \<Longrightarrow>
    loop_turn ord sub (d, c, run @ rs, n, e)
      (d', if all_ok cs then fold (apply_write_to_cache ord) run c
           else fold (\<lambda>r. invalidate_range ord (rq_lba r) (rq_count r)) run c,
       rs, wadd32 n (ic_completed cs), wadd32 e (ic_errors cs))"
| run_err: "buffered_writes run \<Longrightarrow> run \<noteq> [] \<Longrightarrow> sub d run = (d', bs, Inl x) \<Longrightarrow>
    loop_turn ord sub (d, c, run @ rs, n, e) (d', c, rs, n, wadd32 e (length run))"
| rd: "\<not> rq_write r \<Longrightarrow> read_io sub d c r = (d', c', b, s) \<Longrightarrow>
    loop_turn ord sub (d, c, r # rs, n, e) (d', c', rs, if s then wadd32 n 1 else n, if s then e else wadd32 e 1)"

lemma submit_loop_turn:
  "\<exists>d1 c1 rs1 n1 e1 bufs1. loop_turn ord sub (d, c, r # rs, n, e) (d1, c1, rs1, n1, e1)
     \<and> length rs1 < length (r # rs)
     \<and> submit_loop ord sub d c (r # rs) n e bufs = submit_loop ord sub d1 c1 rs1 n1 e1 bufs1"
proof (cases "is_phys (rq_buffer r)")
  case True
  obtain d' bs res where s: "sub d [r] = (d', bs, res)" by (metis prod_cases3)
  show ?thesis
  proof (cases "\<exists>cs. res = Inr cs \<and> all_ok cs")
    case ok: True
    with s obtain cs where "sub d [r] = (d', bs, Inr cs)" "all_ok cs" by auto
    from phys_ok [of r sub d d' bs cs ord c rs n e] this s ok True show ?thesis
      by (intro exI conjI) (assumption, auto simp: submit_loop.simps(2))
  next
    case err: False
    from phys_err [of r sub d d' bs res ord c rs n e] s err True show ?thesis
      by (intro exI conjI) (assumption, auto simp: submit_loop.simps(2) split: sum.splits)
  qed
next
  case np: False
  show ?thesis
  proof (cases "rq_write r")
    case True
    let ?run = "r # takeWhile in_run rs"
    obtain d' bs res where s: "sub d ?run = (d', bs, res)" by (metis prod_cases3)
    have run: "buffered_writes ?run" "?run \<noteq> []" "?run @ dropWhile in_run rs = r # rs"
      using np True set_takeWhileD [of _ in_run rs] by (auto simp: buffered_writes_def in_run_def)
    show ?thesis
    proof (cases res)
      case (Inl x)
      from run_err [OF run(1,2), of sub d d' bs x ord c "dropWhile in_run rs" n e] s Inl np True
      show ?thesis
        by (intro exI conjI) (auto simp: submit_loop.simps(2) Let_def length_dropWhile_le less_Suc_eq_le)
    next
      case (Inr cs)
      from run_ok [OF run(1,2), of sub d d' bs cs ord c "dropWhile in_run rs" n e] s Inr np True
      show ?thesis
        by (intro exI conjI) (auto simp: submit_loop.simps(2) Let_def length_dropWhile_le less_Suc_eq_le)
    qed
  next
    case False
    obtain d' c' b s where s: "read_io sub d c r = (d', c', b, s)" by (metis prod_cases4)
    from rd [of r sub d c d' c' b s ord rs n e] s False np show ?thesis
      by (intro exI conjI) (assumption, auto simp: submit_loop.simps(2))
  qed
qed

lemma submit_loop_turns:
  "submit_loop ord sub d c rs n e bufs = (d', c', bufs', n', e') \<Longrightarrow>
   (loop_turn ord sub)\<^sup>*\<^sup>* (d, c, rs, n, e) (d', c', [], n', e')"
proof (induction "length rs" arbitrary: d c rs n e bufs rule: less_induct)
  case less
  show ?case
  proof (cases rs)
    case Nil
    then show ?thesis using less.prems by simp
  next
    case (Cons r ts)
    obtain d1 c1 rs1 n1 e1 bufs1 where t: "loop_turn ord sub (d, c, rs, n, e) (d1, c1, rs1, n1, e1)"
      "length rs1 < length rs" "submit_loop ord sub d c rs n e bufs = submit_loop ord sub d1 c1 rs1 n1 e1 bufs1"
      using submit_loop_turn [of ord sub d c r ts n e bufs] Cons by blast
    with less.hyps [OF t(2)] less.prems show ?thesis by (metis converse_rtranclp_into_rtranclp)
  qed
qed

lemma loop_turn_cache_ok:
  assumes "key_order ord" "loop_turn ord sub x y" "cache_ok (fst (snd x))"
  shows "cache_ok (fst (snd y))"
  using assms(2,3)
proof cases
  case (run_ok run d d' bs cs c rs n e)
  have "cache_ok (fold (apply_write_to_cache ord) run c)"
    "cache_ok (fold (\<lambda>r. invalidate_range ord (rq_lba r) (rq_count r)) run c)"
    using assms(3) run_ok(1) apply_write_ok [OF assms(1)] invalidate_range_props(1) [OF assms(1)]
    by (auto intro!: fold_cache_ok)
  then show ?thesis using run_ok(2) by simp
qed (use invalidate_range_props(1) [OF assms(1)] read_io_ok in auto)

lemma submit_loop_cache_ok:
  assumes "key_order ord" "cache_ok c" "submit_loop ord sub d c rs n e bufs = (d', c', bufs', n', e')"
  shows "cache_ok c'"
proof -
  have "cache_ok (fst (snd y))" if "(loop_turn ord sub)\<^sup>*\<^sup>* (d, c, rs, n, e) y" for y
    using that by (induction rule: rtranclp_induct) (use assms(1,2) loop_turn_cache_ok in auto)
  from this [OF submit_loop_turns [OF assms(3)]] show ?thesis by simp
qed

end
