(* ===== verification/Cache_Coherence.thy ===== *)
theory Cache_Coherence
  imports Cache_Props
begin

text \<open>
  Coherence of the sector cache with the device below it, proved once for every driver that keeps the
  contract \<open>block_device\<close>, and the contract of the cached device itself.
\<close>

definition coherent :: "(nat \<Rightarrow> u8 list) \<Rightarrow> block_cache \<Rightarrow> bool" where
  "coherent dk c \<longleftrightarrow> (\<forall>p\<in>set (bc_sectors c). snd p = dk (fst p))"

definition cached_ok :: "('d \<Rightarrow> nat \<Rightarrow> u8 list) \<Rightarrow> ('d \<Rightarrow> bool) \<Rightarrow> 'd cached_device \<Rightarrow> bool" where
  "cached_ok disk ok s \<longleftrightarrow> ok (cd_inner s) \<and> cache_ok (cd_cache s) \<and> coherent (disk (cd_inner s)) (cd_cache s)"

lemma coherent_subset: "coherent dk c \<Longrightarrow> set (bc_sectors c') \<subseteq> set (bc_sectors c) \<Longrightarrow> coherent dk c'"
  by (auto simp: coherent_def)

text \<open>Writing the lines of a batch: what is cached afterwards was written or lies outside the batch.\<close>

lemma invalidate_fold:
  assumes "key_order ord" "cache_ok c"
  shows "set (bc_sectors (fold (\<lambda>r. invalidate_range ord (rq_lba r) (rq_count r)) rs c)) \<subseteq> set (bc_sectors c)"
  using assms(2)
proof (induction rs arbitrary: c)
  case (Cons r rs)
  from Cons.IH [OF invalidate_range_props(1) [OF assms(1) Cons.prems, of "rq_lba r" "rq_count r"]]
    invalidate_range_props(2) [OF assms(1) Cons.prems, of "rq_lba r" "rq_count r"]
  show ?case by auto
qed simp

lemma invalidate_fold_out:
  assumes "key_order ord" "cache_ok c" "\<forall>r\<in>set rs. wf_write r"
    and "p \<in> set (bc_sectors (fold (\<lambda>r. invalidate_range ord (rq_lba r) (rq_count r)) rs c))" "r \<in> set rs"
  shows "fst p \<notin> rq_range r"
  using assms(2-5)
proof (induction rs arbitrary: c)
  case (Cons q rs)
  let ?c = "invalidate_range ord (rq_lba q) (rq_count q) c"
  have ok: "cache_ok ?c" by (rule invalidate_range_props(1) [OF assms(1) Cons.prems(1)])
  show ?case
  proof (cases "r \<in> set rs")
    case True
    with Cons.IH [OF ok] Cons.prems show ?thesis by simp
  next
    case False
    with Cons.prems have r: "r = q" by simp
    have "p \<in> set (bc_sectors ?c)" using invalidate_fold [OF assms(1) ok, of rs] Cons.prems(3) by auto
    with invalidate_range_props(3) [OF assms(1) Cons.prems(1)] Cons.prems(2) r show ?thesis
      by (simp add: rq_range_def wf_write_def)
  qed
qed simp

lemma apply_write_sectors:
  assumes "key_order ord" "cache_ok c" "wf_write r" "\<not> is_phys (rq_buffer r)"
    and "p \<in> set (bc_sectors (apply_write_to_cache ord r c))"
  shows "p \<in> set (bc_sectors c) \<and> fst p \<notin> rq_range r
     \<or> p = (rq_lba r, sector_of (buf_bytes (rq_buffer r)) 0) \<and> 0 < rq_count r"
proof -
  let ?b = "buf_bytes (rq_buffer r)"
  have eq: "apply_write_to_cache ord r c = (if rq_count r \<le> 1 \<and> length ?b = 512
      then insert_written (rq_lba r) ?b c else invalidate_range ord (rq_lba r) (rq_count r) c)"
    using assms(4) by (auto simp: apply_write_to_cache_def split: io_buffer.splits)
  show ?thesis
  proof (cases "rq_count r \<le> 1 \<and> length ?b = 512")
    case True
    then have "rq_count r = 1" "sector_of ?b 0 = ?b" using assms(3) by (auto simp: wf_write_def sector_of_def)
    with True assms(5) insert_written_props(2) [OF assms(2), of "rq_lba r" ?b] show ?thesis
      by (auto simp: eq rq_range_def)
  next
    case False
    with assms(5) have p: "p \<in> set (bc_sectors (invalidate_range ord (rq_lba r) (rq_count r) c))"
      unfolding eq by (auto split: if_splits)
    with invalidate_range_props(2,3) [OF assms(1,2)] assms(3) show ?thesis
      by (auto simp: rq_range_def wf_write_def)
  qed
qed

lemma apply_write_fold:
  assumes "key_order ord" "cache_ok c" "\<forall>r\<in>set rs. wf_write r \<and> \<not> is_phys (rq_buffer r)"
    and "p \<in> set (bc_sectors (fold (apply_write_to_cache ord) rs c))"
  shows "p \<in> set (bc_sectors c) \<and> (\<forall>r\<in>set rs. fst p \<notin> rq_range r)
     \<or> (\<exists>r\<in>set rs. p = (rq_lba r, sector_of (buf_bytes (rq_buffer r)) 0) \<and> 0 < rq_count r)"
  using assms(2-4)
proof (induction rs arbitrary: c)
  case (Cons q rs)
  let ?c = "apply_write_to_cache ord q c"
  have ok: "cache_ok ?c" by (rule apply_write_ok [OF assms(1) Cons.prems(1)])
  from Cons.IH [OF ok] Cons.prems consider
    "p \<in> set (bc_sectors ?c)" "\<forall>r\<in>set rs. fst p \<notin> rq_range r"
    | r where "r \<in> set rs" "p = (rq_lba r, sector_of (buf_bytes (rq_buffer r)) 0)" "0 < rq_count r" by auto
  then show ?case
  proof cases
    case 1
    from apply_write_sectors [OF assms(1) Cons.prems(1) _ _ 1(1)] Cons.prems(2) 1(2) show ?thesis by auto
  qed auto
qed simp

lemma batch_wf: "batch_ok rs \<Longrightarrow> r \<in> set rs \<Longrightarrow> rq_write r \<Longrightarrow> wf_write r"
  by (induction rs) auto

context block_device
begin

lemma bc_read_coherent:
  assumes "ok d" "cache_ok c" "coherent (disk d) c" "bc_read sub d c lba = (d', c', v)"
  shows "disk d' = disk d" "coherent (disk d') c'" "v = Some x \<Longrightarrow> x = disk d lba \<and> ok d'"
    "v = None \<or> ok d'"
proof -
  let ?rq = "\<lparr>rq_lba = lba, rq_count = 1, rq_buffer = Buf (replicate 512 0), rq_write = False\<rparr>"
  obtain d1 bs res where s: "sub d [?rq] = (d1, bs, res)" by (metis prod_cases3)
  have dk: "disk d1 = disk d" using read_frame [OF s] by simp
  have hit: "x = disk d lba" if "map_of (bc_sectors c) lba = Some x" for x
    using bspec [OF assms(3) [unfolded coherent_def] map_of_SomeD [OF that]] by simp
  have data: "bs = [disk d lba] \<and> ok d1" if "res = Inr cs" "all_ok cs" for cs
    using read_data [OF assms(1), of ?rq d1 bs cs] keeps [OF assms(1), of "[?rq]" d1 bs cs] s that
    by (simp add: all_ok_def)
  have coh: "coherent (disk d) (maybe_evict c)"
    using assms(3) maybe_evict_props(3) [OF assms(2)] by (rule coherent_subset)
  show "disk d' = disk d" "coherent (disk d') c'" "v = Some x \<Longrightarrow> x = disk d lba \<and> ok d'" "v = None \<or> ok d'"
    using assms(1,3,4) s dk hit data coh
    by (auto simp: bc_read_def Let_def hm_insert_def coherent_def split: option.splits sum.splits if_splits)
qed

lemma read_io_coherent:
  assumes "ok d" "cache_ok c" "coherent (disk d) c" "\<not> rq_write r" "read_io sub d c r = (d', c', b, s)"
  shows "disk d' = disk d \<and> coherent (disk d') c' \<and> (s \<longrightarrow> ok d')"
proof (cases "rq_buffer r")
  case (Buf buf)
  show ?thesis
  proof (cases "rq_count r > 1")
    case True
    let ?rq = "\<lparr>rq_lba = rq_lba r, rq_count = rq_count r, rq_buffer = Buf buf, rq_write = False\<rparr>"
    obtain d1 bs res where s: "sub d [?rq] = (d1, bs, res)" by (metis prod_cases3)
    have "disk d1 = disk d" using read_frame [OF s] by simp
    moreover have "ok d1" if "res = Inr cs" "all_ok cs" for cs
      using keeps [OF assms(1), of "[?rq]" d1 bs cs] s that by (simp add: all_ok_def)
    ultimately show ?thesis using assms s Buf True by (auto simp: read_io_def split: sum.splits)
  next
    case False
    obtain v where v: "bc_read sub d c (rq_lba r) = (d', c', v)" and "s = (v \<noteq> None)"
      using assms(5) Buf False
      by (auto simp: read_io_def read_raw_def Let_def split: prod.splits option.splits)
    with bc_read_coherent [OF assms(1-3) v] show ?thesis by auto
  qed
qed (use assms in \<open>auto simp: read_io_def\<close>)

text \<open>A batch whose cache updates are applied after the device took it.\<close>

lemma run_coherent:
  assumes ord: "key_order ord" and st: "ok d" "cache_ok c" "coherent (disk d) c"
    and run: "batch_ok rs" "buffered_writes rs" "length rs < 2 ^ 32" "sub d rs = (d', bs, Inr cs)"
  shows "coherent (disk d') (if all_ok cs then fold (apply_write_to_cache ord) rs c
           else fold (\<lambda>r. invalidate_range ord (rq_lba r) (rq_count r)) rs c)"
proof -
  have wf: "\<forall>r\<in>set rs. wf_write r \<and> \<not> is_phys (rq_buffer r)"
    using run(1,2) batch_wf by (auto simp: buffered_writes_def)
  have keep: "disk d' l = disk d l" if "\<forall>r\<in>set rs. l \<notin> rq_range r" for l
    using frame [OF run(4)] that by (auto simp: written_def)
  have "snd p = disk d' (fst p)" if "all_ok cs" "p \<in> set (bc_sectors (fold (apply_write_to_cache ord) rs c))" for p
    using apply_write_fold [OF ord st(2) wf that(2)]
  proof
    assume "p \<in> set (bc_sectors c) \<and> (\<forall>r\<in>set rs. fst p \<notin> rq_range r)"
    then show ?thesis using keep st(3) by (auto simp: coherent_def)
  next
    assume "\<exists>r\<in>set rs. p = (rq_lba r, sector_of (buf_bytes (rq_buffer r)) 0) \<and> 0 < rq_count r"
    then obtain r where "r \<in> set rs" "p = (rq_lba r, sector_of (buf_bytes (rq_buffer r)) 0)" "0 < rq_count r" by blast
    then show ?thesis using write_data [OF st(1) run(3,1,2,4) that(1), of r 0] by simp
  qed
  moreover have "snd p = disk d' (fst p)"
    if p: "p \<in> set (bc_sectors (fold (\<lambda>r. invalidate_range ord (rq_lba r) (rq_count r)) rs c))" for p
  proof -
    have "\<forall>r\<in>set rs. fst p \<notin> rq_range r" using invalidate_fold_out [OF ord st(2) _ p] wf by auto
    with keep st(3) p invalidate_fold [OF ord st(2), of rs] show ?thesis by (auto simp: coherent_def)
  qed
  ultimately show ?thesis by (auto simp: coherent_def)
qed

section \<open>The whole batch\<close>

text \<open>What a turn of the batch loop does to the counters, the device and the cache.\<close>

lemma loop_turn_counts:
  assumes "loop_turn ord sub (d, c, rs, n, e) (d', c', rs', n', e')" "n + e + length rs < 2 ^ 32"
  shows "n \<le> n' \<and> e \<le> e' \<and> n' + e' + length rs' \<le> n + e + length rs"
  using assms(1)
proof cases
  case (run_ok run bs cs)
  have "ic_completed cs + ic_errors cs \<le> length run" by (rule counts [OF _ run_ok(7)]) (use run_ok assms(2) in simp)
  with run_ok assms(2) show ?thesis by (simp add: wadd32_exact)
qed (use assms(2) in \<open>auto simp: wadd32_exact\<close>)

lemma bc_read_frame: "bc_read sub d c lba = (d', c', v) \<Longrightarrow> disk d' = disk d"
  by (auto simp: bc_read_def Let_def split: option.splits prod.splits sum.splits if_splits dest!: read_frame)

lemma read_io_frame: "read_io sub d c r = (d', c', b, s) \<Longrightarrow> disk d' = disk d"
  by (auto simp: read_io_def read_raw_def Let_def
      split: io_buffer.splits option.splits prod.splits sum.splits if_splits dest!: read_frame dest: bc_read_frame)

lemma loop_turn_frame:
  assumes "loop_turn ord sub (d, c, rs, n, e) (d', c', rs', n', e')"
  shows "written rs' \<subseteq> written rs" "l \<notin> written rs \<Longrightarrow> disk d' l = disk d l" "batch_ok rs \<Longrightarrow> batch_ok rs'"
  using assms by (cases; auto simp: written_Cons written_append read_io_frame dest: frame batch_ok_append)+

lemma loop_turn_coherent:
  assumes ord: "key_order ord" and t: "loop_turn ord sub (d, c, rs, n, e) (d', c', rs', n', e')"
    and n: "n + e + length rs < 2 ^ 32" "batch_ok rs" "e' = e"
    and st: "ok d" "cache_ok c" "coherent (disk d) c"
  shows "ok d' \<and> coherent (disk d') c'"
  using t
proof cases
  case (phys_ok r bs cs)
  have "batch_ok [r]" using n(2) phys_ok(1) by auto
  then have ok: "ok d'" using keeps [OF st(1) _ _ phys_ok(6)] phys_ok(7) by (simp add: all_ok_def)
  have fr: "l \<notin> rq_range r \<or> \<not> rq_write r \<Longrightarrow> disk d' l = disk d l" for l
    using frame [OF phys_ok(6), of l] by (auto simp: written_Cons)
  have "snd p = disk d' (fst p)" if "p \<in> set (bc_sectors c')" for p
  proof (cases "rq_write r")
    case True
    then have "wf_write r" using n(2) phys_ok(1) by simp
    with that True phys_ok(2) invalidate_range_props(2,3) [OF ord st(2), of "rq_lba r" "rq_count r"]
    have "p \<in> set (bc_sectors c)" "fst p \<notin> rq_range r" by (auto simp: wf_write_def rq_range_def)
    with fr st(3) show ?thesis by (auto simp: coherent_def)
  next
    case False
    with that phys_ok(2) fr st(3) show ?thesis by (auto simp: coherent_def)
  qed
  with ok show ?thesis by (auto simp: coherent_def)
next
  case (run_ok run bs cs)
  have "ic_completed cs + ic_errors cs \<le> length run" by (rule counts [OF _ run_ok(7)]) (use run_ok n(1) in simp)
  then have "ic_errors cs = 0" using n(1,3) run_ok(1,4) by (simp add: wadd32_exact)
  moreover have b: "batch_ok run" "length run < 2 ^ 32" using batch_ok_append [of run rs'] n(1,2) run_ok(1) by auto
  ultimately show ?thesis
    using keeps [OF st(1) b(2,1) run_ok(7)] run_coherent [OF ord st b(1) run_ok(5) b(2) run_ok(7)] run_ok(2) by simp
next
  case (rd r b s)
  then have s using n(1,3) by (auto simp: wadd32_exact split: if_splits)
  with read_io_coherent [OF st rd(4,5)] show ?thesis by auto
qed (use n in \<open>auto simp: wadd32_exact\<close>)

lemma loop_turns_frame:
  assumes "(loop_turn ord sub)\<^sup>*\<^sup>* (d, c, rs, n, e) y"
  shows "written (fst (snd (snd y))) \<subseteq> written rs \<and> (\<forall>l. l \<notin> written rs \<longrightarrow> disk (fst y) l = disk d l)
     \<and> (batch_ok rs \<longrightarrow> batch_ok (fst (snd (snd y))))"
  using assms
proof (induction rule: rtranclp_induct)
  case (step y z)
  obtain d1 c1 rs1 n1 e1 where y: "y = (d1, c1, rs1, n1, e1)" by (metis prod_cases5)
  obtain d2 c2 rs2 n2 e2 where z: "z = (d2, c2, rs2, n2, e2)" by (metis prod_cases5)
  note IH = step.IH [unfolded y fst_conv snd_conv] and fr = loop_turn_frame [OF step.hyps(2) [unfolded y z]]
  have "disk d2 l = disk d l" if "l \<notin> written rs" for l
  proof -
    have "l \<notin> written rs1" "disk d1 l = disk d l" using IH that by auto
    then show ?thesis using fr(2) by simp
  qed
  with IH fr(1,3) show ?case unfolding z fst_conv snd_conv by blast
qed simp

lemma loop_turns_props:
  assumes ord: "key_order ord" and t: "(loop_turn ord sub)\<^sup>*\<^sup>* (d, c, rs, n, e) y"
    and n: "n + e + length rs < 2 ^ 32"
  shows "case y of (d', c', rs', n', e') \<Rightarrow> e \<le> e' \<and> n \<le> n' \<and> n' + e' + length rs' \<le> n + e + length rs
    \<and> (batch_ok rs \<and> ok d \<and> cache_ok c \<and> coherent (disk d) c \<and> e' = e
       \<longrightarrow> ok d' \<and> cache_ok c' \<and> coherent (disk d') c')"
  using t
proof (induction rule: rtranclp_induct)
  case (step y z)
  obtain d1 c1 rs1 n1 e1 where y: "y = (d1, c1, rs1, n1, e1)" by (metis prod_cases5)
  obtain d2 c2 rs2 n2 e2 where z: "z = (d2, c2, rs2, n2, e2)" by (metis prod_cases5)
  note IH = step.IH [unfolded y prod.case] and t = step.hyps(2) [unfolded y z]
  have lt: "n1 + e1 + length rs1 < 2 ^ 32" using IH n by linarith
  note cn = loop_turn_counts [OF t lt]
  have "ok d2 \<and> cache_ok c2 \<and> coherent (disk d2) c2"
    if "batch_ok rs" "ok d" "cache_ok c" "coherent (disk d) c" "e2 = e"
  proof -
    have e: "e1 = e" "e2 = e1" using IH cn that(5) by linarith+
    have st: "ok d1" "cache_ok c1" "coherent (disk d1) c1" using IH that(1-4) e(1) by simp_all
    have "batch_ok rs1" using loop_turns_frame [OF step.hyps(1)] that(1) by (simp add: y)
    from loop_turn_coherent [OF ord t lt this e(2) st] loop_turn_cache_ok [OF ord t] st(2)
    show ?thesis by simp
  qed
  moreover have "e \<le> e2 \<and> n \<le> n2 \<and> n2 + e2 + length rs2 \<le> n + e + length rs" using IH cn by linarith
  ultimately show ?case unfolding z prod.case by blast
qed (use n in simp)

section \<open>The contract of the cached device\<close>

lemma cached_turns:
  assumes "cached_submit ord sub s rs = (s', bs, Inr cs)"
  shows "(loop_turn ord sub)\<^sup>*\<^sup>* (cd_inner s, cd_cache s, rs, 0, 0)
     (cd_inner s', cd_cache s', [], ic_completed cs, ic_errors cs)"
  using assms by (auto simp: cached_submit_def split: prod.splits intro: submit_loop_turns)

lemma cached_counts:
  assumes "key_order ord" "length rs < 2 ^ 32" "cached_submit ord sub s rs = (s', bs, Inr cs)"
  shows "ic_completed cs + ic_errors cs \<le> length rs"
  using loop_turns_props [OF assms(1) cached_turns [OF assms(3)]] assms(2) by simp

lemma cached_frame:
  assumes "cached_submit ord sub s rs = (s', bs, res)" "l \<notin> written rs"
  shows "disk (cd_inner s') l = disk (cd_inner s) l"
proof -
  obtain cs where "res = Inr cs" using assms(1) by (auto simp: cached_submit_def split: prod.splits)
  with loop_turns_frame [OF cached_turns] assms show ?thesis by fastforce
qed

lemma cached_keeps:
  assumes "key_order ord" "cached_ok disk ok s" "length rs < 2 ^ 32" "batch_ok rs"
    "cached_submit ord sub s rs = (s', bs, Inr cs)" "ic_errors cs = 0"
  shows "cached_ok disk ok s'"
  using loop_turns_props [OF assms(1) cached_turns [OF assms(5)]] assms(2-4,6) by (simp add: cached_ok_def)

lemma cached_read_data:
  assumes "cached_ok disk ok s" "cached_submit ord sub s [r] = (s', bs, Inr cs)" "all_ok cs" "\<not> rq_write r"
    and buf: "rq_buffer r = Buf b" "0 < rq_count r" "length b = 512 * rq_count r"
  shows "bs = [concat (map (disk (cd_inner s)) [rq_lba r..<rq_lba r + rq_count r])]"
proof -
  let ?d = "cd_inner s" and ?c = "cd_cache s"
  have st: "ok ?d" "cache_ok ?c" "coherent (disk ?d) ?c" using assms(1) by (auto simp: cached_ok_def)
  obtain d' c' x y where rd: "read_io sub ?d ?c r = (d', c', x, y)" by (metis prod_cases4)
  have y: y and bs: "bs = [x]"
    using assms(2-4) buf(1) rd
    by (auto simp: cached_submit_def submit_loop.simps(2) all_ok_def wadd32_def split: if_splits)
  show ?thesis
  proof (cases "rq_count r > 1")
    case True
    let ?rq = "\<lparr>rq_lba = rq_lba r, rq_count = rq_count r, rq_buffer = Buf b, rq_write = False\<rparr>"
    obtain d1 bs1 cs1 where "sub ?d [?rq] = (d1, bs1, Inr cs1)" "all_ok cs1" "x = hd bs1"
      using rd y buf(1) True by (auto simp: read_io_def split: prod.splits sum.splits)
    with read_data [OF st(1), of ?rq d1 bs1 cs1] buf bs show ?thesis by simp
  next
    case False
    then have one: "rq_count r = 1" using buf(2) by simp
    obtain v where v: "bc_read sub ?d ?c (rq_lba r) = (d', c', Some v)" "x = take 512 v"
      using rd y buf one by (auto simp: read_io_def read_raw_def Let_def split: prod.splits option.splits)
    with bc_read_coherent(3) [OF st v(1), of v] sector_len [OF st(1)] one bs show ?thesis by simp
  qed
qed

lemma cached_write_data:
  assumes "cached_ok disk ok s" "length rs < 2 ^ 32" "batch_ok rs" "buffered_writes rs"
    and "cached_submit ord sub s rs = (s', bs, Inr cs)" "all_ok cs" "r \<in> set rs" "i < rq_count r"
  shows "disk (cd_inner s') (rq_lba r + i) = sector_of (buf_bytes (rq_buffer r)) i"
proof -
  let ?d = "cd_inner s"
  obtain q qs where rs: "rs = q # qs" using assms(7) by (cases rs) auto
  have "\<forall>r\<in>set qs. in_run r" using assms(4) rs by (auto simp: buffered_writes_def in_run_def)
  then have tw: "takeWhile in_run qs = qs" "dropWhile in_run qs = []" by (simp_all add: takeWhile_eq_all_conv)
  have q: "\<not> is_phys (rq_buffer q)" "rq_write q" using assms(4) rs by (auto simp: buffered_writes_def)
  obtain d' bs' res where s: "sub ?d rs = (d', bs', res)" by (metis prod_cases3)
  have "\<exists>c' bs''. submit_loop ord sub ?d (cd_cache s) rs 0 0 [] = (case res of
      Inr cs' \<Rightarrow> (d', c', bs'', ic_completed cs' mod 2 ^ 32, ic_errors cs' mod 2 ^ 32)
    | Inl x \<Rightarrow> (d', c', bs'', 0, length rs mod 2 ^ 32))"
    using s by (cases res) (simp_all add: rs submit_loop.simps(2) tw q Let_def wadd32_def)
  then have in': "cd_inner s' = d'" and "\<exists>cs'. res = Inr cs' \<and> ic_completed cs' mod 2 ^ 32 = ic_completed cs
      \<and> ic_errors cs' mod 2 ^ 32 = ic_errors cs"
    using assms(5,6) by (cases res; auto simp: cached_submit_def all_ok_def)+
  then obtain cs' where cs': "res = Inr cs'" "ic_completed cs' mod 2 ^ 32 = ic_completed cs"
      "ic_errors cs' mod 2 ^ 32 = ic_errors cs" by blast
  have "ic_completed cs' + ic_errors cs' < 2 ^ 32" using counts [OF assms(2) s [unfolded cs'(1)]] assms(2) by linarith
  then have "all_ok cs'" using cs'(2,3) assms(6) by (simp add: all_ok_def)
  with write_data [OF _ assms(2-4) s [unfolded cs'(1)] _ assms(7,8)] assms(1) in' show ?thesis
    by (simp add: cached_ok_def)
qed

lemma cached_contract:
  assumes "key_order ord"
  shows "block_device (cached_submit ord sub) (\<lambda>s. disk (cd_inner s)) (cached_ok disk ok)"
proof (rule block_device.intro, goal_cases)
  case (1 rs s s' bs c)
  then show ?case by (rule cached_counts [OF assms])
next
  case (2 s rs s' bs res l)
  then show ?case by (rule cached_frame)
next
  case (3 s l)
  then show ?case using sector_len by (simp add: cached_ok_def)
next
  case (4 s rs s' bs c)
  then show ?case by (rule cached_keeps [OF assms])
next
  case (5 s r s' bs c b)
  then show ?case by (rule cached_read_data)
next
  case (6 s rs s' bs c r i)
  then show ?case by (rule cached_write_data)
qed

end

end
