(* ===== verification/Cache_Theorems.thy ===== *)
theory Cache_Theorems
  imports Cache_Coherence
begin

text \<open>
  The sector cache over any driver that keeps the block device contract, and what the contract does
  not give: a write that fails may leave stale lines.
\<close>

lemma ord_id: "key_order (\<lambda>ks. ks)"
  by (simp add: key_order_def)

interpretation cached_ram: block_device "cached_submit (\<lambda>ks. ks) ram_submit" "\<lambda>s. cd_inner s" "cached_ok (\<lambda>d. d) ram_ok"
  by (rule ram.cached_contract [OF ord_id])

definition zero_disk :: ram_disk where
  "zero_disk = (\<lambda>l. replicate 512 0)"

lemma zero_disk_ok: "cached_ok (\<lambda>d. d) ram_ok (cached_new zero_disk)"
  by (simp add: cached_ok_def cached_new_def zero_disk_def ram_ok_def cache_ok_def coherent_def bc_new_def)

text \<open>C21: a cached device is again a block device: over any driver that keeps the contract
  \<open>block_device\<close>, with any iteration order of the hash map, the cached device keeps the same
  contract for the same disk contents, with the consistency of the cache added to the invariant.\<close>

theorem cached_device_refines:
  assumes "block_device sub disk ok" "key_order ord"
  shows "block_device (cached_submit ord sub) (\<lambda>s. disk (cd_inner s)) (cached_ok disk ok)"
  using assms by (rule block_device.cached_contract)

theorem cached_device_refines_witness:
  "block_device (cached_submit (\<lambda>ks. ks) ram_submit) (\<lambda>s. cd_inner s) (cached_ok (\<lambda>d. d) ram_ok)"
  using cached_device_refines [OF ram.block_device_axioms ord_id] .

text \<open>after a batch that the cached device completes without an error, a read of any run of
  sectors returns exactly what the device below holds, whatever was cached before.\<close>

theorem cache_is_transparent:
  assumes dev: "block_device sub disk ok" and ord: "key_order ord" and st: "cached_ok disk ok s"
    and batch: "batch_ok rs" "length rs < 2 ^ 32" "cached_submit ord sub s rs = (s1, bs1, Inr c1)" "ic_errors c1 = 0"
    and read: "cached_submit ord sub s1 [\<lparr>rq_lba = lba, rq_count = n, rq_buffer = Buf b, rq_write = False\<rparr>]
        = (s2, bs2, Inr c2)" "all_ok c2" "0 < n" "length b = 512 * n"
  shows "bs2 = [concat (map (disk (cd_inner s1)) [lba..<lba + n])]
    \<and> disk (cd_inner s2) = disk (cd_inner s1)"
proof
  show "disk (cd_inner s2) = disk (cd_inner s1)"
    using block_device.read_frame [OF block_device.cached_contract [OF dev ord] read(1)] by simp
  note c = block_device.cached_contract [OF dev ord]
  have "cached_ok disk ok s1" by (rule block_device.keeps [OF c st batch(2,1,3,4)])
  from block_device.read_data [OF c this read(1,2)] read(3,4)
  show "bs2 = [concat (map (disk (cd_inner s1)) [lba..<lba + n])]" by simp
qed

section \<open>The bookkeeping under any driver\<close>

inductive cache_hist :: "key_iter \<Rightarrow> 'd submit \<Rightarrow> 'd cached_device \<Rightarrow> bool" for ord sub where
  ch_new: "cache_hist ord sub (cached_new d)"
| ch_submit: "cache_hist ord sub s \<Longrightarrow> cached_submit ord sub s rs = (s', bs, res) \<Longrightarrow> cache_hist ord sub s'"

text \<open>whatever the driver below does, errors included, after any sequence of batches the cache
  holds at most \<open>CACHE_SIZE\<close> lines, no sector twice, and its eviction clock lists exactly the cached
  sectors, each once.\<close>

theorem cache_bounded:
  assumes "key_order ord" "cache_hist ord sub s"
  shows "length (bc_sectors (cd_cache s)) \<le> CACHE_SIZE \<and> distinct (map fst (bc_sectors (cd_cache s)))
    \<and> distinct (bc_clock (cd_cache s)) \<and> set (bc_clock (cd_cache s)) = fst ` set (bc_sectors (cd_cache s))"
proof -
  have "cache_ok (cd_cache s)"
    using assms(2)
  proof (induction rule: cache_hist.induct)
    case (ch_new d)
    show ?case by (simp add: cached_new_def bc_new_def cache_ok_def)
  next
    case (ch_submit s rs s' bs res)
    then show ?case
      by (auto simp: cached_submit_def split: prod.splits intro: submit_loop_cache_ok [OF assms(1)])
  qed
  then show ?thesis by (simp add: cache_ok_def)
qed

section \<open>Concrete runs\<close>

definition rd0 :: io_request where
  "rd0 = \<lparr>rq_lba = 0, rq_count = 1, rq_buffer = Buf (replicate 512 0), rq_write = False\<rparr>"

definition wr0 :: "u8 \<Rightarrow> io_request" where
  "wr0 v = \<lparr>rq_lba = 0, rq_count = 1, rq_buffer = ConstBuf (replicate 512 v), rq_write = True\<rparr>"

definition one_line :: "u8 \<Rightarrow> block_cache" where
  "one_line v = \<lparr>bc_sectors = [(0, replicate 512 v)], bc_clock = [0], bc_hand = 0\<rparr>"

lemmas cache_eval = submit_loop.simps cached_submit_def read_io_def read_raw_def bc_read_def maybe_evict_def
  CACHE_SIZE_def hm_insert_def hm_remove_def wadd32_def Let_def all_ok_def

lemma zero_disk_write: "ram_write zero_disk (wr0 v) = zero_disk(0 := replicate 512 v)"
  by (auto simp: ram_write_def wr0_def zero_disk_def rq_range_def sector_of_def)

lemma zero_disk_upd_apply: "(zero_disk(0 := x)) 0 = x" "zero_disk 0 = replicate 512 0"
  by (simp_all add: zero_disk_def)

lemma cached_write_run:
  "cached_submit (\<lambda>ks. ks) ram_submit (cached_new zero_disk) [wr0 7]
   = (\<lparr>cd_inner = zero_disk(0 := replicate 512 7), cd_cache = one_line 7\<rparr>, [replicate 512 7],
      Inr \<lparr>ic_completed = 1, ic_errors = 0\<rparr>)"
proof -
  have "ram_submit zero_disk [wr0 7] = (zero_disk(0 := replicate 512 7), [replicate 512 7], Inr \<lparr>ic_completed = 1, ic_errors = 0\<rparr>)"
    using zero_disk_write [of 7] by (simp add: ram_submit_def wr0_def Let_def)
  then show ?thesis
    by (simp add: cache_eval cached_new_def bc_new_def wr0_def apply_write_to_cache_def insert_written_def one_line_def)
qed

lemma cached_read_run:
  "cached_submit ord sub \<lparr>cd_inner = d, cd_cache = one_line v\<rparr> [rd0]
   = (\<lparr>cd_inner = d, cd_cache = one_line v\<rparr>, [replicate 512 v], Inr \<lparr>ic_completed = 1, ic_errors = 0\<rparr>)"
  by (simp add: cache_eval rd0_def one_line_def)

theorem cache_is_transparent_witness:
  "\<exists>s1 bs c1 s2. cached_submit (\<lambda>ks. ks) ram_submit (cached_new zero_disk) [wr0 7] = (s1, bs, Inr c1)
     \<and> cached_submit (\<lambda>ks. ks) ram_submit s1 [rd0] = (s2, [cd_inner s1 0], Inr \<lparr>ic_completed = 1, ic_errors = 0\<rparr>)"
proof -
  have b: "batch_ok [wr0 7]" by (simp add: wf_write_def wr0_def u64_max_def)
  let ?s = "\<lparr>cd_inner = zero_disk(0 := replicate 512 7), cd_cache = one_line 7\<rparr>"
  note r = cached_read_run [of "\<lambda>ks. ks" ram_submit "zero_disk(0 := replicate 512 7)" 7]
  have "[replicate 512 7] = [concat (map (cd_inner ?s) [0..<0 + 1])]"
    using cache_is_transparent [OF ram.block_device_axioms ord_id zero_disk_ok b _ cached_write_run _ r [unfolded rd0_def]]
    by (simp add: all_ok_def)
  then have "[replicate 512 7] = [cd_inner ?s 0]" by simp
  then show ?thesis using cached_write_run r by (intro exI conjI) (assumption, simp only:)
qed

theorem cache_bounded_witness:
  "length (bc_sectors (cd_cache (fst (cached_submit (\<lambda>ks. ks) ram_submit (cached_new zero_disk) [wr0 7])))) \<le> CACHE_SIZE"
  using cache_bounded [OF ord_id ch_submit [OF ch_new [of _ _ zero_disk] cached_write_run]] cached_write_run by simp

section \<open>Failed writes\<close>

text \<open>A driver that carries out a write and then reports a failure, as one does whose completion
  interrupt is late. It keeps the contract: a failed batch may change the sectors it names.\<close>

definition flaky_submit :: "ram_disk submit" where
  "flaky_submit d rs =
     (if \<exists>r\<in>set rs. rq_write r \<and> \<not> is_phys (rq_buffer r)
      then (fst (ram_exec d rs), map (buf_bytes \<circ> rq_buffer) rs, Inl ''timeout'') else ram_submit d rs)"

lemma flaky_contract: "block_device flaky_submit (\<lambda>d. d) ram_ok"
proof (rule block_device.intro, goal_cases)
  case (1 rs d d' bs c)
  then show ?case using ram.counts [of rs d d' bs c] by (auto simp: flaky_submit_def split: if_splits)
next
  case (2 d rs d' bs res l)
  then show ?case using ram.frame [of d rs d' bs res l] ram_exec_frame [of d rs "fst (ram_exec d rs)" _ l]
    by (auto simp: flaky_submit_def split: if_splits intro: ram_exec_frame [OF surjective_pairing])
next
  case (3 d l)
  then show ?case by (rule ram.sector_len)
next
  case (4 d rs d' bs c)
  then show ?case using ram.keeps [of d rs d' bs c] by (auto simp: flaky_submit_def split: if_splits)
next
  case (5 d r d' bs c b)
  then show ?case using ram.read_data [of d r d' bs c b] by (auto simp: flaky_submit_def)
next
  case (6 d rs d' bs c r i)
  then show ?case by (auto simp: flaky_submit_def buffered_writes_def split: if_splits)
qed

text \<open>C23: when the device below reports a failure of a batch of writes, the cache keeps the lines the
  batch overlaps. With a driver that did carry out the write, a later read through the cache
  succeeds and returns the old contents, not what the device holds.\<close>

theorem failed_write_leaves_stale_line:
  "\<exists>sub. block_device sub (\<lambda>d. d) ram_ok \<and>
     (\<exists>s s1 s2 bs1 bs2. cached_ok (\<lambda>d. d) ram_ok s
       \<and> cached_submit (\<lambda>ks. ks) sub s [wr0 7] = (s1, bs1, Inr \<lparr>ic_completed = 0, ic_errors = 1\<rparr>)
       \<and> cached_submit (\<lambda>ks. ks) sub s1 [rd0] = (s2, bs2, Inr \<lparr>ic_completed = 1, ic_errors = 0\<rparr>)
       \<and> bs2 = [replicate 512 0] \<and> cd_inner s2 0 = replicate 512 7)"
proof -
  let ?s = "\<lparr>cd_inner = zero_disk, cd_cache = one_line 0\<rparr>" and ?s1 = "\<lparr>cd_inner = zero_disk(0 := replicate 512 7), cd_cache = one_line 0\<rparr>"
  have ok: "cached_ok (\<lambda>d. d) ram_ok ?s"
    by (simp add: cached_ok_def zero_disk_def ram_ok_def cache_ok_def coherent_def one_line_def CACHE_SIZE_def)
  have "flaky_submit zero_disk [wr0 7] = (zero_disk(0 := replicate 512 7), [replicate 512 7], Inl ''timeout'')"
    using zero_disk_write [of 7] by (simp add: flaky_submit_def wr0_def Let_def)
  then have "cached_submit (\<lambda>ks. ks) flaky_submit ?s [wr0 7] = (?s1, [replicate 512 7], Inr \<lparr>ic_completed = 0, ic_errors = 1\<rparr>)"
    by (simp add: cache_eval wr0_def)
  with flaky_contract ok cached_read_run [of "\<lambda>ks. ks" flaky_submit "zero_disk(0 := replicate 512 7)" 0]
  show ?thesis by (intro exI [of _ flaky_submit] conjI exI [of _ ?s] exI [of _ ?s1]) (assumption | force)+
qed

end
