(* ===== verification/Le_Bytes.thy ===== *)
theory Le_Bytes
  imports Bedrock_Prelude
begin

text \<open>
  Little-endian integers in byte buffers: \<open>from_le_bytes\<close> and \<open>to_le_bytes\<close>, and the field at an
  offset of a packed structure.
\<close>

fun le_nat :: "u8 list \<Rightarrow> nat" where
  "le_nat [] = 0"
| "le_nat (b # bs) = unat b + 256 * le_nat bs"

fun le_bytes :: "nat \<Rightarrow> nat \<Rightarrow> u8 list" where
  "le_bytes 0 x = []"
| "le_bytes (Suc n) x = of_nat x # le_bytes n (x div 256)"

definition field :: "nat \<Rightarrow> nat \<Rightarrow> u8 list \<Rightarrow> u8 list" where
  "field off n b = take n (drop off b)"

definition le_field :: "nat \<Rightarrow> nat \<Rightarrow> u8 list \<Rightarrow> nat" where
  "le_field off n b = le_nat (field off n b)"

text \<open>A slice assignment \<open>b[off..off + n] = v\<close> of equal length.\<close>

definition put_field :: "nat \<Rightarrow> u8 list \<Rightarrow> u8 list \<Rightarrow> u8 list" where
  "put_field off v b = take off b @ v @ drop (off + length v) b"

lemma unat8_lt: "unat (b::u8) < 256"
  using unsigned_less [where ?'a = nat and w = b] by simp

lemma le_nat_zeros [simp]: "le_nat (replicate n 0) = 0"
  by (induction n) auto

lemma length_le_bytes [simp]: "length (le_bytes n x) = n"
  by (induction n arbitrary: x) auto

lemma le_nat_bound: "le_nat bs < 256 ^ length bs"
proof (induction bs)
  case (Cons b bs)
  have "unat b < 256" by (rule unat8_lt)
  then show ?case using Cons by simp
qed simp

lemma le_nat_le_bytes: "le_nat (le_bytes n x) = x mod 256 ^ n"
proof (induction n arbitrary: x)
  case (Suc n)
  have "unat (of_nat x :: u8) = x mod 256" by (simp add: unat_of_nat take_bit_eq_mod)
  moreover have "x mod (256 * 256 ^ n) = 256 * (x div 256 mod 256 ^ n) + x mod 256"
    by (rule mod_mult2_eq)
  ultimately show ?case by (simp add: Suc)
qed simp

lemma le_bytes_le_nat: "le_bytes (length bs) (le_nat bs) = bs"
proof (induction bs)
  case (Cons b bs)
  have lt: "unat b < 256" by (rule unat8_lt)
  then have "(unat b + 256 * le_nat bs) div 256 = le_nat bs" by simp
  moreover have "(of_nat (unat b + 256 * le_nat bs) :: u8) = b"
  proof -
    have "(256::u8) = 0" by simp
    then show ?thesis by (simp only: of_nat_add of_nat_mult of_nat_numeral) simp
  qed
  ultimately show ?case using Cons by simp
qed simp

lemma le_field_bound: "le_field off n b < 256 ^ n"
proof -
  have "le_field off n b < 256 ^ length (field off n b)" unfolding le_field_def by (rule le_nat_bound)
  also have "\<dots> \<le> 256 ^ n" by (rule power_increasing) (simp_all add: field_def)
  finally show ?thesis .
qed

lemma length_put_field [simp]: "off + length v \<le> length b \<Longrightarrow> length (put_field off v b) = length b"
  by (simp add: put_field_def)

lemma field_put_same: "off + length v \<le> length b \<Longrightarrow> field off (length v) (put_field off v b) = v"
  by (simp add: field_def put_field_def)

lemma nth_put_field:
  assumes "off + length v \<le> length b" "j < length b" "j < off \<or> off + length v \<le> j"
  shows "put_field off v b ! j = b ! j"
proof (cases "j < off")
  case True
  then show ?thesis using assms(1) by (simp add: put_field_def nth_append)
next
  case False
  then have j: "\<not> j < off" "\<not> j - off < length v" using assms(3) by auto
  then show ?thesis using assms by (simp add: put_field_def nth_append)
qed

lemma field_put_other:
  assumes "off + length v \<le> length b" "o' + n \<le> off \<or> off + length v \<le> o'"
  shows "field o' n (put_field off v b) = field o' n b"
proof (rule nth_equalityI)
  show l: "length (field o' n (put_field off v b)) = length (field o' n b)"
    using assms(1) by (simp add: field_def)
  show "field o' n (put_field off v b) ! i = field o' n b ! i" if "i < length (field o' n (put_field off v b))" for i
  proof -
    have i: "i < n" "o' + i < length b" using that assms(1) by (auto simp: field_def)
    have "put_field off v b ! (o' + i) = b ! (o' + i)" using assms i by (intro nth_put_field) auto
    then show ?thesis using i assms(1) by (simp add: field_def)
  qed
qed

end
