(* ===== verification/Vfs_Error.thy ===== *)
theory Vfs_Error
  imports Bedrock_Prelude
begin

text \<open>
  The error codes of the file systems (\<open>kernel/src/filesystems/vfs/error.rs\<close>): the variants, their
  messages, names and numbers.
\<close>

datatype vfs_error =
    NotFound | AlreadyExists | NotADirectory | IsADirectory | IOError | NoSpace | CrossDeviceLink
  | InvalidInput | NameTooLong | NotEmpty | BadFileDescriptor | MountBusy | InvalidDevice
  | FileTooLarge | ReadOnly | NotSupported | Loop

fun vfs_error_display :: "vfs_error \<Rightarrow> string" where
  "vfs_error_display NotFound = ''not found''"
| "vfs_error_display AlreadyExists = ''already exists''"
| "vfs_error_display NotADirectory = ''not a directory''"
| "vfs_error_display IsADirectory = ''is a directory''"
| "vfs_error_display IOError = ''I/O error''"
| "vfs_error_display NoSpace = ''no space left''"
| "vfs_error_display CrossDeviceLink = ''cross-device link''"
| "vfs_error_display InvalidInput = ''invalid input''"
| "vfs_error_display NameTooLong = ''name too long''"
| "vfs_error_display NotEmpty = ''directory not empty''"
| "vfs_error_display BadFileDescriptor = ''bad file descriptor''"
| "vfs_error_display MountBusy = ''mount busy''"
| "vfs_error_display InvalidDevice = ''invalid device''"
| "vfs_error_display FileTooLarge = ''file too large''"
| "vfs_error_display ReadOnly = ''read-only file system''"
| "vfs_error_display NotSupported = ''operation not supported''"
| "vfs_error_display Loop = ''symlink loop''"

fun discriminant_name :: "vfs_error \<Rightarrow> string" where
  "discriminant_name NotFound = ''NotFound''"
| "discriminant_name AlreadyExists = ''AlreadyExists''"
| "discriminant_name NotADirectory = ''NotADirectory''"
| "discriminant_name IsADirectory = ''IsADirectory''"
| "discriminant_name IOError = ''IOError''"
| "discriminant_name NoSpace = ''NoSpace''"
| "discriminant_name CrossDeviceLink = ''CrossDeviceLink''"
| "discriminant_name InvalidInput = ''InvalidInput''"
| "discriminant_name NameTooLong = ''NameTooLong''"
| "discriminant_name NotEmpty = ''NotEmpty''"
| "discriminant_name BadFileDescriptor = ''BadFileDescriptor''"
| "discriminant_name MountBusy = ''MountBusy''"
| "discriminant_name InvalidDevice = ''InvalidDevice''"
| "discriminant_name FileTooLarge = ''FileTooLarge''"
| "discriminant_name ReadOnly = ''ReadOnly''"
| "discriminant_name NotSupported = ''NotSupported''"
| "discriminant_name Loop = ''Loop''"

fun discriminant_value :: "vfs_error \<Rightarrow> nat" where
  "discriminant_value NotFound = 0"
| "discriminant_value AlreadyExists = 1"
| "discriminant_value NotADirectory = 2"
| "discriminant_value IsADirectory = 3"
| "discriminant_value IOError = 4"
| "discriminant_value NoSpace = 5"
| "discriminant_value CrossDeviceLink = 6"
| "discriminant_value InvalidInput = 7"
| "discriminant_value NameTooLong = 8"
| "discriminant_value NotEmpty = 9"
| "discriminant_value BadFileDescriptor = 10"
| "discriminant_value MountBusy = 11"
| "discriminant_value InvalidDevice = 12"
| "discriminant_value FileTooLarge = 13"
| "discriminant_value ReadOnly = 14"
| "discriminant_value NotSupported = 15"
| "discriminant_value Loop = 16"

text \<open>The number identifies the variant.\<close>

lemma discriminant_value_inj: "inj discriminant_value"
  by (rule injI) (rename_tac x y; case_tac x; case_tac y; simp)

end
