(* ===== verification/Partition.thy ===== *)
theory Partition
  imports Block_Dev Le_Bytes Vfs_Error
begin

text \<open>
  Partition tables (\<open>kernel/src/filesystems/partition/\<close>: \<open>mod.rs\<close>, \<open>mbr.rs\<close>, \<open>gpt.rs\<close>): reading and
  checking MBR and GPT tables through a block device, the overlap check, and the device that exposes
  one partition. A device is its \<open>submit\<close> function, its state and its number of sectors; reads may
  change the state. Strings of a GPT name are lists of code points.
\<close>

definition SECTOR_SIZE :: nat where "SECTOR_SIZE = 512"
definition MAX_EBR_CHAIN :: nat where "MAX_EBR_CHAIN = 100"

record partition_info =
  pi_number :: nat
  pi_start :: nat
  pi_end :: nat
  pi_size :: nat
  pi_type :: "nat option"
  pi_guid_type :: "u8 list option"
  pi_guid_unique :: "u8 list option"
  pi_name :: "nat list option"
  pi_extended :: bool

datatype partition_table = Mbr "partition_info list" | Gpt "partition_info list"

fun table_partitions :: "partition_table \<Rightarrow> partition_info list" where
  "table_partitions (Mbr p) = p"
| "table_partitions (Gpt p) = p"

section \<open>Reading sectors\<close>

definition read_sectors :: "'d submit \<Rightarrow> 'd \<Rightarrow> nat \<Rightarrow> nat \<Rightarrow> u8 list \<Rightarrow> 'd \<times> (string, u8 list) result" where
  "read_sectors sub d lba cnt buf =
     (case sub d [\<lparr>rq_lba = lba, rq_count = cnt, rq_buffer = Buf buf, rq_write = False\<rparr>] of
        (d', bs, Inl e) \<Rightarrow> (d', Inl e)
      | (d', bs, Inr c) \<Rightarrow> if \<not> all_ok c then (d', Inl ''multi-sector read error'') else (d', Inr (hd bs)))"

definition read_sector :: "'d submit \<Rightarrow> 'd \<Rightarrow> nat \<Rightarrow> u8 list \<Rightarrow> 'd \<times> (string, u8 list) result" where
  "read_sector sub d lba buf =
     (case sub d [\<lparr>rq_lba = lba, rq_count = 1, rq_buffer = Buf buf, rq_write = False\<rparr>] of
        (d', bs, Inl e) \<Rightarrow> (d', Inl e)
      | (d', bs, Inr c) \<Rightarrow> if \<not> all_ok c then (d', Inl ''sector read error'') else (d', Inr (hd bs)))"

text \<open>\<open>crc32\<close>, bit by bit as in the source.\<close>

definition crc_bit :: "u32 \<Rightarrow> u32" where
  "crc_bit crc = (if crc AND 1 \<noteq> 0 then drop_bit 1 crc XOR 0xEDB88320 else drop_bit 1 crc)"

definition crc_byte :: "u32 \<Rightarrow> u8 \<Rightarrow> u32" where
  "crc_byte crc b = (crc_bit ^^ 8) (crc XOR ucast b)"

definition crc32 :: "u8 list \<Rightarrow> u32" where
  "crc32 buf = NOT (foldl crc_byte 0xFFFFFFFF buf)"

section \<open>MBR\<close>

record mbr_entry =
  me_type :: nat
  me_lba_start :: nat
  me_sector_count :: nat

definition mbr_entry_at :: "u8 list \<Rightarrow> nat \<Rightarrow> mbr_entry" where
  "mbr_entry_at s off =
     \<lparr>me_type = le_field (off + 4) 1 s, me_lba_start = le_field (off + 8) 4 s, me_sector_count = le_field (off + 12) 4 s\<rparr>"

text \<open>One primary slot: the partition it adds, if any, and its exclusive end.\<close>

definition mbr_slot :: "nat \<Rightarrow> u8 list \<Rightarrow> nat \<Rightarrow> (string, partition_info option) result" where
  "mbr_slot dev_sectors s i =
     (let entry = mbr_entry_at s (0x1BE + i * 16); typ = me_type entry
      in if typ = 0 then Inr None
         else if typ = 0xEE then Inr None
         else if me_sector_count entry = 0 then Inr None
         else case checked_add64 (me_lba_start entry) (me_sector_count entry) of
                None \<Rightarrow> Inl ''partition range overflow''
              | Some end_excl \<Rightarrow>
                  if end_excl > dev_sectors then Inl ''partition extends beyond device''
                  else Inr (Some \<lparr>pi_number = i + 1, pi_start = me_lba_start entry, pi_end = end_excl - 1,
                                  pi_size = me_sector_count entry, pi_type = Some typ, pi_guid_type = None,
                                  pi_guid_unique = None, pi_name = None, pi_extended = (typ = 5 \<or> typ = 0xF)\<rparr>))"

text \<open>The loop over the slots; the second component is the lst extended partition: base and end.\<close>

fun mbr_primaries ::
  "nat \<Rightarrow> u8 list \<Rightarrow> nat list \<Rightarrow> partition_info list \<Rightarrow> (nat \<times> nat) option
   \<Rightarrow> (string, partition_info list \<times> (nat \<times> nat) option) result" where
  "mbr_primaries dev_sectors s [] parts ext = Inr (parts, ext)"
| "mbr_primaries dev_sectors s (i # is) parts ext =
     (case mbr_slot dev_sectors s i of
        Inl e \<Rightarrow> Inl e
      | Inr None \<Rightarrow> mbr_primaries dev_sectors s is parts ext
      | Inr (Some p) \<Rightarrow>
          mbr_primaries dev_sectors s is (parts @ [p])
            (if pi_extended p then Some (pi_start p, pi_start p + pi_size p) else ext))"

text \<open>The logical partition described by an EBR sector.\<close>

definition ebr_logical :: "nat \<Rightarrow> nat \<Rightarrow> nat \<Rightarrow> nat \<Rightarrow> u8 list \<Rightarrow> (string, partition_info option) result" where
  "ebr_logical dev_sectors ext_limit next_ebr_lba logical_num ebr =
     (let entry0 = mbr_entry_at ebr 0x1BE
      in if me_type entry0 \<noteq> 0 \<and> me_sector_count entry0 > 0 then
           (case checked_add64 next_ebr_lba (me_lba_start entry0) of
              None \<Rightarrow> Inl ''EBR chain overflow''
            | Some abs_lba \<Rightarrow>
                (case checked_add64 abs_lba (me_sector_count entry0) of
                   None \<Rightarrow> Inl ''partition range overflow''
                 | Some end_excl \<Rightarrow>
                     if end_excl > dev_sectors then Inl ''logical partition extends beyond device''
                     else if end_excl > ext_limit then Inl ''logical partition outside extended extent''
                     else Inr (Some \<lparr>pi_number = logical_num, pi_start = abs_lba, pi_end = end_excl - 1,
                                     pi_size = me_sector_count entry0, pi_type = Some (me_type entry0),
                                     pi_guid_type = None, pi_guid_unique = None, pi_name = None,
                                     pi_extended = False\<rparr>)))
         else Inr None)"

text \<open>The EBR chain; the first argument is the number of sectors it may still visit.\<close>

fun ebr_chain ::
  "nat \<Rightarrow> 'd submit \<Rightarrow> nat \<Rightarrow> nat \<Rightarrow> nat \<Rightarrow> 'd \<Rightarrow> nat \<Rightarrow> nat \<Rightarrow> partition_info list
   \<Rightarrow> 'd \<times> (string, partition_info list) result" where
  "ebr_chain 0 sub dev_sectors ext_base ext_limit d next_ebr_lba logical_num parts = (d, Inr parts)"
| "ebr_chain (Suc left) sub dev_sectors ext_base ext_limit d next_ebr_lba logical_num parts =
     (case read_sector sub d next_ebr_lba (replicate 512 0) of
        (d', Inl e) \<Rightarrow> (d', Inl e)
      | (d', Inr ebr) \<Rightarrow>
          if ebr ! 510 \<noteq> 0x55 \<or> ebr ! 511 \<noteq> 0xAA then (d', Inr parts)
          else
            (case ebr_logical dev_sectors ext_limit next_ebr_lba logical_num ebr of
               Inl e \<Rightarrow> (d', Inl e)
             | Inr found \<Rightarrow>
                 let parts' = (case found of None \<Rightarrow> parts | Some p \<Rightarrow> parts @ [p]);
                     num' = (case found of None \<Rightarrow> logical_num | Some p \<Rightarrow> logical_num + 1);
                     entry1 = mbr_entry_at ebr 0x1CE
                 in if me_type entry1 = 0 \<or> me_lba_start entry1 = 0 then (d', Inr parts')
                    else case checked_add64 ext_base (me_lba_start entry1) of
                           None \<Rightarrow> (d', Inl ''EBR chain overflow'')
                         | Some n \<Rightarrow> ebr_chain left sub dev_sectors ext_base ext_limit d' n num' parts'))"

definition mbr_parse :: "'d submit \<Rightarrow> nat \<Rightarrow> 'd \<Rightarrow> u8 list \<Rightarrow> 'd \<times> (string, partition_info list) result" where
  "mbr_parse sub dev_sectors d s =
     (case mbr_primaries dev_sectors s [0..<4] [] None of
        Inl e \<Rightarrow> (d, Inl e)
      | Inr (parts, None) \<Rightarrow> (d, Inr parts)
      | Inr (parts, Some (ext_base, ext_end)) \<Rightarrow>
          ebr_chain MAX_EBR_CHAIN sub dev_sectors ext_base ext_end d ext_base 5 parts)"

section \<open>GPT\<close>

text \<open>\<open>char::from_u32(cp).unwrap_or(REPLACEMENT_CHARACTER)\<close>.\<close>

definition char_or_replacement :: "nat \<Rightarrow> nat" where
  "char_or_replacement cp = (if cp < 0xD800 \<or> (0xE000 \<le> cp \<and> cp < 0x110000) then cp else 0xFFFD)"

fun decode_utf16_le :: "u16 list \<Rightarrow> nat list" where
  "decode_utf16_le [] = []"
| "decode_utf16_le (u # us) =
     (if u = 0 then []
      else if 0xD800 \<le> u \<and> u \<le> 0xDBFF then
        (case us of
           u2 # us' \<Rightarrow>
             if 0xDC00 \<le> u2 \<and> u2 \<le> 0xDFFF
             then char_or_replacement
                    (unat ((push_bit 10 (ucast u - 0xD800) OR (ucast u2 - 0xDC00) OR 0x10000) :: u32)) # decode_utf16_le us'
             else 0xFFFD # decode_utf16_le us
         | [] \<Rightarrow> 0xFFFD # decode_utf16_le us)
      else if 0xDC00 \<le> u \<and> u \<le> 0xDFFF then 0xFFFD # decode_utf16_le us
      else char_or_replacement (unat u) # decode_utf16_le us)"

definition le_u16s :: "nat \<Rightarrow> u8 list \<Rightarrow> u16 list" where
  "le_u16s n b = map (\<lambda>i. of_nat (le_field (2 * i) 2 b)) [0..<n]"

definition gpt_entry :: "nat \<Rightarrow> nat \<Rightarrow> u8 list \<Rightarrow> (string, partition_info option) result" where
  "gpt_entry dev_sectors i e =
     (if field 0 16 e = replicate 16 0 then Inr None
      else
        (let start_lba = le_field 32 8 e; end_lba = le_field 40 8 e
         in if end_lba < start_lba then Inl ''GPT entry range invalid''
            else if end_lba \<ge> dev_sectors then Inl ''GPT partition extends beyond device''
            else
              (let name_str = decode_utf16_le (le_u16s 36 (field 56 72 e))
               in Inr (Some \<lparr>pi_number = i + 1, pi_start = start_lba, pi_end = end_lba,
                             pi_size = wadd64 (end_lba - start_lba) 1, pi_type = None,
                             pi_guid_type = Some (field 0 16 e), pi_guid_unique = Some (field 16 16 e),
                             pi_name = (if name_str = [] then None else Some name_str), pi_extended = False\<rparr>))))"

fun gpt_entries :: "nat \<Rightarrow> nat \<Rightarrow> u8 list \<Rightarrow> nat list \<Rightarrow> partition_info list \<Rightarrow> (string, partition_info list) result" where
  "gpt_entries dev_sectors entry_size buf [] parts = Inr parts"
| "gpt_entries dev_sectors entry_size buf (i # is) parts =
     (if i * entry_size + 128 > length buf then Inr parts
      else case gpt_entry dev_sectors i (drop (i * entry_size) buf) of
             Inl e \<Rightarrow> Inl e
           | Inr None \<Rightarrow> gpt_entries dev_sectors entry_size buf is parts
           | Inr (Some p) \<Rightarrow> gpt_entries dev_sectors entry_size buf is (parts @ [p]))"

text \<open>The checks on the header sector; the result is the entry array's position, number and size and
  its checksum.\<close>

definition gpt_header :: "nat \<Rightarrow> nat \<Rightarrow> u8 list \<Rightarrow> (string, nat \<times> nat \<times> nat \<times> nat) result" where
  "gpt_header dev_sectors hdr_lba buf =
     (let header_size = le_field 12 4 buf
      in if field 0 8 buf \<noteq> [0x45, 0x46, 0x49, 0x20, 0x50, 0x41, 0x52, 0x54] then Inl ''GPT signature not found''
         else if header_size < 92 \<or> header_size > 512 then Inl ''GPT header size out of range''
         else if le_field 24 8 buf \<noteq> hdr_lba then Inl ''GPT header LBA mismatch''
         else if unat (crc32 (take header_size (put_field 16 [0, 0, 0, 0] (take header_size buf @ replicate (512 - header_size) 0))))
                   \<noteq> le_field 16 4 buf then Inl ''GPT header CRC mismatch''
         else
           (let entry_lba = le_field 72 8 buf; num_entries = le_field 80 4 buf; entry_size = le_field 84 4 buf
            in if entry_size < 128 \<or> entry_size > 4096 then Inl ''GPT entry size out of range''
               else if num_entries = 0 \<or> num_entries > 4096 then Inl ''GPT too many partition entries''
               else Inr (entry_lba, num_entries, entry_size, le_field 88 4 buf)))"

definition gpt_parse_at :: "'d submit \<Rightarrow> nat \<Rightarrow> 'd \<Rightarrow> nat \<Rightarrow> 'd \<times> (string, partition_info list) result" where
  "gpt_parse_at sub dev_sectors d hdr_lba =
     (case read_sector sub d hdr_lba (replicate 512 0) of
        (d1, Inl e) \<Rightarrow> (d1, Inl e)
      | (d1, Inr buf) \<Rightarrow>
          (case gpt_header dev_sectors hdr_lba buf of
             Inl e \<Rightarrow> (d1, Inl e)
           | Inr (entry_lba, num_entries, entry_size, entries_crc) \<Rightarrow>
               (case checked_mul64 num_entries entry_size of
                  None \<Rightarrow> (d1, Inl ''GPT entry table too large'')
                | Some total_bytes \<Rightarrow>
                    let sector_count = (total_bytes + SECTOR_SIZE - 1) div SECTOR_SIZE
                    in if (case checked_add64 entry_lba sector_count of None \<Rightarrow> True | Some e \<Rightarrow> e > dev_sectors)
                       then (d1, Inl ''GPT entry table out of device range'')
                       else
                         (case read_sectors sub d1 entry_lba sector_count (replicate (sector_count * SECTOR_SIZE) 0) of
                            (d2, Inl e) \<Rightarrow> (d2, Inl e)
                          | (d2, Inr entries_buf) \<Rightarrow>
                              if unat (crc32 (take total_bytes entries_buf)) \<noteq> entries_crc
                              then (d2, Inl ''GPT partition entries CRC mismatch'')
                              else (d2, gpt_entries dev_sectors entry_size entries_buf [0..<num_entries] [])))))"

definition gpt_parse :: "'d submit \<Rightarrow> nat \<Rightarrow> 'd \<Rightarrow> 'd \<times> (string, partition_info list) result" where
  "gpt_parse sub dev_sectors d =
     (case gpt_parse_at sub dev_sectors d 1 of
        (d1, Inr p) \<Rightarrow> (d1, Inr p)
      | (d1, Inl primary_err) \<Rightarrow>
          if dev_sectors = 0 then (d1, Inl primary_err)
          else case gpt_parse_at sub dev_sectors d1 (dev_sectors - 1) of
                 (d2, Inr p) \<Rightarrow> (d2, Inr p)
               | (d2, Inl e) \<Rightarrow> (d2, Inl primary_err))"

section \<open>Probing\<close>

fun windows_ok :: "partition_info list \<Rightarrow> (string, unit) result" where
  "windows_ok (a # b # ps) =
     (case checked_add64 (pi_start a) (pi_size a) of
        None \<Rightarrow> Inl ''partition range overflow''
      | Some a_end \<Rightarrow> if pi_start b < a_end then Inl ''overlapping partitions'' else windows_ok (b # ps))"
| "windows_ok ps = Inr ()"

definition mountable :: "partition_info \<Rightarrow> bool" where
  "mountable p \<longleftrightarrow> \<not> pi_extended p \<and> pi_size p > 0"

definition check_overlaps :: "partition_info list \<Rightarrow> (string, unit) result" where
  "check_overlaps parts = windows_ok (sort_key pi_start (filter mountable parts))"

definition probe :: "'d submit \<Rightarrow> nat \<Rightarrow> 'd \<Rightarrow> 'd \<times> (string, partition_table) result" where
  "probe sub dev_sectors d =
     (case read_sector sub d 0 (replicate 512 0) of
        (d1, Inl e) \<Rightarrow> (d1, Inl e)
      | (d1, Inr mbr) \<Rightarrow>
          if mbr ! 510 \<noteq> 0x55 \<or> mbr ! 511 \<noteq> 0xAA then (d1, Inl ''no valid MBR or GPT signature'')
          else if \<exists>i\<in>set [0..<4]. mbr ! (0x1BE + i * 16 + 4) = 0xEE then
            (case gpt_parse sub dev_sectors d1 of
               (d2, Inr parts) \<Rightarrow>
                 (case check_overlaps parts of Inl e \<Rightarrow> (d2, Inl e) | Inr _ \<Rightarrow> (d2, Inr (Gpt parts)))
             | (d2, Inl gpt_err) \<Rightarrow>
                 (case mbr_parse sub dev_sectors d2 mbr of
                    (d3, Inl e) \<Rightarrow> (d3, Inl gpt_err)
                  | (d3, Inr parts) \<Rightarrow>
                      (case check_overlaps parts of Inl e \<Rightarrow> (d3, Inl e) | Inr _ \<Rightarrow> (d3, Inr (Mbr parts)))))
          else
            (case mbr_parse sub dev_sectors d1 mbr of
               (d2, Inl e) \<Rightarrow> (d2, Inl e)
             | (d2, Inr parts) \<Rightarrow>
                 (case check_overlaps parts of Inl e \<Rightarrow> (d2, Inl e) | Inr _ \<Rightarrow> (d2, Inr (Mbr parts)))))"

section \<open>A partition as a device\<close>

record partition_device =
  pd_start :: nat
  pd_count :: nat

definition pd_new :: "partition_info \<Rightarrow> partition_device" where
  "pd_new info = \<lparr>pd_start = pi_start info, pd_count = pi_size info\<rparr>"

definition adjust_request :: "partition_device \<Rightarrow> nat \<Rightarrow> io_request \<Rightarrow> (string, io_request) result" where
  "adjust_request pd partition_end r =
     (case checked_add64 (rq_lba r) (rq_count r) of
        None \<Rightarrow> Inl ''partition request range overflow''
      | Some request_end \<Rightarrow>
          if request_end > pd_count pd then Inl ''partition LBA out of range''
          else case checked_add64 (pd_start pd) (rq_lba r) of
                 None \<Rightarrow> Inl ''partition LBA overflow''
               | Some lba \<Rightarrow>
                   if lba \<ge> partition_end \<and> rq_count r \<noteq> 0 then Inl ''partition LBA out of range''
                   else Inr (r\<lparr>rq_lba := lba\<rparr>))"

fun adjust_all :: "partition_device \<Rightarrow> nat \<Rightarrow> io_request list \<Rightarrow> (string, io_request list) result" where
  "adjust_all pd pend [] = Inr []"
| "adjust_all pd pend (r # rs) =
     (case adjust_request pd pend r of
        Inl e \<Rightarrow> Inl e
      | Inr r' \<Rightarrow> (case adjust_all pd pend rs of Inl e \<Rightarrow> Inl e | Inr rs' \<Rightarrow> Inr (r' # rs')))"

definition pd_submit :: "partition_device \<Rightarrow> 'd submit \<Rightarrow> 'd submit" where
  "pd_submit pd sub d reqs =
     (if reqs = [] then (d, [], Inr \<lparr>ic_completed = 0, ic_errors = 0\<rparr>)
      else case checked_add64 (pd_start pd) (pd_count pd) of
             None \<Rightarrow> (d, map (buf_bytes \<circ> rq_buffer) reqs, Inl ''partition range overflow'')
           | Some partition_end \<Rightarrow>
               (case adjust_all pd partition_end reqs of
                  Inl e \<Rightarrow> (d, map (buf_bytes \<circ> rq_buffer) reqs, Inl e)
                | Inr adjusted \<Rightarrow> sub d adjusted))"

section \<open>Mounting\<close>

text \<open>\<open>vfs::mount\<close> on a partition is a parameter: it takes the state of the mount table and answers
  with the new state and its error, if any.\<close>

fun try_mounts ::
  "('m \<Rightarrow> partition_device \<Rightarrow> 'm \<times> vfs_error option) \<Rightarrow> 'm \<Rightarrow> partition_info list \<Rightarrow> (vfs_error \<times> string) option
   \<Rightarrow> 'm \<times> (vfs_error \<times> string, unit) result" where
  "try_mounts mount m [] lst =
     (m, Inl (case lst of Some e \<Rightarrow> e | None \<Rightarrow> (InvalidDevice, ''mount failed'')))"
| "try_mounts mount m (p # ps) lst =
     (case mount m (pd_new p) of
        (m', None) \<Rightarrow> (m', Inr ())
      | (m', Some e) \<Rightarrow> try_mounts mount m' ps (Some (e, discriminant_name e)))"

definition mount_first_partition ::
  "'d submit \<Rightarrow> nat \<Rightarrow> ('m \<Rightarrow> partition_device \<Rightarrow> 'm \<times> vfs_error option) \<Rightarrow> 'd \<Rightarrow> 'm
   \<Rightarrow> 'd \<times> 'm \<times> (vfs_error \<times> string, unit) result" where
  "mount_first_partition sub dev_sectors mount d m =
     (case probe sub dev_sectors d of
        (d', Inl s) \<Rightarrow> (d', m, Inl (InvalidDevice, s))
      | (d', Inr table) \<Rightarrow>
          let candidates = filter mountable (table_partitions table)
          in if candidates = [] then (d', m, Inl (NotFound, ''no non-extended partition''))
             else (d', try_mounts mount m candidates None))"

definition mount_partition ::
  "'d submit \<Rightarrow> nat \<Rightarrow> ('m \<Rightarrow> partition_device \<Rightarrow> 'm \<times> vfs_error option) \<Rightarrow> nat \<Rightarrow> 'd \<Rightarrow> 'm
   \<Rightarrow> 'd \<times> 'm \<times> (vfs_error \<times> string, unit) result" where
  "mount_partition sub dev_sectors mount part_number d m =
     (case probe sub dev_sectors d of
        (d', Inl s) \<Rightarrow> (d', m, Inl (InvalidDevice, s))
      | (d', Inr table) \<Rightarrow>
          (case find (\<lambda>p. pi_number p = part_number \<and> \<not> pi_extended p) (table_partitions table) of
             None \<Rightarrow> (d', m, Inl (NotFound, ''partition number not found''))
           | Some info \<Rightarrow>
               (case mount m (pd_new info) of
                  (m', None) \<Rightarrow> (d', m', Inr ())
                | (m', Some e) \<Rightarrow> (d', m', Inl (e, discriminant_name e)))))"

end
