(* ===== verification/Partition_Props.thy ===== *)
theory Partition_Props
  imports Partition
begin

text \<open>
  What a probed partition table guarantees: every partition lies on the device, mountable partitions
  are pairwise disjoint, and the device made from one reaches no sector outside it.
\<close>

section \<open>Every partition lies on the device\<close>

definition part_ok :: "nat \<Rightarrow> partition_info \<Rightarrow> bool" where
  "part_ok n p \<longleftrightarrow> 0 < pi_size p \<and> pi_start p + pi_size p \<le> n \<and> pi_end p + 1 = pi_start p + pi_size p"

lemma mbr_slot_ok:
  assumes "mbr_slot n s i = Inr (Some p)"
  shows "part_ok n p"
proof -
  obtain e where e: "mbr_entry_at s (0x1BE + i * 16) = e" by blast
  show ?thesis
    using assms unfolding mbr_slot_def part_ok_def Let_def checked_add64_def e by (auto split: if_splits)
qed

lemma mbr_primaries_ok:
  "mbr_primaries n s is parts ext = Inr (ps, ext') \<Longrightarrow> \<forall>p\<in>set parts. part_ok n p \<Longrightarrow> \<forall>p\<in>set ps. part_ok n p"
proof (induction "is" arbitrary: parts ext)
  case (Cons i ks)
  show ?case
  proof (cases "mbr_slot n s i")
    case (Inr found)
    show ?thesis
    proof (cases found)
      case (Some a)
      have "part_ok n a" using Inr Some mbr_slot_ok by simp
      then have "\<forall>p\<in>set (parts @ [a]). part_ok n p" using Cons.prems by simp
      from Cons.IH [OF _ this] show ?thesis using Cons.prems(1) Inr Some by simp
    qed (use Cons Inr in simp)
  qed (use Cons.prems in simp)
qed simp

lemma ebr_logical_ok:
  assumes "ebr_logical n lim nx num s = Inr (Some p)"
  shows "part_ok n p \<and> \<not> pi_extended p \<and> pi_start p + pi_size p \<le> lim \<and> nx \<le> pi_start p"
proof -
  obtain e where e: "mbr_entry_at s 0x1BE = e" by blast
  show ?thesis
    using assms unfolding ebr_logical_def part_ok_def Let_def checked_add64_def e by (auto split: if_splits)
qed

lemma ebr_chain_ok:
  "ebr_chain k sub n b lim d nx num parts = (d', Inr ps) \<Longrightarrow> \<forall>p\<in>set parts. part_ok n p \<Longrightarrow> \<forall>p\<in>set ps. part_ok n p"
proof (induction k arbitrary: d nx num parts)
  case (Suc k)
  obtain d1 r where rd: "read_sector sub d nx (replicate 512 0) = (d1, r)" by fastforce
  show ?case
  proof (cases r)
    case (Inr ebr)
    show ?thesis
    proof (cases "ebr_logical n lim nx num ebr")
      case l: (Inr found)
      define ps' where "ps' = (case found of None \<Rightarrow> parts | Some p \<Rightarrow> parts @ [p])"
      have ok: "\<forall>p\<in>set ps'. part_ok n p"
        using Suc.prems(2) l unfolding ps'_def by (auto split: option.splits dest: ebr_logical_ok)
      have "ps = parts \<or> ps = ps' \<or> (\<exists>nx' num'. ebr_chain k sub n b lim d1 nx' num' ps' = (d', Inr ps))"
        using Suc.prems(1) rd Inr l
        by (simp add: Let_def flip: ps'_def split: if_splits option.splits; blast)
      then show ?thesis using Suc.IH [OF _ ok] ok Suc.prems(2) by blast
    qed (use Suc.prems rd Inr in \<open>auto split: if_splits\<close>)
  qed (use Suc.prems rd in simp)
qed simp

lemma mbr_parse_ok:
  assumes "mbr_parse sub n d s = (d', Inr ps)"
  shows "\<forall>p\<in>set ps. part_ok n p"
proof (cases "mbr_primaries n s [0..<4] [] None")
  case (Inr x)
  obtain ps0 ext where x: "x = (ps0, ext)" by fastforce
  have ok: "\<forall>p\<in>set ps0. part_ok n p" using mbr_primaries_ok [of n s "[0..<4]" "[]" None ps0 ext] Inr x by simp
  show ?thesis
  proof (cases ext)
    case (Some be)
    then have "ebr_chain MAX_EBR_CHAIN sub n (fst be) (snd be) d (fst be) 5 ps0 = (d', Inr ps)"
      using assms Inr x by (simp add: mbr_parse_def split: prod.splits)
    then show ?thesis using ok by (rule ebr_chain_ok)
  qed (use assms ok Inr x in \<open>simp add: mbr_parse_def\<close>)
qed (use assms in \<open>simp add: mbr_parse_def\<close>)

lemma gpt_entry_ok: "n \<le> u64_max \<Longrightarrow> gpt_entry n i e = Inr (Some p) \<Longrightarrow> part_ok n p"
  by (auto simp: gpt_entry_def part_ok_def Let_def wadd64_exact split: if_splits)

lemma gpt_entries_ok:
  "gpt_entries n sz buf is parts = Inr ps \<Longrightarrow> n \<le> u64_max \<Longrightarrow> \<forall>p\<in>set parts. part_ok n p \<Longrightarrow> \<forall>p\<in>set ps. part_ok n p"
proof (induction "is" arbitrary: parts)
  case (Cons i ks)
  show ?case
  proof (cases "gpt_entry n i (drop (i * sz) buf)")
    case (Inr found)
    show ?thesis
    proof (cases found)
      case (Some a)
      have "part_ok n a" using Inr Some gpt_entry_ok [OF Cons.prems(2)] by simp
      then have "\<forall>p\<in>set (parts @ [a]). part_ok n p" using Cons.prems by simp
      from Cons.IH [OF _ Cons.prems(2) this] show ?thesis using Cons.prems(1,3) Inr Some by (simp split: if_splits)
    qed (use Cons Inr in \<open>simp split: if_splits\<close>)
  qed (use Cons.prems in \<open>simp split: if_splits\<close>)
qed simp

lemma gpt_parse_at_ok: "gpt_parse_at sub n d h = (d', Inr ps) \<Longrightarrow> n \<le> u64_max \<Longrightarrow> p \<in> set ps \<Longrightarrow> part_ok n p"
  by (auto simp: gpt_parse_at_def Let_def split: prod.splits sum.splits option.splits if_splits dest: gpt_entries_ok)

lemma gpt_parse_ok: "gpt_parse sub n d = (d', Inr ps) \<Longrightarrow> n \<le> u64_max \<Longrightarrow> p \<in> set ps \<Longrightarrow> part_ok n p"
  by (auto simp: gpt_parse_def split: prod.splits sum.splits if_splits dest: gpt_parse_at_ok)

section \<open>The overlap check\<close>

definition part_range :: "partition_info \<Rightarrow> nat set" where
  "part_range p = {pi_start p..<pi_start p + pi_size p}"

lemma windows_ok_disjoint:
  "windows_ok ps = Inr () \<Longrightarrow> sorted (map pi_start ps) \<Longrightarrow> sorted_wrt (\<lambda>a b. pi_start a + pi_size a \<le> pi_start b) ps"
proof (induction ps rule: windows_ok.induct)
  case (1 a b ps)
  then have ab: "pi_start a + pi_size a \<le> pi_start b" and "windows_ok (b # ps) = Inr ()"
    by (auto simp: checked_add64_def split: if_splits)
  with 1 have IH: "sorted_wrt (\<lambda>a b. pi_start a + pi_size a \<le> pi_start b) (b # ps)"
    by (simp add: checked_add64_def split: if_splits)
  moreover have "pi_start a + pi_size a \<le> pi_start x" if "x \<in> set ps" for x
    using ab "1.prems"(2) that by auto
  ultimately show ?case using ab by simp
qed auto

lemma sorted_wrt_pairs: "sorted_wrt P xs \<Longrightarrow> p \<in> set xs \<Longrightarrow> q \<in> set xs \<Longrightarrow> p \<noteq> q \<Longrightarrow> P p q \<or> P q p"
  by (induction xs) auto

lemma check_overlaps_disjoint:
  assumes "check_overlaps parts = Inr ()" "p \<in> set parts" "q \<in> set parts" "mountable p" "mountable q" "p \<noteq> q"
  shows "part_range p \<inter> part_range q = {}"
proof -
  let ?s = "sort_key pi_start (filter mountable parts)"
  have "sorted_wrt (\<lambda>a b. pi_start a + pi_size a \<le> pi_start b) ?s"
    using assms(1) by (intro windows_ok_disjoint) (simp_all add: check_overlaps_def)
  from sorted_wrt_pairs [OF this, of p q] assms(2-6) show ?thesis by (auto simp: part_range_def)
qed

lemma probe_table:
  assumes "probe sub n d = (d', Inr t)" "n \<le> u64_max"
  shows "check_overlaps (table_partitions t) = Inr ()" "p \<in> set (table_partitions t) \<Longrightarrow> part_ok n p"
  using assms by (auto simp: probe_def split: prod.splits sum.splits if_splits dest: gpt_parse_ok mbr_parse_ok)

section \<open>The partition device\<close>

lemma adjust_request_spec:
  assumes "adjust_request pd pend r = Inr r'"
  shows "r' = r\<lparr>rq_lba := pd_start pd + rq_lba r\<rparr>" "rq_lba r + rq_count r \<le> pd_count pd"
  using assms by (auto simp: adjust_request_def checked_add64_Some split: option.splits if_splits)

definition shifted :: "nat \<Rightarrow> io_request list \<Rightarrow> io_request list" where
  "shifted k rs = map (\<lambda>r. r\<lparr>rq_lba := k + rq_lba r\<rparr>) rs"

lemma adjust_all_spec:
  "adjust_all pd pend rs = Inr rs' \<Longrightarrow> rs' = shifted (pd_start pd) rs \<and> (\<forall>r\<in>set rs. rq_lba r + rq_count r \<le> pd_count pd)"
  by (induction rs arbitrary: rs') (auto simp: shifted_def split: sum.splits dest: adjust_request_spec)

lemma pd_submit_cases:
  assumes "pd_submit pd sub d rs = (d', bs, res)"
  obtains (skip) "d' = d" "\<And>c. res = Inr c \<Longrightarrow> rs = [] \<and> c = \<lparr>ic_completed = 0, ic_errors = 0\<rparr>"
  | (forward) "sub d (shifted (pd_start pd) rs) = (d', bs, res)" "pd_start pd + pd_count pd \<le> u64_max"
      "\<And>r. r \<in> set rs \<Longrightarrow> rq_lba r + rq_count r \<le> pd_count pd"
  using assms
  by (auto simp: pd_submit_def checked_add64_def split: if_splits sum.splits dest!: adjust_all_spec)

lemma rq_range_shift: "rq_range (r\<lparr>rq_lba := k + rq_lba r\<rparr>) = (\<lambda>l. k + l) ` rq_range r"
  by (auto simp: rq_range_def image_iff)

lemma shifted_written: "written (shifted k rs) = (\<lambda>l. k + l) ` written rs"
  by (induction rs) (auto simp: written_Cons shifted_def rq_range_shift image_Un)

lemma batch_ok_shifted:
  "batch_ok rs \<Longrightarrow> \<forall>r\<in>set rs. k + rq_lba r + rq_count r \<le> u64_max \<Longrightarrow> batch_ok (shifted k rs)"
proof (induction rs)
  case (Cons r rs)
  have eq: "shifted k (r # rs) = r\<lparr>rq_lba := k + rq_lba r\<rparr> # shifted k rs" by (simp add: shifted_def)
  have "(\<lambda>l. k + l) ` rq_range r \<inter> (\<lambda>l. k + l) ` written rs = (\<lambda>l. k + l) ` (rq_range r \<inter> written rs)"
    by (rule image_Int [symmetric]) (simp add: inj_on_def)
  with Cons show ?case by (auto simp: eq rq_range_shift shifted_written wf_write_def)
qed (simp add: shifted_def)

lemma buffered_shifted: "buffered_writes rs \<Longrightarrow> buffered_writes (shifted k rs)"
  by (auto simp: buffered_writes_def shifted_def)

context block_device
begin

lemma pd_contract: "block_device (pd_submit pd sub) (\<lambda>d l. disk d (pd_start pd + l)) ok"
proof (rule block_device.intro, goal_cases)
  case (1 rs d d' bs c)
  from 1(2) show ?case
    by (cases rule: pd_submit_cases) (use 1(1) counts [of "shifted (pd_start pd) rs" d d' bs c] in \<open>auto simp: shifted_def\<close>)
next
  case (2 d rs d' bs res l)
  from 2(1) show ?case
  proof (cases rule: pd_submit_cases)
    case forward
    have "pd_start pd + l \<notin> written (shifted (pd_start pd) rs)" using 2(2) by (auto simp: shifted_written)
    then show ?thesis by (rule frame [OF forward(1)])
  qed simp
next
  case (3 d l)
  then show ?case by (rule sector_len)
next
  case (4 d rs d' bs c)
  from 4(4) show ?case
  proof (cases rule: pd_submit_cases)
    case forward
    then have "batch_ok (shifted (pd_start pd) rs)" using 4(3) by (intro batch_ok_shifted) fastforce+
    from keeps [OF 4(1) _ this forward(1)] 4(2,5) show ?thesis by (simp add: shifted_def)
  qed (use 4 in simp)
next
  case (5 d r d' bs c b)
  from 5(2) show ?case
  proof (cases rule: pd_submit_cases)
    case forward
    let ?r = "r\<lparr>rq_lba := pd_start pd + rq_lba r\<rparr>"
    have "sub d [?r] = (d', bs, Inr c)" using forward(1) by (simp add: shifted_def)
    from read_data [OF 5(1) this 5(3)] 5(4-7)
    have "bs = [concat (map (disk d) [pd_start pd + rq_lba r..<pd_start pd + rq_lba r + rq_count r])]" by simp
    moreover have "map (disk d) [pd_start pd + rq_lba r..<pd_start pd + rq_lba r + rq_count r]
        = map (\<lambda>l. disk d (pd_start pd + l)) [rq_lba r..<rq_lba r + rq_count r]"
      by (rule nth_equalityI) (simp_all add: add.assoc)
    ultimately show ?thesis by simp
  qed (use 5 in \<open>auto simp: all_ok_def\<close>)
next
  case (6 d rs d' bs c r i)
  from 6(5) show ?case
  proof (cases rule: pd_submit_cases)
    case forward
    let ?r = "r\<lparr>rq_lba := pd_start pd + rq_lba r\<rparr>"
    have r: "?r \<in> set (shifted (pd_start pd) rs)" using 6(7) by (auto simp: shifted_def)
    have b: "batch_ok (shifted (pd_start pd) rs)" using 6(3) forward(2,3) by (intro batch_ok_shifted) fastforce+
    have l: "length (shifted (pd_start pd) rs) < 2 ^ 32" using 6(2) by (simp add: shifted_def)
    from write_data [OF 6(1) l b buffered_shifted [OF 6(4)] forward(1) 6(6) r] 6(8) show ?thesis by (simp add: add.assoc)
  qed (use 6 in auto)
qed

text \<open>Nothing outside the partition changes.\<close>

lemma pd_outside:
  assumes "pd_submit pd sub d rs = (d', bs, res)" "l \<notin> {pd_start pd..<pd_start pd + pd_count pd}"
  shows "disk d' l = disk d l"
  using assms(1)
proof (cases rule: pd_submit_cases)
  case forward
  have "l \<notin> written (shifted (pd_start pd) rs)"
  proof
    assume "l \<in> written (shifted (pd_start pd) rs)"
    then obtain m r where "l = pd_start pd + m" "r \<in> set rs" "m \<in> rq_range r"
      unfolding shifted_written by (auto simp: written_def)
    with forward(3) [of r] assms(2) show False by (simp add: rq_range_def)
  qed
  then show ?thesis by (rule frame [OF forward(1)])
qed simp

end

end
