(* ===== verification/Partition_Theorems.thy ===== *)
theory Partition_Theorems
  imports Partition_Props
begin

text \<open>
  Isolation of partitions, the checksum of GPT headers, and the decoding of GPT names; a small disk
  with two primary partitions serves as the concrete instance.
\<close>

section \<open>A disk with two partitions\<close>

definition mbr_demo :: "u8 list" where
  "mbr_demo = replicate 446 0
     @ [0, 0, 0, 0, 0x0C, 0, 0, 0, 8, 0, 0, 0, 16, 0, 0, 0]
     @ [0, 0, 0, 0, 0x83, 0, 0, 0, 32, 0, 0, 0, 8, 0, 0, 0]
     @ replicate 32 0 @ [0x55, 0xAA]"

definition demo_disk :: ram_disk where
  "demo_disk = (\<lambda>l. if l = 0 then mbr_demo else replicate 512 0)"

definition part_a :: partition_info where
  "part_a = \<lparr>pi_number = 1, pi_start = 8, pi_end = 23, pi_size = 16, pi_type = Some 12, pi_guid_type = None,
     pi_guid_unique = None, pi_name = None, pi_extended = False\<rparr>"

definition part_b :: partition_info where
  "part_b = \<lparr>pi_number = 2, pi_start = 32, pi_end = 39, pi_size = 8, pi_type = Some 131, pi_guid_type = None,
     pi_guid_unique = None, pi_name = None, pi_extended = False\<rparr>"

lemma demo_read: "read_sector ram_submit demo_disk 0 b = (demo_disk, Inr mbr_demo)"
  by (simp add: read_sector_def ram_submit_def all_ok_def demo_disk_def)

lemma demo_entries:
  "mbr_entry_at mbr_demo 446 = \<lparr>me_type = 12, me_lba_start = 8, me_sector_count = 16\<rparr>"
  "mbr_entry_at mbr_demo 462 = \<lparr>me_type = 131, me_lba_start = 32, me_sector_count = 8\<rparr>"
  "mbr_entry_at mbr_demo 478 = \<lparr>me_type = 0, me_lba_start = 0, me_sector_count = 0\<rparr>"
  "mbr_entry_at mbr_demo 494 = \<lparr>me_type = 0, me_lba_start = 0, me_sector_count = 0\<rparr>"
  by (simp_all add: mbr_entry_at_def le_field_def field_def mbr_demo_def)

lemma demo_bytes:
  "mbr_demo ! 510 = 0x55" "mbr_demo ! 511 = 0xAA" "mbr_demo ! 450 = 0x0C" "mbr_demo ! 466 = 0x83"
  "mbr_demo ! 482 = 0" "mbr_demo ! 498 = 0"
  by (simp_all add: mbr_demo_def nth_append)

lemma upt4: "[0..<4] = [0, 1, 2, 3::nat]"
  by (simp add: upt_conv_Cons)

lemma demo_probe: "probe ram_submit 64 demo_disk = (demo_disk, Inr (Mbr [part_a, part_b]))"
proof -
  have "mbr_parse ram_submit 64 demo_disk mbr_demo = (demo_disk, Inr [part_a, part_b])"
    by (simp add: mbr_parse_def upt4 mbr_slot_def demo_entries checked_add64_def u64_max_def Let_def part_a_def part_b_def)
  moreover have "check_overlaps [part_a, part_b] = Inr ()"
    by (simp add: check_overlaps_def mountable_def part_a_def part_b_def checked_add64_def u64_max_def)
  ultimately show ?thesis
    by (simp add: probe_def demo_read demo_bytes upt4)
qed

text \<open>C24: a partition table that \<open>probe\<close> accepts, MBR or GPT, on any driver: every partition is
  non-empty, lies on the device and has a consistent last sector; two different mountable partitions
  share no sector.\<close>

theorem probe_sound:
  assumes "probe sub n d = (d', Inr t)" "n \<le> u64_max"
  shows "(\<forall>p\<in>set (table_partitions t). 0 < pi_size p \<and> pi_start p + pi_size p \<le> n \<and> pi_end p + 1 = pi_start p + pi_size p)
    \<and> (\<forall>p\<in>set (table_partitions t). \<forall>q\<in>set (table_partitions t).
        mountable p \<and> mountable q \<and> p \<noteq> q \<longrightarrow> part_range p \<inter> part_range q = {})"
  using probe_table(2) [OF assms] check_overlaps_disjoint [OF probe_table(1) [OF assms]]
  by (auto simp: part_ok_def)

theorem probe_sound_witness:
  "probe ram_submit 64 demo_disk = (demo_disk, Inr (Mbr [part_a, part_b]))
   \<and> pi_start part_a + pi_size part_a \<le> 64 \<and> part_range part_a \<inter> part_range part_b = {}"
proof -
  have "mountable part_a" "mountable part_b" "part_a \<noteq> part_b" by (simp_all add: mountable_def part_a_def part_b_def)
  with probe_sound [OF demo_probe] demo_probe show ?thesis by (simp add: u64_max_def)
qed

section \<open>Isolation\<close>

text \<open>C25: the devices of two different mountable partitions of a probed table are isolated: over any
  driver that keeps the block device contract, whatever batch is submitted to the first, and
  whether it succeeds or fails, no sector seen through the second changes.\<close>

theorem partitions_isolated:
  assumes "block_device sub disk ok" "probe sub n d0 = (d1, Inr t)" "n \<le> u64_max"
    and "p \<in> set (table_partitions t)" "q \<in> set (table_partitions t)" "mountable p" "mountable q" "p \<noteq> q"
    and "pd_submit (pd_new p) sub d rs = (d', bs, res)" "l < pd_count (pd_new q)"
  shows "disk d' (pd_start (pd_new q) + l) = disk d (pd_start (pd_new q) + l)"
proof (rule block_device.pd_outside [OF assms(1,9)])
  have "part_range p \<inter> part_range q = {}"
    by (rule check_overlaps_disjoint [OF probe_table(1) [OF assms(2,3)] assms(4-8)])
  then show "pd_start (pd_new q) + l \<notin> {pd_start (pd_new p)..<pd_start (pd_new p) + pd_count (pd_new p)}"
    using assms(10) by (auto simp: part_range_def pd_new_def disjoint_iff)
qed

definition fill_a :: io_request where
  "fill_a = \<lparr>rq_lba = 3, rq_count = 1, rq_buffer = ConstBuf (replicate 512 9), rq_write = True\<rparr>"

theorem partitions_isolated_witness:
  "fst (pd_submit (pd_new part_a) ram_submit demo_disk [fill_a]) (32 + 3) = replicate 512 0"
proof -
  have m: "mountable part_a" "mountable part_b" "part_a \<noteq> part_b" by (simp_all add: mountable_def part_a_def part_b_def)
  obtain d' bs res where s: "pd_submit (pd_new part_a) ram_submit demo_disk [fill_a] = (d', bs, res)"
    by (metis prod_cases3)
  have "d' (pd_start (pd_new part_b) + 3) = demo_disk (pd_start (pd_new part_b) + 3)"
    by (rule partitions_isolated [OF ram.block_device_axioms demo_probe _ _ _ m s])
       (simp_all add: u64_max_def pd_new_def part_b_def)
  then show ?thesis unfolding s fst_conv by (simp add: pd_new_def part_b_def demo_disk_def)
qed

text \<open>C26: the device of a partition is again a block device: over a driver that keeps the contract it
  keeps the contract for the partition's own sectors, numbered from zero.\<close>

theorem partition_device_refines:
  assumes "block_device sub disk ok"
  shows "block_device (pd_submit pd sub) (\<lambda>d l. disk d (pd_start pd + l)) ok"
  using assms by (rule block_device.pd_contract)

theorem partition_device_refines_witness:
  "block_device (pd_submit (pd_new part_a) ram_submit) (\<lambda>d l. d (pd_start (pd_new part_a) + l)) ram_ok"
  using partition_device_refines [OF ram.block_device_axioms] .

section \<open>The checksum\<close>

lemma crc_bit_inj: "crc_bit x = crc_bit y \<Longrightarrow> x = y"
proof -
  assume eq: "crc_bit x = crc_bit y"
  have top: "bit (crc_bit z) 31 \<longleftrightarrow> bit z 0" for z :: u32
    by (auto simp: crc_bit_def bit_xor_iff bit_drop_bit_eq and_one_eq odd_iff_mod_2_eq_one bit_0 bit_numeral_simps dest: bit_imp_le_length split: if_splits)
  have low: "bit (crc_bit z) i \<longleftrightarrow> bit z (Suc i) \<noteq> (bit z 0 \<and> bit (0xEDB88320 :: u32) i)" for z :: u32 and i
    by (auto simp: crc_bit_def bit_xor_iff bit_drop_bit_eq and_one_eq odd_iff_mod_2_eq_one bit_0)
  show "x = y"
  proof (rule bit_word_eqI)
    fix n assume "n < LENGTH(32)"
    have z: "bit x 0 \<longleftrightarrow> bit y 0" using top [of x] top [of y] eq by simp
    show "bit x n \<longleftrightarrow> bit y n"
    proof (cases n)
      case (Suc i)
      then show ?thesis using low [of x i] low [of y i] eq z by auto
    qed (use z in simp)
  qed
qed

lemma crc_steps_inj: "(crc_bit ^^ n) x = (crc_bit ^^ n) y \<Longrightarrow> x = y"
  by (induction n) (auto dest: crc_bit_inj)

lemma crc_byte_inj:
  "crc_byte x b = crc_byte y b \<Longrightarrow> x = y"
  "crc_byte x a = crc_byte x b \<Longrightarrow> a = b"
proof -
  have cancel: "u XOR z = v XOR z \<Longrightarrow> u = v" for u v z :: u32
    by (metis xor.assoc xor.right_neutral xor_self_eq)
  show "crc_byte x b = crc_byte y b \<Longrightarrow> x = y"
    unfolding crc_byte_def by (auto dest!: crc_steps_inj intro: cancel)
  assume "crc_byte x a = crc_byte x b"
  then have "x XOR ucast a = x XOR ucast b" unfolding crc_byte_def by (rule crc_steps_inj)
  then have "(ucast a :: u32) = ucast b" by (metis xor.commute cancel)
  then have "(ucast (ucast a :: u32) :: u8) = ucast (ucast b :: u32)" by simp
  then show "a = b" by (simp add: unsigned_ucast_eq take_bit_word_eq_self)
qed

lemma crc_fold_inj: "foldl crc_byte x bs = foldl crc_byte y bs \<Longrightarrow> x = y"
  by (induction bs arbitrary: x y) (auto dest: crc_byte_inj(1))

text \<open>C27: the checksum detects the corruption of any single byte: two buffers that differ in exactly
  one byte have different checksums.\<close>

theorem crc32_detects_one_byte:
  assumes "i < length buf" "b \<noteq> buf ! i"
  shows "crc32 (buf[i := b]) \<noteq> crc32 buf"
proof
  assume "crc32 (buf[i := b]) = crc32 buf"
  then have "NOT (NOT (foldl crc_byte 0xFFFFFFFF (buf[i := b]))) = NOT (NOT (foldl crc_byte 0xFFFFFFFF buf))"
    unfolding crc32_def by (rule arg_cong)
  then have eq: "foldl crc_byte 0xFFFFFFFF (buf[i := b]) = foldl crc_byte 0xFFFFFFFF buf" by simp
  let ?p = "foldl crc_byte 0xFFFFFFFF (take i buf)"
  have "buf = take i buf @ buf ! i # drop (Suc i) buf" using assms(1) by (rule id_take_nth_drop)
  then have "foldl crc_byte 0xFFFFFFFF buf = foldl crc_byte (crc_byte ?p (buf ! i)) (drop (Suc i) buf)"
    by (metis foldl_Cons foldl_append)
  moreover have "foldl crc_byte 0xFFFFFFFF (buf[i := b]) = foldl crc_byte (crc_byte ?p b) (drop (Suc i) buf)"
    using assms(1) by (simp add: upd_conv_take_nth_drop)
  ultimately have "crc_byte ?p b = crc_byte ?p (buf ! i)" using eq crc_fold_inj by metis
  then show False using assms(2) crc_byte_inj(2) by metis
qed

theorem crc32_detects_one_byte_witness: "crc32 ([1, 2, 3][1 := 4]) \<noteq> crc32 [1, 2, 3]"
  using crc32_detects_one_byte [of 1 "[1, 2, 3]" 4] by simp

section \<open>GPT names\<close>

lemma or_low_part: "b < 1024 \<Longrightarrow> push_bit 10 (a::nat) OR b = a * 1024 + b"
proof -
  assume "b < 1024"
  then have t: "take_bit 10 b = b" by (simp add: take_bit_nat_eq_self_iff)
  have "push_bit 10 a AND take_bit 10 b = 0"
    by (rule bit_eqI) (auto simp: bit_and_iff bit_push_bit_iff bit_take_bit_iff)
  then have "push_bit 10 a OR b = push_bit 10 a + b" using t by (simp add: disjunctive_add_eq_or)
  then show ?thesis by (simp add: push_bit_eq_mult)
qed

lemma unat_ucast_u16 [simp]: "unat (ucast (u::u16) :: u32) = unat u"
proof -
  have "unat u < 2 ^ 16" using unsigned_less [where ?'a = nat and w = u] by simp
  then show ?thesis by (simp add: unsigned_ucast_eq take_bit_nat_eq_self_iff)
qed

lemma unat_ucast_sub: "(k::u16) \<le> u \<Longrightarrow> unat k = unat k' \<Longrightarrow> unat (ucast u - (k'::u32)) = unat u - unat k"
  by (subst unat_sub) (simp_all add: word_le_nat_alt)

lemma or_bit16: "(x::nat) OR 0x10000 = (if odd (x div 0x10000) then x else x + 0x10000)"
proof -
  have "x OR 0x10000 = set_bit 16 x" by (simp add: set_bit_eq_or push_bit_eq_mult)
  also have "\<dots> = (if odd (x div 0x10000) then x else x + 0x10000)" by (simp add: set_bit_eq bit_iff_odd)
  finally show ?thesis .
qed

text \<open>C28: how a surrogate pair of a GPT partition name is decoded. The decoder sets bit 16 of the combined value
  instead of adding 0x10000. So the pair of a code point in an odd plane decodes to that code point, and the
  pair of a code point in an even plane decodes to the code point one plane below, for every pair and
  whatever follows it.\<close>

theorem surrogate_pair_decoding:
  assumes "0xD800 \<le> u" "u \<le> 0xDBFF" "0xDC00 \<le> v" "v \<le> 0xDFFF"
    and "cp = 0x10000 + (unat u - 0xD800) * 0x400 + (unat v - 0xDC00)"
  shows "decode_utf16_le (u # v # us) = (if odd (cp div 0x10000) then cp else cp - 0x10000) # decode_utf16_le us"
proof -
  define a where "a = unat u - 0xD800"
  define b where "b = unat v - 0xDC00"
  have b: "a < 1024" "b < 1024" using assms(1-4) by (auto simp: a_def b_def word_le_nat_alt)
  have ua: "unat (ucast u - 0xD800 :: u32) = a" "unat (ucast v - 0xDC00 :: u32) = b"
    using unat_ucast_sub [OF assms(1), of "0xD800"] unat_ucast_sub [OF assms(3), of "0xDC00"]
    by (simp_all add: a_def b_def)
  have "unat (push_bit 10 (ucast u - 0xD800 :: u32)) = take_bit 32 (push_bit 10 a)"
    unfolding unsigned_push_bit_eq ua(1) by simp
  also have "\<dots> = push_bit 10 a" using b(1) by (simp add: push_bit_eq_mult take_bit_nat_eq_self_iff)
  finally have "unat (push_bit 10 (ucast u - 0xD800 :: u32)) = push_bit 10 a" .
  then have "unat ((push_bit 10 (ucast u - 0xD800) OR (ucast v - 0xDC00) OR 0x10000) :: u32) = (a * 1024 + b) OR 0x10000"
    using or_low_part [OF b(2), of a] ua(2) unfolding unsigned_or_eq by (simp only: or.assoc [symmetric]) simp
  also have "\<dots> = (if odd (cp div 0x10000) then cp else cp - 0x10000)"
    using div_add_self1 [of "0x10000" "a * 1024 + b"] unfolding or_bit16 assms(5) a_def [symmetric] b_def [symmetric] by (simp add: add.assoc)
  finally have e: "unat ((push_bit 10 (ucast u - 0xD800) OR (ucast v - 0xDC00) OR 0x10000) :: u32)
      = (if odd (cp div 0x10000) then cp else cp - 0x10000)" .
  have lo: "0x10000 \<le> cp" "cp < 0x110000"
    using b unfolding assms(5) a_def [symmetric] b_def [symmetric] by linarith+
  have "cp div 0x10000 = 1" if "cp < 0x20000" using lo that by (intro div_nat_eqI) simp_all
  then have "odd (cp div 0x10000) \<or> 0x20000 \<le> cp" by (cases "cp < 0x20000") simp_all
  then have "char_or_replacement (if odd (cp div 0x10000) then cp else cp - 0x10000) = (if odd (cp div 0x10000) then cp else cp - 0x10000)"
    using lo by (auto simp: char_or_replacement_def)
  moreover have "u \<noteq> 0" using assms(1) by auto
  ultimately show ?thesis using assms(1-4) e by simp
qed

theorem surrogate_pair_decoding_witness:
  "decode_utf16_le [0xD840, 0xDC00] = [0x10000] \<and> decode_utf16_le [0xD800, 0xDC00] = [0x10000]"
  using surrogate_pair_decoding [of "0xD840" "0xDC00" "0x20000" "[]"] surrogate_pair_decoding [of "0xD800" "0xDC00" "0x10000" "[]"]
  by simp

end
