(* ===== verification/Wallclock.thy ===== *)
theory Wallclock
  imports Bedrock_Prelude
begin

text \<open>
  Civil dates (\<open>kernel/src/services/wallclock.rs\<close>) and the CMOS real-time clock
  (\<open>kernel/src/drivers/rtc.rs\<close>). Dates are natural numbers, with the additions and subtractions that
  could leave the range of \<open>u64\<close> written as wrapping operations. The clock chip is a function from
  register numbers to bytes.
\<close>

section \<open>Day numbers\<close>

definition days_from_civil :: "nat \<Rightarrow> nat \<Rightarrow> nat \<Rightarrow> nat" where
  "days_from_civil y0 m d =
     (let y = if m \<le> 2 then wsub64 y0 1 else y0;
          era = y div 400;
          yoe = y - era * 400;
          mp = (m + 9) mod 12;
          doy = wsub64 ((153 * mp + 2) div 5 + d) 1;
          doe = yoe * 365 + yoe div 4 - yoe div 100 + doy
      in wsub64 (wadd64 (era * 146097) doe) 719468)"

definition civil_from_days :: "nat \<Rightarrow> nat \<times> nat \<times> nat" where
  "civil_from_days z0 =
     (let z = wadd64 z0 719468;
          era = z div 146097;
          doe = z - era * 146097;
          yoe = (doe - doe div 1460 + doe div 36524 - doe div 146096) div 365;
          y = yoe + era * 400;
          doy = doe - (365 * yoe + yoe div 4 - yoe div 100);
          mp = (5 * doy + 2) div 153;
          d = doy - (153 * mp + 2) div 5 + 1;
          m = if mp < 10 then mp + 3 else mp - 9
      in (if m \<le> 2 then y + 1 else y, m, d))"

section \<open>The Gregorian calendar\<close>

definition leap :: "nat \<Rightarrow> bool" where
  "leap y \<longleftrightarrow> y mod 4 = 0 \<and> (y mod 100 \<noteq> 0 \<or> y mod 400 = 0)"

definition month_days :: "nat \<Rightarrow> nat \<Rightarrow> nat" where
  "month_days y m = (if m = 2 then if leap y then 29 else 28 else if m \<in> {4, 6, 9, 11} then 30 else 31)"

definition valid_date :: "nat \<Rightarrow> nat \<Rightarrow> nat \<Rightarrow> bool" where
  "valid_date y m d \<longleftrightarrow> 1 \<le> m \<and> m \<le> 12 \<and> 1 \<le> d \<and> d \<le> month_days y m"

text \<open>A year of an era starts in March: \<open>yoe = 100 c + 4 q + r\<close>. The last day, 365, exists only in
  the years that end with a February of 29 days.\<close>

definition year_ok :: "nat \<Rightarrow> nat \<Rightarrow> nat \<Rightarrow> nat \<Rightarrow> bool" where
  "year_ok c q r doy \<longleftrightarrow> c \<le> 3 \<and> q \<le> 24 \<and> r \<le> 3 \<and> doy \<le> 365 \<and> (doy = 365 \<longrightarrow> r = 3 \<and> (q < 24 \<or> c = 3))"

definition doe_of :: "nat \<Rightarrow> nat \<Rightarrow> nat \<Rightarrow> nat \<Rightarrow> nat" where
  "doe_of c q r doy = 36524 * c + 1461 * q + 365 * r + doy"

lemma year_split:
  assumes "year_ok c q r doy"
  defines "yoe \<equiv> 100 * c + 4 * q + r"
  shows "yoe * 365 + yoe div 4 - yoe div 100 + doy = doe_of c q r doy" "yoe < 400"
    "365 * yoe + yoe div 4 - yoe div 100 = doe_of c q r 0"
proof -
  have "yoe div 4 = 25 * c + q" "yoe div 100 = c"
    using assms(1) by (auto simp: yoe_def year_ok_def intro!: div_nat_eqI)
  then show "yoe * 365 + yoe div 4 - yoe div 100 + doy = doe_of c q r doy" "yoe < 400"
    "365 * yoe + yoe div 4 - yoe div 100 = doe_of c q r 0"
    using assms(1) by (auto simp: yoe_def doe_of_def year_ok_def)
qed

lemma doe_lt: "year_ok c q r doy \<Longrightarrow> doe_of c q r doy < 146097"
  unfolding year_ok_def doe_of_def by (cases "doy = 365") auto

text \<open>The year is recovered from the day of the era.\<close>

lemma yoe_of_doe:
  assumes ok: "year_ok c q r doy"
  defines "doe \<equiv> doe_of c q r doy"
  shows "(doe - doe div 1460 + doe div 36524 - doe div 146096) div 365 = 100 * c + 4 * q + r"
proof -
  note b = ok [unfolded year_ok_def]
  define e :: nat where "e = (if 24 * c + q + 365 * r + doy < 1460 then 0 else 1)"
  have k: "doe div 1460 = 25 * c + q + e"
    using b by (intro div_nat_eqI) (auto simp: doe_def doe_of_def e_def)
  show ?thesis
  proof (cases "c = 3 \<and> q = 24 \<and> r = 3 \<and> doy = 365")
    case True
    then show ?thesis by (simp add: doe_def doe_of_def)
  next
    case False
    have "doe div 36524 = c" using b False by (intro div_nat_eqI) (auto simp: doe_def doe_of_def)
    moreover have "doe div 146096 = 0" using b False by (intro div_less) (auto simp: doe_def doe_of_def)
    ultimately show ?thesis
      unfolding k using b by (intro div_nat_eqI) (auto simp: doe_def doe_of_def e_def)
  qed
qed

lemma div_bounds: "0 < n \<Longrightarrow> n * (x div n) \<le> x \<and> x < n * (x div n) + (n::nat)"
  using mult_div_mod_eq [of n x] mod_less_divisor [of n x] by linarith

lemma doe_split:
  assumes "doe < 146097"
  obtains c q r doy where "year_ok c q r doy" "doe = doe_of c q r doy"
proof -
  define c where "c = min 3 (doe div 36524)"
  define x where "x = doe - 36524 * c"
  define q where "q = x div 1461"
  define y where "y = x - 1461 * q"
  define r where "r = min 3 (y div 365)"
  have c: "c \<le> 3" "36524 * c \<le> doe" "x < 36524 \<or> c = 3 \<and> x \<le> 36524"
    unfolding x_def c_def using assms by (auto simp: min_def not_le)
  have q: "1461 * q \<le> x" "x < 1461 * q + 1461" unfolding q_def using div_bounds [of 1461 x] by simp_all
  have y: "x = 1461 * q + y" "y < 1461" using q by (auto simp: y_def)
  have r: "r \<le> 3" "365 * r \<le> y" "y - 365 * r < 365 \<or> r = 3" unfolding r_def using div_bounds [of 365 y] by (auto simp: min_def not_le)
  have "q \<le> 24" using c(3) q(1) by auto
  moreover have "y - 365 * r \<le> 365" using r y(2) by auto
  moreover have "y - 365 * r = 365 \<Longrightarrow> r = 3 \<and> (q < 24 \<or> c = 3)" using r c(3) y by auto
  ultimately have "year_ok c q r (y - 365 * r)" using c(1) r(1) by (auto simp: year_ok_def)
  moreover have "doe = doe_of c q r (y - 365 * r)" using c(2) y(1) r(2) unfolding doe_of_def x_def by linarith
  ultimately show thesis by (rule that)
qed

section \<open>Months\<close>

text \<open>The first day of month \<open>mp\<close>, counted from March.\<close>

definition mstart :: "nat \<Rightarrow> nat" where
  "mstart mp = (153 * mp + 2) div 5"

lemma mstart_table:
  "mstart 0 = 0" "mstart 1 = 31" "mstart 2 = 61" "mstart 3 = 92" "mstart 4 = 122" "mstart 5 = 153"
  "mstart 6 = 184" "mstart 7 = 214" "mstart 8 = 245" "mstart 9 = 275" "mstart 10 = 306" "mstart 11 = 337"
  "mstart (Suc 0) = 31"
  by (simp_all add: mstart_def)

lemma mp_cases: "(mp::nat) \<le> 11 \<Longrightarrow> mp \<in> {0, 1, 2, 3, 4, 5, 6, 7, 8, 9, 10, 11}"
  by (simp; arith)

definition mp_ok :: "nat \<Rightarrow> nat \<Rightarrow> bool" where
  "mp_ok mp d \<longleftrightarrow> mp \<le> 11 \<and> 1 \<le> d \<and> d \<le> (if mp = 11 then 29 else if mp \<in> {1, 3, 6, 8} then 30 else 31)"

lemma mp_of_doy:
  assumes "mp_ok mp d"
  shows "(5 * (mstart mp + d - 1) + 2) div 153 = mp" "mstart mp + d - 1 \<le> 365"
    "mstart mp + d - 1 = 365 \<longleftrightarrow> mp = 11 \<and> d = 29"
  using assms mp_cases [of mp] by (auto simp: mp_ok_def mstart_table split: if_splits intro!: div_nat_eqI)

lemma doy_split:
  assumes "doy \<le> 365"
  shows "mp_ok ((5 * doy + 2) div 153) (doy - mstart ((5 * doy + 2) div 153) + 1)"
    "mstart ((5 * doy + 2) div 153) \<le> doy"
proof -
  define mp where "mp = (5 * doy + 2) div 153"
  have b: "153 * mp \<le> 5 * doy + 2" "5 * doy + 2 < 153 * mp + 153"
    unfolding mp_def using div_bounds [of 153 "5 * doy + 2"] by simp_all
  then have "mp \<le> 11" using assms by linarith
  from mp_cases [OF this] b assms have "mstart mp \<le> doy \<and> mp_ok mp (doy - mstart mp + 1)"
    unfolding insert_iff empty_iff by (elim disjE) (simp_all add: mstart_table mp_ok_def)
  then show "mp_ok ((5 * doy + 2) div 153) (doy - mstart ((5 * doy + 2) div 153) + 1)"
    "mstart ((5 * doy + 2) div 153) \<le> doy"
    by (simp_all add: mp_def)
qed

text \<open>Months counted from March against months of the calendar.\<close>

definition mp_of :: "nat \<Rightarrow> nat" where "mp_of m = (m + 9) mod 12"
definition m_of :: "nat \<Rightarrow> nat" where "m_of mp = (if mp < 10 then mp + 3 else mp - 9)"

lemma m_cases: "1 \<le> m \<Longrightarrow> (m::nat) \<le> 12 \<Longrightarrow> m \<in> {1, 2, 3, 4, 5, 6, 7, 8, 9, 10, 11, 12}"
  by (simp; arith)

lemma mp_m:
  assumes "1 \<le> m" "m \<le> 12"
  shows "m_of (mp_of m) = m" "mp_of m \<le> 11" "m \<le> 2 \<longleftrightarrow> 10 \<le> mp_of m"
  using m_cases [OF assms] by (auto simp: m_of_def mp_of_def)

lemma m_mp:
  assumes "mp \<le> 11"
  shows "mp_of (m_of mp) = mp" "1 \<le> m_of mp" "m_of mp \<le> 12" "m_of mp \<le> 2 \<longleftrightarrow> 10 \<le> mp"
  using mp_cases [OF assms] by (auto simp: m_of_def mp_of_def)

lemma month_days_mp:
  assumes "mp \<le> 11"
  shows "month_days y (m_of mp)
    = (if mp = 11 then if leap y then 29 else 28 else if mp \<in> {1, 3, 6, 8} then 30 else 31)"
  using mp_cases [OF assms] by (auto simp: m_of_def month_days_def)

text \<open>The year that contains the February at the end of year \<open>yoe\<close> of an era.\<close>

lemma leap_end:
  assumes "c \<le> 3" "q \<le> 24" "r \<le> 3"
  shows "leap (400 * era + (100 * c + 4 * q + r) + 1) \<longleftrightarrow> r = 3 \<and> (q < 24 \<or> c = 3)"
proof -
  let ?y = "400 * era + (100 * c + 4 * q + r) + 1"
  have "?y mod 4 = (r + 1) mod 4"
    using mod_mult_self1 [of "r + 1" "100 * era + 25 * c + q" 4] by (simp add: algebra_simps)
  moreover have "?y mod 100 = (4 * q + r + 1) mod 100"
    using mod_mult_self1 [of "4 * q + r + 1" "4 * era + c" 100] by (simp add: algebra_simps)
  moreover have "?y mod 400 = (100 * c + 4 * q + r + 1) mod 400"
    using mod_mult_self1 [of "100 * c + 4 * q + r + 1" era 400] by (simp add: algebra_simps)
  ultimately have l: "leap ?y \<longleftrightarrow> (r + 1) mod 4 = 0 \<and> ((4 * q + r + 1) mod 100 \<noteq> 0 \<or> (100 * c + 4 * q + r + 1) mod 400 = 0)"
    by (simp only: leap_def)
  show ?thesis
  proof (cases "r = 3")
    case False
    then have "(r + 1) mod 4 \<noteq> 0" using assms(3) by simp
    then show ?thesis unfolding l using False by simp
  next
    case r: True
    show ?thesis
    proof (cases "q < 24")
      case True
      then have "(4 * q + r + 1) mod 100 \<noteq> 0" using r by simp
      then show ?thesis unfolding l using r True by simp
    next
      case False
      then have "q = 24" using assms(2) by simp
      moreover have "c = 0 \<or> c = 1 \<or> c = 2 \<or> c = 3" using assms(1) by arith
      ultimately show ?thesis unfolding l using r by (elim disjE) simp_all
    qed
  qed
qed

lemma valid_date_mp:
  fixes era c q r mp d :: nat
  assumes "mp \<le> 11" "c \<le> 3" "q \<le> 24" "r \<le> 3"
  defines "y \<equiv> 400 * era + (100 * c + 4 * q + r)"
  shows "valid_date (if m_of mp \<le> 2 then y + 1 else y) (m_of mp) d
    \<longleftrightarrow> mp_ok mp d \<and> year_ok c q r (mstart mp + d - 1)"
proof (cases "mp_ok mp d")
  case True
  note doy = mp_of_doy [OF True]
  show ?thesis
  proof (cases "mp = 11 \<and> d = 29")
    case t: True
    then show ?thesis
      using assms True doy m_mp [OF assms(1)] month_days_mp [OF assms(1)] leap_end [OF assms(2-4), of era]
      by (auto simp: valid_date_def year_ok_def)
  next
    case False
    then show ?thesis
      using assms True doy m_mp [OF assms(1)] month_days_mp [OF assms(1)]
      by (auto simp: valid_date_def year_ok_def mp_ok_def)
  qed
next
  case False
  then show ?thesis
    using month_days_mp [OF assms(1)] assms(1) m_mp [OF assms(1)] by (auto simp: valid_date_def mp_ok_def split: if_splits)
qed

section \<open>Round trips\<close>

lemma yoe_split:
  fixes yoe :: nat
  assumes "yoe < 400"
  obtains c q r where "c \<le> 3" "q \<le> 24" "r \<le> 3" "yoe = 100 * c + 4 * q + r"
proof
  let ?x = "yoe mod 100"
  show "yoe = 100 * (yoe div 100) + 4 * (?x div 4) + ?x mod 4" by simp
  show "yoe div 100 \<le> 3" "?x div 4 \<le> 24" "?x mod 4 \<le> 3" using assms by auto
qed

text \<open>The day number of a date, and the date of a day number, through the parts of a date.\<close>

lemma days_from_parts:
  assumes ok: "mp_ok mp d" "year_ok c q r (mstart mp + d - 1)"
    and era: "era \<le> 1000000000"
  defines "y \<equiv> 400 * era + (100 * c + 4 * q + r)"
  assumes epoch: "719468 \<le> era * 146097 + doe_of c q r (mstart mp + d - 1)"
  shows "days_from_civil (if m_of mp \<le> 2 then y + 1 else y) (m_of mp) d
    = era * 146097 + doe_of c q r (mstart mp + d - 1) - 719468"
proof -
  have mp: "mp \<le> 11" and d: "1 \<le> d" "d \<le> 31" using ok(1) by (auto simp: mp_ok_def split: if_splits)
  note ys = year_split [OF ok(2)]
  have div: "y div 400 = era" "y - era * 400 = 100 * c + 4 * q + r" using ys(2) by (auto simp: y_def)
  have "y + 1 \<le> u64_max" using era ys(2) by (simp add: y_def u64_max_def)
  then have yy: "(if m_of mp \<le> 2 then wsub64 (if m_of mp \<le> 2 then y + 1 else y) 1
      else if m_of mp \<le> 2 then y + 1 else y) = y"
    by (simp add: wsub64_exact)
  have doy: "wsub64 ((153 * mp + 2) div 5 + d) 1 = mstart mp + d - 1"
    using d mp_of_doy(2) [OF ok(1)] by (subst wsub64_exact) (auto simp: mstart_def u64_max_def)
  have lt: "doe_of c q r (mstart mp + d - 1) < 146097" by (rule doe_lt [OF ok(2)])
  have "wadd64 (era * 146097) (doe_of c q r (mstart mp + d - 1)) = era * 146097 + doe_of c q r (mstart mp + d - 1)"
    using era lt by (intro wadd64_exact) (simp add: u64_max_def)
  moreover have "era * 146097 + doe_of c q r (mstart mp + d - 1) \<le> u64_max"
    using era lt by (simp add: u64_max_def)
  ultimately show ?thesis
    unfolding days_from_civil_def Let_def yy div m_mp(1) [OF mp, unfolded mp_of_def] doy ys(1)
    using epoch by (simp add: wsub64_exact)
qed

lemma civil_from_parts:
  assumes ok: "mp_ok mp d" "year_ok c q r (mstart mp + d - 1)" and era: "era \<le> 1000000000"
    and z: "719468 \<le> era * 146097 + doe_of c q r (mstart mp + d - 1)"
  defines "y \<equiv> 400 * era + (100 * c + 4 * q + r)"
  shows "civil_from_days (era * 146097 + doe_of c q r (mstart mp + d - 1) - 719468)
    = (if m_of mp \<le> 2 then y + 1 else y, m_of mp, d)"
proof -
  let ?doe = "doe_of c q r (mstart mp + d - 1)"
  have lt: "?doe < 146097" by (rule doe_lt [OF ok(2)])
  have zz: "wadd64 (era * 146097 + ?doe - 719468) 719468 = era * 146097 + ?doe"
    using era lt z by (subst wadd64_exact) (auto simp: u64_max_def)
  have div: "(era * 146097 + ?doe) div 146097 = era" "era * 146097 + ?doe - era * 146097 = ?doe"
    using lt by auto
  have doy: "?doe - doe_of c q r 0 = mstart mp + d - 1" by (simp add: doe_of_def)
  have d: "mstart mp + d - 1 - mstart mp + 1 = d" using ok(1) by (simp add: mp_ok_def)
  show ?thesis
    unfolding civil_from_days_def Let_def zz div yoe_of_doe [OF ok(2)] year_split(3) [OF ok(2)] doy
      mp_of_doy(1) [OF ok(1)] d [unfolded mstart_def] mstart_def [symmetric] d
    by (simp add: m_of_def y_def algebra_simps)
qed

text \<open>Every valid date from 1970 on has such parts, and so has every day number.\<close>

lemma date_parts:
  assumes "valid_date y m d" "1970 \<le> y"
  obtains mp c q r era where "mp_ok mp d" "year_ok c q r (mstart mp + d - 1)" "m = m_of mp"
    "y = (if m_of mp \<le> 2 then 400 * era + (100 * c + 4 * q + r) + 1 else 400 * era + (100 * c + 4 * q + r))"
    "719468 \<le> era * 146097 + doe_of c q r (mstart mp + d - 1)" "era \<le> y div 400"
proof -
  have m: "1 \<le> m" "m \<le> 12" using assms(1) by (auto simp: valid_date_def)
  define y' where "y' = (if m \<le> 2 then y - 1 else y)"
  have "y' mod 400 < 400" by simp
  then obtain c q r where b: "c \<le> 3" "q \<le> 24" "r \<le> 3" and yoe: "y' mod 400 = 100 * c + 4 * q + r"
    by (rule yoe_split)
  let ?mp = "mp_of m" and ?era = "y' div 400"
  have y': "y' = 400 * ?era + (100 * c + 4 * q + r)" unfolding yoe [symmetric] by simp
  have y: "y = (if m_of ?mp \<le> 2 then 400 * ?era + (100 * c + 4 * q + r) + 1 else 400 * ?era + (100 * c + 4 * q + r))"
    unfolding y' [symmetric] mp_m(1) [OF m] using assms(2) by (simp add: y'_def)
  have ok: "mp_ok ?mp d" "year_ok c q r (mstart ?mp + d - 1)"
    using valid_date_mp [OF mp_m(2) [OF m] b, of ?era d] assms(1) y mp_m(1) [OF m] by auto
  have "719468 \<le> ?era * 146097 + doe_of c q r (mstart ?mp + d - 1)"
  proof (cases "?era \<ge> 5")
    case True
    then show ?thesis by simp
  next
    case False
    have "1969 \<le> y'" using assms(2) by (auto simp: y'_def)
    then have e4: "?era = 4" "369 \<le> 100 * c + 4 * q + r" using False y' b by auto
    then have c3: "c = 3" using b by auto
    show ?thesis
    proof (cases "y' \<ge> 1970")
      case True
      then have "370 \<le> 100 * c + 4 * q + r" using y' e4(1) by simp
      then show ?thesis using e4(1) c3 b by (simp add: doe_of_def)
    next
      case False
      then have "m \<le> 2" "100 * c + 4 * q + r = 369" using assms(2) e4 y' \<open>1969 \<le> y'\<close> by (auto simp: y'_def split: if_splits)
      then have "10 \<le> ?mp" "4 * q + r = 69" using mp_m [OF m] c3 by auto
      moreover from this(2) have "q = 17" "r = 1" using b by presburger+
      moreover have "306 \<le> mstart ?mp" using \<open>10 \<le> ?mp\<close> unfolding mstart_def by auto
      ultimately show ?thesis using e4(1) c3 ok(1) by (simp add: doe_of_def mp_ok_def)
    qed
  qed
  moreover have "?era \<le> y div 400" unfolding y'_def by (auto intro: div_le_mono)
  ultimately show thesis by (rule that [OF ok mp_m(1) [OF m, symmetric] y])
qed

lemma year_bound: "y \<le> 400000000000 \<Longrightarrow> y div 400 \<le> (1000000000::nat)"
  using div_le_mono [of y 400000000000 400] by simp

text \<open>The parts of a day number fall in 1970 or later.\<close>

lemma parts_after_1970:
  assumes "mp_ok mp d" "year_ok c q r (mstart mp + d - 1)" "719468 \<le> era * 146097 + doe_of c q r (mstart mp + d - 1)"
  defines "y \<equiv> 400 * era + (100 * c + 4 * q + r)"
  shows "1970 \<le> (if m_of mp \<le> 2 then y + 1 else y)"
proof -
  note b = assms(2) [unfolded year_ok_def]
  have mp: "mp \<le> 11" using assms(1) by (simp add: mp_ok_def)
  have lt: "doe_of c q r (mstart mp + d - 1) < 146097" by (rule doe_lt [OF assms(2)])
  show ?thesis
  proof (cases "5 \<le> era")
    case True
    then show ?thesis by (simp add: y_def)
  next
    case False
    then have era: "era = 4" using assms(3) lt by linarith
    have y: "1969 \<le> y" using b assms(3) unfolding y_def era doe_of_def by linarith
    moreover have "m_of mp \<le> 2" if "y = 1969"
    proof -
      have "100 * c + (4 * q + r) = 369" using that by (simp add: y_def era)
      then have "c = 3" using b by linarith
      then have "4 * q + r = 69" using that by (simp add: y_def era)
      then have "q = 17" "r = 1" using b by presburger+
      then have "306 \<le> mstart mp + d - 1" using assms(3) \<open>c = 3\<close> by (simp add: era doe_of_def)
      moreover have "mstart mp + d - 1 < 306" if "mp \<le> 9"
      proof -
        have "mp \<in> {0, 1, 2, 3, 4, 5, 6, 7, 8, 9}" using that by (simp; arith)
        then show ?thesis using assms(1) unfolding insert_iff empty_iff
          by (elim disjE) (auto simp: mp_ok_def mstart_table)
      qed
      ultimately show ?thesis using m_mp(4) [OF mp] by linarith
    qed
    ultimately show ?thesis by (cases "y = 1969") auto
  qed
qed

lemma days_of_date:
  assumes "valid_date y m d" "1970 \<le> y" "y \<le> 400000000000"
  shows "civil_from_days (days_from_civil y m d) = (y, m, d)"
proof -
  from date_parts [OF assms(1,2)] obtain mp c q r era where p: "mp_ok mp d" "year_ok c q r (mstart mp + d - 1)" "m = m_of mp"
    "y = (if m_of mp \<le> 2 then 400 * era + (100 * c + 4 * q + r) + 1 else 400 * era + (100 * c + 4 * q + r))"
    "719468 \<le> era * 146097 + doe_of c q r (mstart mp + d - 1)" "era \<le> y div 400" .
  have e: "era \<le> 1000000000" using year_bound [of y] p(6) assms(3) by linarith
  show "civil_from_days (days_from_civil y m d) = (y, m, d)"
    unfolding p(3,4) days_from_parts [OF p(1,2) e p(5)] civil_from_parts [OF p(1,2) e p(5)] ..
qed

lemma date_of_days:
  assumes z: "z \<le> 100000000000000"
  shows "case civil_from_days z of (y', m', d') \<Rightarrow> valid_date y' m' d' \<and> 1970 \<le> y' \<and> days_from_civil y' m' d' = z"
proof -
  define era where "era = (z + 719468) div 146097"
  have zz: "z + 719468 = era * 146097 + (z + 719468) mod 146097" unfolding era_def by simp
  have "(z + 719468) mod 146097 < 146097" by simp
  then obtain c q r doy where ok: "year_ok c q r doy" "(z + 719468) mod 146097 = doe_of c q r doy" by (rule doe_split)
  have "doy \<le> 365" using ok(1) by (simp add: year_ok_def)
  from doy_split [OF this] obtain mp d where mp: "mp_ok mp d" and doy: "doy = mstart mp + d - 1"
    by (metis add_diff_cancel_right' le_add_diff_inverse add.assoc)
  have b: "c \<le> 3" "q \<le> 24" "r \<le> 3" "mp \<le> 11" using ok(1) mp by (auto simp: year_ok_def mp_ok_def)
  have e: "era \<le> 1000000000" unfolding era_def using z by (simp add: div_le_mono less_mult_imp_div_less order_less_imp_le)
  have s: "719468 \<le> era * 146097 + doe_of c q r (mstart mp + d - 1)" "z = era * 146097 + doe_of c q r (mstart mp + d - 1) - 719468"
  proof -
    have eq: "z + 719468 = era * 146097 + doe_of c q r (mstart mp + d - 1)" using zz ok(2) doy by metis
    from eq show "719468 \<le> era * 146097 + doe_of c q r (mstart mp + d - 1)" by linarith
    from eq show "z = era * 146097 + doe_of c q r (mstart mp + d - 1) - 719468" by linarith
  qed
  show "case civil_from_days z of (y', m', d') \<Rightarrow> valid_date y' m' d' \<and> 1970 \<le> y' \<and> days_from_civil y' m' d' = z"
    using civil_from_parts [OF mp ok(1) [unfolded doy] e s(1)] days_from_parts [OF mp ok(1) [unfolded doy] e s(1)]
      valid_date_mp [OF b(4,1-3), of era d] mp ok(1) parts_after_1970 [OF mp ok(1) [unfolded doy] s(1)]
    unfolding s(2) [symmetric] doy by simp
qed

text \<open>C29: \<open>civil_from_days\<close> inverts \<open>days_from_civil\<close> on every valid date of the Gregorian calendar
  from 1970 on (years up to 4 * 10^11, far below where the 64-bit arithmetic wraps), and
  \<open>days_from_civil\<close> inverts \<open>civil_from_days\<close> on every day number in that range, whose date is valid:
  the two are mutually inverse bijections.\<close>

theorem civil_roundtrip:
  "(valid_date y m d \<and> 1970 \<le> y \<and> y \<le> 400000000000 \<longrightarrow> civil_from_days (days_from_civil y m d) = (y, m, d))
   \<and> (z \<le> 100000000000000 \<longrightarrow> (case civil_from_days z of (y', m', d') \<Rightarrow>
        valid_date y' m' d' \<and> 1970 \<le> y' \<and> days_from_civil y' m' d' = z))"
  using days_of_date [of y m d] date_of_days [of z] by blast

theorem civil_roundtrip_witness:
  "civil_from_days (days_from_civil 2024 2 29) = (2024, 2, 29)
   \<and> (case civil_from_days 20000 of (y', m', d') \<Rightarrow> valid_date y' m' d' \<and> days_from_civil y' m' d' = 20000)"
  using civil_roundtrip [of 2024 2 29 20000] by (auto simp: valid_date_def month_days_def leap_def)

end
