(* ===== verification/Rtc.thy ===== *)
theory Rtc
  imports Wallclock
begin

text \<open>
  The CMOS real-time clock (\<open>kernel/src/drivers/rtc.rs\<close>). The chip is given by the bytes its
  registers hold while the driver reads them and by the successive values of status register A.
\<close>

definition bcd_to_binary :: "u8 \<Rightarrow> u8" where
  "bcd_to_binary bcd = (bcd AND 0x0F) + drop_bit 4 bcd * 10"

record rtc_time =
  rt_sec :: u8
  rt_min :: u8
  rt_hour :: u8
  rt_day :: u8
  rt_month :: u8
  rt_year :: nat

definition read_all :: "(nat \<Rightarrow> u8) \<Rightarrow> rtc_time" where
  "read_all cmos =
     (let status_b = cmos 0x0B;
          binary = (status_b AND 0x04 \<noteq> 0);
          hour12 = (status_b AND 0x02 = 0);
          sec = (if binary then cmos 0 else bcd_to_binary (cmos 0));
          min = (if binary then cmos 2 else bcd_to_binary (cmos 2));
          hour = (if binary then cmos 4 else bcd_to_binary (cmos 4 AND 0x7F));
          day = (if binary then cmos 7 else bcd_to_binary (cmos 7));
          month = (if binary then cmos 8 else bcd_to_binary (cmos 8));
          year = (if binary then cmos 9 else bcd_to_binary (cmos 9));
          century = cmos 0x32;
          pm = (cmos 4 AND 0x80 \<noteq> 0);
          hour' = (if hour12 then if pm \<and> hour \<noteq> 12 then hour + 12 else if \<not> pm \<and> hour = 12 then 0 else hour else hour)
      in \<lparr>rt_sec = sec, rt_min = min, rt_hour = hour', rt_day = day, rt_month = month,
          rt_year = unat century * 100 + unat year\<rparr>)"

text \<open>The wait for the update flag: at most \<open>k\<close> reads of status register A, starting with read \<open>i\<close>;
  the result is the number of reads made.\<close>

fun uip_wait :: "(nat \<Rightarrow> u8) \<Rightarrow> nat \<Rightarrow> nat \<Rightarrow> nat" where
  "uip_wait status_a i 0 = i"
| "uip_wait status_a i (Suc k) = (if status_a i AND 0x80 = 0 then i + 1 else uip_wait status_a (i + 1) k)"

definition read_epoch_secs :: "(nat \<Rightarrow> u8) \<Rightarrow> (nat \<Rightarrow> u8) \<Rightarrow> nat option" where
  "read_epoch_secs status_a cmos =
     (let i = uip_wait status_a 0 200
      in if status_a i AND 0x80 \<noteq> 0 then None
         else
           (let t = read_all cmos; year = rt_year t; month = unat (rt_month t); day = unat (rt_day t)
            in if year < 1970 \<or> year > 9999 \<or> month = 0 \<or> month > 12 \<or> day = 0 \<or> day > 31 then None
               else Some (days_from_civil year month day * 86400 + unat (rt_hour t) * 3600
                          + unat (rt_min t) * 60 + unat (rt_sec t))))"

text \<open>A chip in BCD, 24-hour mode that shows 15 November 2026, 10:30:00.\<close>

definition rtc_demo :: "nat \<Rightarrow> u8" where
  "rtc_demo r = (if r = 0x0B then 0x02 else if r = 0 then 0x00 else if r = 2 then 0x30 else if r = 4 then 0x10
     else if r = 7 then 0x15 else if r = 8 then 0x11 else if r = 9 then 0x26 else if r = 0x32 then 0x20 else 0)"

text \<open>in BCD mode the century register is used without being converted from BCD. A chip that shows
  15 November 2026 is read as the year 3226 (0x20 = 32 centuries).\<close>

theorem rtc_century_not_converted:
  "read_epoch_secs (\<lambda>i. 0) rtc_demo = Some (days_from_civil 3226 11 15 * 86400 + 10 * 3600 + 30 * 60)
   \<and> rt_year (read_all rtc_demo) = 3226"
proof -
  have w: "uip_wait (\<lambda>i. 0) 0 200 = 1" using uip_wait.simps(2) [of "\<lambda>i. 0" 0 199] by simp
  have r: "read_all rtc_demo = \<lparr>rt_sec = 0, rt_min = 30, rt_hour = 10, rt_day = 15, rt_month = 11, rt_year = 3226\<rparr>"
    by (simp add: read_all_def rtc_demo_def bcd_to_binary_def Let_def)
  show ?thesis unfolding read_epoch_secs_def w r Let_def by simp
qed

end
