(* ===== verification/Fat_Dirent.thy ===== *)
theory Fat_Dirent
  imports Le_Bytes Wallclock
begin

text \<open>
  FAT directory entries (\<open>kernel/src/filesystems/fstypes/fat32/dirent.rs\<close>): time stamps, short names,
  long-name slots, cluster and size fields. An entry is a list of 32 bytes. Names passed as byte slices
  are lists of bytes, names of characters are lists of code points, UTF-16 units are numbers below
  65536.
\<close>

section \<open>Time stamps\<close>

definition epoch_to_dos_datetime :: "nat \<Rightarrow> u16 \<times> u16" where
  "epoch_to_dos_datetime epoch =
     (let days = epoch div 86400;
          rm = epoch mod 86400;
          hour = rm div 3600;
          min = (rm mod 3600) div 60;
          sec = rm mod 60
      in case civil_from_days days of
           (year, month, day) \<Rightarrow>
             if \<not> (1980 \<le> year \<and> year \<le> 2107) then (0, 0)
             else
               (let date = (push_bit 9 (of_nat (year - 1980)) OR push_bit 5 (of_nat month) OR of_nat day) :: u16;
                    time = (push_bit 11 (of_nat hour) OR push_bit 5 (of_nat min) OR of_nat (sec div 2)) :: u16
                in (time, date)))"

definition dos_datetime_to_epoch :: "u16 \<Rightarrow> u16 \<Rightarrow> nat option" where
  "dos_datetime_to_epoch time date =
     (let year = 1980 + unat (drop_bit 9 date AND 0x7F);
          month = unat (drop_bit 5 date AND 0x0F);
          day = unat (date AND 0x1F);
          hour = unat (drop_bit 11 time AND 0x1F);
          min = unat (drop_bit 5 time AND 0x3F);
          sec = unat (time AND 0x1F) * 2
      in if month = 0 \<or> month > 12 \<or> day = 0 \<or> day > 31 \<or> hour > 23 \<or> min > 59 \<or> sec > 59 then None
         else Some (days_from_civil year month day * 86400 + hour * 3600 + min * 60 + sec))"

text \<open>\<open>set_timestamps\<close> at a given wall-clock time, and the time read back from an entry.\<close>

definition set_timestamps :: "nat option \<Rightarrow> u8 list \<Rightarrow> u8 list \<times> nat option" where
  "set_timestamps clock entry =
     (case clock of
        None \<Rightarrow> (entry, None)
      | Some epoch \<Rightarrow>
          (case epoch_to_dos_datetime epoch of
             (time, date) \<Rightarrow>
               let t = le_bytes 2 (unat time); d = le_bytes 2 (unat date)
               in (put_field 0x18 d (put_field 0x16 t (put_field 0x12 d (put_field 0x10 d (put_field 0x0E t
                     (entry[0x0D := 0]))))), Some epoch)))"

definition mtime_from_entry :: "u8 list \<Rightarrow> nat" where
  "mtime_from_entry entry =
     (case dos_datetime_to_epoch (of_nat (le_field 0x16 2 entry)) (of_nat (le_field 0x18 2 entry)) of
        Some t \<Rightarrow> t | None \<Rightarrow> 0)"

section \<open>Short names\<close>

definition ascii_upper :: "u8 \<Rightarrow> u8" where
  "ascii_upper b = (if 0x61 \<le> b \<and> b \<le> 0x7A then b - 0x20 else b)"

definition char_lower :: "nat \<Rightarrow> nat" where
  "char_lower c = (if 0x41 \<le> c \<and> c \<le> 0x5A then c + 0x20 else c)"

definition char_upper :: "nat \<Rightarrow> nat" where
  "char_upper c = (if 0x61 \<le> c \<and> c \<le> 0x7A then c - 0x20 else c)"

definition decode_sfn_case :: "u8 list \<Rightarrow> u8 \<Rightarrow> nat list" where
  "decode_sfn_case sfn nt_flags =
     (let stem_end = length (dropWhile (\<lambda>b. b = 0x20) (rev (take 8 sfn)));
          stem_lower = (nt_flags AND 0x08 \<noteq> 0);
          stem = map (\<lambda>i. let b = (if i = 0 \<and> sfn ! i = 0x05 then 0xE5 else sfn ! i);
                              c = char_lower (unat b)
                          in if stem_lower then c else char_upper c) [0..<stem_end];
          ext_start = length (takeWhile (\<lambda>b. b \<noteq> 0x20) (take 3 (drop 8 sfn)));
          ext_lower = (nt_flags AND 0x10 \<noteq> 0);
          ext = map (\<lambda>b. let c = char_lower (unat b) in if ext_lower then c else char_upper c) (take ext_start (drop 8 sfn))
      in stem @ (if ext_start > 0 then 0x2E # ext else []))"

definition decode_sfn :: "u8 list \<Rightarrow> nat list" where
  "decode_sfn sfn = decode_sfn_case sfn 0"

definition fix_lead :: "u8 list \<Rightarrow> u8 list" where
  "fix_lead sfn = (if sfn ! 0 = 0xE5 then sfn[0 := 0x05] else sfn)"

definition make_sfn_bytes :: "u8 list \<Rightarrow> u8 list \<Rightarrow> u8 list" where
  "make_sfn_bytes stem ext =
     put_field 8 (map ascii_upper (take 3 ext))
       (fix_lead (put_field 0 (map ascii_upper (take 8 stem)) (replicate 11 0x20)))"

text \<open>Decimal digits of a number, as \<open>format!\<close> prints them.\<close>

function dec_bytes :: "nat \<Rightarrow> u8 list" where
  "dec_bytes n = (if n < 10 then [of_nat (48 + n)] else dec_bytes (n div 10) @ [of_nat (48 + n mod 10)])"
  by pat_completeness auto
termination by (relation "measure id") auto

declare dec_bytes.simps [simp del]

definition numbered_sfn :: "u8 list \<Rightarrow> u8 list \<Rightarrow> nat \<Rightarrow> u8 list" where
  "numbered_sfn stem ext counter =
     (let suffix = 0x7E # dec_bytes counter;
          stem_avail = 8 - length suffix;
          stem_trunc = take stem_avail stem
      in put_field 8 (map ascii_upper (take 3 ext))
           (put_field stem_avail suffix
             (fix_lead (put_field 0 (map ascii_upper stem_trunc) (replicate 11 0x20)))))"

text \<open>The loop over the counter; the first argument is how many counters are left.\<close>

fun try_numbered :: "nat \<Rightarrow> u8 list \<Rightarrow> u8 list \<Rightarrow> u8 list set \<Rightarrow> nat \<Rightarrow> u8 list option" where
  "try_numbered 0 stem ext existing counter = None"
| "try_numbered (Suc k) stem ext existing counter =
     (let sfn = numbered_sfn stem ext counter
      in if sfn \<notin> existing then Some sfn else try_numbered k stem ext existing (counter + 1))"

definition rfind_dot :: "u8 list \<Rightarrow> nat option" where
  "rfind_dot name = (if 0x2E \<in> set name then Some (length name - 1 - length (takeWhile (\<lambda>b. b \<noteq> 0x2E) (rev name))) else None)"

definition split_name :: "u8 list \<Rightarrow> u8 list \<times> u8 list" where
  "split_name name =
     (case rfind_dot name of
        Some dot \<Rightarrow> if dot = 0 then ([], drop 1 name) else (take dot name, drop (dot + 1) name)
      | None \<Rightarrow> (name, []))"

definition sfn_from_name :: "u8 list \<Rightarrow> u8 list set \<Rightarrow> u8 list option" where
  "sfn_from_name name existing =
     (if name = [] then None
      else case split_name name of
             (stem, ext) \<Rightarrow>
               let base = make_sfn_bytes stem ext
               in if base \<notin> existing then Some base else try_numbered 999999 stem ext existing 1)"

definition vfat_checksum :: "u8 list \<Rightarrow> u8" where
  "vfat_checksum sfn = fold (\<lambda>i sum. (drop_bit 1 sum OR push_bit 7 sum) + sfn ! i) [0..<11] 0"

definition needs_vfat :: "u8 list \<Rightarrow> bool" where
  "needs_vfat name =
     (if name = [0x2E] \<or> name = [0x2E, 0x2E] then False
      else
        (let dot = rfind_dot name;
             base_len = (case dot of Some d \<Rightarrow> d | None \<Rightarrow> length name);
             ext_len = (case dot of Some d \<Rightarrow> length name - d - 1 | None \<Rightarrow> 0);
             illegal = [0x5C, 0x2F, 0x3A, 0x2A, 0x3F, 0x22, 0x3C, 0x3E, 0x7C, 0x3B, 0x2C, 0x3D, 0x2B, 0x5B, 0x5D];
             has_illegal = (\<exists>b\<in>set name. b \<in> set illegal);
             has_lower = (\<exists>b\<in>set name. 0x61 \<le> b \<and> b \<le> 0x7A);
             has_upper = (\<exists>b\<in>set name. 0x41 \<le> b \<and> b \<le> 0x5A)
         in base_len > 8 \<or> ext_len > 3 \<or> has_illegal \<or> (has_lower \<and> has_upper)
            \<or> (\<exists>b\<in>set name. b > 127 \<or> b = 0x20)))"

definition nt_case_flags :: "u8 list \<Rightarrow> u8" where
  "nt_case_flags name =
     (let (stem, ext) = (case rfind_dot name of
                           None \<Rightarrow> (name, [])
                         | Some d \<Rightarrow> if d = 0 then (name, []) else (take d name, drop (d + 1) name));
          no_upper = (\<lambda>bs. \<forall>b\<in>set bs. \<not> (0x41 \<le> b \<and> b \<le> 0x5A));
          f0 = (if stem \<noteq> [] \<and> no_upper stem then 0x08 else 0 :: u8)
      in if ext \<noteq> [] \<and> no_upper ext then f0 OR 0x10 else f0)"

section \<open>UTF-16\<close>

definition utf16_units :: "nat \<Rightarrow> nat list" where
  "utf16_units cp =
     (if cp < 0x10000 then [cp] else [0xD800 + (cp - 0x10000) div 1024, 0xDC00 + (cp - 0x10000) mod 1024])"

definition encode_utf16 :: "nat list \<Rightarrow> nat list" where
  "encode_utf16 cps = concat (map utf16_units cps)"

fun from_utf16_lossy :: "nat list \<Rightarrow> nat list" where
  "from_utf16_lossy [] = []"
| "from_utf16_lossy (u # us) =
     (if 0xD800 \<le> u \<and> u \<le> 0xDBFF then
        (case us of
           u2 # us' \<Rightarrow>
             if 0xDC00 \<le> u2 \<and> u2 \<le> 0xDFFF
             then (0x10000 + (u - 0xD800) * 1024 + (u2 - 0xDC00)) # from_utf16_lossy us'
             else 0xFFFD # from_utf16_lossy us
         | [] \<Rightarrow> [0xFFFD])
      else if 0xDC00 \<le> u \<and> u \<le> 0xDFFF then 0xFFFD # from_utf16_lossy us
      else u # from_utf16_lossy us)"

section \<open>Long-name slots\<close>

definition lfn_slot_count :: "nat list \<Rightarrow> nat" where
  "lfn_slot_count name = (length (encode_utf16 name) + 12) div 13"

definition vfat_off :: "nat \<Rightarrow> nat" where
  "vfat_off index = (if index \<le> 4 then 1 + index * 2 else if index \<le> 10 then 14 + (index - 5) * 2 else 28 + (index - 11) * 2)"

definition get_vfat_char :: "u8 list \<Rightarrow> nat \<Rightarrow> nat" where
  "get_vfat_char entry index = (if index \<le> 12 then le_field (vfat_off index) 2 entry else 0)"

definition set_vfat_char :: "nat \<Rightarrow> nat \<Rightarrow> u8 list \<Rightarrow> u8 list" where
  "set_vfat_char index c entry = (if index \<le> 12 then put_field (vfat_off index) (le_bytes 2 c) entry else entry)"

definition vfat_entry :: "nat list \<Rightarrow> u8 \<Rightarrow> nat \<Rightarrow> nat \<Rightarrow> u8 list" where
  "vfat_entry units checksum needed i =
     (let start = i * 13;
          cnt = min (length units - start) 13;
          ord = of_nat (needed - i) :: u8;
          e0 = (replicate 32 0)[0 := if i = 0 then ord OR 0x40 else ord, 11 := 0x0F, 12 := 0, 13 := checksum];
          e1 = fold (\<lambda>j. set_vfat_char j (units ! (start + j))) [0..<cnt] e0
      in fold (\<lambda>j. set_vfat_char j 0xFFFF) [cnt..<13] e1)"

definition encode_vfat_entries :: "nat list \<Rightarrow> u8 \<Rightarrow> u8 list list" where
  "encode_vfat_entries name checksum =
     (let units = encode_utf16 name; needed = (length units + 12) div 13
      in rev (map (vfat_entry units checksum needed) [0..<needed]))"

definition entry_units :: "u8 list \<Rightarrow> nat list" where
  "entry_units entry =
     (if entry ! 0 = 0xE5 \<or> entry ! 0 AND 0x1F = 0 then []
      else takeWhile (\<lambda>c. \<not> (c = 0 \<or> c = 0xFFFF)) (map (get_vfat_char entry) [0..<13]))"

definition decode_vfat_name :: "u8 list list \<Rightarrow> nat list" where
  "decode_vfat_name entries = from_utf16_lossy (concat (map entry_units (rev entries)))"

section \<open>Cluster and size\<close>

definition first_clus_from_entry :: "u8 list \<Rightarrow> u32" where
  "first_clus_from_entry entry =
     (push_bit 16 (of_nat (le_field 0x14 2 entry)) OR of_nat (le_field 0x1A 2 entry))"

definition set_first_clus_in_entry :: "u32 \<Rightarrow> u8 list \<Rightarrow> u8 list" where
  "set_first_clus_in_entry cluster entry =
     put_field 0x1A (le_bytes 2 (unat (ucast cluster :: u16)))
       (put_field 0x14 (le_bytes 2 (unat (ucast (drop_bit 16 cluster) :: u16))) entry)"

definition file_size_from_entry :: "u8 list \<Rightarrow> u32" where
  "file_size_from_entry entry = of_nat (le_field 0x1C 4 entry)"

definition set_file_size_in_entry :: "u32 \<Rightarrow> u8 list \<Rightarrow> u8 list" where
  "set_file_size_in_entry sz entry = put_field 0x1C (le_bytes 4 (unat sz)) entry"

end
