(* ===== verification/Dirent_Props.thy ===== *)
theory Dirent_Props
  imports Fat_Dirent
begin

text \<open>
  Round trips of the FAT directory entry codecs: time stamps, long names, cluster and size fields, and
  freshness of generated short names.
\<close>

section \<open>UTF-16\<close>

definition scalar :: "nat \<Rightarrow> bool" where
  "scalar cp \<longleftrightarrow> cp < 0xD800 \<or> (0xE000 \<le> cp \<and> cp < 0x110000)"

lemma utf16_roundtrip_append:
  assumes "scalar cp"
  shows "from_utf16_lossy (utf16_units cp @ us) = cp # from_utf16_lossy us"
proof (cases "cp < 0x10000")
  case True
  then show ?thesis using assms by (auto simp: utf16_units_def scalar_def)
next
  case False
  define h where "h = (cp - 0x10000) div 1024"
  define l where "l = (cp - 0x10000) mod 1024"
  have "cp = 0x10000 + h * 1024 + l" using False by (simp add: h_def l_def)
  moreover have "l < 1024" by (simp add: l_def)
  moreover have "h < 1024" using assms False unfolding h_def scalar_def by (intro less_mult_imp_div_less) auto
  ultimately show ?thesis using False by (simp add: utf16_units_def flip: h_def l_def)
qed

lemma utf16_roundtrip: "\<forall>cp\<in>set cps. scalar cp \<Longrightarrow> from_utf16_lossy (encode_utf16 cps) = cps"
  by (induction cps) (auto simp: encode_utf16_def utf16_roundtrip_append)

text \<open>Units of characters other than NUL and U+FFFF are neither terminators nor padding.\<close>

lemma encode_utf16_units:
  assumes "\<forall>cp\<in>set cps. scalar cp \<and> cp \<noteq> 0 \<and> cp \<noteq> 0xFFFF" "u \<in> set (encode_utf16 cps)"
  shows "u \<noteq> 0" "u < 0xFFFF"
proof -
  obtain cp where cp: "cp \<in> set cps" "u \<in> set (utf16_units cp)" using assms(2) by (auto simp: encode_utf16_def)
  then have s: "scalar cp" "cp \<noteq> 0" "cp \<noteq> 0xFFFF" using assms(1) by auto
  have "(cp - 0x10000) div 1024 < 1024" if "0x10000 \<le> cp"
    using s(1) that unfolding scalar_def by (intro less_mult_imp_div_less) auto
  then show "u \<noteq> 0" "u < 0xFFFF"
    using cp(2) s by (auto simp: utf16_units_def split: if_splits)
qed

section \<open>Long-name slots\<close>

lemma length_set_vfat_char: "length e = 32 \<Longrightarrow> length (set_vfat_char j c e) = 32"
  by (auto simp: set_vfat_char_def vfat_off_def)

lemma vfat_off_bound: "j \<le> 12 \<Longrightarrow> 1 \<le> vfat_off j \<and> vfat_off j + 2 \<le> 32 \<and> (vfat_off j + 2 \<le> 11 \<or> 14 \<le> vfat_off j)"
  by (auto simp: vfat_off_def)

lemma vfat_off_apart: "i \<le> 12 \<Longrightarrow> j \<le> 12 \<Longrightarrow> i \<noteq> j \<Longrightarrow> vfat_off i + 2 \<le> vfat_off j \<or> vfat_off j + 2 \<le> vfat_off i"
  by (auto simp: vfat_off_def)

lemma get_set_vfat_char:
  assumes "length e = 32" "i \<le> 12" "j \<le> 12"
  shows "get_vfat_char (set_vfat_char j c e) i = (if i = j then c mod 65536 else get_vfat_char e i)"
proof (cases "i = j")
  case True
  then show ?thesis
    using assms vfat_off_bound [of j] field_put_same [of "vfat_off j" "le_bytes 2 c" e]
    by (simp add: get_vfat_char_def set_vfat_char_def le_field_def le_nat_le_bytes power2_eq_square)
next
  case False
  then show ?thesis
    using assms vfat_off_bound [of j] vfat_off_apart [of i j] field_put_other [of "vfat_off j" "le_bytes 2 c" e "vfat_off i" 2]
    by (auto simp: get_vfat_char_def set_vfat_char_def le_field_def)
qed

lemma set_vfat_char_nth:
  assumes "length e = 32" "k = 0 \<or> k = 11 \<or> k = 12 \<or> k = 13"
  shows "set_vfat_char j c e ! k = e ! k"
proof (cases "j \<le> 12")
  case True
  then show ?thesis
    using assms vfat_off_bound [OF True] unfolding set_vfat_char_def by (auto intro!: nth_put_field)
qed (simp add: set_vfat_char_def)

lemma fold_set_vfat:
  assumes "length e = 32" "set js \<subseteq> {..12}"
  shows "length (fold (\<lambda>j. set_vfat_char j (f j)) js e) = 32
    \<and> (\<forall>i\<le>12. get_vfat_char (fold (\<lambda>j. set_vfat_char j (f j)) js e) i = (if i \<in> set js then f i mod 65536 else get_vfat_char e i))
    \<and> (\<forall>k. k = 0 \<or> k = 11 \<or> k = 12 \<or> k = 13 \<longrightarrow> fold (\<lambda>j. set_vfat_char j (f j)) js e ! k = e ! k)"
  using assms
proof (induction js arbitrary: e)
  case (Cons j js)
  let ?e = "set_vfat_char j (f j) e"
  have l: "length ?e = 32" using Cons.prems(1) by (rule length_set_vfat_char)
  from Cons.IH [OF l] Cons.prems get_set_vfat_char [OF Cons.prems(1), of _ j "f j"] set_vfat_char_nth [OF Cons.prems(1), of _ j "f j"]
  show ?case by auto
qed simp

lemma vfat_entry_props:
  fixes units :: "nat list" and ck :: u8 and i needed :: nat
  defines "e \<equiv> vfat_entry units ck needed i" and "cnt \<equiv> min (length units - i * 13) 13"
  shows "length e = 32" "e ! 0 = (if i = 0 then of_nat (needed - i) OR 0x40 else of_nat (needed - i))" "e ! 11 = 0x0F" "e ! 13 = ck"
    "j \<le> 12 \<Longrightarrow> get_vfat_char e j = (if j < cnt then units ! (i * 13 + j) mod 65536 else 0xFFFF)"
proof -
  define e0 where "e0 = (replicate 32 0)[0 := if i = 0 then of_nat (needed - i) OR 0x40 else of_nat (needed - i), 11 := 0x0F, 12 := 0, 13 := ck :: u8]"
  define e1 where "e1 = fold (\<lambda>j. set_vfat_char j (units ! (i * 13 + j))) [0..<cnt] e0"
  have e: "e = fold (\<lambda>j. set_vfat_char j 0xFFFF) [cnt..<13] e1"
    by (simp add: e_def vfat_entry_def Let_def e1_def e0_def cnt_def)
  have c: "cnt \<le> 13" by (simp add: cnt_def)
  have s1: "set [0..<cnt] \<subseteq> {..12}" and s2: "set [cnt..<13] \<subseteq> {..12}" using c by auto
  have l0: "length e0 = 32" by (simp add: e0_def)
  have n0: "e0 ! 0 = (if i = 0 then of_nat (needed - i) OR 0x40 else of_nat (needed - i))" "e0 ! 11 = 0x0F" "e0 ! 13 = ck"
    by (simp_all add: e0_def)
  have f1: "length e1 = 32 \<and> (\<forall>j\<le>12. get_vfat_char e1 j = (if j < cnt then units ! (i * 13 + j) mod 65536 else get_vfat_char e0 j))
     \<and> (\<forall>k. k = 0 \<or> k = 11 \<or> k = 12 \<or> k = 13 \<longrightarrow> e1 ! k = e0 ! k)"
    unfolding e1_def using fold_set_vfat [OF l0 s1, of "\<lambda>j. units ! (i * 13 + j)"] by simp
  have f2: "length e = 32 \<and> (\<forall>j\<le>12. get_vfat_char e j = (if cnt \<le> j then 0xFFFF else get_vfat_char e1 j))
     \<and> (\<forall>k. k = 0 \<or> k = 11 \<or> k = 12 \<or> k = 13 \<longrightarrow> e ! k = e1 ! k)"
    unfolding e using fold_set_vfat [OF conjunct1 [OF f1] s2, of "\<lambda>j. 0xFFFF"] by simp
  show "length e = 32" using f2 by simp
  show "e ! 0 = (if i = 0 then of_nat (needed - i) OR 0x40 else of_nat (needed - i))" "e ! 11 = 0x0F" "e ! 13 = ck"
    using f1 f2 n0 by simp_all
  show "j \<le> 12 \<Longrightarrow> get_vfat_char e j = (if j < cnt then units ! (i * 13 + j) mod 65536 else 0xFFFF)"
    using f1 f2 by simp
qed

lemma takeWhile_padded: "\<forall>x\<in>set xs. P x \<Longrightarrow> \<not> P y \<Longrightarrow> takeWhile P (xs @ replicate n y) = xs"
  by (cases n) (simp_all add: takeWhile_append)

lemma vfat_entry_units:
  assumes "\<forall>u\<in>set units. u \<noteq> 0 \<and> u < 0xFFFF" "i < needed" "needed \<le> 20"
  shows "entry_units (vfat_entry units ck needed i) = take 13 (drop (i * 13) units)"
proof -
  let ?e = "vfat_entry units ck needed i" and ?cnt = "min (length units - i * 13) 13"
  note p = vfat_entry_props [where units = units and ck = ck and needed = needed and i = i]
  have n: "needed - i \<in> {1..20}" using assms(2,3) by auto
  have ord: "\<not> (?e ! 0 = 0xE5 \<or> ?e ! 0 AND 0x1F = 0)"
  proof -
    have "\<forall>k\<in>set [1..<21]. \<not> (of_nat k = (0xE5::u8) \<or> (of_nat k :: u8) AND 0x1F = 0)
      \<and> \<not> (of_nat k OR 0x40 = (0xE5::u8) \<or> (of_nat k OR 0x40 :: u8) AND 0x1F = 0)" by (simp add: upt_rec [of _ "numeral _"] upt_conv_Cons)
    then show ?thesis using p(2) n by auto
  qed
  let ?g = "map (get_vfat_char ?e) [0..<13]"
  have g: "?g = take 13 (drop (i * 13) units) @ replicate (13 - ?cnt) 0xFFFF"
  proof (rule nth_equalityI)
    show "length ?g = length (take 13 (drop (i * 13) units) @ replicate (13 - ?cnt) 0xFFFF)"
      unfolding length_map length_upt length_append length_replicate length_take length_drop by linarith
    fix j assume "j < length ?g"
    then have j: "j < 13" by simp
    have lhs: "?g ! j = (if j < ?cnt then units ! (i * 13 + j) mod 65536 else 0xFFFF)"
      using j p(5) [where j = j] by simp
    have len: "length (take 13 (drop (i * 13) units)) = ?cnt" by simp
    show "?g ! j = (take 13 (drop (i * 13) units) @ replicate (13 - ?cnt) 0xFFFF) ! j"
    proof (cases "j < ?cnt")
      case True
      then have "units ! (i * 13 + j) \<in> set units" by (intro nth_mem) linarith
      then have "units ! (i * 13 + j) < 0xFFFF" using assms(1) by blast
      then show ?thesis using True j len by (simp only: lhs nth_append if_True) simp
    next
      case False
      then have "j - ?cnt < 13 - ?cnt" using j by linarith
      then show ?thesis using False len by (simp only: lhs nth_append if_False nth_replicate)
    qed
  qed
  have "c \<in> set (take 13 (drop (i * 13) units)) \<Longrightarrow> c \<in> set units" for c
    by (rule in_set_dropD [OF in_set_takeD])
  then have "\<forall>c\<in>set (take 13 (drop (i * 13) units)). \<not> (c = 0 \<or> c = 0xFFFF)"
    using assms(1) by fastforce
  then have "takeWhile (\<lambda>c. \<not> (c = 0 \<or> c = 0xFFFF)) ?g = take 13 (drop (i * 13) units)"
    unfolding g by (intro takeWhile_padded) auto
  then show ?thesis using ord by (simp only: entry_units_def if_False)
qed

lemma concat_chunks:
  "0 < k \<Longrightarrow> length xs \<le> k * n \<Longrightarrow> concat (map (\<lambda>i. take k (drop (i * k) xs)) [0..<n]) = xs"
proof (induction n arbitrary: xs)
  case (Suc n)
  have "map (\<lambda>i. take k (drop (i * k) xs)) [0..<Suc n] = take k xs # map (\<lambda>i. take k (drop (i * k) (drop k xs))) [0..<n]"
    by (simp add: upt_conv_Cons add.commute comp_def flip: map_Suc_upt del: upt_Suc)
  moreover have "concat (map (\<lambda>i. take k (drop (i * k) (drop k xs))) [0..<n]) = drop k xs"
    using Suc.prems by (intro Suc.IH) auto
  ultimately show ?case by simp
qed simp

text \<open>C30: a long name written as long-name slots reads back unchanged: for every name of Unicode scalar
  values other than NUL and U+FFFF that fits in 20 slots, \<open>decode_vfat_name\<close> inverts
  \<open>encode_vfat_entries\<close>; there are \<open>lfn_slot_count\<close> slots, each of 32 bytes with the long-name
  attribute and the checksum of the short name.\<close>

theorem vfat_name_roundtrip:
  assumes "\<forall>cp\<in>set name. scalar cp \<and> cp \<noteq> 0 \<and> cp \<noteq> 0xFFFF" "lfn_slot_count name \<le> 20"
  shows "decode_vfat_name (encode_vfat_entries name ck) = name
    \<and> length (encode_vfat_entries name ck) = lfn_slot_count name
    \<and> (\<forall>e\<in>set (encode_vfat_entries name ck). length e = 32 \<and> e ! 11 = 0x0F \<and> e ! 13 = ck)"
proof -
  let ?u = "encode_utf16 name" and ?n = "lfn_slot_count name"
  have enc: "encode_vfat_entries name ck = rev (map (vfat_entry ?u ck ?n) [0..<?n])"
    by (simp add: encode_vfat_entries_def lfn_slot_count_def Let_def)
  have u: "\<forall>u\<in>set ?u. u \<noteq> 0 \<and> u < 0xFFFF" using encode_utf16_units [OF assms(1)] by blast
  have "map entry_units (map (vfat_entry ?u ck ?n) [0..<?n]) = map (\<lambda>i. take 13 (drop (i * 13) ?u)) [0..<?n]"
    using vfat_entry_units [OF u _ assms(2)] by simp
  moreover have "concat (map (\<lambda>i. take 13 (drop (i * 13) ?u)) [0..<?n]) = ?u"
    by (rule concat_chunks) (simp_all add: lfn_slot_count_def)
  ultimately have "decode_vfat_name (encode_vfat_entries name ck) = from_utf16_lossy ?u"
    by (simp only: decode_vfat_name_def enc rev_rev_ident)
  then have "decode_vfat_name (encode_vfat_entries name ck) = name"
    using utf16_roundtrip [of name] assms(1) by simp
  moreover have "\<forall>e\<in>set (encode_vfat_entries name ck). length e = 32 \<and> e ! 11 = 0x0F \<and> e ! 13 = ck"
    unfolding enc using vfat_entry_props(1,3,4) by auto
  ultimately show ?thesis by (simp add: enc)
qed

theorem vfat_name_roundtrip_witness:
  "decode_vfat_name (encode_vfat_entries (replicate 20 0x20AC) 7) = replicate 20 0x20AC"
  using vfat_name_roundtrip [of "replicate 20 0x20AC" 7]
  by (simp add: scalar_def lfn_slot_count_def encode_utf16_def utf16_units_def)

text \<open>The ordinals count down from the slot with the first characters: the slot next to the short name,
  which holds them, carries the highest ordinal and the last-slot flag, the first slot on disk carries 1.\<close>

lemma lfn_ordinals:
  assumes "1 < lfn_slot_count name"
  shows "hd (encode_vfat_entries name ck) ! 0 = 1"
    "last (encode_vfat_entries name ck) ! 0 = of_nat (lfn_slot_count name) OR 0x40"
proof -
  let ?u = "encode_utf16 name" and ?n = "lfn_slot_count name"
  have enc: "encode_vfat_entries name ck = rev (map (vfat_entry ?u ck ?n) [0..<?n])"
    by (simp add: encode_vfat_entries_def lfn_slot_count_def Let_def)
  have "[0..<?n] = [0..<?n - 1] @ [?n - 1]" "[0..<?n] = 0 # [1..<?n]"
    using assms by (simp_all add: upt_conv_Cons flip: upt_Suc_append)
  then have "hd (encode_vfat_entries name ck) = vfat_entry ?u ck ?n (?n - 1)"
    "last (encode_vfat_entries name ck) = vfat_entry ?u ck ?n 0"
    unfolding enc by (metis hd_rev last_map last_snoc map_is_Nil_conv snoc_eq_iff_butlast, metis last_rev list.map(2) list.sel(1) hd_rev rev_rev_ident)
  then show "hd (encode_vfat_entries name ck) ! 0 = 1"
    "last (encode_vfat_entries name ck) ! 0 = of_nat ?n OR 0x40"
    using assms vfat_entry_props(2) [where units = ?u and ck = ck and needed = ?n] by simp_all
qed

end
