(* ===== verification/Dirent_Fields.thy ===== *)
theory Dirent_Fields
  imports Fat_Dirent
begin

text \<open>
  Round trips of the fields of a FAT directory entry, and freshness of generated short names.
\<close>

section \<open>Packed time and date\<close>

lemma bit_small:
  assumes "unat (w::'a::len word) < 2 ^ k" "bit w n"
  shows "n < k"
proof -
  have "take_bit k (unat w) = unat w" using assms(1) by (simp add: take_bit_nat_eq_self)
  moreover have "bit (unat w) n" using assms(2) by (simp add: bit_unsigned_iff)
  ultimately show ?thesis by (metis bit_take_bit_iff)
qed

text \<open>Three fields packed into a word come back out.\<close>

lemma unpack3:
  fixes a b c :: u16
  assumes "unat a < 2 ^ i" "unat b < 2 ^ j" "unat c < 2 ^ k" "i + j + k = 16"
  defines "w \<equiv> push_bit (j + k) a OR push_bit k b OR c"
  shows "drop_bit (j + k) w AND mask i = a" "drop_bit k w AND mask j = b" "w AND mask k = c"
proof -
  note small = bit_small [OF assms(1)] bit_small [OF assms(2)] bit_small [OF assms(3)]
  show "drop_bit (j + k) w AND mask i = a"
    by (rule bit_word_eqI) (use assms(4) in \<open>auto simp: w_def bit_simps dest: small\<close>)
  show "drop_bit k w AND mask j = b"
    by (rule bit_word_eqI) (use assms(4) in \<open>auto simp: w_def bit_simps dest: small\<close>)
  show "w AND mask k = c"
    by (rule bit_word_eqI) (use assms(4) in \<open>auto simp: w_def bit_simps dest: small\<close>)
qed

lemma of_nat_small:
  assumes "n < 2 ^ k" "k < 16"
  shows "unat (of_nat n :: u16) = n" "unat (of_nat n :: u16) < 2 ^ k"
proof -
  have "(2::nat) ^ k \<le> 2 ^ 15" using assms(2) by (intro power_increasing) auto
  then show "unat (of_nat n :: u16) = n" using assms(1) by (simp add: unat_of_nat take_bit_nat_eq_self)
  then show "unat (of_nat n :: u16) < 2 ^ k" using assms(1) by simp
qed

lemma masks: "(0x7F::u16) = mask 7" "(0x0F::u16) = mask 4" "(0x1F::u16) = mask 5" "(0x3F::u16) = mask 6"
  by (simp_all add: mask_eq_exp_minus_1)

lemma time_of_day:
  fixes r :: nat
  assumes "r < 86400"
  shows "r div 3600 < 24" "(r mod 3600) div 60 < 60" "r mod 60 < 60"
    "r div 3600 * 3600 + (r mod 3600) div 60 * 60 + r mod 60 = r"
proof -
  show "r div 3600 < 24" "(r mod 3600) div 60 < 60" "r mod 60 < 60"
    using assms by (auto intro: less_mult_imp_div_less)
  have "r mod 60 = (r mod 3600) mod 60" by (simp add: mod_mod_cancel)
  then show "r div 3600 * 3600 + (r mod 3600) div 60 * 60 + r mod 60 = r"
    using div_mult_mod_eq [of r 3600] div_mult_mod_eq [of "r mod 3600" 60] by linarith
qed

lemma dos_datetime_fields:
  assumes "1980 \<le> y" "y \<le> 2107" "1 \<le> m" "m \<le> 12" "1 \<le> d" "d \<le> 31" "h < 24" "mi < 60" "s2 < 30"
  shows "dos_datetime_to_epoch (push_bit 11 (of_nat h) OR push_bit 5 (of_nat mi) OR of_nat s2)
      (push_bit 9 (of_nat (y - 1980)) OR push_bit 5 (of_nat m) OR of_nat d)
    = Some (days_from_civil y m d * 86400 + h * 3600 + mi * 60 + s2 * 2)"
proof -
  have b: "y - 1980 < 2 ^ 7" "m < 2 ^ 4" "d < 2 ^ 5" "h < 2 ^ 5" "mi < 2 ^ 6" "s2 < 2 ^ 5" using assms by auto
  let ?dt = "push_bit 9 (of_nat (y - 1980)) OR push_bit 5 (of_nat m) OR of_nat d :: u16"
  let ?tm = "push_bit 11 (of_nat h) OR push_bit 5 (of_nat mi) OR of_nat s2 :: u16"
  have dt: "drop_bit 9 ?dt AND mask 7 = of_nat (y - 1980)" "drop_bit 5 ?dt AND mask 4 = of_nat m" "?dt AND mask 5 = of_nat d"
    using unpack3 [OF of_nat_small(2) [OF b(1)] of_nat_small(2) [OF b(2)] of_nat_small(2) [OF b(3)]] by simp_all
  have tm: "drop_bit 11 ?tm AND mask 5 = of_nat h" "drop_bit 5 ?tm AND mask 6 = of_nat mi" "?tm AND mask 5 = of_nat s2"
    using unpack3 [OF of_nat_small(2) [OF b(4)] of_nat_small(2) [OF b(5)] of_nat_small(2) [OF b(6)]] by simp_all
  have n: "unat (of_nat (y - 1980) :: u16) = y - 1980" "unat (of_nat m :: u16) = m" "unat (of_nat d :: u16) = d"
    "unat (of_nat h :: u16) = h" "unat (of_nat mi :: u16) = mi" "unat (of_nat s2 :: u16) = s2"
    using of_nat_small(1) [OF b(1)] of_nat_small(1) [OF b(2)] of_nat_small(1) [OF b(3)]
      of_nat_small(1) [OF b(4)] of_nat_small(1) [OF b(5)] of_nat_small(1) [OF b(6)] by simp_all
  show ?thesis
    unfolding dos_datetime_to_epoch_def Let_def masks dt tm n using assms by simp
qed

lemma dos_datetime_back:
  assumes civil: "civil_from_days (epoch div 86400) = (y, m, d)" "1980 \<le> y" "y \<le> 2107" and e: "epoch \<le> 10 ^ 18"
  shows "case epoch_to_dos_datetime epoch of (t, dt) \<Rightarrow> dos_datetime_to_epoch t dt = Some (epoch - epoch mod 2)"
proof -
  define r where "r = epoch mod 86400"
  define h where "h = r div 3600"
  define mi where "mi = (r mod 3600) div 60"
  define s where "s = r mod 60"
  define s2 where "s2 = s div 2"
  have "epoch div 86400 \<le> 100000000000000" using e div_le_mono [OF e, of 86400] by simp
  from date_of_days [OF this] civil(1) have v: "valid_date y m d" and days: "days_from_civil y m d = epoch div 86400" by auto
  have md: "1 \<le> m" "m \<le> 12" "1 \<le> d" "d \<le> 31" using v by (auto simp: valid_date_def month_days_def split: if_splits)
  have "r < 86400" by (simp add: r_def)
  note tod = time_of_day [OF this, folded h_def mi_def s_def]
  have s2: "s2 < 30" "s2 * 2 + s mod 2 = s" unfolding s2_def using tod(3) by (auto intro: less_mult_imp_div_less)
  have "s mod 2 = epoch mod 2" by (simp add: s_def r_def mod_mod_cancel)
  moreover have "epoch = epoch div 86400 * 86400 + r" by (simp add: r_def)
  ultimately have "epoch div 86400 * 86400 + h * 3600 + mi * 60 + s2 * 2 = epoch - epoch mod 2"
    using tod(4) s2(2) by linarith
  with dos_datetime_fields [OF civil(2,3) md tod(1,2) s2(1)] civil days show ?thesis
    by (simp add: epoch_to_dos_datetime_def Let_def flip: s2_def s_def mi_def h_def r_def)
qed

section \<open>Fields of an entry\<close>

text \<open>the modification time read from a directory entry after \<open>set_timestamps\<close> is the wall-clock
  time, rounded down to the two seconds a DOS time can hold, whenever the year is one that DOS dates
  cover (1980 to 2107).\<close>

theorem timestamp_roundtrip:
  assumes "length entry = 32" "epoch \<le> 10 ^ 18" "civil_from_days (epoch div 86400) = (y, m, d)" "1980 \<le> y" "y \<le> 2107"
  shows "\<exists>entry'. set_timestamps (Some epoch) entry = (entry', Some epoch) \<and> length entry' = 32
    \<and> mtime_from_entry entry' = epoch - epoch mod 2"
proof -
  obtain t dt where td: "epoch_to_dos_datetime epoch = (t, dt)" by fastforce
  define tb where "tb = le_bytes 2 (unat t)"
  define db where "db = le_bytes 2 (unat dt)"
  have lens [simp]: "length tb = 2" "length db = 2" by (simp_all add: tb_def db_def)
  define e1 where "e1 = put_field 0x12 db (put_field 0x10 db (put_field 0x0E tb (entry[0x0D := 0])))"
  define e2 where "e2 = put_field 0x16 tb e1"
  define e3 where "e3 = put_field 0x18 db e2"
  have l: "length e1 = 32" "length e2 = 32" "length e3 = 32" using assms(1) by (simp_all add: e1_def e2_def e3_def)
  have eq: "set_timestamps (Some epoch) entry = (e3, Some epoch)"
    by (simp add: set_timestamps_def td Let_def e3_def e2_def e1_def tb_def db_def)
  have "field 0x18 2 e3 = db" using field_put_same [where off = 24 and v = db and b = e2] l(2) by (simp add: e3_def)
  moreover have "field 0x16 2 e3 = field 0x16 2 e2" using l(2) unfolding e3_def by (intro field_put_other) auto
  moreover have "field 0x16 2 e2 = tb" using field_put_same [where off = 22 and v = tb and b = e1] l(1) by (simp add: e2_def)
  moreover have "unat w mod 65536 = unat w" for w :: u16
    using unsigned_less [where ?'a = nat and w = w] by simp
  ultimately have "of_nat (le_field 0x16 2 e3) = t" "of_nat (le_field 0x18 2 e3) = dt"
    by (simp_all add: le_field_def tb_def db_def le_nat_le_bytes power2_eq_square)
  with dos_datetime_back [OF assms(3-5,2)] td have "mtime_from_entry e3 = epoch - epoch mod 2"
    by (simp add: mtime_from_entry_def)
  with eq l(3) show ?thesis by blast
qed

lemma feb29: "civil_from_days (1709168461 div 86400) = (2024, 2, 29)"
proof -
  have z: "(1709168461::nat) div 86400 = 19782" "wadd64 19782 719468 = 739250" by (simp_all add: wadd64_def)
  have era: "(739250::nat) div 146097 = 5" "739250 - 5 * 146097 = (8765::nat)" by simp_all
  have yoe: "(8765 - 8765 div 1460 + 8765 div 36524 - 8765 div 146096) div 365 = (23::nat)" by simp
  show ?thesis unfolding civil_from_days_def z Let_def era yoe by simp
qed

theorem timestamp_roundtrip_witness:
  "\<exists>entry'. set_timestamps (Some 1709168461) (replicate 32 0) = (entry', Some 1709168461)
     \<and> mtime_from_entry entry' = 1709168460"
  using timestamp_roundtrip [OF _ _ feb29, of "replicate 32 0"] by auto

lemma unat16_bytes: "(of_nat (le_nat (le_bytes 2 (unat (w::u16)))) :: u32) = ucast w"
proof -
  have "unat w < 65536" using unsigned_less [where ?'a = nat and w = w] by simp
  then show ?thesis by (simp add: le_nat_le_bytes power2_eq_square)
qed

text \<open>The first cluster and the file size stored in a 32-byte directory entry read back unchanged,
  and storing one leaves the other, the name and the attributes as they were.\<close>

theorem entry_fields_roundtrip:
  assumes "length entry = 32"
  shows "first_clus_from_entry (set_first_clus_in_entry c entry) = c
    \<and> file_size_from_entry (set_file_size_in_entry sz entry) = sz
    \<and> first_clus_from_entry (set_file_size_in_entry sz entry) = first_clus_from_entry entry
    \<and> file_size_from_entry (set_first_clus_in_entry c entry) = file_size_from_entry entry
    \<and> field 0 13 (set_file_size_in_entry sz (set_first_clus_in_entry c entry)) = field 0 13 entry"
proof -
  define hi where "hi = le_bytes 2 (unat (ucast (drop_bit 16 c) :: u16))"
  define lo where "lo = le_bytes 2 (unat (ucast c :: u16))"
  define fs where "fs = le_bytes 4 (unat sz)"
  have lens [simp]: "length hi = 2" "length lo = 2" "length fs = 4" by (simp_all add: hi_def lo_def fs_def)
  define e1 where "e1 = put_field 20 hi entry"
  define e2 where "e2 = put_field 26 lo e1"
  have l: "length e1 = 32" "length e2 = 32" using assms by (simp_all add: e1_def e2_def)
  have set: "set_first_clus_in_entry c entry = e2" by (simp add: set_first_clus_in_entry_def e2_def e1_def hi_def lo_def)
  have size: "set_file_size_in_entry sz e = put_field 28 fs e" for e by (simp add: set_file_size_in_entry_def fs_def)
  have "field 20 2 e2 = field 20 2 e1" "field 26 2 e2 = lo" "field 20 2 e1 = hi" "field 28 4 e2 = field 28 4 entry" "field 0 13 e2 = field 0 13 entry"
    using field_put_same [of 26 lo e1] field_put_same [of 20 hi entry] assms l field_put_other [of 26 lo e1 28 4]
      field_put_other [of 20 hi entry 28 4] field_put_other [of 26 lo e1 20 2] field_put_other [of 26 lo e1 0 13] field_put_other [of 20 hi entry 0 13]
    by (simp_all add: e2_def e1_def)
  moreover have "field 28 4 (put_field 28 fs entry) = fs" "field 20 2 (put_field 28 fs entry) = field 20 2 entry"
    "field 26 2 (put_field 28 fs entry) = field 26 2 entry" "field 0 13 (put_field 28 fs e2) = field 0 13 e2"
    using field_put_same [of 28 fs entry] field_put_other [of 28 fs entry 20 2] field_put_other [of 28 fs entry 26 2]
      field_put_other [of 28 fs e2 0 13] assms l by simp_all
  moreover have "push_bit 16 (ucast (ucast (drop_bit 16 c) :: u16)) OR ucast (ucast c :: u16) = c"
    by (rule bit_word_eqI) (auto simp: bit_simps)
  moreover have "of_nat (le_nat fs) = sz"
    using unsigned_less [where ?'a = nat and w = sz] by (simp add: fs_def le_nat_le_bytes)
  ultimately show ?thesis
    by (simp add: set size first_clus_from_entry_def file_size_from_entry_def le_field_def hi_def lo_def unat16_bytes)
qed

theorem entry_fields_roundtrip_witness:
  "first_clus_from_entry (set_first_clus_in_entry 0x12345 (replicate 32 0)) = 0x12345"
  using entry_fields_roundtrip [of "replicate 32 0" "0x12345"] by simp

section \<open>Generated short names\<close>

lemma length_dec_bytes: "n < 10 ^ k \<Longrightarrow> 0 < k \<Longrightarrow> length (dec_bytes n) \<le> k"
proof (induction n arbitrary: k rule: dec_bytes.induct)
  case (1 n)
  show ?case
  proof (cases "n < 10")
    case True
    then show ?thesis using "1.prems" by (simp add: dec_bytes.simps [of n])
  next
    case False
    obtain k' where k: "k = Suc k'" using "1.prems"(2) by (cases k) auto
    have k': "0 < k'" using "1.prems"(1) False k by (cases k') auto
    have "n div 10 < 10 ^ k'" using "1.prems"(1) k by (simp add: less_mult_imp_div_less)
    from "1.IH" [OF False this k'] False k show ?thesis by (simp add: dec_bytes.simps [of n])
  qed
qed

lemma length_fix_lead [simp]: "length (fix_lead s) = length s"
  by (simp add: fix_lead_def)

lemma length_make_sfn: "length (make_sfn_bytes stem ext) = 11"
  by (simp add: make_sfn_bytes_def)

lemma length_numbered_sfn:
  assumes "counter \<le> 999999"
  shows "length (numbered_sfn stem ext counter) = 11"
proof -
  have "length (dec_bytes counter) \<le> 6" using assms by (intro length_dec_bytes) auto
  then show ?thesis by (simp add: numbered_sfn_def Let_def)
qed

lemma try_numbered_Some:
  "try_numbered k stem ext existing c = Some s \<Longrightarrow> \<exists>i\<ge>c. i < c + k \<and> s = numbered_sfn stem ext i \<and> s \<notin> existing"
proof (induction k arbitrary: c)
  case (Suc k)
  show ?case
  proof (cases "numbered_sfn stem ext c \<in> existing")
    case True
    with Suc.prems have "try_numbered k stem ext existing (c + 1) = Some s" by (simp add: Let_def)
    from Suc.IH [OF this] obtain i where "i \<ge> c + 1" "i < c + 1 + k" "s = numbered_sfn stem ext i" "s \<notin> existing" by blast
    then show ?thesis by (intro exI [of _ i]) auto
  next
    case False
    with Suc.prems show ?thesis by (auto simp: Let_def)
  qed
qed simp

text \<open>the short name generated for a new directory entry has 11 bytes and is not one of the names
  already in the directory.\<close>

theorem sfn_from_name_fresh:
  assumes "sfn_from_name name existing = Some sfn"
  shows "length sfn = 11 \<and> sfn \<notin> existing"
proof -
  obtain stem ext where sp: "split_name name = (stem, ext)" by fastforce
  consider "sfn = make_sfn_bytes stem ext" "sfn \<notin> existing" | "try_numbered 999999 stem ext existing 1 = Some sfn"
    using assms unfolding sfn_from_name_def sp Let_def prod.case
    by (metis option.distinct(1) option.inject)
  then show ?thesis
  proof cases
    case 2
    from try_numbered_Some [OF this] obtain i where i: "i < 1 + 999999" "sfn = numbered_sfn stem ext i" "sfn \<notin> existing"
      by blast
    have "i \<le> 999999" using i(1) by linarith
    then show ?thesis using i(2,3) length_numbered_sfn by blast
  qed (simp add: length_make_sfn)
qed

theorem sfn_from_name_fresh_witness:
  "\<exists>sfn. sfn_from_name [0x61] {} = Some sfn \<and> length sfn = 11"
proof -
  have "sfn_from_name [0x61] {} = Some (case split_name [0x61] of (stem, ext) \<Rightarrow> make_sfn_bytes stem ext)"
    by (simp add: sfn_from_name_def Let_def split_beta)
  then show ?thesis using sfn_from_name_fresh by blast
qed

end
