(* ===== verification/Fat_Volume.thy ===== *)
theory Fat_Volume
  imports Block_Cache Le_Bytes Vfs_Error
begin

text \<open>
  The FAT of a FAT32 volume (\<open>kernel/src/filesystems/fstypes/fat32/\<close>: \<open>io.rs\<close>, \<open>bpb.rs\<close>,
  \<open>cache.rs\<close>, \<open>fat.rs\<close>): sector I/O, the boot parameter block, the write-back cache of FAT sectors and
  the entries of the table. The block device is a parameter \<open>sub\<close> with its state; serial traces are
  left out. The set of dirty sectors is a list without duplicates.
\<close>

section \<open>Sector I/O\<close>

definition fat_read :: "'d submit \<Rightarrow> 'd \<Rightarrow> nat \<Rightarrow> nat \<Rightarrow> u8 list \<Rightarrow> 'd \<times> (vfs_error, u8 list) result" where
  "fat_read sub d lba cnt buf =
     (case sub d [\<lparr>rq_lba = lba, rq_count = cnt, rq_buffer = Buf buf, rq_write = False\<rparr>] of
        (d', bs, Inl e) \<Rightarrow> (d', Inl IOError)
      | (d', bs, Inr c) \<Rightarrow> if \<not> all_ok c then (d', Inl IOError) else (d', Inr (hd bs)))"

definition fat_write :: "'d submit \<Rightarrow> 'd \<Rightarrow> nat \<Rightarrow> nat \<Rightarrow> u8 list \<Rightarrow> 'd \<times> (vfs_error, unit) result" where
  "fat_write sub d lba cnt buf =
     (case sub d [\<lparr>rq_lba = lba, rq_count = cnt, rq_buffer = ConstBuf buf, rq_write = True\<rparr>] of
        (d', bs, Inl e) \<Rightarrow> (d', Inl IOError)
      | (d', bs, Inr c) \<Rightarrow> if \<not> all_ok c then (d', Inl IOError) else (d', Inr ()))"

definition read_sectors_batch ::
  "'d submit \<Rightarrow> 'd \<Rightarrow> (u8 list \<times> nat \<times> nat) list \<Rightarrow> 'd \<times> (vfs_error, u8 list list) result" where
  "read_sectors_batch sub d reqs =
     (if reqs = [] then (d, Inr [])
      else case sub d (map (\<lambda>(buf, lba, cnt). \<lparr>rq_lba = lba, rq_count = cnt, rq_buffer = Buf buf, rq_write = False\<rparr>) reqs) of
             (d', bs, Inl e) \<Rightarrow> (d', Inl IOError)
           | (d', bs, Inr c) \<Rightarrow> if \<not> all_ok c then (d', Inl IOError) else (d', Inr bs))"

definition write_sectors_batch ::
  "'d submit \<Rightarrow> 'd \<Rightarrow> (u8 list \<times> nat \<times> nat) list \<Rightarrow> 'd \<times> (vfs_error, unit) result" where
  "write_sectors_batch sub d reqs =
     (if reqs = [] then (d, Inr ())
      else case sub d (map (\<lambda>(buf, lba, cnt). \<lparr>rq_lba = lba, rq_count = cnt, rq_buffer = ConstBuf buf, rq_write = True\<rparr>) reqs) of
             (d', bs, Inl e) \<Rightarrow> (d', Inl IOError)
           | (d', bs, Inr c) \<Rightarrow> if \<not> all_ok c then (d', Inl IOError) else (d', Inr ()))"

section \<open>The boot parameter block\<close>

record bpb =
  bytes_per_sec :: nat
  sec_per_clus :: nat
  rsvd_sec_cnt :: nat
  num_fats :: nat
  fat_sz32 :: nat
  root_clus :: nat
  fsinfo_sec :: nat
  byts_per_clus :: nat
  first_data_sec :: nat
  total_clus :: nat
  ext_flags :: nat

definition parse_bpb :: "'d submit \<Rightarrow> nat \<Rightarrow> 'd \<Rightarrow> 'd \<times> (vfs_error, bpb) result" where
  "parse_bpb sub dev_sectors d =
     (case fat_read sub d 0 1 (replicate 512 0) of
        (d', Inl e) \<Rightarrow> (d', Inl e)
      | (d', Inr sector) \<Rightarrow>
          (d',
           if sector ! 510 \<noteq> 0x55 \<or> sector ! 511 \<noteq> 0xAA then Inl InvalidDevice
           else
             (let bps = le_field 0x0B 2 sector; spc = le_field 0x0D 1 sector; rsvd = le_field 0x0E 2 sector;
                  nf = le_field 0x10 1 sector; root_ent_cnt = le_field 0x11 2 sector; fat_sz16 = le_field 0x16 2 sector;
                  fsz = le_field 0x24 4 sector; rc = le_field 0x2C 4 sector; fsi = le_field 0x30 2 sector
              in if root_ent_cnt \<noteq> 0 \<or> fat_sz16 \<noteq> 0 \<or> fsz = 0 then Inl InvalidDevice
                 else if bps \<noteq> 512 then Inl InvalidInput
                 else if spc \<notin> {1, 2, 4, 8, 16, 32, 64, 128} then Inl InvalidInput
                 else if rsvd = 0 then Inl InvalidInput
                 else if nf = 0 then Inl InvalidInput
                 else if rc < 2 then Inl InvalidInput
                 else
                   (let fds = rsvd + nf * fsz;
                        sz16 = le_field 0x13 2 sector;
                        total_sectors = (if sz16 \<noteq> 0 then sz16 else le_field 0x20 4 sector)
                    in if total_sectors \<le> fds then Inl InvalidInput
                       else if total_sectors > dev_sectors then Inl InvalidInput
                       else
                         (let tc = (total_sectors - fds) div spc
                          in if rc \<ge> 2 + tc then Inl InvalidInput
                             else Inr \<lparr>bytes_per_sec = bps, sec_per_clus = spc, rsvd_sec_cnt = rsvd, num_fats = nf,
                                       fat_sz32 = fsz, root_clus = rc, fsinfo_sec = fsi, byts_per_clus = bps * spc,
                                       first_data_sec = fds, total_clus = tc, ext_flags = le_field 0x28 2 sector\<rparr>)))))"

definition cluster_to_lba :: "bpb \<Rightarrow> nat \<Rightarrow> nat" where
  "cluster_to_lba b cluster = first_data_sec b + (cluster - 2) * sec_per_clus b"

text \<open>Bit 7 of the flags: mirroring is off and the low four bits name the active FAT.\<close>

definition unmirrored :: "bpb \<Rightarrow> bool" where
  "unmirrored b \<longleftrightarrow> ext_flags b div 128 mod 2 = 1"

definition active_fat_idx :: "bpb \<Rightarrow> nat" where
  "active_fat_idx b = (if unmirrored b then ext_flags b mod 16 else 0)"

definition fat_sector_lba :: "bpb \<Rightarrow> nat \<Rightarrow> nat \<Rightarrow> nat" where
  "fat_sector_lba b fat_num sector_idx = rsvd_sec_cnt b + fat_num * fat_sz32 b + sector_idx"

definition fat_entry_position :: "bpb \<Rightarrow> nat \<Rightarrow> (vfs_error, nat \<times> nat) result" where
  "fat_entry_position b cluster =
     (if cluster < 2 \<or> cluster \<ge> 2 + total_clus b then Inl InvalidInput
      else Inr (cluster * 4 div bytes_per_sec b, cluster * 4 mod bytes_per_sec b))"

definition fsinfo_is_valid :: "bpb \<Rightarrow> bool" where
  "fsinfo_is_valid b \<longleftrightarrow> fsinfo_sec b \<noteq> 0 \<and> fsinfo_sec b \<noteq> 0xFFFF"

section \<open>The FAT cache\<close>

definition MAX_FAT_CACHE_ENTRIES :: nat where
  "MAX_FAT_CACHE_ENTRIES = 4096"

record fat_cache =
  fc_sectors :: "(nat \<times> u8 list) list"
  fc_dirty :: "nat list"
  fc_clock :: "nat list"
  fc_hand :: nat
  fc_fat0 :: nat
  fc_fat_sz :: nat
  fc_num_fats :: nat
  fc_mirrored :: bool

definition fc_new :: "bpb \<Rightarrow> fat_cache" where
  "fc_new b = \<lparr>fc_sectors = [], fc_dirty = [], fc_clock = [], fc_hand = 0, fc_fat0 = fat_sector_lba b 0 0,
     fc_fat_sz = fat_sz32 b, fc_num_fats = num_fats b, fc_mirrored = (\<not> unmirrored b)\<rparr>"

definition mirror_lba :: "fat_cache \<Rightarrow> nat \<Rightarrow> nat \<Rightarrow> nat" where
  "mirror_lba c fat_num lba = fc_fat0 c + fat_num * fc_fat_sz c + (lba - fc_fat0 c) mod fc_fat_sz c"

text \<open>The copies in the other FATs, in order; the first failure stops.\<close>

fun write_mirrors :: "'d submit \<Rightarrow> fat_cache \<Rightarrow> 'd \<Rightarrow> nat \<Rightarrow> nat \<Rightarrow> u8 list \<Rightarrow> nat list \<Rightarrow> 'd \<times> (vfs_error, unit) result" where
  "write_mirrors sub c d lba cnt buf [] = (d, Inr ())"
| "write_mirrors sub c d lba cnt buf (n # ns) =
     (case fat_write sub d (mirror_lba c n lba) cnt buf of
        (d', Inl e) \<Rightarrow> (d', Inl e)
      | (d', Inr _) \<Rightarrow> write_mirrors sub c d' lba cnt buf ns)"

definition fc_drop :: "nat \<Rightarrow> fat_cache \<Rightarrow> fat_cache" where
  "fc_drop lba c =
     c\<lparr>fc_dirty := removeAll lba (fc_dirty c), fc_sectors := hm_remove lba (fc_sectors c),
       fc_clock := (if lba \<in> set (fc_clock c)
                    then swap_remove (length (takeWhile (\<lambda>x. x \<noteq> lba) (fc_clock c))) (fc_clock c)
                    else fc_clock c)\<rparr>"

definition writeback_and_drop :: "'d submit \<Rightarrow> fat_cache \<Rightarrow> 'd \<Rightarrow> nat \<Rightarrow> 'd \<times> fat_cache \<times> bool" where
  "writeback_and_drop sub c d lba =
     (case map_of (fc_sectors c) lba of
        None \<Rightarrow> (d, c, False)
      | Some data \<Rightarrow>
          (case fat_write sub d lba 1 data of
             (d1, Inl e) \<Rightarrow> (d1, c, False)
           | (d1, Inr _) \<Rightarrow>
               (case (if fc_mirrored c then write_mirrors sub c d1 lba 1 data [1..<fc_num_fats c] else (d1, Inr ())) of
                  (d2, Inl e) \<Rightarrow> (d2, c, False)
                | (d2, Inr _) \<Rightarrow> (d2, fc_drop lba c, True))))"

function sweep_loop :: "nat \<Rightarrow> nat \<Rightarrow> fat_cache \<Rightarrow> fat_cache" where
  "sweep_loop target swept c =
     (if length (fc_sectors c) > target \<and> fc_clock c \<noteq> [] \<and> swept < length (fc_clock c) then
        (let hand = if fc_hand c \<ge> length (fc_clock c) then 0 else fc_hand c;
             lba = fc_clock c ! hand
         in if lba \<notin> set (fc_dirty c)
            then sweep_loop target swept
                   (c\<lparr>fc_sectors := hm_remove lba (fc_sectors c), fc_clock := swap_remove hand (fc_clock c), fc_hand := hand\<rparr>)
            else sweep_loop target (swept + 1) (c\<lparr>fc_hand := hand + 1\<rparr>))
      else c)"
  by pat_completeness auto
termination
  by (relation "measure (\<lambda>(t, s, c). 2 * length (fc_clock c) - s)") (auto simp: Let_def)

declare sweep_loop.simps [simp del]

definition sweep_clean :: "nat \<Rightarrow> fat_cache \<Rightarrow> fat_cache \<times> bool" where
  "sweep_clean target c = (let c' = sweep_loop target 0 c in (c', length (fc_sectors c') \<le> target))"

fun write_batch :: "'d submit \<Rightarrow> fat_cache \<Rightarrow> 'd \<Rightarrow> nat list \<Rightarrow> 'd \<times> fat_cache" where
  "write_batch sub c d [] = (d, c)"
| "write_batch sub c d (lba # lbas) =
     (case writeback_and_drop sub c d lba of (d', c', dropped) \<Rightarrow> write_batch sub c' d' lbas)"

definition fc_maybe_evict :: "'d submit \<Rightarrow> fat_cache \<Rightarrow> 'd \<Rightarrow> 'd \<times> fat_cache" where
  "fc_maybe_evict sub c d =
     (if length (fc_sectors c) < MAX_FAT_CACHE_ENTRIES then (d, c)
      else
        (let target = MAX_FAT_CACHE_ENTRIES - MAX_FAT_CACHE_ENTRIES div 4
         in case sweep_clean target c of
              (c1, True) \<Rightarrow> (d, c1)
            | (c1, False) \<Rightarrow>
                (let need = length (fc_sectors c1) - target;
                     batch = take need (filter (\<lambda>l. l \<in> set (fc_dirty c1)) (fc_clock c1))
                 in case write_batch sub c1 d batch of
                      (d2, c2) \<Rightarrow> (d2, fst (sweep_clean target (c2\<lparr>fc_hand := 0\<rparr>))))))"

text \<open>\<open>get_or_read\<close> and \<open>get_or_read_mut\<close>: the cached sector, fetched when absent.\<close>

definition get_or_read :: "'d submit \<Rightarrow> fat_cache \<Rightarrow> 'd \<Rightarrow> nat \<Rightarrow> 'd \<times> fat_cache \<times> (vfs_error, u8 list) result" where
  "get_or_read sub c d lba =
     (case map_of (fc_sectors c) lba of
        Some s \<Rightarrow> (d, c, Inr s)
      | None \<Rightarrow>
          (case fat_read sub d lba 1 (replicate 512 0) of
             (d1, Inl e) \<Rightarrow> (d1, c, Inl e)
           | (d1, Inr buf) \<Rightarrow>
               (case fc_maybe_evict sub c d1 of
                  (d2, c2) \<Rightarrow>
                    (d2, c2\<lparr>fc_sectors := hm_insert lba buf (fc_sectors c2), fc_clock := fc_clock c2 @ [lba]\<rparr>, Inr buf))))"

definition mark_dirty :: "nat \<Rightarrow> fat_cache \<Rightarrow> fat_cache" where
  "mark_dirty lba c = c\<lparr>fc_dirty := List.insert lba (fc_dirty c)\<rparr>"

definition get_or_read_mut :: "'d submit \<Rightarrow> fat_cache \<Rightarrow> 'd \<Rightarrow> nat \<Rightarrow> 'd \<times> fat_cache \<times> (vfs_error, u8 list) result" where
  "get_or_read_mut sub c d lba =
     (case get_or_read sub c d lba of
        (d', c', Inl e) \<Rightarrow> (d', c', Inl e)
      | (d', c', Inr s) \<Rightarrow> (d', mark_dirty lba c', Inr s))"

section \<open>Flushing\<close>

definition PRDT_MAX_SECTORS :: nat where
  "PRDT_MAX_SECTORS = 504"

text \<open>The data of a chunk, gathered from the cache.\<close>

fun gather :: "fat_cache \<Rightarrow> nat list \<Rightarrow> (vfs_error, u8 list) result" where
  "gather c [] = Inr []"
| "gather c (l # ls) =
     (case map_of (fc_sectors c) l of
        None \<Rightarrow> Inl IOError
      | Some data \<Rightarrow> (case gather c ls of Inl e \<Rightarrow> Inl e | Inr rest \<Rightarrow> Inr (data @ rest)))"

function flush_run :: "'d submit \<Rightarrow> fat_cache \<Rightarrow> 'd \<Rightarrow> nat \<Rightarrow> nat \<Rightarrow> 'd \<times> (vfs_error, unit) result" where
  "flush_run sub c d start len =
     (if len = 0 then (d, Inr ())
      else
        (let chunk = min PRDT_MAX_SECTORS len
         in case gather c [start..<start + chunk] of
              Inl e \<Rightarrow> (d, Inl e)
            | Inr buf \<Rightarrow>
                (case fat_write sub d start chunk buf of
                   (d1, Inl e) \<Rightarrow> (d1, Inl e)
                 | (d1, Inr _) \<Rightarrow>
                     (case (if fc_mirrored c then write_mirrors sub c d1 start chunk buf [1..<fc_num_fats c] else (d1, Inr ())) of
                        (d2, Inl e) \<Rightarrow> (d2, Inl e)
                      | (d2, Inr _) \<Rightarrow> flush_run sub c d2 (start + chunk) (len - chunk)))))"
  by pat_completeness auto
termination
  by (relation "measure (\<lambda>(s, c, d, st, l). l)") (auto simp: PRDT_MAX_SECTORS_def)

declare flush_run.simps [simp del]

fun flush_lbas :: "'d submit \<Rightarrow> fat_cache \<Rightarrow> 'd \<Rightarrow> nat \<Rightarrow> nat \<Rightarrow> nat list \<Rightarrow> 'd \<times> (vfs_error, unit) result" where
  "flush_lbas sub c d run_start run_len [] = flush_run sub c d run_start run_len"
| "flush_lbas sub c d run_start run_len (lba # lbas) =
     (if lba = run_start + run_len then flush_lbas sub c d run_start (run_len + 1) lbas
      else case flush_run sub c d run_start run_len of
             (d', Inl e) \<Rightarrow> (d', Inl e)
           | (d', Inr _) \<Rightarrow> flush_lbas sub c d' lba 1 lbas)"

definition fc_flush :: "'d submit \<Rightarrow> fat_cache \<Rightarrow> 'd \<Rightarrow> 'd \<times> fat_cache \<times> (vfs_error, unit) result" where
  "fc_flush sub c d =
     (case sort (fc_dirty c) of
        [] \<Rightarrow> (d, c, Inr ())
      | l # ls \<Rightarrow>
          (case flush_lbas sub c d l 1 ls of
             (d', Inl e) \<Rightarrow> (d', c, Inl e)
           | (d', Inr _) \<Rightarrow> (d', c\<lparr>fc_dirty := []\<rparr>, Inr ())))"

end
