(* ===== verification/Fat_Super.thy ===== *)
theory Fat_Super
  imports Fat_Volume Fat_Dirent
begin

text \<open>
  The FAT32 superblock (\<open>fat.rs\<close>, \<open>alloc.rs\<close>, \<open>cluster.rs\<close> and \<open>mount.rs\<close> of
  \<open>kernel/src/filesystems/fstypes/fat32/\<close>): entries of the FAT, allocation and release of clusters,
  cluster chains and mounting. Every method takes the superblock and returns it with its result; the
  model runs one call at a time. Cluster numbers and counters are natural numbers; 32-bit sums that can
  wrap (the free counter, the scan position, the hint) are written with \<open>wadd32\<close> and \<open>wsub32\<close>. The
  registry of live inode handles is in \<open>Fat_Inode\<close>.
\<close>

record 'd fat_sb =
  fs_dev :: 'd
  fs_bpb :: bpb
  fs_cache :: fat_cache
  fs_next_ino :: nat
  fs_ino_map :: "((nat \<times> nat list) \<times> nat) list"
  fs_chain_cache :: "(nat \<times> nat list) list"
  fs_bitmap :: "u64 list option"
  fs_hint :: nat
  fs_free :: nat
  fs_vol_dirty :: bool

type_synonym ('d, 'a) fs_result = "'d fat_sb \<times> (vfs_error, 'a) result"

text \<open>The operator \<open>?\<close>: an error ends the method with the state reached.\<close>

definition or_return ::
  "'s \<times> ('e, 'a) result \<Rightarrow> ('s \<Rightarrow> 'a \<Rightarrow> 's \<times> ('e, 'b) result) \<Rightarrow> 's \<times> ('e, 'b) result" where
  "or_return m f = (case m of (s, Inl e) \<Rightarrow> (s, Inl e) | (s, Inr a) \<Rightarrow> f s a)"

lemma or_return_Inr: "or_return m f = (s, Inr b) \<longleftrightarrow> (\<exists>s1 a. m = (s1, Inr a) \<and> f s1 a = (s, Inr b))"
  by (auto simp: or_return_def split: prod.splits sum.splits)

definition EOC_MARKER :: nat where
  "EOC_MARKER = 0x0FFFFFF8"

definition FREE_CLUSTER :: nat where
  "FREE_CLUSTER = 0"

definition FSINFO_LEAD_SIG :: nat where
  "FSINFO_LEAD_SIG = 0x41615252"

definition FSINFO_STRUCT_SIG :: nat where
  "FSINFO_STRUCT_SIG = 0x61417272"

definition FSINFO_TRAIL_SIG :: nat where
  "FSINFO_TRAIL_SIG = 0xAA550000"

section \<open>Device access of the superblock\<close>

definition sb_read :: "'d submit \<Rightarrow> 'd fat_sb \<Rightarrow> nat \<Rightarrow> nat \<Rightarrow> u8 list \<Rightarrow> ('d, u8 list) fs_result" where
  "sb_read sub sb lba cnt buf = (case fat_read sub (fs_dev sb) lba cnt buf of (d, r) \<Rightarrow> (sb\<lparr>fs_dev := d\<rparr>, r))"

definition sb_write :: "'d submit \<Rightarrow> 'd fat_sb \<Rightarrow> nat \<Rightarrow> nat \<Rightarrow> u8 list \<Rightarrow> ('d, unit) fs_result" where
  "sb_write sub sb lba cnt buf = (case fat_write sub (fs_dev sb) lba cnt buf of (d, r) \<Rightarrow> (sb\<lparr>fs_dev := d\<rparr>, r))"

section \<open>Entries of the FAT (\<open>fat.rs\<close>)\<close>

definition read_fat_entry :: "'d submit \<Rightarrow> 'd fat_sb \<Rightarrow> nat \<Rightarrow> ('d, nat) fs_result" where
  "read_fat_entry sub sb cluster =
     (case fat_entry_position (fs_bpb sb) cluster of
        Inl e \<Rightarrow> (sb, Inl e)
      | Inr (sector_idx, offset) \<Rightarrow>
          (let lba = fat_sector_lba (fs_bpb sb) (active_fat_idx (fs_bpb sb)) sector_idx
           in case get_or_read sub (fs_cache sb) (fs_dev sb) lba of
                (d, c, r) \<Rightarrow>
                  (sb\<lparr>fs_dev := d, fs_cache := c\<rparr>,
                   (case r of Inl e \<Rightarrow> Inl e | Inr sector \<Rightarrow> Inr (le_field offset 4 sector mod 0x10000000)))))"

definition write_fat_entry :: "'d submit \<Rightarrow> 'd fat_sb \<Rightarrow> nat \<Rightarrow> nat \<Rightarrow> ('d, unit) fs_result" where
  "write_fat_entry sub sb cluster value =
     (case fat_entry_position (fs_bpb sb) cluster of
        Inl e \<Rightarrow> (sb, Inl e)
      | Inr (sector_idx, offset) \<Rightarrow>
          (let lba = fat_sector_lba (fs_bpb sb) (active_fat_idx (fs_bpb sb)) sector_idx
           in case get_or_read_mut sub (fs_cache sb) (fs_dev sb) lba of
                (d, c, Inl e) \<Rightarrow> (sb\<lparr>fs_dev := d, fs_cache := c\<rparr>, Inl e)
              | (d, c, Inr sector) \<Rightarrow>
                  (let sector' = put_field offset (le_bytes 4 (value mod 0x10000000)) sector
                   in (sb\<lparr>fs_dev := d, fs_cache := c\<lparr>fc_sectors := hm_insert lba sector' (fc_sectors c)\<rparr>\<rparr>, Inr ()))))"

definition flush_fat_cache :: "'d submit \<Rightarrow> 'd fat_sb \<Rightarrow> ('d, unit) fs_result" where
  "flush_fat_cache sub sb =
     (case fc_flush sub (fs_cache sb) (fs_dev sb) of (d, c, r) \<Rightarrow> (sb\<lparr>fs_dev := d, fs_cache := c\<rparr>, r))"

section \<open>The allocation bitmap (\<open>alloc.rs\<close>)\<close>

definition BITMAP_MAX_CLUSTERS :: nat where
  "BITMAP_MAX_CLUSTERS = 16 * 1024 * 1024"

definition AllocBitmap_new :: "nat \<Rightarrow> u64 list" where
  "AllocBitmap_new n = replicate ((n + 63) div 64) 0"

definition bit_index :: "nat \<Rightarrow> nat \<Rightarrow> nat option" where
  "bit_index clus tot = (if clus < 2 then None else if clus - 2 < tot then Some (clus - 2) else None)"

definition bmp_test :: "u64 list \<Rightarrow> nat \<Rightarrow> bool" where
  "bmp_test ws i \<longleftrightarrow> ws ! (i div 64) AND push_bit (i mod 64) 1 \<noteq> 0"

definition bmp_set :: "nat \<Rightarrow> u64 list \<Rightarrow> u64 list" where
  "bmp_set i ws = ws[i div 64 := ws ! (i div 64) OR push_bit (i mod 64) 1]"

definition bmp_clear :: "nat \<Rightarrow> u64 list \<Rightarrow> u64 list" where
  "bmp_clear i ws = ws[i div 64 := ws ! (i div 64) AND NOT (push_bit (i mod 64) 1)]"

text \<open>The run of \<open>cnt\<close> bits from \<open>s\<close>, wrapping at the end of the volume.\<close>

definition run_indices :: "nat \<Rightarrow> nat \<Rightarrow> nat \<Rightarrow> nat list" where
  "run_indices tot cnt s =
     (if s + cnt > tot then map (\<lambda>k. (s + k) mod tot) [0..<cnt] else map (\<lambda>k. s + k) [0..<cnt])"

fun find_contig :: "u64 list \<Rightarrow> nat \<Rightarrow> nat \<Rightarrow> nat \<Rightarrow> nat list \<Rightarrow> nat list option" where
  "find_contig ws tot cnt start [] = None"
| "find_contig ws tot cnt start (off # offs) =
     (let run = run_indices tot cnt ((start + off) mod tot)
      in if list_all (\<lambda>i. \<not> bmp_test ws i) run then Some run else find_contig ws tot cnt start offs)"

fun gather_free :: "u64 list \<Rightarrow> nat \<Rightarrow> nat \<Rightarrow> nat \<Rightarrow> nat list \<Rightarrow> nat list \<Rightarrow> u64 list \<times> nat list" where
  "gather_free ws tot cnt start cands [] = (ws, cands)"
| "gather_free ws tot cnt start cands (off # offs) =
     (if length cands \<ge> cnt then (ws, cands)
      else
        (let i = (start + off) mod tot
         in if bmp_test ws i then gather_free ws tot cnt start cands offs
            else gather_free (bmp_set i ws) tot cnt start (cands @ [i]) offs))"

text \<open>The reservation of \<open>cnt\<close> clusters in the bitmap: the words afterwards and the bit indices.\<close>

definition reserve_bits :: "u64 list \<Rightarrow> nat \<Rightarrow> nat \<Rightarrow> nat \<Rightarrow> u64 list \<times> (vfs_error, nat list) result" where
  "reserve_bits ws tot cnt hint =
     (let start = (hint - 2) mod tot
      in case (if cnt \<le> tot then find_contig ws tot cnt start [0..<tot] else None) of
           Some run \<Rightarrow>
             (let ws' = fold bmp_set run ws
              in if length run \<noteq> cnt then (fold bmp_clear run ws', Inl IOError) else (ws', Inr run))
         | None \<Rightarrow>
             (case gather_free ws tot cnt start [] [0..<tot] of
                (ws', cands) \<Rightarrow>
                  if length cands < cnt then (fold bmp_clear cands ws', Inl NoSpace) else (ws', Inr cands)))"

text \<open>Best-effort release of clusters: the results of the writes are ignored.\<close>

fun write_free_all :: "'d submit \<Rightarrow> 'd fat_sb \<Rightarrow> nat list \<Rightarrow> 'd fat_sb" where
  "write_free_all sub sb [] = sb"
| "write_free_all sub sb (c # cs) = write_free_all sub (fst (write_fat_entry sub sb c FREE_CLUSTER)) cs"

fun write_eocs :: "'d submit \<Rightarrow> nat list \<Rightarrow> 'd fat_sb \<Rightarrow> nat list \<Rightarrow> nat list \<Rightarrow> ('d, nat list) fs_result" where
  "write_eocs sub cands sb out [] = (sb, Inr out)"
| "write_eocs sub cands sb out (i # is) =
     (case write_fat_entry sub sb (2 + i) EOC_MARKER of
        (sb', Inr _) \<Rightarrow> write_eocs sub cands sb' (out @ [2 + i]) is
      | (sb', Inl e) \<Rightarrow>
          (write_free_all sub (sb'\<lparr>fs_bitmap := map_option (fold bmp_clear cands) (fs_bitmap sb')\<rparr>) out, Inl e))"

definition free_sub :: "nat \<Rightarrow> nat \<Rightarrow> nat" where
  "free_sub free cnt = (free + (2 ^ 32 - cnt mod 2 ^ 32)) mod 2 ^ 32"

text \<open>The cluster of round \<open>i\<close> of the linear scan, in \<open>u32\<close> arithmetic.\<close>

definition scan_cluster :: "nat \<Rightarrow> nat \<Rightarrow> nat \<Rightarrow> nat" where
  "scan_cluster n hint i = wadd32 2 (wadd32 (wsub32 hint 2) i mod n)"

fun scan_alloc :: "'d submit \<Rightarrow> nat \<Rightarrow> nat \<Rightarrow> nat \<Rightarrow> 'd fat_sb \<Rightarrow> nat list \<Rightarrow> nat list \<Rightarrow> ('d, nat list) fs_result" where
  "scan_alloc sub n hint cnt sb out [] = (sb, Inr out)"
| "scan_alloc sub n hint cnt sb out (i # is) =
     (if length out \<ge> cnt then (sb, Inr out)
      else
        (let clus = scan_cluster n hint i
         in case read_fat_entry sub sb clus of
              (sb1, Inl e) \<Rightarrow> (write_free_all sub sb1 out, Inl e)
            | (sb1, Inr v) \<Rightarrow>
                if v = FREE_CLUSTER then
                  (case write_fat_entry sub sb1 clus EOC_MARKER of
                     (sb2, Inl e) \<Rightarrow> (write_free_all sub sb2 out, Inl e)
                   | (sb2, Inr _) \<Rightarrow> scan_alloc sub n hint cnt sb2 (out @ [clus]) is)
                else scan_alloc sub n hint cnt sb1 out is))"

definition alloc_scan :: "'d submit \<Rightarrow> 'd fat_sb \<Rightarrow> nat \<Rightarrow> ('d, nat list) fs_result" where
  "alloc_scan sub sb cnt =
     (let n = total_clus (fs_bpb sb)
      in or_return (scan_alloc sub n (fs_hint sb) cnt sb [] [0..<n])
           (\<lambda>sb1 out.
              if length out < cnt then (write_free_all sub sb1 out, Inl NoSpace)
              else (sb1\<lparr>fs_hint := (if out = [] then fs_hint sb1 else wadd32 (last out) 1),
                        fs_free := free_sub (fs_free sb1) cnt\<rparr>, Inr out)))"

definition alloc_clusters :: "'d submit \<Rightarrow> 'd fat_sb \<Rightarrow> nat \<Rightarrow> ('d, nat list) fs_result" where
  "alloc_clusters sub sb cnt =
     (if cnt = 0 then (sb, Inr [])
      else if total_clus (fs_bpb sb) = 0 then (sb, Inl NoSpace)
      else
        (case fs_bitmap sb of
           None \<Rightarrow> alloc_scan sub sb cnt
         | Some ws \<Rightarrow>
             (case reserve_bits ws (total_clus (fs_bpb sb)) cnt (fs_hint sb) of
                (ws', Inl e) \<Rightarrow> (sb\<lparr>fs_bitmap := Some ws'\<rparr>, Inl e)
              | (ws', Inr cands) \<Rightarrow>
                  if cands = [] then alloc_scan sub (sb\<lparr>fs_bitmap := Some ws'\<rparr>) cnt
                  else
                    or_return (write_eocs sub cands (sb\<lparr>fs_bitmap := Some ws'\<rparr>) [] cands)
                      (\<lambda>sb1 out.
                         (sb1\<lparr>fs_hint := (if out = [] then fs_hint sb1 else max 2 (wadd32 (last out) 1)),
                              fs_free := free_sub (fs_free sb1) cnt\<rparr>, Inr out)))))"

definition alloc_cluster :: "'d submit \<Rightarrow> 'd fat_sb \<Rightarrow> ('d, nat) fs_result" where
  "alloc_cluster sub sb = or_return (alloc_clusters sub sb 1) (\<lambda>sb' v. (sb', Inr (v ! 0)))"

definition bitmap_mark_free :: "nat \<Rightarrow> 'd fat_sb \<Rightarrow> 'd fat_sb" where
  "bitmap_mark_free cluster sb =
     (case (fs_bitmap sb, bit_index cluster (total_clus (fs_bpb sb))) of
        (Some ws, Some i) \<Rightarrow> sb\<lparr>fs_bitmap := Some (bmp_clear i ws)\<rparr>
      | _ \<Rightarrow> sb)"

text \<open>\<open>limit\<close> is \<open>total_clus + 2\<close>, which is below \<open>2 ^ 32\<close> on every accepted volume.\<close>

function free_chain_loop :: "'d submit \<Rightarrow> nat \<Rightarrow> nat \<Rightarrow> 'd fat_sb \<Rightarrow> nat \<Rightarrow> ('d, unit) fs_result" where
  "free_chain_loop sub limit iters sb cluster =
     (if cluster \<ge> 2 \<and> cluster < EOC_MARKER then
        or_return (read_fat_entry sub sb cluster) (\<lambda>sb1 next_c.
          or_return (write_fat_entry sub sb1 cluster FREE_CLUSTER) (\<lambda>sb2 _.
            (let sb3 = bitmap_mark_free cluster sb2;
                 sb4 = sb3\<lparr>fs_free := (fs_free sb3 + 1) mod 2 ^ 32\<rparr>
             in if iters + 1 > limit then (sb4, Inl IOError)
                else free_chain_loop sub limit (iters + 1) sb4 next_c)))
      else (sb, Inr ()))"
  by pat_completeness auto
termination
  by (relation "measure (\<lambda>(s, limit, iters, sb, c). limit - iters)") auto

declare free_chain_loop.simps [simp del]

definition free_chain :: "'d submit \<Rightarrow> 'd fat_sb \<Rightarrow> nat \<Rightarrow> ('d, unit) fs_result" where
  "free_chain sub sb cluster = free_chain_loop sub (total_clus (fs_bpb sb) + 2) 0 sb cluster"

end
