(* ===== verification/Fat_Mount.thy ===== *)
theory Fat_Mount
  imports Fat_Super
begin

text \<open>
  The rest of the FAT32 superblock: the scan for free clusters and the FSInfo sector (\<open>alloc.rs\<close>),
  clusters and cluster chains (\<open>cluster.rs\<close>), the shared chain cache, the volume-dirty flag and
  mounting (\<open>mount.rs\<close>).
\<close>

section \<open>The scan at mount\<close>

text \<open>One entry: a free cluster is counted, another one is marked in the bitmap.\<close>

definition scan_entry :: "nat \<Rightarrow> nat \<Rightarrow> u8 list \<Rightarrow> nat \<times> u64 list option \<Rightarrow> nat \<Rightarrow> nat \<times> u64 list option" where
  "scan_entry last_valid entry_base sec_bytes acc i =
     (let entry_idx = entry_base + i
      in if entry_idx < 2 \<or> entry_idx > last_valid then acc
         else if le_field (i * 4) 4 sec_bytes mod 0x10000000 = FREE_CLUSTER then (fst acc + 1, snd acc)
         else (fst acc, map_option (bmp_set (entry_idx - 2)) (snd acc)))"

definition scan_sector :: "nat \<Rightarrow> nat \<Rightarrow> nat \<Rightarrow> u8 list \<Rightarrow> nat \<times> u64 list option \<Rightarrow> nat \<times> u64 list option" where
  "scan_sector last_valid sec_first sec_off buf acc =
     foldl (scan_entry last_valid ((sec_first + sec_off) * 128) (take 512 (drop (sec_off * 512) buf))) acc [0..<128]"

function scan_loop ::
  "'d submit \<Rightarrow> nat \<Rightarrow> nat \<Rightarrow> nat \<Rightarrow> nat \<Rightarrow> 'd fat_sb \<Rightarrow> u8 list \<Rightarrow> nat \<times> u64 list option \<Rightarrow> ('d, nat \<times> u64 list option) fs_result" where
  "scan_loop sub first_lba nsec last_valid fin sb chunk_buf acc =
     (if fin < nsec then
        (let chunk = min 504 (nsec - fin); len = chunk * 512
         in or_return (sb_read sub sb (first_lba + fin) chunk (take len chunk_buf)) (\<lambda>sb1 got.
              scan_loop sub first_lba nsec last_valid (fin + chunk) sb1 (got @ drop len chunk_buf)
                (foldl (\<lambda>a sec_off. scan_sector last_valid fin sec_off got a) acc [0..<chunk])))
      else (sb, Inr acc))"
  by pat_completeness auto
termination
  by (relation "measure (\<lambda>(s, f, nsec, lv, fin, sb, cb, acc). nsec - fin)") auto

declare scan_loop.simps [simp del]

definition scan_free_clusters :: "'d submit \<Rightarrow> 'd fat_sb \<Rightarrow> ('d, nat) fs_result" where
  "scan_free_clusters sub sb =
     (let b = fs_bpb sb;
          first_lba = fat_sector_lba b (active_fat_idx b) 0;
          bitmap = (if total_clus b \<le> BITMAP_MAX_CLUSTERS then Some (AllocBitmap_new (total_clus b)) else None)
      in if fat_sz32 b = 0 then (sb\<lparr>fs_bitmap := bitmap\<rparr>, Inr 0)
         else or_return (scan_loop sub first_lba (fat_sz32 b) (2 + total_clus b - 1) 0 sb (replicate (504 * 512) 0) (0, bitmap))
                (\<lambda>sb1 acc. (sb1\<lparr>fs_bitmap := snd acc\<rparr>, Inr (fst acc))))"

definition write_fsinfo :: "'d submit \<Rightarrow> 'd fat_sb \<Rightarrow> ('d, unit) fs_result" where
  "write_fsinfo sub sb =
     (if \<not> fsinfo_is_valid (fs_bpb sb) then (sb, Inr ())
      else
        or_return (sb_read sub sb (fsinfo_sec (fs_bpb sb)) 1 (replicate 512 0)) (\<lambda>sb1 buf0.
          (let buf1 = put_field 0 (le_bytes 4 FSINFO_LEAD_SIG) buf0;
               buf2 = put_field 484 (le_bytes 4 FSINFO_STRUCT_SIG) buf1;
               buf3 = put_field 488 (le_bytes 4 (fs_free sb1)) buf2;
               buf4 = put_field 492 (le_bytes 4 (fs_hint sb1)) buf3;
               buf5 = put_field 508 (le_bytes 4 FSINFO_TRAIL_SIG) buf4
           in sb_write sub sb1 (fsinfo_sec (fs_bpb sb1)) 1 buf5)))"

section \<open>Clusters (\<open>cluster.rs\<close>)\<close>

definition read_cluster :: "'d submit \<Rightarrow> 'd fat_sb \<Rightarrow> nat \<Rightarrow> u8 list \<Rightarrow> ('d, u8 list) fs_result" where
  "read_cluster sub sb cluster buf =
     (if cluster < 2 \<or> cluster \<ge> 2 + total_clus (fs_bpb sb) then (sb, Inl InvalidInput)
      else sb_read sub sb (cluster_to_lba (fs_bpb sb) cluster) (sec_per_clus (fs_bpb sb)) buf)"

definition write_cluster :: "'d submit \<Rightarrow> 'd fat_sb \<Rightarrow> nat \<Rightarrow> u8 list \<Rightarrow> ('d, unit) fs_result" where
  "write_cluster sub sb cluster buf =
     (if cluster < 2 \<or> cluster \<ge> 2 + total_clus (fs_bpb sb) then (sb, Inl InvalidInput)
      else sb_write sub sb (cluster_to_lba (fs_bpb sb) cluster) (sec_per_clus (fs_bpb sb)) buf)"

definition zero_cluster :: "'d submit \<Rightarrow> 'd fat_sb \<Rightarrow> nat \<Rightarrow> ('d, unit) fs_result" where
  "zero_cluster sub sb cluster = write_cluster sub sb cluster (replicate (byts_per_clus (fs_bpb sb)) 0)"

text \<open>In the loops below \<open>limit\<close> is \<open>total_clus + 2\<close>.\<close>

function chain_len_loop :: "'d submit \<Rightarrow> nat \<Rightarrow> 'd fat_sb \<Rightarrow> nat \<Rightarrow> nat \<Rightarrow> ('d, nat) fs_result" where
  "chain_len_loop sub limit sb n c =
     or_return (read_fat_entry sub sb c) (\<lambda>sb1 next_c.
       if next_c \<ge> EOC_MARKER then (sb1, Inr n)
       else if n + 1 > limit then (sb1, Inl IOError)
       else chain_len_loop sub limit sb1 (n + 1) next_c)"
  by pat_completeness auto
termination
  by (relation "measure (\<lambda>(s, limit, sb, n, c). limit - n)") auto

declare chain_len_loop.simps [simp del]

definition chain_len :: "'d submit \<Rightarrow> 'd fat_sb \<Rightarrow> nat \<Rightarrow> ('d, nat) fs_result" where
  "chain_len sub sb start =
     (if start = 0 \<or> start \<ge> EOC_MARKER then (sb, Inr 0)
      else chain_len_loop sub (total_clus (fs_bpb sb) + 2) sb 1 start)"

function find_tail :: "'d submit \<Rightarrow> nat \<Rightarrow> 'd fat_sb \<Rightarrow> nat \<Rightarrow> nat \<Rightarrow> ('d, nat) fs_result" where
  "find_tail sub limit sb iters tail =
     or_return (read_fat_entry sub sb tail) (\<lambda>sb1 next_c.
       if next_c \<ge> EOC_MARKER then (sb1, Inr tail)
       else if iters + 1 > limit then (sb1, Inl IOError)
       else find_tail sub limit sb1 (iters + 1) next_c)"
  by pat_completeness auto
termination
  by (relation "measure (\<lambda>(s, limit, sb, n, c). limit - n)") auto

declare find_tail.simps [simp del]

fun append_clusters :: "'d submit \<Rightarrow> nat \<Rightarrow> 'd fat_sb \<Rightarrow> nat \<Rightarrow> ('d, unit) fs_result" where
  "append_clusters sub 0 sb tail = (sb, Inr ())"
| "append_clusters sub (Suc k) sb tail =
     or_return (alloc_cluster sub sb) (\<lambda>sb1 new.
       or_return (zero_cluster sub sb1 new) (\<lambda>sb2 _.
         or_return (write_fat_entry sub sb2 tail new) (\<lambda>sb3 _.
           append_clusters sub k sb3 new)))"

definition extend_chain :: "'d submit \<Rightarrow> 'd fat_sb \<Rightarrow> nat \<Rightarrow> nat \<Rightarrow> ('d, unit) fs_result" where
  "extend_chain sub sb start additional =
     or_return (find_tail sub (total_clus (fs_bpb sb) + 2) sb 0 start) (\<lambda>sb1 tail.
       append_clusters sub additional sb1 tail)"

text \<open>The cluster \<open>k\<close> links further down; \<open>None\<close> when the chain ends before.\<close>

fun skip_links :: "'d submit \<Rightarrow> nat \<Rightarrow> 'd fat_sb \<Rightarrow> nat \<Rightarrow> ('d, nat option) fs_result" where
  "skip_links sub 0 sb c = (sb, Inr (Some c))"
| "skip_links sub (Suc k) sb c =
     or_return (read_fat_entry sub sb c) (\<lambda>sb1 next_c.
       if next_c \<ge> EOC_MARKER then (sb1, Inr None) else skip_links sub k sb1 next_c)"

definition truncate_chain :: "'d submit \<Rightarrow> 'd fat_sb \<Rightarrow> nat \<Rightarrow> nat \<Rightarrow> ('d, unit) fs_result" where
  "truncate_chain sub sb start keep =
     (if start = 0 \<or> keep = 0 then free_chain sub sb start
      else
        or_return (skip_links sub (keep - 1) sb start) (\<lambda>sb1 r.
          (case r of
             None \<Rightarrow> (sb1, Inr ())
           | Some c \<Rightarrow>
               or_return (read_fat_entry sub sb1 c) (\<lambda>sb2 next_c.
                 if next_c < EOC_MARKER
                 then or_return (write_fat_entry sub sb2 c EOC_MARKER) (\<lambda>sb3 _. free_chain sub sb3 next_c)
                 else (sb2, Inr ())))))"

section \<open>The chain cache (\<open>mount.rs\<close>)\<close>

text \<open>The bulk path reads the first FAT from the device, 504 sectors at a time.\<close>

function read_fat_bulk :: "'d submit \<Rightarrow> nat \<Rightarrow> nat \<Rightarrow> nat \<Rightarrow> 'd fat_sb \<Rightarrow> u8 list \<Rightarrow> ('d, u8 list) fs_result" where
  "read_fat_bulk sub fat0_lba fat_sz off sb fat_data =
     (if off < fat_sz then
        (let c = min 504 (fat_sz - off)
         in or_return (sb_read sub sb (fat0_lba + off) c (take (c * 512) (drop (off * 512) fat_data))) (\<lambda>sb1 got.
              read_fat_bulk sub fat0_lba fat_sz (off + c) sb1 (put_field (off * 512) got fat_data)))
      else (sb, Inr fat_data))"
  by pat_completeness auto
termination
  by (relation "measure (\<lambda>(s, f, fat_sz, off, sb, fd). fat_sz - off)") auto

declare read_fat_bulk.simps [simp del]

function bulk_walk :: "nat \<Rightarrow> u8 list \<Rightarrow> nat list \<Rightarrow> nat \<Rightarrow> nat \<Rightarrow> (vfs_error, nat list) result" where
  "bulk_walk tc fat_data chain cnt c =
     (let chain' = chain @ [c]; off = c * 4
      in if off + 4 > length fat_data then Inl IOError
         else
           (let next_c = le_field off 4 fat_data mod 0x10000000
            in if next_c \<ge> EOC_MARKER then Inr chain'
               else if next_c < 2 \<or> next_c \<ge> 2 + tc then Inl IOError
               else if cnt + 1 > tc + 2 then Inl IOError
               else if cnt + 1 > length fat_data then Inl IOError
               else bulk_walk tc fat_data chain' (cnt + 1) next_c))"
  by pat_completeness auto
termination
  by (relation "measure (\<lambda>(tc, fd, ch, cnt, c). tc + 2 - cnt)") auto

declare bulk_walk.simps [simp del]

function entry_walk :: "'d submit \<Rightarrow> nat \<Rightarrow> 'd fat_sb \<Rightarrow> nat list \<Rightarrow> nat \<Rightarrow> nat \<Rightarrow> ('d, nat list) fs_result" where
  "entry_walk sub tc sb chain cnt c =
     or_return (read_fat_entry sub sb c) (\<lambda>sb1 next_c.
       if next_c \<ge> EOC_MARKER then (sb1, Inr (chain @ [c]))
       else if cnt + 1 > tc + 2 then (sb1, Inl IOError)
       else entry_walk sub tc sb1 (chain @ [c]) (cnt + 1) next_c)"
  by pat_completeness auto
termination
  by (relation "measure (\<lambda>(s, tc, sb, ch, cnt, c). tc + 2 - cnt)") auto

declare entry_walk.simps [simp del]

definition use_bulk :: "bpb \<Rightarrow> bool" where
  "use_bulk b \<longleftrightarrow> fat_sz32 b \<le> 1024 \<and> total_clus b \<le> 200000"

definition build_chain :: "'d submit \<Rightarrow> 'd fat_sb \<Rightarrow> nat \<Rightarrow> ('d, nat list) fs_result" where
  "build_chain sub sb first =
     (let b = fs_bpb sb
      in if use_bulk b
         then or_return (read_fat_bulk sub (fat_sector_lba b 0 0) (fat_sz32 b) 0 sb (replicate (fat_sz32 b * 512) 0))
                (\<lambda>sb1 fat_data. (sb1, bulk_walk (total_clus b) fat_data [] 0 first))
         else entry_walk sub (total_clus b) sb [] 0 first)"

definition chain_for :: "'d submit \<Rightarrow> 'd fat_sb \<Rightarrow> nat \<Rightarrow> ('d, nat list) fs_result" where
  "chain_for sub sb first =
     (if first < 2 \<or> first \<ge> EOC_MARKER then (sb, Inr [])
      else
        (case map_of (fs_chain_cache sb) first of
           Some chain \<Rightarrow> (sb, Inr chain)
         | None \<Rightarrow>
             or_return (build_chain sub sb first) (\<lambda>sb1 chain.
               (case map_of (fs_chain_cache sb1) first of
                  Some existing \<Rightarrow> (sb1, Inr existing)
                | None \<Rightarrow> (sb1\<lparr>fs_chain_cache := (first, chain) # fs_chain_cache sb1\<rparr>, Inr chain)))))"

definition invalidate_chain :: "nat \<Rightarrow> 'd fat_sb \<Rightarrow> 'd fat_sb" where
  "invalidate_chain first sb = (if first \<noteq> 0 then sb\<lparr>fs_chain_cache := hm_remove first (fs_chain_cache sb)\<rparr> else sb)"

section \<open>Inode numbers, the dirty flag, syncing\<close>

definition ino_for :: "nat \<Rightarrow> nat list \<Rightarrow> 'd fat_sb \<Rightarrow> 'd fat_sb \<times> nat" where
  "ino_for parent_clus name sb =
     (let key = (parent_clus, map char_lower name)
      in case map_of (fs_ino_map sb) key of
           Some ino \<Rightarrow> (sb, ino)
         | None \<Rightarrow>
             (sb\<lparr>fs_next_ino := (fs_next_ino sb + 1) mod 2 ^ 64, fs_ino_map := (key, fs_next_ino sb) # fs_ino_map sb\<rparr>,
              fs_next_ino sb))"

definition set_volume_dirty_flag :: "'d submit \<Rightarrow> 'd fat_sb \<Rightarrow> ('d, unit) fs_result" where
  "set_volume_dirty_flag sub sb =
     (if fs_vol_dirty sb then (sb, Inr ())
      else
        or_return (sb_read sub sb 0 1 (replicate 512 0)) (\<lambda>sb1 sector.
          or_return (sb_write sub sb1 0 1 (sector[0x41 := sector ! 0x41 OR 1])) (\<lambda>sb2 _.
            (sb2\<lparr>fs_vol_dirty := True\<rparr>, Inr ()))))"

definition clear_volume_dirty_flag :: "'d submit \<Rightarrow> 'd fat_sb \<Rightarrow> ('d, unit) fs_result" where
  "clear_volume_dirty_flag sub sb =
     (if \<not> fs_vol_dirty sb then (sb, Inr ())
      else
        or_return (sb_read sub sb 0 1 (replicate 512 0)) (\<lambda>sb1 sector.
          or_return (sb_write sub sb1 0 1 (sector[0x41 := sector ! 0x41 AND NOT 1])) (\<lambda>sb2 _.
            (sb2\<lparr>fs_vol_dirty := False\<rparr>, Inr ()))))"

definition sync_all :: "'d submit \<Rightarrow> 'd fat_sb \<Rightarrow> ('d, unit) fs_result" where
  "sync_all sub sb = or_return (flush_fat_cache sub sb) (\<lambda>sb1 _. write_fsinfo sub sb1)"

definition fat_shutdown :: "'d submit \<Rightarrow> 'd fat_sb \<Rightarrow> ('d, unit) fs_result" where
  "fat_shutdown sub sb = or_return (sync_all sub sb) (\<lambda>sb1 _. clear_volume_dirty_flag sub sb1)"

text \<open>\<open>statfs\<close>: block size, total blocks, free blocks.\<close>

definition statfs :: "'d fat_sb \<Rightarrow> nat \<times> nat \<times> nat" where
  "statfs sb = (byts_per_clus (fs_bpb sb), total_clus (fs_bpb sb), fs_free sb)"

section \<open>Mounting\<close>

definition sb_new :: "'d \<Rightarrow> bpb \<Rightarrow> 'd fat_sb" where
  "sb_new d b = \<lparr>fs_dev = d, fs_bpb = b, fs_cache = fc_new b, fs_next_ino = 2, fs_ino_map = [], fs_chain_cache = [],
     fs_bitmap = None, fs_hint = 2, fs_free = 0, fs_vol_dirty = False\<rparr>"

text \<open>The allocation hint of the FSInfo sector; a read error or a bad signature leaves the default.\<close>

definition load_hint :: "'d submit \<Rightarrow> 'd fat_sb \<Rightarrow> 'd fat_sb" where
  "load_hint sub sb =
     (if \<not> fsinfo_is_valid (fs_bpb sb) then sb
      else
        (case sb_read sub sb (fsinfo_sec (fs_bpb sb)) 1 (replicate 512 0) of
           (sb1, Inl e) \<Rightarrow> sb1
         | (sb1, Inr sector) \<Rightarrow>
             (let hint = le_field 492 4 sector
              in if field 0 4 sector = le_bytes 4 FSINFO_LEAD_SIG \<and> field 484 4 sector = le_bytes 4 FSINFO_STRUCT_SIG
                    \<and> hint \<ge> 2 \<and> hint < wadd32 2 (total_clus (fs_bpb sb))
                 then sb1\<lparr>fs_hint := hint\<rparr> else sb1)))"

text \<open>The device and, on success, the superblock of the mounted volume; its root directory starts at
  \<open>root_clus\<close>.\<close>

definition fat_mount :: "'d submit \<Rightarrow> nat \<Rightarrow> 'd \<Rightarrow> 'd \<times> (vfs_error, 'd fat_sb) result" where
  "fat_mount sub dev_sectors d =
     (case parse_bpb sub dev_sectors d of
        (d1, Inl e) \<Rightarrow> (d1, Inl e)
      | (d1, Inr b) \<Rightarrow>
          (case fat_read sub d1 0 1 (replicate 512 0) of
             (d2, Inl e) \<Rightarrow> (d2, Inl e)
           | (d2, Inr sector) \<Rightarrow>
               (case or_return (set_volume_dirty_flag sub (sb_new d2 b)) (\<lambda>sb1 _.
                       or_return (scan_free_clusters sub (load_hint sub sb1)) (\<lambda>sb2 free.
                         (sb2\<lparr>fs_free := free\<rparr>, Inr ()))) of
                  (sb3, Inl e) \<Rightarrow> (fs_dev sb3, Inl e)
                | (sb3, Inr _) \<Rightarrow> (fs_dev sb3, Inr sb3))))"

end
