(* ===== verification/Fat_Table.thy ===== *)
theory Fat_Table
  imports Fat_Mount
begin

text \<open>
  The FAT as a table: through the write-back cache every cluster has one entry, whatever is cached,
  dirty or evicted. \<open>fat_view\<close> is the current contents of a FAT sector (the cached copy, else the
  device's), \<open>fat_entry\<close> the entry of a cluster. The device is any driver that keeps the block device
  contract and stays usable after a failed request (\<open>reliable_device\<close>).
\<close>

section \<open>Devices that survive errors\<close>

text \<open>The driver's invariant survives every batch, a failed one included.\<close>

locale reliable_device = block_device +
  assumes keeps_any: "ok d \<Longrightarrow> length rs < 2 ^ 32 \<Longrightarrow> batch_ok rs \<Longrightarrow> sub d rs = (d', bs, res) \<Longrightarrow> ok d'"

interpretation ram_reliable: reliable_device ram_submit "\<lambda>d. d" ram_ok
proof
  fix d d' :: ram_disk and bs rs and res :: "(string, io_completions) result"
  show "ram_ok d \<Longrightarrow> batch_ok rs \<Longrightarrow> ram_submit d rs = (d', bs, res) \<Longrightarrow> ram_ok d'"
    by (auto simp: ram_submit_def split: if_splits prod.splits intro: ram_exec_ok)
qed

section \<open>The hash map as a map\<close>

lemma map_of_hm_remove [simp]: "map_of (hm_remove k m) = (map_of m)(k := None)"
  by (induction m) (auto simp: hm_remove_def)

lemma map_of_hm_insert [simp]: "map_of (hm_insert k v m) = (map_of m)(k \<mapsto> v)"
  by (simp add: hm_insert_def)

section \<open>Layout\<close>

text \<open>What the table relies on: the FAT has an entry for every cluster and the active FAT is one of the
  copies.\<close>

definition fat_layout_ok :: "bpb \<Rightarrow> bool" where
  "fat_layout_ok b \<longleftrightarrow> bytes_per_sec b = 512 \<and> 0 < fat_sz32 b \<and> active_fat_idx b < num_fats b
     \<and> (total_clus b + 2) * 4 \<le> fat_sz32 b * 512 \<and> rsvd_sec_cnt b + num_fats b * fat_sz32 b \<le> u64_max"

definition active_region :: "bpb \<Rightarrow> nat set" where
  "active_region b = {fat_sector_lba b (active_fat_idx b) 0..<fat_sector_lba b (active_fat_idx b) 0 + fat_sz32 b}"

definition fc_ok :: "bpb \<Rightarrow> fat_cache \<Rightarrow> (nat \<Rightarrow> u8 list) \<Rightarrow> bool" where
  "fc_ok b c dk \<longleftrightarrow>
     fc_fat0 c = rsvd_sec_cnt b \<and> fc_fat_sz c = fat_sz32 b \<and> fc_num_fats c = num_fats b \<and> fc_mirrored c = (\<not> unmirrored b)
     \<and> distinct (fc_dirty c)
     \<and> (\<forall>l s. map_of (fc_sectors c) l = Some s \<longrightarrow> length s = 512 \<and> l \<in> active_region b \<and> (l \<notin> set (fc_dirty c) \<longrightarrow> s = dk l))
     \<and> (\<forall>l\<in>set (fc_dirty c). map_of (fc_sectors c) l \<noteq> None)"

definition fat_view :: "fat_cache \<Rightarrow> (nat \<Rightarrow> u8 list) \<Rightarrow> nat \<Rightarrow> u8 list" where
  "fat_view c dk l = (case map_of (fc_sectors c) l of Some s \<Rightarrow> s | None \<Rightarrow> dk l)"

lemma fc_hand_irrelevant [simp]:
  "fc_ok b (c\<lparr>fc_hand := h\<rparr>) dk = fc_ok b c dk" "fat_view (c\<lparr>fc_hand := h\<rparr>) dk = fat_view c dk"
  by (simp_all add: fc_ok_def fat_view_def fun_eq_iff)

text \<open>A step that changes neither the contents of the active FAT nor the invariant.\<close>

definition keeps_view :: "bpb \<Rightarrow> fat_cache \<times> (nat \<Rightarrow> u8 list) \<Rightarrow> fat_cache \<times> (nat \<Rightarrow> u8 list) \<Rightarrow> bool" where
  "keeps_view b x y \<longleftrightarrow> fc_ok b (fst y) (snd y)
     \<and> (\<forall>l\<in>active_region b. fat_view (fst y) (snd y) l = fat_view (fst x) (snd x) l)"

lemma keeps_view_refl: "fc_ok b c dk \<Longrightarrow> keeps_view b (c, dk) (c, dk)"
  by (simp add: keeps_view_def)

lemma keeps_view_trans: "keeps_view b x y \<Longrightarrow> keeps_view b y z \<Longrightarrow> keeps_view b x z"
  by (simp add: keeps_view_def)

lemma active_region_bound:
  assumes "fat_layout_ok b" "l \<in> active_region b"
  shows "l < u64_max" and "rsvd_sec_cnt b \<le> l" and "\<not> unmirrored b \<Longrightarrow> l < rsvd_sec_cnt b + fat_sz32 b"
proof -
  let ?a = "active_fat_idx b"
  have "Suc ?a * fat_sz32 b \<le> num_fats b * fat_sz32 b"
    using assms(1) by (intro mult_le_mono1) (simp add: fat_layout_ok_def)
  then show "l < u64_max" "rsvd_sec_cnt b \<le> l"
    using assms by (auto simp: fat_layout_ok_def active_region_def fat_sector_lba_def)
  show "l < rsvd_sec_cnt b + fat_sz32 b" if "\<not> unmirrored b"
    using assms that by (auto simp: active_region_def fat_sector_lba_def active_fat_idx_def)
qed

section \<open>Pure steps of the cache\<close>

lemma sweep_loop_inv:
  assumes "P c" and hand: "\<And>c h. P c \<Longrightarrow> P (c\<lparr>fc_hand := h\<rparr>)"
    and drop: "\<And>c l cl h. P c \<Longrightarrow> l \<notin> set (fc_dirty c) \<Longrightarrow>
      P (c\<lparr>fc_sectors := hm_remove l (fc_sectors c), fc_clock := cl, fc_hand := h\<rparr>)"
  shows "P (sweep_loop t n c)"
  using assms(1)
proof (induction t n c rule: sweep_loop.induct)
  case (1 target swept c)
  define hd where "hd = (if fc_hand c \<ge> length (fc_clock c) then 0 else fc_hand c)"
  define lba where "lba = fc_clock c ! hd"
  define c1 where "c1 = c\<lparr>fc_sectors := hm_remove lba (fc_sectors c), fc_clock := swap_remove hd (fc_clock c), fc_hand := hd\<rparr>"
  have eq: "sweep_loop target swept c =
      (if length (fc_sectors c) > target \<and> fc_clock c \<noteq> [] \<and> swept < length (fc_clock c)
       then if lba \<notin> set (fc_dirty c) then sweep_loop target swept c1
            else sweep_loop target (swept + 1) (c\<lparr>fc_hand := hd + 1\<rparr>)
       else c)"
    unfolding sweep_loop.simps [of target swept c] Let_def hd_def [symmetric] lba_def [symmetric] c1_def [symmetric] ..
  show ?case unfolding eq
    using 1(1) [OF _ hd_def lba_def] 1(2) [OF _ hd_def lba_def] hand [OF 1(3)] drop [OF 1(3)] 1(3)
    by (simp add: c1_def)
qed

lemma sweep_loop_keeps:
  assumes "fc_ok b c dk"
  shows "keeps_view b (c, dk) (sweep_loop t n c, dk)" and "fc_dirty (sweep_loop t n c) = fc_dirty c"
    and "map_of (fc_sectors (sweep_loop t n c)) \<subseteq>\<^sub>m map_of (fc_sectors c)"
proof -
  have "keeps_view b (c, dk) (sweep_loop t n c, dk)
      \<and> fc_dirty (sweep_loop t n c) = fc_dirty c \<and> map_of (fc_sectors (sweep_loop t n c)) \<subseteq>\<^sub>m map_of (fc_sectors c)"
    (is "?P (sweep_loop t n c)")
  proof (rule sweep_loop_inv)
    show "?P c" using assms by (simp add: keeps_view_refl)
    show "?P (c'\<lparr>fc_hand := h\<rparr>)" if "?P c'" for c' h
      using that by (simp add: keeps_view_def)
    show "?P (c'\<lparr>fc_sectors := hm_remove l (fc_sectors c'), fc_clock := cl, fc_hand := h\<rparr>)"
      if P: "?P c'" and l: "l \<notin> set (fc_dirty c')" for c' l cl h
    proof -
      have ok: "fc_ok b c' dk" using P by (simp add: keeps_view_def)
      let ?c = "c'\<lparr>fc_sectors := hm_remove l (fc_sectors c'), fc_clock := cl, fc_hand := h\<rparr>"
      have "fc_ok b ?c dk" using ok l by (auto simp: fc_ok_def)
      moreover have "fat_view ?c dk k = fat_view c' dk k" for k
        using ok l by (auto simp: fat_view_def fc_ok_def split: option.splits)
      ultimately have "keeps_view b (c', dk) (?c, dk)" by (simp add: keeps_view_def del: fc_hand_irrelevant)
      then have "keeps_view b (c, dk) (?c, dk)" using P keeps_view_trans by blast
      moreover have "map_of (fc_sectors ?c) \<subseteq>\<^sub>m map_of (fc_sectors c)" using P by (auto simp: map_le_def)
      ultimately show ?thesis using P by (simp del: map_of_hm_remove)
    qed
  qed
  then show "keeps_view b (c, dk) (sweep_loop t n c, dk)" "fc_dirty (sweep_loop t n c) = fc_dirty c"
    "map_of (fc_sectors (sweep_loop t n c)) \<subseteq>\<^sub>m map_of (fc_sectors c)" by blast+
qed

section \<open>Device steps\<close>

lemma concat_sectors: "length xs = n \<Longrightarrow> \<forall>x\<in>set xs. length x = 512 \<Longrightarrow> i < n \<Longrightarrow> sector_of (concat xs) i = xs ! i"
proof (induction xs arbitrary: n i)
  case (Cons x xs)
  show ?case
  proof (cases i)
    case 0
    then show ?thesis using Cons.prems by (simp add: sector_of_def)
  next
    case (Suc j)
    then have "sector_of (concat xs) j = xs ! j" using Cons by simp
    then show ?thesis using Suc Cons.prems by (simp add: sector_of_def)
  qed
qed simp

lemma sector_of_one: "length b = 512 \<Longrightarrow> sector_of b 0 = b"
  by (simp add: sector_of_def)

text \<open>A mirrored copy lies behind the active FAT.\<close>

lemma mirror_outside:
  assumes "fat_layout_ok b" "fc_ok b c dk" "\<not> unmirrored b" "1 \<le> n"
  shows "{mirror_lba c n lba..<mirror_lba c n lba + cnt} \<inter> active_region b = {}"
proof -
  have "fat_sz32 b \<le> n * fat_sz32 b" using assms(4) by simp
  moreover have "mirror_lba c n lba = rsvd_sec_cnt b + n * fat_sz32 b + (lba - rsvd_sec_cnt b) mod fat_sz32 b"
    using assms(2) by (simp add: mirror_lba_def fc_ok_def)
  ultimately have "rsvd_sec_cnt b + fat_sz32 b \<le> mirror_lba c n lba" by linarith
  then show ?thesis using active_region_bound(3) [OF assms(1) _ assms(3)] by fastforce
qed

lemma mirror_bound:
  assumes "fat_layout_ok b" "fc_ok b c dk" "\<not> unmirrored b" "n < num_fats b" "0 < cnt"
    "{lba..<lba + cnt} \<subseteq> active_region b"
  shows "mirror_lba c n lba + cnt \<le> u64_max"
    and "mirror_lba c n lba = lba + n * fat_sz32 b"
proof -
  have "lba + (cnt - 1) \<in> active_region b" "lba \<in> active_region b" using assms(5,6) by auto
  then have l: "lba + (cnt - 1) < rsvd_sec_cnt b + fat_sz32 b" "rsvd_sec_cnt b \<le> lba"
    using active_region_bound [OF assms(1)] assms(3) by auto
  have "mirror_lba c n lba = rsvd_sec_cnt b + n * fat_sz32 b + (lba - rsvd_sec_cnt b) mod fat_sz32 b"
    using assms(2) by (simp add: mirror_lba_def fc_ok_def)
  moreover have "(lba - rsvd_sec_cnt b) mod fat_sz32 b = lba - rsvd_sec_cnt b" using l by simp
  ultimately show eq: "mirror_lba c n lba = lba + n * fat_sz32 b" using l by linarith
  have "Suc n * fat_sz32 b \<le> num_fats b * fat_sz32 b" using assms(4) by (intro mult_le_mono1) simp
  moreover have "rsvd_sec_cnt b + num_fats b * fat_sz32 b \<le> u64_max" using assms(1) by (simp add: fat_layout_ok_def)
  ultimately show "mirror_lba c n lba + cnt \<le> u64_max" using l assms(5) unfolding eq by simp
qed

context reliable_device
begin

lemma fat_read_spec:
  assumes "ok d" "fat_read sub d lba cnt buf = (d', r)" "0 < cnt" "length buf = 512 * cnt"
  shows "ok d'" and "disk d' = disk d" and "r = Inr b \<Longrightarrow> b = concat (map (disk d) [lba..<lba + cnt])"
proof -
  let ?r = "\<lparr>rq_lba = lba, rq_count = cnt, rq_buffer = Buf buf, rq_write = False\<rparr>"
  obtain bs res where s: "sub d [?r] = (d', bs, res)" and
    r: "r = (case res of Inl e \<Rightarrow> Inl IOError | Inr c \<Rightarrow> if \<not> all_ok c then Inl IOError else Inr (hd bs))"
    using assms(2) by (auto simp: fat_read_def split: prod.splits sum.splits if_splits)
  show "ok d'" using keeps_any [OF assms(1) _ _ s] by simp
  show "disk d' = disk d" using read_frame [OF s] by simp
  show "b = concat (map (disk d) [lba..<lba + cnt])" if "r = Inr b"
  proof -
    from that r obtain c where c: "res = Inr c" "all_ok c" "b = hd bs" by (auto split: sum.splits if_splits)
    have "bs = [concat (map (disk d) [rq_lba ?r..<rq_lba ?r + rq_count ?r])]"
      by (rule read_data [OF assms(1) s [unfolded c(1)] c(2)]) (use assms(3,4) in simp_all)
    then show ?thesis using c(3) by simp
  qed
qed

lemma fat_write_spec:
  assumes "ok d" "fat_write sub d lba cnt buf = (d', r)" "0 < cnt" "length buf = 512 * cnt" "lba + cnt \<le> u64_max"
  shows "ok d'" and "l \<notin> {lba..<lba + cnt} \<Longrightarrow> disk d' l = disk d l"
    and "r = Inr u \<Longrightarrow> i < cnt \<Longrightarrow> disk d' (lba + i) = sector_of buf i"
proof -
  let ?r = "\<lparr>rq_lba = lba, rq_count = cnt, rq_buffer = ConstBuf buf, rq_write = True\<rparr>"
  obtain bs res where s: "sub d [?r] = (d', bs, res)" and
    r: "r = (case res of Inl e \<Rightarrow> Inl IOError | Inr c \<Rightarrow> if \<not> all_ok c then Inl IOError else Inr ())"
    using assms(2) by (auto simp: fat_write_def split: prod.splits sum.splits if_splits)
  have b: "batch_ok [?r]" using assms(3-5) by (simp add: wf_write_def)
  show "ok d'" using keeps_any [OF assms(1) _ b s] by simp
  show "disk d' l = disk d l" if "l \<notin> {lba..<lba + cnt}"
    using frame [OF s] that by (simp add: written_Cons rq_range_def)
  show "disk d' (lba + i) = sector_of buf i" if "r = Inr u" "i < cnt"
  proof -
    from that r obtain c where c: "res = Inr c" "all_ok c" by (auto split: sum.splits if_splits)
    have "disk d' (rq_lba ?r + i) = sector_of (buf_bytes (rq_buffer ?r)) i"
      by (rule write_data [OF assms(1) _ b _ s [unfolded c(1)] c(2)]) (use that in \<open>simp_all add: buffered_writes_def\<close>)
    then show ?thesis by simp
  qed
qed

text \<open>Writing the mirrors leaves the active FAT alone; when all succeed each holds the data.\<close>

lemma write_mirrors_spec:
  assumes "fat_layout_ok b" "fc_ok b c dk" "\<not> unmirrored b" "0 < cnt" "length buf = 512 * cnt"
    "{lba..<lba + cnt} \<subseteq> active_region b"
  shows "ok d \<Longrightarrow> set ns \<subseteq> {1..<num_fats b} \<Longrightarrow> write_mirrors sub c d lba cnt buf ns = (d', r) \<Longrightarrow>
    ok d' \<and> (\<forall>l\<in>active_region b. disk d' l = disk d l)"
proof (induction ns arbitrary: d)
  case (Cons n ns)
  obtain d1 r1 where w: "fat_write sub d (mirror_lba c n lba) cnt buf = (d1, r1)" by fastforce
  have n: "1 \<le> n" "n < num_fats b" using Cons.prems(2) by auto
  have ok1: "ok d1" and fr: "\<And>l. l \<notin> {mirror_lba c n lba..<mirror_lba c n lba + cnt} \<Longrightarrow> disk d1 l = disk d l"
    using fat_write_spec [OF Cons.prems(1) w assms(4,5) mirror_bound(1) [OF assms(1-3) n(2) assms(4,6)]] by auto
  have same: "\<forall>l\<in>active_region b. disk d1 l = disk d l"
    using mirror_outside [OF assms(1-3) n(1), of lba cnt] fr by (metis disjoint_iff)
  show ?case
  proof (cases r1)
    case (Inl e)
    then show ?thesis using Cons.prems(3) w ok1 same by auto
  next
    case (Inr u)
    then have "write_mirrors sub c d1 lba cnt buf ns = (d', r)" using Cons.prems(3) w by simp
    from Cons.IH [OF ok1 _ this] Cons.prems(2) same show ?thesis by auto
  qed
qed simp

end

end
