(* ===== verification/Fat_Entries.thy ===== *)
theory Fat_Entries
  imports Fat_Table
begin

text \<open>
  The operations of the FAT cache keep the contents of the active FAT, and the entries of the FAT
  behave as a table: reading gives the entry, writing changes that entry only.
\<close>

section \<open>Writing back\<close>

lemma fc_okD:
  assumes "fc_ok b c dk" "map_of (fc_sectors c) l = Some s"
  shows "length s = 512" "l \<in> active_region b" "l \<notin> set (fc_dirty c) \<Longrightarrow> s = dk l"
  using assms by (auto simp: fc_ok_def)

lemma fc_ok_disk:
  assumes "fc_ok b c dk" "\<And>l s. map_of (fc_sectors c) l = Some s \<Longrightarrow> l \<notin> set (fc_dirty c) \<Longrightarrow> dk' l = dk l"
  shows "fc_ok b c dk'"
  using assms unfolding fc_ok_def by metis

text \<open>A dirty sector may be overwritten on the device.\<close>

lemma keeps_view_overwrite:
  assumes c: "fc_ok b c dk" and lba: "lba \<in> set (fc_dirty c)" and same: "\<And>l. l \<in> active_region b \<Longrightarrow> l \<noteq> lba \<Longrightarrow> dk' l = dk l"
  shows "keeps_view b (c, dk) (c, dk')"
proof -
  have cached: "map_of (fc_sectors c) lba \<noteq> None" using c lba by (simp add: fc_ok_def)
  have "fc_ok b c dk'" by (rule fc_ok_disk [OF c]) (use same lba fc_okD(2) [OF c] in metis)
  moreover have "fat_view c dk' l = fat_view c dk l" if "l \<in> active_region b" for l
    using cached same [OF that] by (cases "l = lba") (auto simp: fat_view_def split: option.splits)
  ultimately show ?thesis by (simp add: keeps_view_def)
qed

lemma keeps_view_drop:
  assumes c: "fc_ok b c dk" and lba: "map_of (fc_sectors c) lba = Some (dk' lba)"
    and same: "\<And>l. l \<in> active_region b \<Longrightarrow> l \<noteq> lba \<Longrightarrow> dk' l = dk l"
  shows "keeps_view b (c, dk) (fc_drop lba c, dk')"
proof -
  have "s = dk' l" if "map_of (fc_sectors c) l = Some s" "l \<notin> set (fc_dirty c)" "l \<noteq> lba" for l s
    using that same fc_okD [OF c that(1)] by metis
  then have "fc_ok b (fc_drop lba c) dk'"
    using c by (auto simp: fc_ok_def fc_drop_def distinct_removeAll)
  moreover have "fat_view (fc_drop lba c) dk' l = fat_view c dk l" if "l \<in> active_region b" for l
    using lba same [OF that] by (cases "l = lba") (auto simp: fat_view_def fc_drop_def split: option.splits)
  ultimately show ?thesis by (simp add: keeps_view_def)
qed

text \<open>Only dirty sectors are written back, so a failed write leaves nothing stale.\<close>

definition writable :: "fat_cache \<Rightarrow> nat \<Rightarrow> bool" where
  "writable c lba \<longleftrightarrow> lba \<in> set (fc_dirty c) \<or> map_of (fc_sectors c) lba = None"

lemma fc_drop_le: "map_of (fc_sectors (fc_drop lba c)) \<subseteq>\<^sub>m map_of (fc_sectors c)"
  by (auto simp: fc_drop_def map_le_def split: if_splits)

lemma fc_drop_writable: "writable c l \<Longrightarrow> writable (fc_drop lba c) l"
  by (auto simp: fc_drop_def writable_def)

context reliable_device
begin

lemma writeback_keeps:
  assumes lay: "fat_layout_ok b" and c: "fc_ok b c (disk d)" and d: "ok d" and lba: "writable c lba"
    and w: "writeback_and_drop sub c d lba = (d', c', r)"
  shows "ok d'" and "keeps_view b (c, disk d) (c', disk d')" and "map_of (fc_sectors c') \<subseteq>\<^sub>m map_of (fc_sectors c)"
    and "writable c l \<Longrightarrow> writable c' l"
proof -
  have "ok d' \<and> keeps_view b (c, disk d) (c', disk d') \<and> (c' = c \<or> c' = fc_drop lba c)"
  proof (cases "map_of (fc_sectors c) lba")
    case None
    then show ?thesis using w c d by (simp add: writeback_and_drop_def keeps_view_refl)
  next
    case (Some data)
    have dirty: "lba \<in> set (fc_dirty c)" using lba Some by (simp add: writable_def)
    have len: "length data = 512" and reg: "lba \<in> active_region b" using fc_okD [OF c Some] by auto
    have u: "lba + 1 \<le> u64_max" using active_region_bound(1) [OF lay reg] by simp
    obtain d1 r1 where w1: "fat_write sub d lba 1 data = (d1, r1)" by fastforce
    have ok1: "ok d1" and fr1: "\<And>l. l \<noteq> lba \<Longrightarrow> disk d1 l = disk d l"
      and dat: "\<And>v. r1 = Inr v \<Longrightarrow> disk d1 lba = data"
      using fat_write_spec [OF d w1] len u sector_of_one [OF len] by fastforce+
    obtain d2 r2 where m: "(if fc_mirrored c then write_mirrors sub c d1 lba 1 data [1..<fc_num_fats c] else (d1, Inr ())) = (d2, r2)"
      by fastforce
    have ok2: "ok d2" and fr2: "\<And>l. l \<in> active_region b \<Longrightarrow> disk d2 l = disk d1 l"
      using m ok1 write_mirrors_spec [OF lay c _ _ _ _ ok1, of 1 data lba "[1..<fc_num_fats c]" d2 r2] len reg c
      by (auto simp: fc_ok_def split: if_splits)
    have fr: "\<And>l. l \<in> active_region b \<Longrightarrow> l \<noteq> lba \<Longrightarrow> disk d2 l = disk d l" using fr1 fr2 by simp
    show ?thesis
    proof (cases r1)
      case (Inl e)
      then have "d' = d1 \<and> c' = c" using w Some w1 by (simp add: writeback_and_drop_def)
      then show ?thesis using ok1 keeps_view_overwrite [OF c dirty fr1] by simp
    next
      case r1: (Inr v)
      show ?thesis
      proof (cases r2)
        case (Inl e)
        then have "d' = d2 \<and> c' = c" using w Some w1 r1 m by (simp add: writeback_and_drop_def)
        then show ?thesis using ok2 keeps_view_overwrite [OF c dirty fr] by simp
      next
        case (Inr v2)
        then have "d' = d2 \<and> c' = fc_drop lba c" using w Some w1 r1 m by (simp add: writeback_and_drop_def)
        moreover have "map_of (fc_sectors c) lba = Some (disk d2 lba)" using Some dat [OF r1] fr2 [OF reg] by simp
        ultimately show ?thesis using ok2 keeps_view_drop [OF c _ fr] by simp
      qed
    qed
  qed
  then show "ok d'" "keeps_view b (c, disk d) (c', disk d')" "map_of (fc_sectors c') \<subseteq>\<^sub>m map_of (fc_sectors c)"
    "writable c l \<Longrightarrow> writable c' l"
    using fc_drop_le fc_drop_writable map_le_refl by blast+
qed

lemma write_batch_keeps:
  assumes lay: "fat_layout_ok b"
  shows "fc_ok b c (disk d) \<Longrightarrow> ok d \<Longrightarrow> \<forall>l\<in>set ls. writable c l \<Longrightarrow> write_batch sub c d ls = (d', c') \<Longrightarrow>
    ok d' \<and> keeps_view b (c, disk d) (c', disk d') \<and> map_of (fc_sectors c') \<subseteq>\<^sub>m map_of (fc_sectors c)"
proof (induction ls arbitrary: c d)
  case Nil
  then show ?case by (simp add: keeps_view_refl)
next
  case (Cons l ls)
  obtain d1 c1 r1 where w: "writeback_and_drop sub c d l = (d1, c1, r1)" by (cases "writeback_and_drop sub c d l")
  have lw: "writable c l" using Cons.prems(3) by simp
  note k = writeback_keeps [OF lay Cons.prems(1,2) lw w]
  have "fc_ok b c1 (disk d1)" using k(2) by (simp add: keeps_view_def)
  from Cons.IH [OF this k(1)] Cons.prems(3,4) w k(4)
  have "ok d'" "keeps_view b (c1, disk d1) (c', disk d')" "map_of (fc_sectors c') \<subseteq>\<^sub>m map_of (fc_sectors c1)" by auto
  then show ?case using k keeps_view_trans map_le_trans by blast
qed

lemma maybe_evict_keeps:
  assumes lay: "fat_layout_ok b" and c: "fc_ok b c (disk d)" and d: "ok d" and e: "fc_maybe_evict sub c d = (d', c')"
  shows "ok d'" and "keeps_view b (c, disk d) (c', disk d')" and "map_of (fc_sectors c') \<subseteq>\<^sub>m map_of (fc_sectors c)"
proof -
  define t where "t = MAX_FAT_CACHE_ENTRIES - MAX_FAT_CACHE_ENTRIES div 4"
  define c1 where "c1 = sweep_loop t 0 c"
  define batch where "batch = take (length (fc_sectors c1) - t) (filter (\<lambda>l. l \<in> set (fc_dirty c1)) (fc_clock c1))"
  obtain d2 c2 where w: "write_batch sub c1 d batch = (d2, c2)" by fastforce
  note s = sweep_loop_keeps [OF c, of t 0, folded c1_def]
  have ok1: "fc_ok b c1 (disk d)" using s(1) by (simp add: keeps_view_def)
  have "\<forall>l\<in>set batch. writable c1 l" by (auto simp: batch_def writable_def dest: in_set_takeD)
  from write_batch_keeps [OF lay ok1 d this w]
  have k: "ok d2" "keeps_view b (c1, disk d) (c2, disk d2)" "map_of (fc_sectors c2) \<subseteq>\<^sub>m map_of (fc_sectors c1)" by auto
  have "fc_ok b (c2\<lparr>fc_hand := 0\<rparr>) (disk d2)" using k(2) by (simp add: keeps_view_def)
  note s2 = sweep_loop_keeps [OF this, of t 0]
  have k2: "keeps_view b (c2, disk d2) (sweep_loop t 0 (c2\<lparr>fc_hand := 0\<rparr>), disk d2)"
    using s2(1) by (simp add: keeps_view_def)
  have "fc_maybe_evict sub c d =
      (if length (fc_sectors c) < MAX_FAT_CACHE_ENTRIES then (d, c)
       else case length (fc_sectors c1) \<le> t of True \<Rightarrow> (d, c1)
            | False \<Rightarrow> (case write_batch sub c1 d batch of (d2, c2) \<Rightarrow> (d2, sweep_loop t 0 (c2\<lparr>fc_hand := 0\<rparr>))))"
    unfolding fc_maybe_evict_def sweep_clean_def Let_def t_def [symmetric] c1_def [symmetric] batch_def [symmetric]
    by (cases "length (fc_sectors c1) \<le> t") (simp_all add: batch_def case_prod_unfold)
  with e w have "(d', c') = (d, c) \<or> (d', c') = (d, c1) \<or> (d', c') = (d2, sweep_loop t 0 (c2\<lparr>fc_hand := 0\<rparr>))"
    by (auto split: if_splits bool.splits)
  moreover have "keeps_view b (c, disk d) (sweep_loop t 0 (c2\<lparr>fc_hand := 0\<rparr>), disk d2)"
    by (rule keeps_view_trans [OF s(1)], rule keeps_view_trans [OF k(2) k2])
  moreover have "map_of (fc_sectors (sweep_loop t 0 (c2\<lparr>fc_hand := 0\<rparr>))) \<subseteq>\<^sub>m map_of (fc_sectors c)"
    using map_le_trans [OF s2(3)] map_le_trans [OF k(3) s(3)] by simp
  ultimately have "ok d' \<and> keeps_view b (c, disk d) (c', disk d') \<and> map_of (fc_sectors c') \<subseteq>\<^sub>m map_of (fc_sectors c)"
    using d s(1,3) k(1) keeps_view_refl [OF c] by (elim disjE) simp_all
  then show "ok d'" "keeps_view b (c, disk d) (c', disk d')" "map_of (fc_sectors c') \<subseteq>\<^sub>m map_of (fc_sectors c)"
    by blast+
qed

lemma get_or_read_spec:
  assumes lay: "fat_layout_ok b" and c: "fc_ok b c (disk d)" and d: "ok d" and reg: "lba \<in> active_region b"
    and g: "get_or_read sub c d lba = (d', c', r)"
  shows "ok d'" and "keeps_view b (c, disk d) (c', disk d')"
    and "r = Inr s \<Longrightarrow> s = fat_view c (disk d) lba \<and> map_of (fc_sectors c') lba = Some s"
proof -
  have "ok d' \<and> keeps_view b (c, disk d) (c', disk d') \<and>
    (\<forall>s. r = Inr s \<longrightarrow> s = fat_view c (disk d) lba \<and> map_of (fc_sectors c') lba = Some s)"
  proof (cases "map_of (fc_sectors c) lba")
    case (Some s)
    then show ?thesis using g c d by (auto simp: get_or_read_def keeps_view_refl fat_view_def)
  next
    case None
    obtain d1 r1 where rd: "fat_read sub d lba 1 (replicate 512 0) = (d1, r1)" by fastforce
    note sp = fat_read_spec [OF d rd]
    have d1: "ok d1" "disk d1 = disk d" using sp(1,2) by simp_all
    show ?thesis
    proof (cases r1)
      case (Inl e)
      then show ?thesis using g None rd d1 c by (auto simp: get_or_read_def keeps_view_refl)
    next
      case (Inr buf)
      have buf: "buf = disk d lba" using sp(3) [OF _ _ Inr] by simp
      obtain d2 c2 where ev: "fc_maybe_evict sub c d1 = (d2, c2)" by fastforce
      note k = maybe_evict_keeps [OF lay c [folded d1(2)] d1(1) ev]
      let ?c = "c2\<lparr>fc_sectors := hm_insert lba buf (fc_sectors c2), fc_clock := fc_clock c2 @ [lba]\<rparr>"
      have eq: "d' = d2" "c' = ?c" "r = Inr buf" using g None rd Inr ev by (auto simp: get_or_read_def)
      have none: "map_of (fc_sectors c2) lba = None" using k(3) None by (metis map_le_def domIff)
      have "fat_view c2 (disk d2) lba = fat_view c (disk d1) lba" using k(2) reg by (simp add: keeps_view_def)
      then have same: "disk d2 lba = buf" using none None buf d1(2) by (simp add: fat_view_def)
      have ok2: "fc_ok b c2 (disk d2)" using k(2) by (simp add: keeps_view_def)
      have len: "length buf = 512" using sector_len [OF d] buf by simp
      have "fc_ok b ?c (disk d2)" using ok2 reg len same by (auto simp: fc_ok_def)
      moreover have "fat_view ?c (disk d2) l = fat_view c2 (disk d2) l" for l
        using none same by (simp add: fat_view_def)
      ultimately have "keeps_view b (c2, disk d2) (?c, disk d2)" by (simp add: keeps_view_def)
      from keeps_view_trans [OF k(2) this] have "keeps_view b (c, disk d) (?c, disk d2)" by (simp add: d1(2))
      then show ?thesis using eq k(1) None buf by (simp add: fat_view_def)
    qed
  qed
  then show "ok d'" "keeps_view b (c, disk d) (c', disk d')"
    "r = Inr s \<Longrightarrow> s = fat_view c (disk d) lba \<and> map_of (fc_sectors c') lba = Some s" by blast+
qed

text \<open>\<open>get_or_read_mut\<close> followed by the assignment of new contents.\<close>

lemma get_or_read_mut_spec:
  assumes lay: "fat_layout_ok b" and c: "fc_ok b c (disk d)" and d: "ok d" and reg: "lba \<in> active_region b"
    and g: "get_or_read_mut sub c d lba = (d', c', r)"
  shows "ok d'" and "r = Inl e \<Longrightarrow> keeps_view b (c, disk d) (c', disk d')"
    and "r = Inr s \<Longrightarrow> s = fat_view c (disk d) lba"
    and "r = Inr s \<Longrightarrow> length s' = 512 \<Longrightarrow> fc_ok b (c'\<lparr>fc_sectors := hm_insert lba s' (fc_sectors c')\<rparr>) (disk d')"
    and "r = Inr s \<Longrightarrow> l \<in> active_region b \<Longrightarrow>
      fat_view (c'\<lparr>fc_sectors := hm_insert lba s' (fc_sectors c')\<rparr>) (disk d') l = (if l = lba then s' else fat_view c (disk d) l)"
proof -
  obtain c1 where g1: "get_or_read sub c d lba = (d', c1, r)"
    and c': "c' = (case r of Inl e \<Rightarrow> c1 | Inr s \<Rightarrow> mark_dirty lba c1)"
    using g by (auto simp: get_or_read_mut_def split: prod.splits sum.splits)
  note k = get_or_read_spec [OF lay c d reg g1]
  show "ok d'" by (rule k(1))
  show "r = Inl e \<Longrightarrow> keeps_view b (c, disk d) (c', disk d')" using k(2) c' by simp
  show "r = Inr s \<Longrightarrow> s = fat_view c (disk d) lba" using k(3) by blast
  have ok1: "fc_ok b c1 (disk d')" using k(2) by (simp add: keeps_view_def)
  show "fc_ok b (c'\<lparr>fc_sectors := hm_insert lba s' (fc_sectors c')\<rparr>) (disk d')" if "r = Inr s" "length s' = 512"
    using ok1 that reg c' by (auto simp: fc_ok_def mark_dirty_def)
  show "fat_view (c'\<lparr>fc_sectors := hm_insert lba s' (fc_sectors c')\<rparr>) (disk d') l = (if l = lba then s' else fat_view c (disk d) l)"
    if "r = Inr s" "l \<in> active_region b"
    using k(2) that c' by (auto simp: keeps_view_def fat_view_def mark_dirty_def)
qed

end

section \<open>The FAT as a table\<close>

definition entry_lba :: "bpb \<Rightarrow> nat \<Rightarrow> nat" where
  "entry_lba b c = fat_sector_lba b (active_fat_idx b) (c * 4 div 512)"

definition fat_entry :: "('d \<Rightarrow> nat \<Rightarrow> u8 list) \<Rightarrow> 'd fat_sb \<Rightarrow> nat \<Rightarrow> nat" where
  "fat_entry dk sb c =
     le_field (c * 4 mod 512) 4 (fat_view (fs_cache sb) (dk (fs_dev sb)) (entry_lba (fs_bpb sb) c)) mod 0x10000000"

definition valid_clus :: "bpb \<Rightarrow> nat \<Rightarrow> bool" where
  "valid_clus b c \<longleftrightarrow> 2 \<le> c \<and> c < 2 + total_clus b"

definition sb_ok :: "('d \<Rightarrow> nat \<Rightarrow> u8 list) \<Rightarrow> ('d \<Rightarrow> bool) \<Rightarrow> 'd fat_sb \<Rightarrow> bool" where
  "sb_ok dk dev_ok sb \<longleftrightarrow> fat_layout_ok (fs_bpb sb) \<and> dev_ok (fs_dev sb) \<and> fc_ok (fs_bpb sb) (fs_cache sb) (dk (fs_dev sb))"

text \<open>Only the device and the FAT cache change.\<close>

definition fat_step :: "'d fat_sb \<Rightarrow> 'd fat_sb \<Rightarrow> bool" where
  "fat_step sb sb' \<longleftrightarrow> sb' = sb\<lparr>fs_dev := fs_dev sb', fs_cache := fs_cache sb'\<rparr>"

lemma fat_step_iff:
  "fat_step sb sb' \<longleftrightarrow> fs_bpb sb' = fs_bpb sb \<and> fs_next_ino sb' = fs_next_ino sb \<and> fs_ino_map sb' = fs_ino_map sb
     \<and> fs_chain_cache sb' = fs_chain_cache sb \<and> fs_bitmap sb' = fs_bitmap sb \<and> fs_hint sb' = fs_hint sb
     \<and> fs_free sb' = fs_free sb \<and> fs_vol_dirty sb' = fs_vol_dirty sb"
  by (cases sb; cases sb') (auto simp: fat_step_def)

lemma fat_step_refl [simp]: "fat_step sb sb"
  by (simp add: fat_step_def)

lemma fat_step_upd [simp]: "fat_step sb (sb\<lparr>fs_dev := d, fs_cache := c\<rparr>)"
  by (simp add: fat_step_def)

lemma fat_stepD:
  assumes "fat_step sb sb'"
  shows "fs_bpb sb' = fs_bpb sb" "fs_bitmap sb' = fs_bitmap sb" "fs_hint sb' = fs_hint sb" "fs_free sb' = fs_free sb"
    "fs_chain_cache sb' = fs_chain_cache sb"
  by (use assms in \<open>simp_all add: fat_step_iff\<close>)

lemma fat_step_trans: "fat_step a b \<Longrightarrow> fat_step b c \<Longrightarrow> fat_step a c"
  by (simp add: fat_step_iff)

lemma entry_lba_region:
  assumes "fat_layout_ok b" "valid_clus b c"
  shows "entry_lba b c \<in> active_region b"
proof -
  have "c * 4 < fat_sz32 b * 512" using assms by (auto simp: fat_layout_ok_def valid_clus_def)
  then have "c * 4 div 512 < fat_sz32 b" by (simp add: less_mult_imp_div_less)
  then show ?thesis by (simp add: entry_lba_def active_region_def fat_sector_lba_def)
qed

lemma fat_entry_position_eq:
  assumes "fat_layout_ok b"
  shows "fat_entry_position b c = (if valid_clus b c then Inr (c * 4 div 512, c * 4 mod 512) else Inl InvalidInput)"
  using assms by (auto simp: fat_entry_position_def valid_clus_def fat_layout_ok_def)

text \<open>Two different clusters have different entries: another sector or another place in it.\<close>

lemma entry_offset: "c * 4 mod 512 + 4 \<le> (512::nat)"
proof -
  have "c * 4 mod 512 = c mod 128 * 4" using mod_mult_mult2 [of c 4 128] by simp
  moreover have "c mod 128 < 128" by simp
  ultimately show ?thesis by linarith
qed

lemma entries_disjoint:
  assumes "entry_lba b c = entry_lba b c'" "c \<noteq> c'"
  shows "c' * 4 mod 512 + 4 \<le> c * 4 mod 512 \<or> c * 4 mod 512 + 4 \<le> c' * 4 mod 512"
proof -
  have q: "c * 4 div 512 = c' * 4 div 512" using assms(1) by (simp add: entry_lba_def fat_sector_lba_def)
  have "c * 4 mod 512 = c mod 128 * 4" "c' * 4 mod 512 = c' mod 128 * 4"
    using mod_mult_mult2 [of c 4 128] mod_mult_mult2 [of c' 4 128] by simp_all
  moreover have "c mod 128 \<noteq> c' mod 128"
  proof
    assume "c mod 128 = c' mod 128"
    moreover have "c div 128 = c' div 128" using q div_mult_mult2 [of 4 c 128] div_mult_mult2 [of 4 c' 128] by simp
    ultimately show False using assms(2) by (metis div_mult_mod_eq)
  qed
  ultimately show ?thesis by linarith
qed

lemma fat_view_length:
  assumes "fc_ok b c dk" "\<And>l. length (dk l) = 512"
  shows "length (fat_view c dk l) = 512"
  using assms by (auto simp: fat_view_def fc_ok_def split: option.splits)

context reliable_device
begin

lemma read_fat_entry_spec:
  assumes ok: "sb_ok disk ok sb" and r: "read_fat_entry sub sb c = (sb', res)"
  shows "sb_ok disk ok sb'" and "valid_clus (fs_bpb sb) k \<Longrightarrow> fat_entry disk sb' k = fat_entry disk sb k"
    and "fat_step sb sb'"
    and "res = Inr v \<Longrightarrow> valid_clus (fs_bpb sb) c \<and> v = fat_entry disk sb c"
    and "res = Inl e \<Longrightarrow> e \<noteq> NoSpace"
proof -
  let ?b = "fs_bpb sb"
  have lay: "fat_layout_ok ?b" and d: "ok (fs_dev sb)" and c: "fc_ok ?b (fs_cache sb) (disk (fs_dev sb))"
    using ok by (auto simp: sb_ok_def)
  have "sb_ok disk ok sb' \<and> (\<forall>k. valid_clus ?b k \<longrightarrow> fat_entry disk sb' k = fat_entry disk sb k)
      \<and> fat_step sb sb'
      \<and> (\<forall>v. res = Inr v \<longrightarrow> valid_clus ?b c \<and> v = fat_entry disk sb c) \<and> (\<forall>e. res = Inl e \<longrightarrow> e \<noteq> NoSpace)"
  proof (cases "valid_clus ?b c")
    case False
    then show ?thesis using r ok by (auto simp: read_fat_entry_def fat_entry_position_eq [OF lay])
  next
    case True
    note reg = entry_lba_region [OF lay True]
    obtain d' c' g where gr: "get_or_read sub (fs_cache sb) (fs_dev sb) (entry_lba ?b c) = (d', c', g)"
      by (cases "get_or_read sub (fs_cache sb) (fs_dev sb) (entry_lba ?b c)")
    note k = get_or_read_spec [OF lay c d reg gr]
    have sb': "sb' = sb\<lparr>fs_dev := d', fs_cache := c'\<rparr>"
      and res: "res = (case g of Inl e \<Rightarrow> Inl e | Inr s \<Rightarrow> Inr (le_field (c * 4 mod 512) 4 s mod 0x10000000))"
      using r gr True by (auto simp: read_fat_entry_def fat_entry_position_eq [OF lay] entry_lba_def Let_def)
    have "\<forall>e. g = Inl e \<longrightarrow> e \<noteq> NoSpace"
      using gr by (auto simp: get_or_read_def fat_read_def split: option.splits prod.splits sum.splits if_splits)
    then show ?thesis
      using k sb' res lay entry_lba_region [OF lay] True
      by (auto simp: sb_ok_def keeps_view_def fat_entry_def split: sum.splits)
  qed
  then show "sb_ok disk ok sb'" "valid_clus (fs_bpb sb) k \<Longrightarrow> fat_entry disk sb' k = fat_entry disk sb k"
    "fat_step sb sb'"
    "res = Inr v \<Longrightarrow> valid_clus (fs_bpb sb) c \<and> v = fat_entry disk sb c" "res = Inl e \<Longrightarrow> e \<noteq> NoSpace" by blast+
qed

lemma write_fat_entry_spec:
  assumes ok: "sb_ok disk ok sb" and r: "write_fat_entry sub sb c v = (sb', res)" and v: "v < 0x10000000"
  shows "sb_ok disk ok sb'" and "fat_step sb sb'"
    and "res = Inr u \<Longrightarrow> valid_clus (fs_bpb sb) k \<Longrightarrow> fat_entry disk sb' k = (if k = c then v else fat_entry disk sb k)"
    and "res = Inr u \<Longrightarrow> valid_clus (fs_bpb sb) c"
    and "res = Inl e \<Longrightarrow> valid_clus (fs_bpb sb) k \<Longrightarrow> fat_entry disk sb' k = fat_entry disk sb k"
    and "res = Inl e \<Longrightarrow> e \<noteq> NoSpace"
proof -
  let ?b = "fs_bpb sb"
  have lay: "fat_layout_ok ?b" and d: "ok (fs_dev sb)" and c: "fc_ok ?b (fs_cache sb) (disk (fs_dev sb))"
    using ok by (auto simp: sb_ok_def)
  have "sb_ok disk ok sb' \<and> fat_step sb sb'
      \<and> (\<forall>u k. res = Inr u \<longrightarrow> valid_clus ?b k \<longrightarrow> fat_entry disk sb' k = (if k = c then v else fat_entry disk sb k))
      \<and> (\<forall>u. res = Inr u \<longrightarrow> valid_clus ?b c)
      \<and> (\<forall>e k. res = Inl e \<longrightarrow> valid_clus ?b k \<longrightarrow> fat_entry disk sb' k = fat_entry disk sb k)
      \<and> (\<forall>e. res = Inl e \<longrightarrow> e \<noteq> NoSpace)"
  proof (cases "valid_clus ?b c")
    case False
    then show ?thesis using r ok by (auto simp: write_fat_entry_def fat_entry_position_eq [OF lay])
  next
    case True
    note reg = entry_lba_region [OF lay True]
    obtain d' c' g where gr: "get_or_read_mut sub (fs_cache sb) (fs_dev sb) (entry_lba ?b c) = (d', c', g)"
      by (cases "get_or_read_mut sub (fs_cache sb) (fs_dev sb) (entry_lba ?b c)")
    note k = get_or_read_mut_spec [OF lay c d reg gr]
    have ne: "\<forall>e. g = Inl e \<longrightarrow> e \<noteq> NoSpace"
      using gr by (auto simp: get_or_read_mut_def get_or_read_def fat_read_def split: option.splits prod.splits sum.splits if_splits)
    show ?thesis
    proof (cases g)
      case (Inl e)
      then have "sb' = sb\<lparr>fs_dev := d', fs_cache := c'\<rparr> \<and> res = Inl e"
        using r gr True by (auto simp: write_fat_entry_def fat_entry_position_eq [OF lay] entry_lba_def Let_def)
      then show ?thesis using k(1) k(2) [OF Inl] lay entry_lba_region [OF lay] ne Inl
        by (auto simp: sb_ok_def keeps_view_def fat_entry_def)
    next
      case (Inr s)
      define s' where "s' = put_field (c * 4 mod 512) (le_bytes 4 (v mod 0x10000000)) s"
      have sb': "sb' = sb\<lparr>fs_dev := d', fs_cache := c'\<lparr>fc_sectors := hm_insert (entry_lba ?b c) s' (fc_sectors c')\<rparr>\<rparr>"
        and res: "res = Inr ()"
        using r gr True Inr by (auto simp: write_fat_entry_def fat_entry_position_eq [OF lay] entry_lba_def Let_def s'_def)
      have s: "s = fat_view (fs_cache sb) (disk (fs_dev sb)) (entry_lba ?b c)" using k(3) [OF Inr] .
      have len: "length s = 512" unfolding s by (rule fat_view_length [OF c]) (rule sector_len [OF d])
      then have len': "length s' = 512" using entry_offset [of c] by (simp add: s'_def)
      have same: "le_field (c * 4 mod 512) 4 s' mod 0x10000000 = v"
        using field_put_same [of "c * 4 mod 512" "le_bytes 4 v" s] len entry_offset [of c] v
        by (simp add: s'_def le_field_def le_nat_le_bytes)
      have other: "le_field (k * 4 mod 512) 4 s' = le_field (k * 4 mod 512) 4 s"
        if "entry_lba ?b k = entry_lba ?b c" "k \<noteq> c" for k
        using field_put_other [of "c * 4 mod 512" "le_bytes 4 (v mod 0x10000000)" s "k * 4 mod 512" 4]
          entries_disjoint [OF that] len entry_offset [of c] by (auto simp: s'_def le_field_def)
      have "fat_entry disk sb' k = (if k = c then v else fat_entry disk sb k)" if "valid_clus ?b k" for k
        using k(5) [OF Inr entry_lba_region [OF lay that], of s'] same other [of k] s
        by (auto simp: sb' fat_entry_def)
      moreover have "sb_ok disk ok sb'" using k(1) k(4) [OF Inr len'] lay by (simp add: sb' sb_ok_def)
      ultimately show ?thesis using sb' res True by simp
    qed
  qed
  then show "sb_ok disk ok sb'" "fat_step sb sb'"
    "res = Inr u \<Longrightarrow> valid_clus (fs_bpb sb) k \<Longrightarrow> fat_entry disk sb' k = (if k = c then v else fat_entry disk sb k)"
    "res = Inr u \<Longrightarrow> valid_clus (fs_bpb sb) c"
    "res = Inl e \<Longrightarrow> valid_clus (fs_bpb sb) k \<Longrightarrow> fat_entry disk sb' k = fat_entry disk sb k"
    "res = Inl e \<Longrightarrow> e \<noteq> NoSpace" by blast+
qed

end

end
