(* ===== verification/Fat_Alloc.thy ===== *)
theory Fat_Alloc
  imports Fat_Entries
begin

text \<open>
  Allocation and release of clusters: the bitmap agrees with the FAT, an allocation hands out distinct
  free clusters and marks exactly those, and on a volume with a bitmap, or
  of at most 2^31 clusters, it only reports a full volume when there are not enough free clusters.
\<close>

section \<open>Bitmaps\<close>

definition bitmap_len :: "nat \<Rightarrow> u64 list \<Rightarrow> bool" where
  "bitmap_len n ws \<longleftrightarrow> length ws = (n + 63) div 64"

lemma bitmap_word: "bitmap_len n ws \<Longrightarrow> i < n \<Longrightarrow> i div 64 < length ws"
  unfolding bitmap_len_def by linarith

lemma bmp_test_bit: "bmp_test ws i \<longleftrightarrow> bit (ws ! (i div 64)) (i mod 64)"
proof -
  have "w AND push_bit k 1 \<noteq> 0 \<longleftrightarrow> bit w k" if "k < 64" for w :: u64 and k
    using that by (auto simp: word64_eq_0_iff bit_and_iff bit_two_power)
  then show ?thesis by (simp add: bmp_test_def)
qed

lemma bitmap_len_set [simp]: "bitmap_len n (bmp_set i ws) = bitmap_len n ws"
  "bitmap_len n (bmp_clear i ws) = bitmap_len n ws"
  by (simp_all add: bitmap_len_def bmp_set_def bmp_clear_def)

lemma same_bit: "(i::nat) div 64 = j div 64 \<Longrightarrow> i mod 64 = j mod 64 \<Longrightarrow> i = j"
  by (metis div_mult_mod_eq)

lemma bmp_test_upd:
  assumes "bitmap_len n ws" "i < n" "j div 64 = i div 64"
  shows "bmp_test (ws[i div 64 := w]) j \<longleftrightarrow> bit w (j mod 64)"
  using bitmap_word [OF assms(1,2)] assms(3) unfolding bmp_test_bit by simp

lemma bmp_test_upd_other: "j div 64 \<noteq> i div 64 \<Longrightarrow> bmp_test (ws[i div 64 := w]) j \<longleftrightarrow> bmp_test ws j"
  unfolding bmp_test_def by simp

lemma bmp_test_set:
  assumes "bitmap_len n ws" "i < n"
  shows "bmp_test (bmp_set i ws) j \<longleftrightarrow> j = i \<or> bmp_test ws j"
proof (cases "j div 64 = i div 64")
  case True
  have "bmp_test (bmp_set i ws) j \<longleftrightarrow> bit (ws ! (i div 64)) (j mod 64) \<or> j mod 64 = i mod 64"
    unfolding bmp_set_def bmp_test_upd [OF assms True] bit_or_iff bit_one_shl by auto
  then show ?thesis using same_bit [OF True] True unfolding bmp_test_bit by metis
next
  case False
  then show ?thesis unfolding bmp_set_def bmp_test_upd_other [OF False] by auto
qed

lemma bmp_test_clear:
  assumes "bitmap_len n ws" "i < n"
  shows "bmp_test (bmp_clear i ws) j \<longleftrightarrow> j \<noteq> i \<and> bmp_test ws j"
proof (cases "j div 64 = i div 64")
  case True
  have "bmp_test (bmp_clear i ws) j \<longleftrightarrow> bit (ws ! (i div 64)) (j mod 64) \<and> j mod 64 \<noteq> i mod 64"
    unfolding bmp_clear_def bmp_test_upd [OF assms True] bit_and_iff bit_word_not bit_one_shl by auto
  then show ?thesis using same_bit [OF True] True unfolding bmp_test_bit by metis
next
  case False
  then show ?thesis unfolding bmp_clear_def bmp_test_upd_other [OF False] by auto
qed

lemma fold_bmp_set:
  "bitmap_len n ws \<Longrightarrow> \<forall>i\<in>set is. i < n \<Longrightarrow>
   bitmap_len n (fold bmp_set is ws) \<and> (\<forall>j<n. bmp_test (fold bmp_set is ws) j \<longleftrightarrow> j \<in> set is \<or> bmp_test ws j)"
  by (induction "is" arbitrary: ws) (simp_all add: bmp_test_set, blast)

lemma fold_bmp_clear:
  "bitmap_len n ws \<Longrightarrow> \<forall>i\<in>set is. i < n \<Longrightarrow>
   bitmap_len n (fold bmp_clear is ws) \<and> (\<forall>j<n. bmp_test (fold bmp_clear is ws) j \<longleftrightarrow> j \<notin> set is \<and> bmp_test ws j)"
  by (induction "is" arbitrary: ws) (simp_all add: bmp_test_clear, blast)

section \<open>Rotated indices\<close>

lemma rotate_inj:
  assumes "(s + a) mod n = (s + b) mod n" "a < n" "b < (n::nat)"
  shows "a = b"
proof -
  have "b \<le> a" if eq: "(s + a) mod n = (s + b) mod n" and lt: "b < n" for a b
  proof (rule ccontr)
    assume "\<not> b \<le> a"
    then have "n dvd (s + b) - (s + a)" using eq mod_eq_dvd_iff_nat [of "s + a" "s + b" n] by simp
    then have "n dvd b - a" by simp
    then show False using lt \<open>\<not> b \<le> a\<close> by (auto dest: dvd_imp_le)
  qed
  from this [OF assms(1,3)] this [OF assms(1) [symmetric] assms(2)] show ?thesis by simp
qed

lemma rotate_distinct: "cnt \<le> n \<Longrightarrow> distinct (map (\<lambda>k. (s + k) mod n) [0..<cnt])"
  by (auto simp: distinct_map inj_on_def intro: rotate_inj)

lemma rotate_all: "0 < n \<Longrightarrow> set (map (\<lambda>k. (s + k) mod n) [0..<n]) = {..<n}"
proof (rule card_subset_eq)
  assume "0 < n"
  then show "set (map (\<lambda>k. (s + k) mod n) [0..<n]) \<subseteq> {..<n}" by auto
  show "card (set (map (\<lambda>k. (s + k) mod n) [0..<n])) = card {..<n}"
    using distinct_card [OF rotate_distinct [of n n s]] by simp
qed simp

lemma run_indices_spec:
  assumes "cnt \<le> n" "s < n"
  shows "length (run_indices n cnt s) = cnt" "distinct (run_indices n cnt s)" "\<forall>i\<in>set (run_indices n cnt s). i < n"
  using assms rotate_distinct [OF assms(1), of s] by (auto simp: run_indices_def distinct_map inj_on_def)

lemma find_contig_spec:
  assumes "cnt \<le> n" "0 < n"
  shows "find_contig ws n cnt start offs = Some run \<Longrightarrow>
    length run = cnt \<and> distinct run \<and> (\<forall>i\<in>set run. i < n \<and> \<not> bmp_test ws i)"
proof (induction offs)
  case (Cons off offs)
  let ?run = "run_indices n cnt ((start + off) mod n)"
  have "(start + off) mod n < n" using assms(2) by simp
  from run_indices_spec [OF assms(1) this] Cons show ?case
    by (auto simp: Let_def list_all_iff split: if_splits)
qed simp

text \<open>Gathering takes the first free bits in rotated order.\<close>

lemma gather_free_eq:
  assumes "0 < n"
  shows "bitmap_len n ws \<Longrightarrow> distinct (map (\<lambda>off. (start + off) mod n) offs) \<Longrightarrow>
    gather_free ws n cnt start cands offs =
      (let new = take (cnt - length cands) (filter (\<lambda>i. \<not> bmp_test ws i) (map (\<lambda>off. (start + off) mod n) offs))
       in (fold bmp_set new ws, cands @ new))"
proof (induction offs arbitrary: ws cands)
  case (Cons off offs)
  let ?i = "(start + off) mod n" and ?l = "map (\<lambda>off. (start + off) mod n) offs"
  have i: "?i < n" using assms by simp
  have notin: "?i \<notin> set ?l" using Cons.prems(2) by simp
  have "filter (\<lambda>i. \<not> bmp_test (bmp_set ?i ws) i) ?l = filter (\<lambda>i. \<not> bmp_test ws i) ?l"
  proof (rule filter_cong [OF refl])
    fix x assume x: "x \<in> set ?l"
    have "x < n" using x assms by auto
    moreover have "x \<noteq> ?i" using x notin by blast
    ultimately show "(\<not> bmp_test (bmp_set ?i ws) x) = (\<not> bmp_test ws x)" using bmp_test_set [OF Cons.prems(1) i] by blast
  qed
  moreover have "cnt - length cands = Suc (cnt - Suc (length cands))" if "\<not> cnt \<le> length cands" using that by simp
  ultimately show ?case
    using Cons.IH [of ws cands] Cons.IH [of "bmp_set ?i ws" "cands @ [?i]"] Cons.prems by (simp add: Let_def)
qed simp

definition free_bits :: "nat \<Rightarrow> u64 list \<Rightarrow> nat set" where
  "free_bits n ws = {i. i < n \<and> \<not> bmp_test ws i}"

lemma reserve_bits_spec:
  assumes ws: "bitmap_len n ws" and n: "0 < n" and r: "reserve_bits ws n cnt hint = (ws', res)"
  shows "bitmap_len n ws'"
    and "res = Inr run \<Longrightarrow> length run = cnt \<and> distinct run \<and> set run \<subseteq> free_bits n ws
      \<and> (\<forall>j<n. bmp_test ws' j \<longleftrightarrow> j \<in> set run \<or> bmp_test ws j)"
    and "res = Inl e \<Longrightarrow> e = NoSpace \<and> card (free_bits n ws) < cnt \<and> (\<forall>j<n. bmp_test ws' j \<longleftrightarrow> bmp_test ws j)"
proof -
  define start where "start = (hint - 2) mod n"
  have "bitmap_len n ws' \<and> (\<forall>run. res = Inr run \<longrightarrow> length run = cnt \<and> distinct run \<and> set run \<subseteq> free_bits n ws
      \<and> (\<forall>j<n. bmp_test ws' j \<longleftrightarrow> j \<in> set run \<or> bmp_test ws j))
    \<and> (\<forall>e. res = Inl e \<longrightarrow> e = NoSpace \<and> card (free_bits n ws) < cnt \<and> (\<forall>j<n. bmp_test ws' j \<longleftrightarrow> bmp_test ws j))"
  proof (cases "if cnt \<le> n then find_contig ws n cnt start [0..<n] else None")
    case (Some run)
    then have "cnt \<le> n" "find_contig ws n cnt start [0..<n] = Some run" by (auto split: if_splits)
    note run = find_contig_spec [OF this(1) n this(2)]
    have "ws' = fold bmp_set run ws" "res = Inr run"
      using r [unfolded reserve_bits_def Let_def, folded start_def, unfolded Some] run by auto
    then show ?thesis using run fold_bmp_set [OF ws] by (auto simp: free_bits_def)
  next
    case None
    define all where "all = filter (\<lambda>i. \<not> bmp_test ws i) (map (\<lambda>off. (start + off) mod n) [0..<n])"
    define new where "new = take cnt all"
    have dist: "distinct (map (\<lambda>off. (start + off) mod n) [0..<n])" by (rule rotate_distinct) simp
    have set_all: "set all = free_bits n ws" using rotate_all [OF n, of start] by (auto simp: all_def free_bits_def)
    have dall: "distinct all" unfolding all_def by (rule distinct_filter [OF dist])
    have card: "card (free_bits n ws) = length all" using distinct_card [OF dall] set_all by simp
    have g: "gather_free ws n cnt start [] [0..<n] = (fold bmp_set new ws, new)"
      using gather_free_eq [OF n ws dist, of cnt "[]"] by (simp add: new_def all_def Let_def)
    have res: "(ws', res) = (if length new < cnt then (fold bmp_clear new (fold bmp_set new ws), Inl NoSpace) else (fold bmp_set new ws, Inr new))"
      using r [unfolded reserve_bits_def Let_def, folded start_def, unfolded None] g by simp
    have sub: "set new \<subseteq> free_bits n ws" "distinct new" "length new = min (length all) cnt"
      using set_all dall by (auto simp: new_def dest: in_set_takeD)
    have lt: "\<forall>i\<in>set new. i < n" using sub(1) by (auto simp: free_bits_def)
    note fs = fold_bmp_set [OF ws lt]
    note fc = fold_bmp_clear [OF conjunct1 [OF fs] lt]
    show ?thesis using res fs fc sub card by (auto simp: free_bits_def split: if_splits)
  qed
  then show "bitmap_len n ws'" "res = Inr run \<Longrightarrow> length run = cnt \<and> distinct run \<and> set run \<subseteq> free_bits n ws
      \<and> (\<forall>j<n. bmp_test ws' j \<longleftrightarrow> j \<in> set run \<or> bmp_test ws j)"
    "res = Inl e \<Longrightarrow> e = NoSpace \<and> card (free_bits n ws) < cnt \<and> (\<forall>j<n. bmp_test ws' j \<longleftrightarrow> bmp_test ws j)" by blast+
qed

end
