(* ===== verification/Fat_Alloc_Props.thy ===== *)
theory Fat_Alloc_Props
  imports Fat_Alloc
begin

text \<open>Allocation and release of clusters on a mounted volume.\<close>

definition free_clusters :: "('d \<Rightarrow> nat \<Rightarrow> u8 list) \<Rightarrow> 'd fat_sb \<Rightarrow> nat set" where
  "free_clusters dk sb = {c. valid_clus (fs_bpb sb) c \<and> fat_entry dk sb c = FREE_CLUSTER}"

text \<open>The bitmap, when there is one, marks exactly the clusters in use; the counter counts the others.\<close>

definition bitmap_sync :: "('d \<Rightarrow> nat \<Rightarrow> u8 list) \<Rightarrow> 'd fat_sb \<Rightarrow> bool" where
  "bitmap_sync dk sb \<longleftrightarrow>
     (\<forall>ws. fs_bitmap sb = Some ws \<longrightarrow> bitmap_len (total_clus (fs_bpb sb)) ws
        \<and> (\<forall>i<total_clus (fs_bpb sb). bmp_test ws i \<longleftrightarrow> fat_entry dk sb (2 + i) \<noteq> FREE_CLUSTER))"

definition vol_ok :: "('d \<Rightarrow> nat \<Rightarrow> u8 list) \<Rightarrow> ('d \<Rightarrow> bool) \<Rightarrow> 'd fat_sb \<Rightarrow> bool" where
  "vol_ok dk dev_ok sb \<longleftrightarrow> sb_ok dk dev_ok sb \<and> bitmap_sync dk sb \<and> 2 \<le> fs_hint sb \<and> fs_hint sb \<le> total_clus (fs_bpb sb) + 2
     \<and> total_clus (fs_bpb sb) + 2 < 2 ^ 32 \<and> fs_free sb = card (free_clusters dk sb)"

lemma finite_free [simp]: "finite (free_clusters dk sb)"
  by (rule finite_subset [of _ "{..<2 + total_clus (fs_bpb sb)}"]) (auto simp: free_clusters_def valid_clus_def)

lemma free_bits_clusters:
  assumes "bitmap_sync dk sb" "fs_bitmap sb = Some ws"
  shows "free_clusters dk sb = (\<lambda>i. 2 + i) ` free_bits (total_clus (fs_bpb sb)) ws"
proof (intro equalityI subsetI)
  fix c assume c: "c \<in> free_clusters dk sb"
  then have "2 \<le> c" by (simp add: free_clusters_def valid_clus_def)
  then obtain i where i: "c = 2 + i" by (auto dest: le_Suc_ex)
  then have "i \<in> free_bits (total_clus (fs_bpb sb)) ws"
    using c assms by (auto simp: free_clusters_def valid_clus_def bitmap_sync_def free_bits_def)
  with i show "c \<in> (\<lambda>i. 2 + i) ` free_bits (total_clus (fs_bpb sb)) ws" by blast
qed (use assms in \<open>auto simp: free_clusters_def valid_clus_def bitmap_sync_def free_bits_def\<close>)

lemma free_sub_exact: "cnt \<le> free \<Longrightarrow> free < 2 ^ 32 \<Longrightarrow> free_sub free cnt = free - cnt"
proof -
  assume a: "cnt \<le> free" "free < 2 ^ 32"
  then have "free + (2 ^ 32 - cnt mod 2 ^ 32) = (free - cnt) + 2 ^ 32" by simp
  then have "free_sub free cnt = (free - cnt) mod 2 ^ 32" unfolding free_sub_def by (simp only: mod_add_self2)
  then show ?thesis using a by simp
qed

text \<open>What an allocation of \<open>cs\<close> makes of the table.\<close>

definition takes :: "('d \<Rightarrow> nat \<Rightarrow> u8 list) \<Rightarrow> 'd fat_sb \<Rightarrow> 'd fat_sb \<Rightarrow> nat list \<Rightarrow> bool" where
  "takes dk sb sb' cs \<longleftrightarrow> (\<forall>c. valid_clus (fs_bpb sb) c \<longrightarrow>
     fat_entry dk sb' c = (if c \<in> set cs then EOC_MARKER else fat_entry dk sb c))"

lemma takes_free:
  assumes "takes dk sb sb' cs" "fs_bpb sb' = fs_bpb sb"
  shows "free_clusters dk sb' = free_clusters dk sb - set cs"
  using assms by (auto simp: takes_def free_clusters_def FREE_CLUSTER_def EOC_MARKER_def split: if_splits)

context reliable_device
begin

lemma write_free_all_ok:
  "sb_ok disk ok s \<Longrightarrow> sb_ok disk ok (write_free_all sub s cs) \<and> fs_bpb (write_free_all sub s cs) = fs_bpb s"
proof (induction cs arbitrary: s)
  case (Cons c cs)
  obtain s1 r where "write_fat_entry sub s c FREE_CLUSTER = (s1, r)" by fastforce
  with write_fat_entry_spec(1,2) [OF Cons.prems this] Cons.IH [of s1] show ?case
    by (simp add: FREE_CLUSTER_def fat_stepD)
qed simp

lemma write_eocs_spec:
  "sb_ok disk ok sb \<Longrightarrow> write_eocs sub cands sb out is = (sb', res) \<Longrightarrow>
   sb_ok disk ok sb' \<and> fs_bpb sb' = fs_bpb sb \<and> (\<forall>e. res = Inl e \<longrightarrow> e \<noteq> NoSpace)
   \<and> (\<forall>cs. res = Inr cs \<longrightarrow> fat_step sb sb' \<and> cs = out @ map (\<lambda>i. 2 + i) is \<and> takes disk sb sb' (map (\<lambda>i. 2 + i) is))"
proof (induction "is" arbitrary: sb out)
  case Nil
  then show ?case by (auto simp: takes_def)
next
  case (Cons i "is")
  obtain sb1 r1 where w: "write_fat_entry sub sb (2 + i) EOC_MARKER = (sb1, r1)" by fastforce
  have eoc: "EOC_MARKER < 0x10000000" by (simp add: EOC_MARKER_def)
  note sp = write_fat_entry_spec [OF Cons.prems(1) w eoc]
  show ?case
  proof (cases r1)
    case (Inl e)
    let ?s = "sb1\<lparr>fs_bitmap := map_option (fold bmp_clear cands) (fs_bitmap sb1)\<rparr>"
    have "sb_ok disk ok ?s" "fs_bpb ?s = fs_bpb sb" using sp(1) fat_stepD(1) [OF sp(2)] by (simp_all add: sb_ok_def)
    moreover have "sb' = write_free_all sub ?s out" "res = Inl e" using Cons.prems(2) w Inl by auto
    ultimately show ?thesis using write_free_all_ok [of ?s out] sp(6) Inl by simp
  next
    case (Inr u)
    have "write_eocs sub cands sb1 (out @ [2 + i]) is = (sb', res)" using Cons.prems(2) w Inr by simp
    note ih = Cons.IH [OF sp(1) this]
    have b: "fs_bpb sb1 = fs_bpb sb" by (rule fat_stepD(1) [OF sp(2)])
    have "takes disk sb sb' (map (\<lambda>i. 2 + i) (i # is))" if "takes disk sb1 sb' (map (\<lambda>i. 2 + i) is)"
      using that sp(3) [OF Inr] b unfolding takes_def by auto
    then show ?thesis using ih fat_step_trans [OF sp(2)] b by auto
  qed
qed

text \<open>The linear scan over the FAT.\<close>

lemma scan_alloc_spec:
  "sb_ok disk ok sb \<Longrightarrow>
   scan_alloc sub n hint cnt sb out is = (sb', res) \<Longrightarrow>
   sb_ok disk ok sb' \<and> fs_bpb sb' = fs_bpb sb \<and> (\<forall>e. res = Inl e \<longrightarrow> e \<noteq> NoSpace)
   \<and> (\<forall>cs. res = Inr cs \<longrightarrow> fat_step sb sb' \<and> (\<exists>new. cs = out @ new \<and> distinct new
        \<and> set new \<subseteq> free_clusters disk sb \<inter> scan_cluster n hint ` set is \<and> takes disk sb sb' new
        \<and> (length cs < cnt \<longrightarrow> free_clusters disk sb \<inter> scan_cluster n hint ` set is \<subseteq> set new)
        \<and> length cs \<le> max (length out) cnt))"
proof (induction "is" arbitrary: sb out)
  case Nil
  then show ?case by (auto simp: takes_def)
next
  case (Cons i "is")
  let ?f = "scan_cluster n hint"
  let ?c = "?f i"
  have eoc: "EOC_MARKER < 0x10000000" by (simp add: EOC_MARKER_def)
  show ?case
  proof (cases "length out \<ge> cnt")
    case True
    then show ?thesis using Cons.prems by (auto simp: takes_def)
  next
    case short: False
    obtain sb1 r1 where rd: "read_fat_entry sub sb ?c = (sb1, r1)" by fastforce
    note r = read_fat_entry_spec [OF Cons.prems(1) rd]
    have b1: "fs_bpb sb1 = fs_bpb sb" by (rule fat_stepD(1) [OF r(3)])
    have same1: "takes disk sb sb1 []" using r(2) by (simp add: takes_def)
    have fr1: "free_clusters disk sb1 = free_clusters disk sb" using takes_free [OF same1 b1] by simp
    show ?thesis
    proof (cases r1)
      case (Inl e)
      then have "sb' = write_free_all sub sb1 out" "res = Inl e" using Cons.prems(2) short rd by auto
      then show ?thesis using write_free_all_ok [OF r(1)] r(5) [OF Inl] b1 by simp
    next
      case rv: (Inr v)
      have vc: "valid_clus (fs_bpb sb) ?c" and v: "v = fat_entry disk sb ?c" using r(4) [OF rv] by auto
      show ?thesis
      proof (cases "v = FREE_CLUSTER")
        case False
        have "scan_alloc sub n hint cnt sb1 out is = (sb', res)" using Cons.prems(2) short rd rv False by simp
        note ih = Cons.IH [OF r(1) this]
        have "?c \<notin> free_clusters disk sb" using False v by (simp add: free_clusters_def)
        then have ex: "free_clusters disk sb \<inter> ?f ` set (i # is) = free_clusters disk sb1 \<inter> ?f ` set is" using fr1 by auto
        have tk: "takes disk sb sb' new" if "takes disk sb1 sb' new" for new
          using that r(2) b1 by (auto simp: takes_def)
        show ?thesis using ih b1 fat_step_trans [OF r(3)] tk unfolding ex by metis
      next
        case True
        obtain sb2 r2 where wr: "write_fat_entry sub sb1 ?c EOC_MARKER = (sb2, r2)" by fastforce
        note w = write_fat_entry_spec [OF r(1) wr eoc]
        have b2: "fs_bpb sb2 = fs_bpb sb" using fat_stepD(1) [OF w(2)] b1 by simp
        show ?thesis
        proof (cases r2)
          case (Inl e)
          then have "sb' = write_free_all sub sb2 out" "res = Inl e" using Cons.prems(2) short rd rv True wr by auto
          then show ?thesis using write_free_all_ok [OF w(1)] w(6) [OF Inl] b2 by simp
        next
          case (Inr u)
          have "scan_alloc sub n hint cnt sb2 (out @ [?c]) is = (sb', res)" using Cons.prems(2) short rd rv True wr Inr by simp
          note ih = Cons.IH [OF w(1) this]
          have t2: "takes disk sb sb2 [?c]" using w(3) [OF Inr] r(2) b1 by (auto simp: takes_def)
          have fr2: "free_clusters disk sb2 = free_clusters disk sb - {?c}" using takes_free [OF t2 b2] by simp
          have cf: "?c \<in> free_clusters disk sb" using True v vc by (simp add: free_clusters_def)
          have ex: "free_clusters disk sb \<inter> ?f ` set (i # is) = insert ?c (free_clusters disk sb2 \<inter> ?f ` set is)"
            using cf fr2 by auto
          have goal: "\<exists>new. cs = out @ new \<and> distinct new \<and> set new \<subseteq> free_clusters disk sb \<inter> ?f ` set (i # is) \<and> takes disk sb sb' new
              \<and> (length cs < cnt \<longrightarrow> free_clusters disk sb \<inter> ?f ` set (i # is) \<subseteq> set new) \<and> length cs \<le> max (length out) cnt"
            if new: "cs = (out @ [?c]) @ new" "distinct new" "set new \<subseteq> free_clusters disk sb2 \<inter> ?f ` set is" "takes disk sb2 sb' new"
              "length cs < cnt \<longrightarrow> free_clusters disk sb2 \<inter> ?f ` set is \<subseteq> set new" "length cs \<le> max (length (out @ [?c])) cnt" for cs new
          proof (intro exI [of _ "?c # new"] conjI)
            show "takes disk sb sb' (?c # new)" using new(4) t2 b2 by (auto simp: takes_def)
            show "distinct (?c # new)" using new(2,3) fr2 by auto
            show "set (?c # new) \<subseteq> free_clusters disk sb \<inter> ?f ` set (i # is)" unfolding ex using new(3) by auto
            show "length cs < cnt \<longrightarrow> free_clusters disk sb \<inter> ?f ` set (i # is) \<subseteq> set (?c # new)" unfolding ex using new(5) by auto
            show "length cs \<le> max (length out) cnt" using new(6) short by simp
          qed (use new(1) in simp)
          show ?thesis using ih b2 fat_step_trans [OF fat_step_trans [OF r(3) w(2)]] goal by metis
        qed
      qed
    qed
  qed
qed

text \<open>After taking free clusters the volume is in order again when bitmap and counter follow.\<close>

lemma vol_ok_taken:
  assumes v: "vol_ok disk ok sb" and ok': "sb_ok disk ok sb'" and t: "takes disk sb sb' cs" and b: "fs_bpb sb' = fs_bpb sb"
    and cs: "distinct cs" "set cs \<subseteq> free_clusters disk sb" and h: "2 \<le> fs_hint sb'" "fs_hint sb' \<le> total_clus (fs_bpb sb) + 2" and f: "fs_free sb' = free_sub (fs_free sb) (length cs)"
    and bm: "fs_bitmap sb' = None \<or> (\<exists>ws ws'. fs_bitmap sb = Some ws \<and> fs_bitmap sb' = Some ws' \<and> bitmap_len (total_clus (fs_bpb sb)) ws'
      \<and> (\<forall>i<total_clus (fs_bpb sb). bmp_test ws' i \<longleftrightarrow> 2 + i \<in> set cs \<or> bmp_test ws i))"
  shows "vol_ok disk ok sb'"
proof -
  have card_le: "length cs \<le> card (free_clusters disk sb)" using cs card_mono [OF finite_free cs(2)] distinct_card [OF cs(1)] by simp
  have "card (free_clusters disk sb) \<le> card {2..<2 + total_clus (fs_bpb sb)}"
    by (rule card_mono) (auto simp: free_clusters_def valid_clus_def)
  then have lt: "fs_free sb < 2 ^ 32" using v by (simp add: vol_ok_def)
  have "card (free_clusters disk sb') = card (free_clusters disk sb) - length cs"
    using takes_free [OF t b] cs card_Diff_subset [OF _ cs(2)] distinct_card [OF cs(1)] by simp
  then have "fs_free sb' = card (free_clusters disk sb')"
    using f free_sub_exact [OF _ lt, of "length cs"] card_le v by (simp add: vol_ok_def)
  moreover have "bitmap_sync disk sb'"
    unfolding bitmap_sync_def
  proof (intro allI impI)
    fix ws' assume w': "fs_bitmap sb' = Some ws'"
    then obtain ws where w: "fs_bitmap sb = Some ws" "bitmap_len (total_clus (fs_bpb sb)) ws'"
      "\<forall>i<total_clus (fs_bpb sb). bmp_test ws' i \<longleftrightarrow> 2 + i \<in> set cs \<or> bmp_test ws i" using bm by auto
    have "bmp_test ws i \<longleftrightarrow> fat_entry disk sb (2 + i) \<noteq> FREE_CLUSTER" if "i < total_clus (fs_bpb sb)" for i
      using v w(1) that by (simp add: vol_ok_def bitmap_sync_def)
    moreover have "fat_entry disk sb' (2 + i) = (if 2 + i \<in> set cs then EOC_MARKER else fat_entry disk sb (2 + i))"
      if "i < total_clus (fs_bpb sb)" for i using t that by (simp add: takes_def valid_clus_def)
    moreover have "EOC_MARKER \<noteq> FREE_CLUSTER" by (simp add: EOC_MARKER_def FREE_CLUSTER_def)
    ultimately show "bitmap_len (total_clus (fs_bpb sb')) ws' \<and>
        (\<forall>i<total_clus (fs_bpb sb'). bmp_test ws' i \<longleftrightarrow> fat_entry disk sb' (2 + i) \<noteq> FREE_CLUSTER)"
      using w(2,3) b by simp
  qed
  ultimately show ?thesis using ok' h b v by (simp add: vol_ok_def)
qed

lemma sb_ok_fields [simp]:
  "sb_ok dk dev_ok (sb\<lparr>fs_bitmap := w\<rparr>) = sb_ok dk dev_ok sb" "sb_ok dk dev_ok (sb\<lparr>fs_hint := h\<rparr>) = sb_ok dk dev_ok sb"
  "sb_ok dk dev_ok (sb\<lparr>fs_free := f\<rparr>) = sb_ok dk dev_ok sb"
  "fat_entry dk (sb\<lparr>fs_bitmap := w\<rparr>) = fat_entry dk sb" "fat_entry dk (sb\<lparr>fs_hint := h\<rparr>) = fat_entry dk sb"
  "fat_entry dk (sb\<lparr>fs_free := f\<rparr>) = fat_entry dk sb"
  by (simp_all add: sb_ok_def fat_entry_def fun_eq_iff)

lemma takes_fields [simp]:
  "takes dk (sb\<lparr>fs_bitmap := w\<rparr>) sb' cs = takes dk sb sb' cs" "takes dk sb (sb'\<lparr>fs_hint := h\<rparr>) cs = takes dk sb sb' cs"
  "takes dk sb (sb'\<lparr>fs_free := f\<rparr>) cs = takes dk sb sb' cs"
  by (simp_all add: takes_def)

text \<open>Up to \<open>2 ^ 31\<close> clusters the scan visits all of them.\<close>

lemma scan_cluster_exact:
  assumes "0 < n" "n \<le> 2 ^ 31" "2 \<le> hint" "hint \<le> n + 2" "i < n"
  shows "scan_cluster n hint i = 2 + (hint - 2 + i) mod n"
proof -
  have "wadd32 (wsub32 hint 2) i = hint - 2 + i" using assms by (simp add: wsub32_exact wadd32_exact)
  moreover have "(hint - 2 + i) mod n < n" using assms(1) by simp
  ultimately show ?thesis using assms(2) by (simp add: scan_cluster_def wadd32_exact)
qed

lemma scan_visits_all:
  assumes "0 < n" "n \<le> 2 ^ 31" "2 \<le> hint" "hint \<le> n + 2"
  shows "scan_cluster n hint ` set [0..<n] = (\<lambda>i. 2 + i) ` {..<n}"
proof -
  have "scan_cluster n hint ` set [0..<n] = (\<lambda>i. 2 + (hint - 2 + i) mod n) ` set [0..<n]"
    using scan_cluster_exact [OF assms] by (intro image_cong) simp_all
  also have "\<dots> = (\<lambda>i. 2 + i) ` ((\<lambda>i. (hint - 2 + i) mod n) ` set [0..<n])" by (simp add: image_image)
  also have "(\<lambda>i. (hint - 2 + i) mod n) ` set [0..<n] = {..<n}" using rotate_all [OF assms(1)] by simp
  finally show ?thesis .
qed

text \<open>Beyond that the sum wraps: after an allocation of cluster \<open>n\<close> the scan never looks at it again.\<close>

lemma scan_skips_cluster:
  assumes "2 ^ 31 < n" "n + 2 < 2 ^ 32" "i < n"
  shows "scan_cluster n (n + 1) i \<noteq> n"
proof -
  have w: "wsub32 (n + 1) 2 = n - 1" using assms by (simp add: wsub32_exact)
  define v where "v = wadd32 (n - 1) i"
  have "v mod n \<noteq> n - 2"
  proof (cases "n - 1 + i < 2 ^ 32")
    case True
    then have v: "v = n - 1 + i" by (simp add: v_def wadd32_exact)
    show ?thesis
    proof (cases "i = 0")
      case True
      then show ?thesis using v assms by simp
    next
      case False
      then have "v = (i - 1) + n" using v assms by simp
      then have "v mod n = i - 1" using assms(3) by simp
      then show ?thesis using True assms by simp
    qed
  next
    case False
    have "v = n - 1 + i - 2 ^ 32"
      unfolding v_def wadd32_def using False assms by (subst mod_if) simp
    then have "v < n - 2" using assms by simp
    then show ?thesis by simp
  qed
  moreover have "scan_cluster n (n + 1) i = wadd32 2 (v mod n)" unfolding scan_cluster_def w v_def ..
  moreover have "v mod n < n" using assms by simp
  then have "wadd32 2 (v mod n) = 2 + v mod n" using assms(2) by (intro wadd32_exact) linarith
  ultimately show ?thesis using assms(1) by linarith
qed

lemma alloc_scan_spec:
  assumes v: "vol_ok disk ok sb" and n: "0 < total_clus (fs_bpb sb)" and bm: "fs_bitmap sb = None" and cnt: "0 < cnt"
    and a: "alloc_scan sub sb cnt = (sb', res)"
  shows "res = Inr cs \<Longrightarrow> vol_ok disk ok sb' \<and> length cs = cnt \<and> distinct cs \<and> set cs \<subseteq> free_clusters disk sb \<and> takes disk sb sb' cs"
    and "res = Inl NoSpace \<Longrightarrow> total_clus (fs_bpb sb) \<le> 2 ^ 31 \<Longrightarrow> card (free_clusters disk sb) < cnt"
proof -
  let ?n = "total_clus (fs_bpb sb)"
  obtain sb1 r1 where s: "scan_alloc sub ?n (fs_hint sb) cnt sb [] [0..<?n] = (sb1, r1)" by fastforce
  have ok: "sb_ok disk ok sb" using v by (simp add: vol_ok_def)
  have hn: "2 \<le> fs_hint sb" "fs_hint sb \<le> ?n + 2" "?n + 2 < 2 ^ 32" using v by (simp_all add: vol_ok_def)
  have "free_clusters disk sb \<subseteq> (\<lambda>i. 2 + i) ` {..<?n}"
  proof
    fix c assume "c \<in> free_clusters disk sb"
    then have "c = 2 + (c - 2)" "c - 2 < ?n" by (auto simp: free_clusters_def valid_clus_def)
    then show "c \<in> (\<lambda>i. 2 + i) ` {..<?n}" by blast
  qed
  then have all: "free_clusters disk sb \<inter> scan_cluster ?n (fs_hint sb) ` set [0..<?n] = free_clusters disk sb" if "?n \<le> 2 ^ 31"
    using scan_visits_all [OF n that hn(1,2)] by blast
  note sp = scan_alloc_spec [OF ok s]
  have eq: "(sb', res) = (case r1 of Inl e \<Rightarrow> (sb1, Inl e)
      | Inr out \<Rightarrow> if length out < cnt then (write_free_all sub sb1 out, Inl NoSpace)
          else (sb1\<lparr>fs_hint := (if out = [] then fs_hint sb1 else wadd32 (last out) 1), fs_free := free_sub (fs_free sb1) cnt\<rparr>, Inr out))"
    using a s by (auto simp: alloc_scan_def or_return_def Let_def split: sum.splits)
  show "vol_ok disk ok sb' \<and> length cs = cnt \<and> distinct cs \<and> set cs \<subseteq> free_clusters disk sb \<and> takes disk sb sb' cs" if res: "res = Inr cs"
  proof -
    from res eq have r1: "r1 = Inr cs" and len: "\<not> length cs < cnt" and
      sb': "sb' = sb1\<lparr>fs_hint := (if cs = [] then fs_hint sb1 else wadd32 (last cs) 1), fs_free := free_sub (fs_free sb1) cnt\<rparr>"
      by (auto split: sum.splits if_splits)
    from sp r1 have fs: "fat_step sb sb1" and d: "distinct cs" "set cs \<subseteq> free_clusters disk sb" and t: "takes disk sb sb1 cs"
      and le: "length cs \<le> cnt" by auto
    have ne: "cs \<noteq> []" using len cnt by auto
    then have "last cs \<in> free_clusters disk sb" using d(2) last_in_set by blast
    then have "2 \<le> last cs" "last cs + 1 \<le> ?n + 2" by (simp_all add: free_clusters_def valid_clus_def)
    then have hint: "2 \<le> wadd32 (last cs) 1" "wadd32 (last cs) 1 \<le> ?n + 2" using hn(3) by (simp_all add: wadd32_exact)
    have "vol_ok disk ok sb'"
      by (rule vol_ok_taken [OF v, where cs = cs])
         (use sp t d fs len le hint ne bm in \<open>auto simp: sb' fat_stepD\<close>)
    then show ?thesis using d t len le by (simp add: sb')
  qed
  show "card (free_clusters disk sb) < cnt" if res: "res = Inl NoSpace" and small: "?n \<le> 2 ^ 31"
  proof -
    from res eq sp obtain out where "r1 = Inr out" "length out < cnt" by (auto split: sum.splits if_splits)
    with sp have "free_clusters disk sb \<subseteq> set out" unfolding all [OF small] by auto
    then have "card (free_clusters disk sb) \<le> length out" by (metis List.finite_set card_length card_mono le_trans)
    then show ?thesis using \<open>length out < cnt\<close> by simp
  qed
qed

lemma alloc_clusters_spec:
  assumes v: "vol_ok disk ok sb" and cnt: "0 < cnt" and a: "alloc_clusters sub sb cnt = (sb', res)"
  shows "res = Inr cs \<Longrightarrow> vol_ok disk ok sb' \<and> length cs = cnt \<and> distinct cs \<and> set cs \<subseteq> free_clusters disk sb \<and> takes disk sb sb' cs"
    and "res = Inl NoSpace \<Longrightarrow> fs_bitmap sb \<noteq> None \<or> total_clus (fs_bpb sb) \<le> 2 ^ 31 \<Longrightarrow> card (free_clusters disk sb) < cnt"
proof -
  let ?n = "total_clus (fs_bpb sb)"
  have "(\<forall>cs. res = Inr cs \<longrightarrow> vol_ok disk ok sb' \<and> length cs = cnt \<and> distinct cs \<and> set cs \<subseteq> free_clusters disk sb \<and> takes disk sb sb' cs)
    \<and> (res = Inl NoSpace \<longrightarrow> fs_bitmap sb \<noteq> None \<or> ?n \<le> 2 ^ 31 \<longrightarrow> card (free_clusters disk sb) < cnt)"
  proof (cases "?n = 0")
    case True
    then have "free_clusters disk sb = {}" by (auto simp: free_clusters_def valid_clus_def)
    then show ?thesis using a cnt True by (auto simp: alloc_clusters_def)
  next
    case n: False
    show ?thesis
    proof (cases "fs_bitmap sb")
      case None
      then have "alloc_scan sub sb cnt = (sb', res)" using a cnt n by (simp add: alloc_clusters_def)
      from alloc_scan_spec [OF v _ None cnt this] n None show ?thesis by auto
    next
      case (Some ws)
      obtain ws' r1 where rb: "reserve_bits ws ?n cnt (fs_hint sb) = (ws', r1)" by fastforce
      have ws: "bitmap_len ?n ws" using v Some by (simp add: vol_ok_def bitmap_sync_def)
      have sync: "bitmap_sync disk sb" using v by (simp add: vol_ok_def)
      have inj: "inj_on (\<lambda>i. 2 + i) A" for A :: "nat set" by (simp add: inj_on_def)
      have free: "free_clusters disk sb = (\<lambda>i. 2 + i) ` free_bits ?n ws" by (rule free_bits_clusters [OF sync Some])
      note sp = reserve_bits_spec [OF ws _ rb]
      show ?thesis
      proof (cases r1)
        case (Inl e)
        then have "res = Inl e" using a cnt n Some rb by (simp add: alloc_clusters_def)
        then show ?thesis using sp(3) [OF _ Inl] n free card_image [OF inj] by auto
      next
        case (Inr run)
        with sp(2) n have run: "length run = cnt" "distinct run" "set run \<subseteq> free_bits ?n ws"
          "\<forall>j<?n. bmp_test ws' j \<longleftrightarrow> j \<in> set run \<or> bmp_test ws j" by auto
        have len': "bitmap_len ?n ws'" using sp(1) n by simp
        let ?s = "sb\<lparr>fs_bitmap := Some ws'\<rparr>" and ?cs = "map (\<lambda>i. 2 + i) run"
        have ne: "run \<noteq> []" using run(1) cnt by auto
        obtain sb1 r2 where we: "write_eocs sub run ?s [] run = (sb1, r2)" by fastforce
        have oks: "sb_ok disk ok ?s" using v by (simp add: vol_ok_def)
        note w = write_eocs_spec [OF oks we]
        have eq: "(sb', res) = (case r2 of Inl e \<Rightarrow> (sb1, Inl e)
            | Inr out \<Rightarrow> (sb1\<lparr>fs_hint := (if out = [] then fs_hint sb1 else max 2 (wadd32 (last out) 1)), fs_free := free_sub (fs_free sb1) cnt\<rparr>, Inr out))"
          using a cnt n Some rb Inr ne we by (auto simp: alloc_clusters_def or_return_def split: sum.splits)
        show ?thesis
        proof (cases r2)
          case (Inl e)
          then show ?thesis using eq w by auto
        next
          case r2: (Inr out)
          with w have out: "out = ?cs" and fs: "fat_step ?s sb1" and t: "takes disk sb sb1 ?cs" by auto
          have sb': "sb' = sb1\<lparr>fs_hint := max 2 (wadd32 (last ?cs) 1), fs_free := free_sub (fs_free sb1) cnt\<rparr>" and res: "res = Inr ?cs"
            using eq r2 out ne by auto
          have dcs: "distinct ?cs" "set ?cs \<subseteq> free_clusters disk sb" using run free by (auto simp: distinct_map inj_on_def)
          have "vol_ok disk ok sb'"
          proof (rule vol_ok_taken [OF v _ _ _ dcs])
            show "sb_ok disk ok sb'" "takes disk sb sb' ?cs" "2 \<le> fs_hint sb'" using w t by (auto simp: sb')
            have "last ?cs \<in> set ?cs" using ne by (intro last_in_set) simp
            then have "last ?cs \<in> free_clusters disk sb" using dcs(2) by blast
            then have "last ?cs + 1 \<le> ?n + 2" by (simp add: free_clusters_def valid_clus_def)
            moreover have "?n + 2 < 2 ^ 32" using v by (simp add: vol_ok_def)
            ultimately have "wadd32 (last ?cs) 1 \<le> ?n + 2" using wadd32_exact [of "last ?cs" 1] by linarith
            then show "fs_hint sb' \<le> ?n + 2" by (simp add: sb')
            show "fs_bpb sb' = fs_bpb sb" "fs_free sb' = free_sub (fs_free sb) (length ?cs)"
              using fat_stepD [OF fs] run(1) by (simp_all add: sb')
            have "\<forall>i<?n. bmp_test ws' i \<longleftrightarrow> 2 + i \<in> set ?cs \<or> bmp_test ws i" using run(4) by auto
            then show "fs_bitmap sb' = None \<or> (\<exists>ws ws'. fs_bitmap sb = Some ws \<and> fs_bitmap sb' = Some ws' \<and> bitmap_len ?n ws'
                \<and> (\<forall>i<?n. bmp_test ws' i \<longleftrightarrow> 2 + i \<in> set ?cs \<or> bmp_test ws i))"
              using Some len' fat_stepD(2) [OF fs] by (simp add: sb')
          qed
          then show ?thesis using res dcs t run(1) by (simp add: sb')
        qed
      qed
    qed
  qed
  then show "res = Inr cs \<Longrightarrow> vol_ok disk ok sb' \<and> length cs = cnt \<and> distinct cs \<and> set cs \<subseteq> free_clusters disk sb \<and> takes disk sb sb' cs"
    "res = Inl NoSpace \<Longrightarrow> fs_bitmap sb \<noteq> None \<or> ?n \<le> 2 ^ 31 \<Longrightarrow> card (free_clusters disk sb) < cnt" by blast+
qed

end

end
