(* ===== verification/Fat_Free.thy ===== *)
theory Fat_Free
  imports Fat_Alloc_Props
begin

text \<open>Releasing cluster chains.\<close>

text \<open>\<open>cs\<close> are the clusters met from \<open>c\<close> on, up to the first value that is no cluster number.\<close>

fun chain_of :: "(nat \<Rightarrow> nat) \<Rightarrow> nat \<Rightarrow> nat list \<Rightarrow> bool" where
  "chain_of e c [] \<longleftrightarrow> c < 2 \<or> EOC_MARKER \<le> c"
| "chain_of e c (x # xs) \<longleftrightarrow> x = c \<and> 2 \<le> c \<and> c < EOC_MARKER \<and> chain_of e (e c) xs"

definition releases :: "('d \<Rightarrow> nat \<Rightarrow> u8 list) \<Rightarrow> 'd fat_sb \<Rightarrow> 'd fat_sb \<Rightarrow> nat list \<Rightarrow> bool" where
  "releases dk sb sb' cs \<longleftrightarrow> (\<forall>c. valid_clus (fs_bpb sb) c \<longrightarrow>
     fat_entry dk sb' c = (if c \<in> set cs then FREE_CLUSTER else fat_entry dk sb c))"

lemma chain_of_cong: "(\<And>x. x \<in> set cs \<Longrightarrow> e x = e' x) \<Longrightarrow> chain_of e c cs = chain_of e' c cs"
  by (induction cs arbitrary: c) auto

lemma bitmap_mark_free_fields [simp]:
  "fs_bpb (bitmap_mark_free c sb) = fs_bpb sb" "fs_free (bitmap_mark_free c sb) = fs_free sb" "fs_hint (bitmap_mark_free c sb) = fs_hint sb"
  "sb_ok dk dev_ok (bitmap_mark_free c sb) = sb_ok dk dev_ok sb" "fat_entry dk (bitmap_mark_free c sb) = fat_entry dk sb"
  by (auto simp: bitmap_mark_free_def split: option.splits)

context reliable_device
begin

text \<open>One cluster in use is released.\<close>

lemma vol_ok_released:
  assumes v: "vol_ok disk ok sb" and c: "valid_clus (fs_bpb sb) c" "fat_entry disk sb c \<noteq> FREE_CLUSTER"
    and ok': "sb_ok disk ok sb2" and fs: "fat_step sb sb2" and t: "releases disk sb sb2 [c]"
  shows "vol_ok disk ok ((bitmap_mark_free c sb2)\<lparr>fs_free := (fs_free sb2 + 1) mod 2 ^ 32\<rparr>)" (is "vol_ok disk ok ?s")
proof -
  let ?n = "total_clus (fs_bpb sb)"
  have b: "fs_bpb sb2 = fs_bpb sb" by (rule fat_stepD(1) [OF fs])
  have e: "fat_entry disk ?s = fat_entry disk sb2" by simp
  have free: "free_clusters disk ?s = insert c (free_clusters disk sb)"
    using t c b unfolding free_clusters_def releases_def by (auto simp: e)
  have nin: "c \<notin> free_clusters disk sb" using c by (simp add: free_clusters_def)
  have "insert c (free_clusters disk sb) \<subseteq> {2..<2 + ?n}" using c by (auto simp: free_clusters_def valid_clus_def)
  from card_mono [OF _ this] have "card (free_clusters disk sb) + 1 \<le> ?n" using nin by simp
  then have "fs_free ?s = card (insert c (free_clusters disk sb))"
    using v fat_stepD(4) [OF fs] nin by (simp add: vol_ok_def)
  then have "fs_free ?s = card (free_clusters disk ?s)" unfolding free .
  moreover have "bitmap_sync disk ?s"
    unfolding bitmap_sync_def
  proof (intro allI impI)
    fix ws' assume w': "fs_bitmap ?s = Some ws'"
    obtain ws where w: "fs_bitmap sb = Some ws" "ws' = bmp_clear (c - 2) ws"
      using w' c b fat_stepD(2) [OF fs] by (auto simp: bitmap_mark_free_def bit_index_def valid_clus_def split: option.splits if_splits)
    have sync: "bitmap_len ?n ws" "\<And>i. i < ?n \<Longrightarrow> bmp_test ws i \<longleftrightarrow> fat_entry disk sb (2 + i) \<noteq> FREE_CLUSTER"
      using v w(1) by (auto simp: vol_ok_def bitmap_sync_def)
    have lt: "c - 2 < ?n" "2 + (c - 2) = c" using c by (auto simp: valid_clus_def)
    have "bmp_test ws' i \<longleftrightarrow> fat_entry disk sb2 (2 + i) \<noteq> FREE_CLUSTER" if "i < ?n" for i
    proof -
      have "fat_entry disk sb2 (2 + i) = (if 2 + i = c then FREE_CLUSTER else fat_entry disk sb (2 + i))"
        using t that by (simp add: releases_def valid_clus_def)
      then show ?thesis using sync(2) [OF that] bmp_test_clear [OF sync(1) lt(1), of i] lt(2) by (auto simp: w(2))
    qed
    then show "bitmap_len (total_clus (fs_bpb ?s)) ws' \<and>
        (\<forall>i<total_clus (fs_bpb ?s). bmp_test ws' i \<longleftrightarrow> fat_entry disk ?s (2 + i) \<noteq> FREE_CLUSTER)"
      using sync(1) b by (simp add: w(2))
  qed
  ultimately show ?thesis using ok' fat_stepD(3) [OF fs] v b by (simp add: vol_ok_def)
qed

lemma free_chain_loop_spec:
  "vol_ok disk ok sb \<Longrightarrow> chain_of (fat_entry disk sb) c cs \<Longrightarrow> distinct cs \<Longrightarrow>
   \<forall>x\<in>set cs. valid_clus (fs_bpb sb) x \<and> fat_entry disk sb x \<noteq> FREE_CLUSTER \<Longrightarrow> iters + length cs \<le> limit \<Longrightarrow>
   free_chain_loop sub limit iters sb c = (sb', res) \<Longrightarrow>
   vol_ok disk ok sb' \<and> fs_bpb sb' = fs_bpb sb \<and>
   (\<exists>k\<le>length cs. releases disk sb sb' (take k cs) \<and> ((\<exists>u. res = Inr u) \<longrightarrow> k = length cs))"
proof (induction cs arbitrary: sb c iters)
  case Nil
  then have "free_chain_loop sub limit iters sb c = (sb, Inr ())" by (subst free_chain_loop.simps) auto
  then show ?case using Nil by (auto simp: releases_def)
next
  case (Cons x cs)
  have x: "x = c" "2 \<le> c" "c < EOC_MARKER" and rest: "chain_of (fat_entry disk sb) (fat_entry disk sb c) cs"
    using Cons.prems(2) by auto
  have vc: "valid_clus (fs_bpb sb) c" "fat_entry disk sb c \<noteq> FREE_CLUSTER" using Cons.prems(4) x by auto
  have ok: "sb_ok disk ok sb" using Cons.prems(1) by (simp add: vol_ok_def)
  obtain sb1 r1 where rd: "read_fat_entry sub sb c = (sb1, r1)" by fastforce
  note r = read_fat_entry_spec [OF ok rd]
  have b1: "fs_bpb sb1 = fs_bpb sb" by (rule fat_stepD(1) [OF r(3)])
  have v1: "vol_ok disk ok sb1"
    using Cons.prems(1) r(1,2) fat_stepD [OF r(3)]
    by (auto simp: vol_ok_def bitmap_sync_def free_clusters_def valid_clus_def cong: conj_cong)
  show ?case
  proof (cases r1)
    case (Inl e)
    then have "sb' = sb1 \<and> res = Inl e" using Cons.prems(6) rd x by (auto simp: free_chain_loop.simps or_return_def)
    then show ?thesis using v1 b1 r(2) by (auto simp: releases_def intro!: exI [of _ 0])
  next
    case rv: (Inr v)
    have v: "v = fat_entry disk sb c" using r(4) [OF rv] by simp
    obtain sb2 r2 where wr: "write_fat_entry sub sb1 c FREE_CLUSTER = (sb2, r2)" by fastforce
    have fz: "FREE_CLUSTER < 0x10000000" by (simp add: FREE_CLUSTER_def)
    note w = write_fat_entry_spec [OF r(1) wr fz]
    show ?thesis
    proof (cases r2)
      case (Inl e)
      then have eq: "sb' = sb2 \<and> res = Inl e" using Cons.prems(6) rd rv wr x by (auto simp: free_chain_loop.simps or_return_def)
      have "vol_ok disk ok sb2"
        using v1 w(1) w(5) [OF Inl] fat_stepD [OF w(2)] b1
        by (auto simp: vol_ok_def bitmap_sync_def free_clusters_def valid_clus_def cong: conj_cong)
      then show ?thesis using eq b1 fat_stepD(1) [OF w(2)] r(2) w(5) [OF Inl] by (auto simp: releases_def intro!: exI [of _ 0])
    next
      case (Inr u)
      define sb4 where "sb4 = (bitmap_mark_free c sb2)\<lparr>fs_free := (fs_free sb2 + 1) mod 2 ^ 32\<rparr>"
      have rel: "releases disk sb1 sb2 [c]" using w(3) [OF Inr] by (simp add: releases_def)
      have v4: "vol_ok disk ok sb4" unfolding sb4_def
        by (rule vol_ok_released [OF v1 _ _ w(1,2) rel]) (use vc b1 r(2) in auto)
      have b4: "fs_bpb sb4 = fs_bpb sb" using b1 fat_stepD(1) [OF w(2)] by (simp add: sb4_def)
      have rel4: "releases disk sb sb4 [c]" using w(3) [OF Inr] r(2) b1 by (simp add: releases_def sb4_def)
      have notin: "c \<notin> set cs" using Cons.prems(3) x by simp
      have same: "fat_entry disk sb4 y = fat_entry disk sb y" if "y \<in> set cs" for y
        using rel4 Cons.prems(4) that notin by (auto simp: releases_def)
      have ch: "chain_of (fat_entry disk sb4) v cs" using rest chain_of_cong [OF same] v by simp
      have step: "free_chain_loop sub limit (iters + 1) sb4 v = (sb', res)"
        using Cons.prems(5,6) rd rv wr Inr x by (subst (asm) free_chain_loop.simps) (simp add: or_return_def Let_def sb4_def)
      have "\<forall>x\<in>set cs. valid_clus (fs_bpb sb4) x \<and> fat_entry disk sb4 x \<noteq> FREE_CLUSTER" using Cons.prems(4) same b4 by auto
      from Cons.IH [OF v4 ch _ this _ step] Cons.prems(3,5) obtain k where
        k: "vol_ok disk ok sb'" "fs_bpb sb' = fs_bpb sb4" "k \<le> length cs" "releases disk sb4 sb' (take k cs)" "(\<exists>u. res = Inr u) \<longrightarrow> k = length cs"
        by auto
      have "releases disk sb sb' (take (Suc k) (x # cs))" using k(4) rel4 b4 x by (auto simp: releases_def)
      then show ?thesis using k b4 by (intro conjI exI [of _ "Suc k"]) auto
    qed
  qed
qed

lemma free_chain_spec:
  assumes v: "vol_ok disk ok sb" and ch: "chain_of (fat_entry disk sb) c cs" and d: "distinct cs"
    and used: "\<forall>x\<in>set cs. valid_clus (fs_bpb sb) x \<and> fat_entry disk sb x \<noteq> FREE_CLUSTER"
    and f: "free_chain sub sb c = (sb', res)"
  shows "vol_ok disk ok sb'" and "\<exists>k\<le>length cs. releases disk sb sb' (take k cs) \<and> ((\<exists>u. res = Inr u) \<longrightarrow> k = length cs)"
proof -
  have "set cs \<subseteq> {2..<2 + total_clus (fs_bpb sb)}" using used by (auto simp: valid_clus_def)
  from card_mono [OF _ this] have "length cs \<le> total_clus (fs_bpb sb)" using distinct_card [OF d] by simp
  then show "vol_ok disk ok sb'" "\<exists>k\<le>length cs. releases disk sb sb' (take k cs) \<and> ((\<exists>u. res = Inr u) \<longrightarrow> k = length cs)"
    using free_chain_loop_spec [OF v ch d used _ f [unfolded free_chain_def]] by auto
qed

end

end
