(* ===== verification/Utf8.thy ===== *)
theory Utf8
  imports Bedrock_Prelude
begin

text \<open>
  UTF-8: the bytes of a string of code points, and \<open>core::str::from_utf8\<close> with its validity rules
  (no overlong form, no surrogate, nothing above \<open>0x10FFFF\<close>).
\<close>

definition is_scalar :: "nat \<Rightarrow> bool" where
  "is_scalar c \<longleftrightarrow> c < 0xD800 \<or> (0xE000 \<le> c \<and> c < 0x110000)"

definition utf8_char :: "nat \<Rightarrow> u8 list" where
  "utf8_char c =
     (if c < 0x80 then [of_nat c]
      else if c < 0x800 then [of_nat (0xC0 + c div 64), of_nat (0x80 + c mod 64)]
      else if c < 0x10000
      then [of_nat (0xE0 + c div 4096), of_nat (0x80 + c div 64 mod 64), of_nat (0x80 + c mod 64)]
      else [of_nat (0xF0 + c div 262144), of_nat (0x80 + c div 4096 mod 64),
            of_nat (0x80 + c div 64 mod 64), of_nat (0x80 + c mod 64)])"

definition as_bytes :: "nat list \<Rightarrow> u8 list" where
  "as_bytes cps = concat (map utf8_char cps)"

definition is_cont :: "nat \<Rightarrow> bool" where
  "is_cont b \<longleftrightarrow> 0x80 \<le> b \<and> b < 0xC0"

text \<open>The first character and how many bytes it has.\<close>

definition utf8_first :: "nat list \<Rightarrow> (nat \<times> nat) option" where
  "utf8_first bs =
     (let b0 = bs ! 0; b1 = bs ! 1; b2 = bs ! 2; b3 = bs ! 3
      in if b0 < 0x80 then Some (b0, 1)
         else if 0xC0 \<le> b0 \<and> b0 < 0xE0 then
           (let c = (b0 - 0xC0) * 64 + (b1 - 0x80)
            in if length bs \<ge> 2 \<and> is_cont b1 \<and> c \<ge> 0x80 then Some (c, 2) else None)
         else if 0xE0 \<le> b0 \<and> b0 < 0xF0 then
           (let c = (b0 - 0xE0) * 4096 + (b1 - 0x80) * 64 + (b2 - 0x80)
            in if length bs \<ge> 3 \<and> is_cont b1 \<and> is_cont b2 \<and> c \<ge> 0x800 \<and> is_scalar c then Some (c, 3) else None)
         else if 0xF0 \<le> b0 \<and> b0 < 0xF8 then
           (let c = (b0 - 0xF0) * 262144 + (b1 - 0x80) * 4096 + (b2 - 0x80) * 64 + (b3 - 0x80)
            in if length bs \<ge> 4 \<and> is_cont b1 \<and> is_cont b2 \<and> is_cont b3 \<and> c \<ge> 0x10000 \<and> is_scalar c then Some (c, 4) else None)
         else None)"

lemma utf8_first_pos: "utf8_first bs = Some (c, k) \<Longrightarrow> 0 < k"
  by (auto simp: utf8_first_def Let_def split: if_splits)

function utf8_decode :: "nat list \<Rightarrow> nat list option" where
  "utf8_decode bs =
     (if bs = [] then Some []
      else case utf8_first bs of
             None \<Rightarrow> None
           | Some (c, k) \<Rightarrow> map_option ((#) c) (utf8_decode (drop k bs)))"
  by pat_completeness auto
termination
  by (relation "measure length") (auto dest: utf8_first_pos)

declare utf8_decode.simps [simp del]

definition from_utf8 :: "u8 list \<Rightarrow> nat list option" where
  "from_utf8 bs = utf8_decode (map unat bs)"

lemma unat_of_nat8 [simp]: "n < 256 \<Longrightarrow> unat (of_nat n :: u8) = n"
  by (simp add: unat_of_nat take_bit_eq_mod)

text \<open>The bytes of a character as numbers.\<close>

definition utf8_nats :: "nat \<Rightarrow> nat list" where
  "utf8_nats c =
     (if c < 0x80 then [c]
      else if c < 0x800 then [0xC0 + c div 64, 0x80 + c mod 64]
      else if c < 0x10000 then [0xE0 + c div 4096, 0x80 + c div 64 mod 64, 0x80 + c mod 64]
      else [0xF0 + c div 262144, 0x80 + c div 4096 mod 64, 0x80 + c div 64 mod 64, 0x80 + c mod 64])"

lemma utf8_char_nats:
  assumes "is_scalar c"
  shows "utf8_char c = map of_nat (utf8_nats c)" "\<forall>n\<in>set (utf8_nats c). n < 256"
proof -
  show "utf8_char c = map of_nat (utf8_nats c)" by (simp add: utf8_char_def utf8_nats_def)
  have "x mod 64 < 64" for x :: nat by simp
  moreover have "c div 262144 < 8" using assms unfolding is_scalar_def by linarith
  moreover have "c div 64 < 32" if "c < 2048" using that by linarith
  moreover have "c div 4096 < 16" if "c < 65536" using that by linarith
  ultimately show "\<forall>n\<in>set (utf8_nats c). n < 256"
    unfolding utf8_nats_def by (fastforce split: if_splits intro: order.strict_trans)
qed

lemma map_unat_char: "is_scalar c \<Longrightarrow> map unat (utf8_char c) = utf8_nats c"
  using utf8_char_nats [of c] by (simp add: map_idI)

lemma utf8_first_char:
  assumes "is_scalar c"
  shows "utf8_first (map unat (utf8_char c) @ bs) = Some (c, length (utf8_char c))"
proof -
  have len: "length (utf8_char c) = length (utf8_nats c)" using utf8_char_nats(1) [OF assms] by simp
  have two: "c div 64 * 64 + c mod 64 = c" by simp
  have three: "c div 4096 * 64 + c div 64 mod 64 = c div 64"
    using div_mult_mod_eq [of "c div 64" 64] by (simp add: div_mult2_eq [symmetric])
  have four: "c div 262144 * 64 + c div 4096 mod 64 = c div 4096"
    using div_mult_mod_eq [of "c div 4096" 64] by (simp add: div_mult2_eq [symmetric])
  have sum3: "c div 4096 * 4096 + c div 64 mod 64 * 64 + c mod 64 = c" using two three by linarith
  have sum4: "c div 262144 * 262144 + c div 4096 mod 64 * 4096 + c div 64 mod 64 * 64 + c mod 64 = c"
    using two three four by linarith
  consider (a) "c < 128" | (b) "128 \<le> c" "c < 2048" | (c) "2048 \<le> c" "c < 65536" | (d) "65536 \<le> c" by linarith
  then show ?thesis unfolding map_unat_char [OF assms] len
  proof cases
    case a
    then show "utf8_first (utf8_nats c @ bs) = Some (c, length (utf8_nats c))"
      by (simp add: utf8_nats_def utf8_first_def)
  next
    case b
    then have "c div 64 < 32" by linarith
    with b two show "utf8_first (utf8_nats c @ bs) = Some (c, length (utf8_nats c))"
      by (simp add: utf8_nats_def utf8_first_def is_cont_def)
  next
    case c
    then have q: "c div 4096 < 16" by linarith
    with c sum3 assms show "utf8_first (utf8_nats c @ bs) = Some (c, length (utf8_nats c))"
      by (simp add: utf8_nats_def utf8_first_def is_cont_def)
  next
    case d
    then have q: "c div 262144 < 8" using assms unfolding is_scalar_def by linarith
    with d sum4 assms show "utf8_first (utf8_nats c @ bs) = Some (c, length (utf8_nats c))"
      by (simp add: utf8_nats_def utf8_first_def is_cont_def)
  qed
qed

text \<open>Decoding inverts encoding.\<close>

lemma utf8_roundtrip: "\<forall>c\<in>set cps. is_scalar c \<Longrightarrow> from_utf8 (as_bytes cps) = Some cps"
proof (induction cps)
  case Nil
  then show ?case by (simp add: from_utf8_def as_bytes_def utf8_decode.simps)
next
  case (Cons c cps)
  have "map unat (utf8_char c) \<noteq> []" by (simp add: utf8_char_def)
  moreover have "utf8_first (map unat (utf8_char c) @ map unat (as_bytes cps)) = Some (c, length (utf8_char c))"
    by (rule utf8_first_char) (use Cons.prems in simp)
  moreover have "utf8_decode (map unat (as_bytes cps)) = Some cps"
    using Cons by (simp add: from_utf8_def)
  ultimately show ?case
    by (subst from_utf8_def, subst utf8_decode.simps) (simp add: as_bytes_def)
qed

end
