(* ===== verification/Fat_Dir.thy ===== *)
theory Fat_Dir
  imports Fat_Mount Utf8
begin

text \<open>
  Directories of a FAT32 volume (\<open>kernel/src/filesystems/fstypes/fat32/dir.rs\<close>): reading the slots of
  a directory, placing, updating and removing entries. Names are lists of code points; a cluster's
  buffer is a list of bytes in which entry \<open>i\<close> is the 32 bytes at \<open>32 * i\<close>.
\<close>

record dir_slot =
  vfat_entries :: "u8 list list"
  sfn_entry :: "u8 list"

definition DIR_DELETED :: u8 where
  "DIR_DELETED = 0xE5"

definition DIR_END :: u8 where
  "DIR_END = 0"

definition ATTR_LONG_NAME :: u8 where
  "ATTR_LONG_NAME = 0x0F"

definition ATTR_VOLUME_ID :: u8 where
  "ATTR_VOLUME_ID = 0x08"

definition ATTR_DIRECTORY :: u8 where
  "ATTR_DIRECTORY = 0x10"

definition dir_entry_at :: "u8 list \<Rightarrow> nat \<Rightarrow> u8 list" where
  "dir_entry_at buf i = take 32 (drop (i * 32) buf)"

definition entries_per_clus :: "bpb \<Rightarrow> nat" where
  "entries_per_clus b = byts_per_clus b div 32"

definition decode_volume_label :: "u8 list \<Rightarrow> nat list" where
  "decode_volume_label sfn =
     (let label = (case from_utf8 (rev (dropWhile (\<lambda>b. b = 0x20) (rev sfn))) of Some s \<Rightarrow> s | None \<Rightarrow> [])
      in rev (dropWhile (\<lambda>c. c = 0) (rev label)))"

definition eq_ignore_ascii_case :: "nat list \<Rightarrow> nat list \<Rightarrow> bool" where
  "eq_ignore_ascii_case a b \<longleftrightarrow> map char_lower a = map char_lower b"

section \<open>Reading\<close>

text \<open>The entries of one cluster: the slots found, the long-name slots pending, whether the end mark
  was met.\<close>

fun scan_slots :: "u8 list list \<Rightarrow> dir_slot list \<Rightarrow> u8 list list \<Rightarrow> dir_slot list \<times> u8 list list \<times> bool" where
  "scan_slots [] slots chain = (slots, chain, False)"
| "scan_slots (e # es) slots chain =
     (if e ! 0 = DIR_END then (slots, [], True)
      else if e ! 0 = DIR_DELETED then scan_slots es slots []
      else if e ! 0x0B = ATTR_LONG_NAME then scan_slots es slots (chain @ [e])
      else if e ! 0x0B AND ATTR_VOLUME_ID \<noteq> 0
      then scan_slots es (slots @ [\<lparr>vfat_entries = [], sfn_entry = e\<rparr>]) []
      else
        (let chain' = (if \<exists>v\<in>set chain. v ! 13 \<noteq> vfat_checksum (take 11 e) then [] else chain)
         in scan_slots es (slots @ [\<lparr>vfat_entries = chain', sfn_entry = e\<rparr>]) []))"

function read_slots_loop ::
  "'d submit \<Rightarrow> nat \<Rightarrow> nat \<Rightarrow> 'd fat_sb \<Rightarrow> u8 list \<Rightarrow> dir_slot list \<Rightarrow> u8 list list \<Rightarrow> nat \<Rightarrow> ('d, dir_slot list) fs_result" where
  "read_slots_loop sub limit iters sb buf slots chain cluster =
     or_return (read_cluster sub sb cluster buf) (\<lambda>sb1 buf1.
       (case scan_slots (map (dir_entry_at buf1) [0..<entries_per_clus (fs_bpb sb1)]) slots chain of
          (slots1, chain1, True) \<Rightarrow> (sb1, Inr slots1)
        | (slots1, chain1, False) \<Rightarrow>
            or_return (read_fat_entry sub sb1 cluster) (\<lambda>sb2 next_c.
              if next_c \<ge> EOC_MARKER then (sb2, Inr slots1)
              else if iters + 1 > limit then (sb2, Inl IOError)
              else read_slots_loop sub limit (iters + 1) sb2 buf1 slots1 chain1 next_c)))"
  by pat_completeness auto
termination
  by (relation "measure (\<lambda>(s, limit, iters, sb, b, sl, ch, c). limit - iters)") auto

declare read_slots_loop.simps [simp del]

definition read_dir_slots :: "'d submit \<Rightarrow> 'd fat_sb \<Rightarrow> nat \<Rightarrow> ('d, dir_slot list) fs_result" where
  "read_dir_slots sub sb dir_clus =
     (let b = fs_bpb sb
      in if byts_per_clus b = 0 \<or> bytes_per_sec b = 0 \<or> sec_per_clus b = 0 then (sb, Inl IOError)
         else read_slots_loop sub (total_clus b + 2) 0 sb (replicate (byts_per_clus b) 0) [] [] dir_clus)"

definition decode_entry_name :: "dir_slot \<Rightarrow> nat list" where
  "decode_entry_name slot =
     (let e = sfn_entry slot
      in if e ! 0x0B AND ATTR_VOLUME_ID \<noteq> 0 then decode_volume_label (take 11 e)
         else if vfat_entries slot \<noteq> [] then decode_vfat_name (vfat_entries slot)
         else decode_sfn_case (take 11 e) (e ! 0x0C))"

section \<open>Placing entries\<close>

definition is_free_mark :: "u8 \<Rightarrow> bool" where
  "is_free_mark b \<longleftrightarrow> b = DIR_DELETED \<or> b = DIR_END"

text \<open>How many slots from \<open>i\<close> can be used: a deleted slot counts the free slots after it, an end mark
  the rest of the cluster.\<close>

definition space_at :: "nat \<Rightarrow> u8 list \<Rightarrow> nat \<Rightarrow> nat" where
  "space_at epc buf i =
     (if buf ! (i * 32) = DIR_DELETED
      then 1 + length (takeWhile (\<lambda>j. is_free_mark (buf ! (j * 32))) [i + 1..<epc])
      else epc - i)"

definition find_spot :: "nat \<Rightarrow> u8 list \<Rightarrow> nat \<Rightarrow> nat option" where
  "find_spot epc buf need = find (\<lambda>i. is_free_mark (buf ! (i * 32)) \<and> space_at epc buf i \<ge> need) [0..<epc]"

text \<open>Entries copied one after the other from slot \<open>i\<close>.\<close>

definition put_entries :: "nat \<Rightarrow> u8 list list \<Rightarrow> u8 list \<Rightarrow> u8 list" where
  "put_entries i es buf = fold (\<lambda>j. put_field ((i + j) * 32) (es ! j)) [0..<length es] buf"

definition entry_group_len :: "u8 list list \<Rightarrow> nat \<Rightarrow> nat option" where
  "entry_group_len entries idx =
     (let k = length (takeWhile (\<lambda>e. e ! 0x0B = ATTR_LONG_NAME) (drop idx entries))
      in if idx + k < length entries then Some (k + 1) else None)"

lemma entry_group_len_pos: "entry_group_len es i = Some g \<Longrightarrow> 0 < g"
  by (auto simp: entry_group_len_def Let_def split: if_splits)

function max_group_loop :: "u8 list list \<Rightarrow> nat \<Rightarrow> nat \<Rightarrow> nat option" where
  "max_group_loop entries gi m =
     (if gi < length entries then
        (case entry_group_len entries gi of
           None \<Rightarrow> None
         | Some g \<Rightarrow> max_group_loop entries (gi + g) (if g > m then g else m))
      else Some m)"
  by pat_completeness auto
termination
  by (relation "measure (\<lambda>(es, gi, m). length es - gi)") (auto dest: entry_group_len_pos)

declare max_group_loop.simps [simp del]

text \<open>Whole groups into the slots \<open>start ..\<close> as long as they fit into \<open>avail\<close>; \<open>stop\<close> bounds the slots
  used on entry to an iteration. The buffer, the slots used and the entries placed, or \<open>None\<close> for a
  group without a short entry.\<close>

function place_groups :: "u8 list list \<Rightarrow> nat \<Rightarrow> nat \<Rightarrow> nat \<Rightarrow> u8 list \<Rightarrow> nat \<Rightarrow> nat \<Rightarrow> (u8 list \<times> nat \<times> nat) option" where
  "place_groups entries start avail stop buf used placed =
     (if placed < length entries \<and> used < stop then
        (case entry_group_len entries placed of
           None \<Rightarrow> None
         | Some g \<Rightarrow>
             if used + g > avail then Some (buf, used, placed)
             else place_groups entries start avail stop
                    (put_entries (start + used) (take g (drop placed entries)) buf) (used + g) (placed + g))
      else Some (buf, used, placed))"
  by pat_completeness auto
termination
  by (relation "measure (\<lambda>(es, st, av, sp, b, u, p). length es - p)") (auto dest: entry_group_len_pos)

declare place_groups.simps [simp del]

definition mark_deleted :: "nat list \<Rightarrow> u8 list \<Rightarrow> u8 list" where
  "mark_deleted rs buf = fold (\<lambda>r b. b[r * 32 := DIR_DELETED]) rs buf"

text \<open>The free tail of the last cluster: the superblock and the number of entries placed.\<close>

definition fill_tail :: "'d submit \<Rightarrow> 'd fat_sb \<Rightarrow> nat \<Rightarrow> u8 list \<Rightarrow> u8 list list \<Rightarrow> nat \<Rightarrow> ('d, nat) fs_result" where
  "fill_tail sub sb last_clus buf entries placed =
     (let epc = entries_per_clus (fs_bpb sb)
      in case find (\<lambda>i. list_all (\<lambda>j. is_free_mark (buf ! (j * 32))) [i..<epc]) [0..<epc] of
           None \<Rightarrow> (sb, Inr placed)
         | Some start \<Rightarrow>
             (let avail = epc - start
              in case place_groups entries start avail (avail + 1) buf 0 placed of
                   None \<Rightarrow> (sb, Inl InvalidInput)
                 | Some (buf1, used, placed1) \<Rightarrow>
                     if used > 0 then
                       (let buf2 = (if placed1 < length entries \<and> used < avail
                                    then mark_deleted [start + used..<epc] buf1 else buf1)
                        in or_return (write_cluster sub sb last_clus buf2) (\<lambda>sb1 _. (sb1, Inr placed1)))
                     else if placed1 < length entries then
                       (let ends = filter (\<lambda>r. buf1 ! (r * 32) = DIR_END) [start..<epc]
                        in if ends \<noteq> []
                           then or_return (write_cluster sub sb last_clus (mark_deleted ends buf1)) (\<lambda>sb1 _. (sb1, Inr placed1))
                           else (sb, Inr placed1))
                     else (sb, Inr placed1)))"

text \<open>Fresh clusters for the rest. Every round places at least one group, so \<open>fuel\<close> rounds with as
  much fuel as entries never run out.\<close>

fun grow_loop :: "'d submit \<Rightarrow> nat \<Rightarrow> 'd fat_sb \<Rightarrow> nat \<Rightarrow> u8 list list \<Rightarrow> nat \<Rightarrow> ('d, unit) fs_result" where
  "grow_loop sub fuel sb last_clus entries placed =
     (if placed < length entries then
        (case fuel of
           0 \<Rightarrow> (sb, Inl IOError)
         | Suc fuel' \<Rightarrow>
             or_return (alloc_cluster sub sb) (\<lambda>sb1 new_clus.
               or_return (zero_cluster sub sb1 new_clus) (\<lambda>sb2 _.
                 or_return (write_fat_entry sub sb2 last_clus new_clus) (\<lambda>sb3 _.
                   (let epc = entries_per_clus (fs_bpb sb3)
                    in case place_groups entries 0 epc epc (replicate (byts_per_clus (fs_bpb sb3)) 0) 0 placed of
                         None \<Rightarrow> (sb3, Inl InvalidInput)
                       | Some (out, slot, placed1) \<Rightarrow>
                           or_return (write_cluster sub sb3 new_clus out) (\<lambda>sb4 _.
                             grow_loop sub fuel' sb4 new_clus entries placed1))))))
      else (sb, Inr ()))"

declare grow_loop.simps [simp del]

definition place_with_growth :: "'d submit \<Rightarrow> 'd fat_sb \<Rightarrow> nat \<Rightarrow> u8 list \<Rightarrow> u8 list list \<Rightarrow> nat \<Rightarrow> ('d, unit) fs_result" where
  "place_with_growth sub sb last_clus buf entries placed =
     (case max_group_loop entries 0 1 of
        None \<Rightarrow> (sb, Inl InvalidInput)
      | Some max_group \<Rightarrow>
          if max_group > entries_per_clus (fs_bpb sb) then (sb, Inl InvalidInput)
          else or_return (fill_tail sub sb last_clus buf entries placed) (\<lambda>sb1 placed1.
                 grow_loop sub (length entries) sb1 last_clus entries placed1))"

function write_entries_loop ::
  "'d submit \<Rightarrow> nat \<Rightarrow> nat \<Rightarrow> 'd fat_sb \<Rightarrow> u8 list \<Rightarrow> u8 list list \<Rightarrow> nat \<Rightarrow> ('d, unit) fs_result" where
  "write_entries_loop sub limit iters sb buf entries cluster =
     or_return (read_cluster sub sb cluster buf) (\<lambda>sb1 buf1.
       (case find_spot (entries_per_clus (fs_bpb sb1)) buf1 (length entries) of
          Some i \<Rightarrow> write_cluster sub sb1 cluster (put_entries i entries buf1)
        | None \<Rightarrow>
            if iters + 1 > limit then (sb1, Inl IOError)
            else
              or_return (read_fat_entry sub sb1 cluster) (\<lambda>sb2 next_c.
                if next_c \<ge> EOC_MARKER then place_with_growth sub sb2 cluster buf1 entries 0
                else write_entries_loop sub limit (iters + 1) sb2 buf1 entries next_c)))"
  by pat_completeness auto
termination
  by (relation "measure (\<lambda>(s, limit, iters, sb, b, es, c). limit - iters)") auto

declare write_entries_loop.simps [simp del]

definition write_dir_entries :: "'d submit \<Rightarrow> 'd fat_sb \<Rightarrow> nat \<Rightarrow> u8 list list \<Rightarrow> ('d, unit) fs_result" where
  "write_dir_entries sub sb dir_clus entries =
     (if entries = [] then (sb, Inr ())
      else if dir_clus < 2 then (sb, Inl InvalidInput)
      else write_entries_loop sub (total_clus (fs_bpb sb) + 2) 0 sb (replicate (byts_per_clus (fs_bpb sb)) 0) entries dir_clus)"

section \<open>Finding, updating and removing entries\<close>

text \<open>The first of the long-name slots right before slot \<open>i\<close>.\<close>

fun chain_start :: "u8 list \<Rightarrow> nat \<Rightarrow> nat" where
  "chain_start buf 0 = 0"
| "chain_start buf (Suc i) = (if buf ! (i * 32 + 0x0B) = ATTR_LONG_NAME then chain_start buf i else Suc i)"

definition name_at :: "u8 list \<Rightarrow> nat \<Rightarrow> nat list" where
  "name_at buf i =
     (let vfat = map (dir_entry_at buf) [chain_start buf i..<i]
      in if vfat \<noteq> [] then decode_vfat_name vfat
         else decode_sfn_case (take 11 (dir_entry_at buf i)) (buf ! (i * 32 + 0x0C)))"

text \<open>The slot of the name in a cluster: \<open>Inl True\<close> at the end mark, \<open>Inl False\<close> when the cluster is
  exhausted.\<close>

fun search_slots :: "u8 list \<Rightarrow> nat list \<Rightarrow> nat list \<Rightarrow> bool + nat" where
  "search_slots buf name [] = Inl False"
| "search_slots buf name (i # is) =
     (if buf ! (i * 32) = DIR_END then Inl True
      else if buf ! (i * 32) = DIR_DELETED then search_slots buf name is
      else if buf ! (i * 32 + 0x0B) = ATTR_LONG_NAME then search_slots buf name is
      else if buf ! (i * 32 + 0x0B) AND ATTR_VOLUME_ID \<noteq> 0 then search_slots buf name is
      else if eq_ignore_ascii_case (name_at buf i) name then Inr i
      else search_slots buf name is)"

text \<open>The common loop of \<open>find_and_update_entry\<close> and \<open>remove_dir_entries\<close>: \<open>edit\<close> changes the cluster's
  buffer at the slot found.\<close>

function edit_entry_loop ::
  "'d submit \<Rightarrow> (nat \<Rightarrow> u8 list \<Rightarrow> u8 list) \<Rightarrow> nat list \<Rightarrow> nat \<Rightarrow> nat \<Rightarrow> 'd fat_sb \<Rightarrow> u8 list \<Rightarrow> nat \<Rightarrow> ('d, unit) fs_result" where
  "edit_entry_loop sub edit name limit iters sb buf cluster =
     or_return (read_cluster sub sb cluster buf) (\<lambda>sb1 buf1.
       (case search_slots buf1 name [0..<entries_per_clus (fs_bpb sb1)] of
          Inl True \<Rightarrow> (sb1, Inl NotFound)
        | Inr i \<Rightarrow> write_cluster sub sb1 cluster (edit i buf1)
        | Inl False \<Rightarrow>
            if iters + 1 > limit then (sb1, Inl IOError)
            else
              or_return (read_fat_entry sub sb1 cluster) (\<lambda>sb2 next_c.
                if next_c \<ge> EOC_MARKER then (sb2, Inl NotFound)
                else edit_entry_loop sub edit name limit (iters + 1) sb2 buf1 next_c)))"
  by pat_completeness auto
termination
  by (relation "measure (\<lambda>(s, ed, nm, limit, iters, sb, b, c). limit - iters)") auto

declare edit_entry_loop.simps [simp del]

definition find_and_update_entry ::
  "'d submit \<Rightarrow> 'd fat_sb \<Rightarrow> nat \<Rightarrow> nat list \<Rightarrow> (u8 list \<Rightarrow> u8 list) \<Rightarrow> ('d, unit) fs_result" where
  "find_and_update_entry sub sb dir_clus name f =
     edit_entry_loop sub (\<lambda>i buf. put_field (i * 32) (f (dir_entry_at buf i)) buf) name
       (total_clus (fs_bpb sb) + 2) 0 sb (replicate (byts_per_clus (fs_bpb sb)) 0) dir_clus"

definition update_entry_cluster_and_size ::
  "'d submit \<Rightarrow> nat option \<Rightarrow> 'd fat_sb \<Rightarrow> nat \<Rightarrow> nat list \<Rightarrow> nat option \<Rightarrow> nat option \<Rightarrow> ('d, unit) fs_result" where
  "update_entry_cluster_and_size sub clock sb dir_clus name new_clus new_size =
     find_and_update_entry sub sb dir_clus name (\<lambda>entry.
       (let e1 = (case new_clus of Some c \<Rightarrow> set_first_clus_in_entry (of_nat c) entry | None \<Rightarrow> entry);
            e2 = (case new_size of Some s \<Rightarrow> set_file_size_in_entry (of_nat s) e1 | None \<Rightarrow> e1)
        in fst (set_timestamps clock e2)))"

definition remove_dir_entries :: "'d submit \<Rightarrow> 'd fat_sb \<Rightarrow> nat \<Rightarrow> nat list \<Rightarrow> ('d, unit) fs_result" where
  "remove_dir_entries sub sb dir_clus name =
     edit_entry_loop sub (\<lambda>i buf. mark_deleted [chain_start buf i..<i + 1] buf) name
       (total_clus (fs_bpb sb) + 2) 0 sb (replicate (byts_per_clus (fs_bpb sb)) 0) dir_clus"

end
