(* ===== verification/Fat_Growth.thy ===== *)
theory Fat_Growth
  imports Fat_Free Fat_Dir
begin

text \<open>Growing a directory ends: no step changes the geometry, and a group of entries that fits into an empty
  cluster is placed by every round.\<close>

section \<open>The geometry is never changed\<close>

named_theorems bpb_frame

lemma sb_io_bpb [bpb_frame]:
  "sb_read sub sb lba cnt buf = (sb', r) \<Longrightarrow> fs_bpb sb' = fs_bpb sb"
  "sb_write sub sb lba cnt buf = (sb', u) \<Longrightarrow> fs_bpb sb' = fs_bpb sb"
  by (auto simp: sb_read_def sb_write_def split: prod.splits)

lemma cluster_io_bpb [bpb_frame]:
  "read_cluster sub sb c buf = (sb', r) \<Longrightarrow> fs_bpb sb' = fs_bpb sb"
  "write_cluster sub sb c buf = (sb', u) \<Longrightarrow> fs_bpb sb' = fs_bpb sb"
  "zero_cluster sub sb c = (sb', u) \<Longrightarrow> fs_bpb sb' = fs_bpb sb"
  by (auto simp: read_cluster_def write_cluster_def zero_cluster_def dest: sb_io_bpb split: if_splits)

lemma fat_entry_bpb [bpb_frame]:
  "read_fat_entry sub sb c = (sb', r) \<Longrightarrow> fs_bpb sb' = fs_bpb sb"
  "write_fat_entry sub sb c v = (sb', u) \<Longrightarrow> fs_bpb sb' = fs_bpb sb"
  by (auto simp: read_fat_entry_def write_fat_entry_def Let_def split: prod.splits sum.splits)

lemma write_free_all_bpb [simp]: "fs_bpb (write_free_all sub sb cs) = fs_bpb sb"
proof (induction cs arbitrary: sb)
  case (Cons c cs)
  then show ?case using fat_entry_bpb(2) [of sub sb c FREE_CLUSTER] by (cases "write_fat_entry sub sb c FREE_CLUSTER") simp
qed simp

lemma write_eocs_bpb: "write_eocs sub cands sb out is = (sb', r) \<Longrightarrow> fs_bpb sb' = fs_bpb sb"
  by (induction sub cands sb out "is" rule: write_eocs.induct)
     (auto dest: fat_entry_bpb split: prod.splits sum.splits)

lemma scan_alloc_bpb: "scan_alloc sub n h cnt sb out is = (sb', r) \<Longrightarrow> fs_bpb sb' = fs_bpb sb"
  by (induction sub n h cnt sb out "is" rule: scan_alloc.induct)
     (auto simp: Let_def dest!: fat_entry_bpb split: prod.splits sum.splits if_splits)

lemma alloc_scan_bpb: "alloc_scan sub sb cnt = (sb', r) \<Longrightarrow> fs_bpb sb' = fs_bpb sb"
  by (auto simp: alloc_scan_def Let_def or_return_def dest!: scan_alloc_bpb split: prod.splits sum.splits if_splits)

lemma alloc_clusters_bpb: "alloc_clusters sub sb cnt = (sb', r) \<Longrightarrow> fs_bpb sb' = fs_bpb sb"
  by (auto simp: alloc_clusters_def or_return_def dest!: alloc_scan_bpb write_eocs_bpb split: option.splits prod.splits sum.splits if_splits)

lemma alloc_cluster_bpb [bpb_frame]: "alloc_cluster sub sb = (sb', r) \<Longrightarrow> fs_bpb sb' = fs_bpb sb"
  by (auto simp: alloc_cluster_def or_return_def dest!: alloc_clusters_bpb split: prod.splits sum.splits)

section \<open>Groups\<close>

text \<open>Inside a group the rest of the group is the group.\<close>

lemma takeWhile_drop_inside: "j \<le> length (takeWhile P xs) \<Longrightarrow> takeWhile P (drop j xs) = drop j (takeWhile P xs)"
  by (induction xs arbitrary: j) (auto split: if_splits simp: drop_Cons split: nat.splits)

lemma entry_group_len_inside:
  assumes "entry_group_len es i = Some g" "j < g"
  shows "entry_group_len es (i + j) = Some (g - j)"
proof -
  let ?t = "\<lambda>i. takeWhile (\<lambda>e. e ! 0x0B = ATTR_LONG_NAME) (drop i es)"
  have g: "g = length (?t i) + 1" "i + length (?t i) < length es"
    using assms(1) by (auto simp: entry_group_len_def Let_def split: if_splits)
  then have "length (?t (i + j)) = length (?t i) - j"
    using takeWhile_drop_inside [of j _ "drop i es"] assms(2) by (simp add: add.commute)
  then show ?thesis using g assms(2) by (simp add: entry_group_len_def Let_def)
qed

lemma max_group_bound:
  "max_group_loop es gi m0 = Some m \<Longrightarrow> m0 \<le> m \<and> (\<forall>i. gi \<le> i \<and> i < length es \<longrightarrow> (\<exists>g. entry_group_len es i = Some g \<and> g \<le> m))"
proof (induction es gi m0 rule: max_group_loop.induct)
  case (1 es gi m0)
  show ?case
  proof (cases "gi < length es")
    case True
    then obtain g where g: "entry_group_len es gi = Some g" and rest: "max_group_loop es (gi + g) (if g > m0 then g else m0) = Some m"
      using 1(2) by (auto simp: max_group_loop.simps [of es gi] split: option.splits)
    note ih = 1(1) [OF True g rest]
    have "\<exists>g'. entry_group_len es i = Some g' \<and> g' \<le> m" if i: "gi \<le> i" "i < length es" for i
    proof (cases "i < gi + g")
      case True
      then have "entry_group_len es i = Some (g - (i - gi))" using entry_group_len_inside [OF g, of "i - gi"] i by auto
      then show ?thesis using ih by (auto split: if_splits)
    qed (use ih i in auto)
    then show ?thesis using ih by (auto split: if_splits)
  qed (use 1(2) in \<open>auto simp: max_group_loop.simps\<close>)
qed

lemma place_groups_mono: "place_groups es st av sp buf used placed = Some (out, slot, placed1) \<Longrightarrow> placed \<le> placed1"
proof (induction es st av sp buf used placed rule: place_groups.induct)
  case (1 es st av sp buf used placed)
  show ?case using 1(2) 1(1) unfolding place_groups.simps [of es st av sp buf used placed]
    by (force split: if_splits option.splits)
qed

lemma place_groups_progress:
  assumes "placed < length es" "entry_group_len es placed = Some g" "g \<le> epc"
    and p: "place_groups es 0 epc epc buf 0 placed = Some (out, slot, placed1)"
  shows "placed < placed1"
proof -
  have "0 < g" by (rule entry_group_len_pos [OF assms(2)])
  then have "place_groups es 0 epc epc buf 0 placed = place_groups es 0 epc epc (put_entries 0 (take g (drop placed es)) buf) g (placed + g)"
    using assms by (subst place_groups.simps) simp
  with p have "placed + g \<le> placed1" by (auto intro: place_groups_mono)
  then show ?thesis using \<open>0 < g\<close> by simp
qed

text \<open>More fuel than entries changes nothing.\<close>

lemma grow_loop_fuel:
  assumes m: "max_group_loop es 0 1 = Some m"
  shows "m \<le> entries_per_clus (fs_bpb sb) \<Longrightarrow> length es - placed \<le> fuel \<Longrightarrow>
    grow_loop sub (fuel + k) sb c es placed = grow_loop sub fuel sb c es placed"
proof (induction fuel arbitrary: sb c placed)
  case 0
  then show ?case by (subst (1 2) grow_loop.simps) simp
next
  case (Suc fuel)
  show ?case
  proof (cases "placed < length es")
    case True
    have step: "grow_loop sub (fuel + k) sb4 c' es placed1 = grow_loop sub fuel sb4 c' es placed1"
      if "alloc_cluster sub sb = (sb1, Inr c1)" "zero_cluster sub sb1 c1 = (sb2, Inr u)" "write_fat_entry sub sb2 c c1 = (sb3, Inr v)"
        and p: "place_groups es 0 (entries_per_clus (fs_bpb sb3)) (entries_per_clus (fs_bpb sb3))
          (replicate (byts_per_clus (fs_bpb sb3)) 0) 0 placed = Some (out, slot, placed1)"
        and "write_cluster sub sb3 c1 out = (sb4, Inr w)" for sb1 c1 sb2 u sb3 v out slot placed1 sb4 w c'
    proof (rule Suc.IH)
      have b: "fs_bpb sb3 = fs_bpb sb" "fs_bpb sb4 = fs_bpb sb" using that by (auto dest!: bpb_frame)
      show "m \<le> entries_per_clus (fs_bpb sb4)" using Suc.prems(1) b by simp
      obtain g where "entry_group_len es placed = Some g" "g \<le> m" using max_group_bound [OF m] True by blast
      from place_groups_progress [OF True this(1) _ p] this(2) show "length es - placed1 \<le> fuel" using Suc.prems b by simp
    qed
    show ?thesis
      unfolding add_Suc grow_loop.simps [of sub "Suc _"] or_return_def Let_def nat.case
      by (auto split: prod.splits sum.splits option.splits dest: step)
  qed (subst (1 2) grow_loop.simps, simp)
qed

end
