(* ===== verification/Fat_Scan.thy ===== *)
theory Fat_Scan
  imports Fat_Free
begin

text \<open>Mounting: the geometry the boot sector gives, and the scan that makes the bitmap and the free
  count agree with the table.\<close>

section \<open>Geometry\<close>

text \<open>The geometry of a volume on a device of \<open>n\<close> sectors: reserved sectors, then the FATs, then the clusters,
  all on the device.\<close>

definition geometry_ok :: "nat \<Rightarrow> bpb \<Rightarrow> bool" where
  "geometry_ok n b \<longleftrightarrow> bytes_per_sec b = 512 \<and> sec_per_clus b \<in> {1, 2, 4, 8, 16, 32, 64, 128}
     \<and> byts_per_clus b = 512 * sec_per_clus b \<and> 0 < rsvd_sec_cnt b \<and> 0 < num_fats b \<and> 0 < fat_sz32 b
     \<and> first_data_sec b = rsvd_sec_cnt b + num_fats b * fat_sz32 b
     \<and> first_data_sec b + total_clus b * sec_per_clus b \<le> n
     \<and> rsvd_sec_cnt b + num_fats b * fat_sz32 b < 2 ^ 32 \<and> total_clus b + 2 < 2 ^ 32 \<and> valid_clus b (root_clus b)"

lemma guard_Inr: "(if c then Inl e else x) = Inr b \<longleftrightarrow> \<not> c \<and> x = Inr b"
  by simp

lemma parse_bpb_geometry:
  assumes "parse_bpb sub n d = (d', Inr b)"
  shows "geometry_ok n b"
proof -
  obtain sector where r: "fat_read sub d 0 1 (replicate 512 0) = (d', Inr sector)"
    using assms by (auto simp: parse_bpb_def split: prod.splits sum.splits)
  define fds where "fds = le_field 0x0E 2 sector + le_field 0x10 1 sector * le_field 0x24 4 sector"
  define ts where "ts = (if le_field 0x13 2 sector \<noteq> 0 then le_field 0x13 2 sector else le_field 0x20 4 sector)"
  define spc where "spc = le_field 0x0D 1 sector"
  define rc where "rc = le_field 0x2C 4 sector"
  have ts: "ts < 2 ^ 32" using le_field_bound [of "0x13" 2 sector] le_field_bound [of "0x20" 4 sector] by (auto simp: ts_def)
  have p: "snd (parse_bpb sub n d) = Inr b" using assms by simp
  note p' = p [unfolded parse_bpb_def r prod.case sum.case snd_conv Let_def guard_Inr sum.inject(2)]
  have g: "spc \<in> {1, 2, 4, 8, 16, 32, 64, 128}" "0 < le_field 0x0E 2 sector" "0 < le_field 0x10 1 sector" "0 < le_field 0x24 4 sector"
      "2 \<le> rc" "fds < ts" "ts \<le> n" "rc < 2 + (ts - fds) div spc"
    using p' by (simp_all add: fds_def ts_def spc_def rc_def not_le not_less)
  have bps: "le_field 0x0B 2 sector = 512" using p' by simp
  have b: "b = \<lparr>bytes_per_sec = 512, sec_per_clus = spc, rsvd_sec_cnt = le_field 0x0E 2 sector, num_fats = le_field 0x10 1 sector,
      fat_sz32 = le_field 0x24 4 sector, root_clus = rc, fsinfo_sec = le_field 0x30 2 sector, byts_per_clus = 512 * spc,
      first_data_sec = fds, total_clus = (ts - fds) div spc, ext_flags = le_field 0x28 2 sector\<rparr>"
    using p' unfolding bps fds_def ts_def spc_def rc_def by (elim conjE) (erule sym)
  have q: "(ts - fds) div spc * spc \<le> ts - fds" "(ts - fds) div spc \<le> ts - fds" by simp_all
  have "1 * 1 \<le> le_field 0x10 1 sector * le_field 0x24 4 sector" using g by (intro mult_le_mono) simp_all
  then have "2 \<le> fds" using g(2) unfolding fds_def by linarith
  then have n: "fds + (ts - fds) div spc * spc \<le> n" "fds < 2 ^ 32" "(ts - fds) div spc + 2 < 2 ^ 32" using q g ts by linarith+
  show ?thesis unfolding geometry_ok_def valid_clus_def b using n g by (simp only: bpb.simps fds_def)
qed

text \<open>The sectors of a cluster and of a FAT copy.\<close>

definition cluster_sectors :: "bpb \<Rightarrow> nat \<Rightarrow> nat set" where
  "cluster_sectors b c = {cluster_to_lba b c..<cluster_to_lba b c + sec_per_clus b}"

definition fat_sectors :: "bpb \<Rightarrow> nat \<Rightarrow> nat set" where
  "fat_sectors b i = {fat_sector_lba b i 0..<fat_sector_lba b i 0 + fat_sz32 b}"

lemma cluster_sectors_in:
  assumes "geometry_ok n b" "valid_clus b c"
  shows "cluster_sectors b c \<subseteq> {first_data_sec b..<n}"
proof -
  have "(c - 2 + 1) * sec_per_clus b \<le> total_clus b * sec_per_clus b"
    using assms(2) by (intro mult_le_mono1) (auto simp: valid_clus_def)
  then show ?thesis using assms(1) by (auto simp: geometry_ok_def cluster_sectors_def cluster_to_lba_def)
qed

lemma cluster_sectors_disjoint:
  assumes "valid_clus b c" "valid_clus b c'" "c \<noteq> c'"
  shows "cluster_sectors b c \<inter> cluster_sectors b c' = {}"
proof -
  have "cluster_sectors b x \<inter> cluster_sectors b y = {}" if "x < y" "2 \<le> x" for x y
  proof -
    have "(x - 2 + 1) * sec_per_clus b \<le> (y - 2) * sec_per_clus b" using that by (intro mult_le_mono1) auto
    then show ?thesis by (auto simp: cluster_sectors_def cluster_to_lba_def)
  qed
  then show ?thesis using assms by (metis inf_commute linorder_neqE_nat valid_clus_def)
qed

lemma fat_sectors_in:
  assumes "geometry_ok n b" "i < num_fats b"
  shows "fat_sectors b i \<subseteq> {rsvd_sec_cnt b..<first_data_sec b}"
proof -
  have "(i + 1) * fat_sz32 b \<le> num_fats b * fat_sz32 b" using assms(2) by (intro mult_le_mono1) simp
  then show ?thesis using assms(1) by (auto simp: geometry_ok_def fat_sectors_def fat_sector_lba_def)
qed

lemma parse_bpb_dev: "parse_bpb sub n d = (d1, r) \<Longrightarrow> \<exists>x. fat_read sub d 0 1 (replicate 512 0) = (d1, x)"
  unfolding parse_bpb_def by (cases "fat_read sub d 0 1 (replicate 512 0)"; cases "snd (fat_read sub d 0 1 (replicate 512 0))") simp_all

lemma scan_loop_bpb: "scan_loop sub flba nsec lv fin sb cb acc = (sb', res) \<Longrightarrow> fs_bpb sb' = fs_bpb sb"
proof (induction sub flba nsec lv fin sb cb acc rule: scan_loop.induct)
  case (1 sub flba nsec lv fin sb cb acc)
  define len where "len = min 504 (nsec - fin) * 512"
  obtain d r where rd: "fat_read sub (fs_dev sb) (flba + fin) (min 504 (nsec - fin)) (take len cb) = (d, r)" by fastforce
  show ?case
  proof (cases "fin < nsec")
    case True
    show ?thesis
      using 1(2) 1(1) [OF True refl refl, of "sb\<lparr>fs_dev := d\<rparr>"] True
      unfolding scan_loop.simps [of sub flba nsec lv fin] Let_def or_return_def sb_read_def len_def [symmetric] rd
      by (cases r) auto
  qed (use 1(2) in \<open>simp add: scan_loop.simps\<close>)
qed

lemma scan_free_clusters_bpb: "scan_free_clusters sub sb = (sb', r) \<Longrightarrow> fs_bpb sb' = fs_bpb sb"
  by (auto simp: scan_free_clusters_def Let_def or_return_def dest: scan_loop_bpb split: if_splits prod.splits sum.splits)

section \<open>The scan\<close>

lemma foldl_upt_inv:
  "P 0 a \<Longrightarrow> (\<And>i a. i < n \<Longrightarrow> P i a \<Longrightarrow> P (Suc i) (f a i)) \<Longrightarrow> P n (foldl f a [0..<n])"
  by (induction n) auto

text \<open>The entries below \<open>k\<close> have been counted and marked; \<open>e\<close> is the table, \<open>n\<close> the number of clusters.\<close>

definition scanned :: "nat \<Rightarrow> (nat \<Rightarrow> nat) \<Rightarrow> nat \<Rightarrow> nat \<times> u64 list option \<Rightarrow> bool" where
  "scanned n e k acc \<longleftrightarrow> fst acc = card {c. 2 \<le> c \<and> c < 2 + n \<and> c < k \<and> e c = FREE_CLUSTER}
     \<and> (\<forall>ws. snd acc = Some ws \<longrightarrow> bitmap_len n ws \<and> (\<forall>i<n. bmp_test ws i \<longleftrightarrow> 2 + i < k \<and> e (2 + i) \<noteq> FREE_CLUSTER))"

lemma scanned_start: "scanned n e 0 (0, if n \<le> m then Some (AllocBitmap_new n) else None)"
proof -
  have "\<not> bmp_test (AllocBitmap_new n) i" if "i < n" for i
    using bitmap_word [of n "AllocBitmap_new n" i] that by (simp add: bmp_test_bit AllocBitmap_new_def bitmap_len_def)
  then show ?thesis by (simp add: scanned_def bitmap_len_def AllocBitmap_new_def)
qed

lemma scanned_entry:
  assumes s: "scanned n e (base + i) acc" and v: "le_field (i * 4) 4 sec mod 0x10000000 = e (base + i)"
  shows "scanned n e (Suc (base + i)) (scan_entry (2 + n - 1) base sec acc i)"
proof -
  let ?k = "base + i"
  let ?F = "\<lambda>k. {c. 2 \<le> c \<and> c < 2 + n \<and> c < k \<and> e c = FREE_CLUSTER}"
  have fin: "finite (?F ?k)" by (rule finite_subset [of _ "{..<?k}"]) auto
  consider "?k < 2 \<or> 2 + n \<le> ?k" | "2 \<le> ?k" "?k < 2 + n" "e ?k = FREE_CLUSTER" | "2 \<le> ?k" "?k < 2 + n" "e ?k \<noteq> FREE_CLUSTER"
    by linarith
  then show ?thesis
  proof cases
    case 1
    then have "?F (Suc ?k) = ?F ?k" by (auto simp: less_Suc_eq)
    moreover have "2 + j < Suc ?k \<longleftrightarrow> 2 + j < ?k" if "j < n" for j using 1 that by auto
    moreover have "scan_entry (2 + n - 1) base sec acc i = acc" using 1 by (auto simp: scan_entry_def)
    ultimately show ?thesis using s by (simp add: scanned_def)
  next
    case 2
    then have F: "?F (Suc ?k) = insert ?k (?F ?k)" by (auto simp: less_Suc_eq)
    have "card (?F (Suc ?k)) = Suc (card (?F ?k))" unfolding F using fin by simp
    moreover have "scan_entry (2 + n - 1) base sec acc i = (fst acc + 1, snd acc)" using 2 v by (simp add: scan_entry_def)
    moreover have "2 + j < Suc ?k \<and> e (2 + j) \<noteq> FREE_CLUSTER \<longleftrightarrow> 2 + j < ?k \<and> e (2 + j) \<noteq> FREE_CLUSTER" for j
      using 2(3) by (metis less_SucE less_SucI)
    ultimately show ?thesis using s by (simp add: scanned_def)
  next
    case 3
    then have F: "?F (Suc ?k) = ?F ?k" by (auto simp: less_Suc_eq)
    have eq: "scan_entry (2 + n - 1) base sec acc i = (fst acc, map_option (bmp_set (?k - 2)) (snd acc))"
      using 3 v by (simp add: scan_entry_def)
    have "bitmap_len n ws' \<and> (\<forall>j<n. bmp_test ws' j \<longleftrightarrow> 2 + j < Suc ?k \<and> e (2 + j) \<noteq> FREE_CLUSTER)"
      if w: "map_option (bmp_set (?k - 2)) (snd acc) = Some ws'" for ws'
    proof -
      obtain ws where ws: "snd acc = Some ws" "ws' = bmp_set (?k - 2) ws" using w by auto
      then have l: "bitmap_len n ws" and t: "\<And>j. j < n \<Longrightarrow> bmp_test ws j \<longleftrightarrow> 2 + j < ?k \<and> e (2 + j) \<noteq> FREE_CLUSTER"
        using s by (auto simp: scanned_def)
      have "bmp_test ws' j \<longleftrightarrow> j = ?k - 2 \<or> bmp_test ws j" for j
        unfolding ws(2) by (rule bmp_test_set [OF l]) (use 3 in auto)
      moreover have "j = ?k - 2 \<longleftrightarrow> 2 + j = ?k" for j using 3(1) by auto
      ultimately have "bmp_test ws' j \<longleftrightarrow> 2 + j < Suc ?k \<and> e (2 + j) \<noteq> FREE_CLUSTER" if "j < n" for j
        using t [OF that] 3(3) by (metis less_Suc_eq)
      then show ?thesis using l ws(2) by simp
    qed
    then show ?thesis using s by (simp only: eq scanned_def F fst_conv snd_conv) blast
  qed
qed

lemma scanned_sector:
  assumes "scanned n e ((sf + off) * 128) acc"
    and "\<And>i. i < 128 \<Longrightarrow> le_field (i * 4) 4 (take 512 (drop (off * 512) buf)) mod 0x10000000 = e ((sf + off) * 128 + i)"
  shows "scanned n e ((sf + Suc off) * 128) (scan_sector (2 + n - 1) sf off buf acc)"
proof -
  have "scanned n e ((sf + off) * 128 + 128) (scan_sector (2 + n - 1) sf off buf acc)"
    unfolding scan_sector_def
    by (rule foldl_upt_inv [where P = "\<lambda>i. scanned n e ((sf + off) * 128 + i)"])
      (use assms scanned_entry in \<open>auto simp del: One_nat_def add_2_eq_Suc\<close>)
  then show ?thesis by (simp add: algebra_simps)
qed

context reliable_device
begin

lemma concat_sector:
  assumes "ok d" "k < cnt"
  shows "take 512 (drop (k * 512) (concat (map (disk d) [lba..<lba + cnt]))) = disk d (lba + k)"
proof -
  have "[lba..<lba + cnt] = [lba..<lba + k] @ (lba + k) # [lba + Suc k..<lba + cnt]"
    using assms(2) by (metis add_Suc_right le_add1 less_imp_add_positive nat_add_left_cancel_less upt_add_eq_append upt_conv_Cons add.assoc)
  moreover have "length (concat (map (disk d) [lba..<lba + k])) = k * 512"
    using sector_len [OF assms(1)] by (simp add: length_concat o_def sum_list_triv)
  ultimately show ?thesis using sector_len [OF assms(1)] by simp
qed

lemma scanned_chunk:
  assumes "ok d" and e: "\<And>c. e c = le_field (c * 4 mod 512) 4 (disk d (flba + c * 4 div 512)) mod 0x10000000"
    and "scanned n e (fin * 128) acc"
  shows "scanned n e ((fin + chunk) * 128)
    (foldl (\<lambda>a off. scan_sector (2 + n - 1) fin off (concat (map (disk d) [flba + fin..<flba + fin + chunk])) a) acc [0..<chunk])"
proof (rule foldl_upt_inv [where P = "\<lambda>off. scanned n e ((fin + off) * 128)"])
  let ?got = "concat (map (disk d) [flba + fin..<flba + fin + chunk])"
  have ent: "le_field (i * 4) 4 (disk d (flba + fin + off)) mod 0x10000000 = e ((fin + off) * 128 + i)" if "i < 128" for i off
  proof -
    have "((fin + off) * 128 + i) * 4 = (fin + off) * 512 + i * 4" by simp
    then have "((fin + off) * 128 + i) * 4 mod 512 = i * 4" "((fin + off) * 128 + i) * 4 div 512 = fin + off"
      using that by (simp_all only: mod_mult_self3 div_mult_self3 mod_less div_less)
    then show ?thesis by (simp only: e add.assoc)
  qed
  show "scanned n e ((fin + 0) * 128) acc" using assms(3) by simp
  show "scanned n e ((fin + Suc off) * 128) (scan_sector (2 + n - 1) fin off ?got a)"
    if "off < chunk" "scanned n e ((fin + off) * 128) a" for off a
    by (rule scanned_sector [OF that(2)]) (simp only: concat_sector [OF assms(1) that(1)] ent)
qed

lemma scan_loop_spec:
  "ok (fs_dev sb) \<Longrightarrow> fin \<le> nsec \<Longrightarrow> 504 * 512 \<le> length cb \<Longrightarrow>
   (\<And>c. e c = le_field (c * 4 mod 512) 4 (disk (fs_dev sb) (flba + c * 4 div 512)) mod 0x10000000) \<Longrightarrow>
   scanned n e (fin * 128) acc \<Longrightarrow> scan_loop sub flba nsec (2 + n - 1) fin sb cb acc = (sb', res) \<Longrightarrow>
   ok (fs_dev sb') \<and> disk (fs_dev sb') = disk (fs_dev sb) \<and> fat_step sb sb' \<and> fs_cache sb' = fs_cache sb
   \<and> (\<forall>a. res = Inr a \<longrightarrow> scanned n e (nsec * 128) a)"
proof (induction "nsec - fin" arbitrary: fin sb cb acc rule: less_induct)
  case less
  show ?case
  proof (cases "fin < nsec")
    case False
    then have "sb' = sb \<and> res = Inr acc" using less.prems(6) by (simp add: scan_loop.simps)
    then show ?thesis using False less.prems by simp
  next
    case True
    define chunk where "chunk = min 504 (nsec - fin)"
    have ch: "0 < chunk" "chunk \<le> 504" "fin + chunk \<le> nsec" using True by (auto simp: chunk_def)
    obtain d1 r1 where rd: "fat_read sub (fs_dev sb) (flba + fin) chunk (take (chunk * 512) cb) = (d1, r1)" by fastforce
    have len: "length (take (chunk * 512) cb) = 512 * chunk" using less.prems(3) ch(2) by simp
    note r = fat_read_spec [OF less.prems(1) rd ch(1) len]
    have step: "scan_loop sub flba nsec (2 + n - 1) fin sb cb acc =
        (case r1 of Inl x \<Rightarrow> (sb\<lparr>fs_dev := d1\<rparr>, Inl x) | Inr got \<Rightarrow>
          scan_loop sub flba nsec (2 + n - 1) (fin + chunk) (sb\<lparr>fs_dev := d1\<rparr>) (got @ drop (chunk * 512) cb)
            (foldl (\<lambda>a off. scan_sector (2 + n - 1) fin off got a) acc [0..<chunk]))"
      using True by (simp only: scan_loop.simps [of sub flba nsec "2 + n - 1" fin] Let_def chunk_def [symmetric] sb_read_def rd
          or_return_def if_True prod.case split: sum.split)
    show ?thesis
    proof (cases r1)
      case (Inl x)
      then show ?thesis using less.prems(6) r step by (auto simp: fat_step_iff)
    next
      case (Inr got)
      have got: "got = concat (map (disk (fs_dev sb)) [flba + fin..<flba + fin + chunk])" by (rule r(3) [OF Inr])
      have sc: "scanned n e ((fin + chunk) * 128) (foldl (\<lambda>a off. scan_sector (2 + n - 1) fin off got a) acc [0..<chunk])"
        unfolding got by (rule scanned_chunk [OF less.prems(1,4,5)])
      have len': "504 * 512 \<le> length (got @ drop (chunk * 512) cb)"
        using less.prems(3) ch(2) sector_len [OF less.prems(1)] by (simp add: got length_concat o_def sum_list_triv)
      have rest: "scan_loop sub flba nsec (2 + n - 1) (fin + chunk) (sb\<lparr>fs_dev := d1\<rparr>) (got @ drop (chunk * 512) cb)
            (foldl (\<lambda>a off. scan_sector (2 + n - 1) fin off got a) acc [0..<chunk]) = (sb', res)"
        using less.prems(6) step Inr by simp
      have "ok (fs_dev sb') \<and> disk (fs_dev sb') = disk (fs_dev (sb\<lparr>fs_dev := d1\<rparr>)) \<and> fat_step (sb\<lparr>fs_dev := d1\<rparr>) sb' \<and> fs_cache sb' = fs_cache (sb\<lparr>fs_dev := d1\<rparr>)
          \<and> (\<forall>a. res = Inr a \<longrightarrow> scanned n e (nsec * 128) a)"
        by (rule less.hyps [OF _ _ ch(3) len' _ sc rest]) (use ch r(1,2) less.prems(4) in simp_all)
      then show ?thesis using r(2) by (simp add: fat_step_iff)
    qed
  qed
qed

lemma sb_read_spec:
  assumes "ok (fs_dev sb)" "sb_read sub sb lba cnt buf = (sb', r)" "0 < cnt" "length buf = 512 * cnt"
  shows "ok (fs_dev sb')" and "disk (fs_dev sb') = disk (fs_dev sb)" and "fat_step sb sb'" and "fs_cache sb' = fs_cache sb"
    and "r = Inr b \<Longrightarrow> b = concat (map (disk (fs_dev sb)) [lba..<lba + cnt])"
proof -
  obtain d where d: "fat_read sub (fs_dev sb) lba cnt buf = (d, r)" "sb' = sb\<lparr>fs_dev := d\<rparr>"
    using assms(2) by (auto simp: sb_read_def split: prod.splits)
  note s = fat_read_spec [OF assms(1) d(1) assms(3,4)]
  show "ok (fs_dev sb')" "disk (fs_dev sb') = disk (fs_dev sb)" "fat_step sb sb'" "fs_cache sb' = fs_cache sb"
    using s d(2) by (simp_all add: fat_step_iff)
  show "r = Inr b \<Longrightarrow> b = concat (map (disk (fs_dev sb)) [lba..<lba + cnt])" by (rule s(3))
qed

lemma set_volume_dirty_flag_spec:
  assumes "ok (fs_dev sb)" "set_volume_dirty_flag sub sb = (sb', Inr u)"
  shows "ok (fs_dev sb')" and "fs_bpb sb' = fs_bpb sb" and "fs_cache sb' = fs_cache sb" and "fs_hint sb' = fs_hint sb" and "fs_vol_dirty sb'"
proof -
  have "ok (fs_dev sb') \<and> fs_bpb sb' = fs_bpb sb \<and> fs_cache sb' = fs_cache sb \<and> fs_hint sb' = fs_hint sb \<and> fs_vol_dirty sb'"
  proof (cases "fs_vol_dirty sb")
    case True
    then show ?thesis using assms by (auto simp: set_volume_dirty_flag_def)
  next
    case False
    then obtain sb1 sector sb2 v where r: "sb_read sub sb 0 1 (replicate 512 0) = (sb1, Inr sector)"
      and w: "sb_write sub sb1 0 1 (sector[0x41 := sector ! 0x41 OR 1]) = (sb2, Inr v)" and sb': "sb' = sb2\<lparr>fs_vol_dirty := True\<rparr>"
      using assms(2) by (auto simp: set_volume_dirty_flag_def or_return_def split: prod.splits sum.splits)
    note rs = sb_read_spec [OF assms(1) r]
    obtain d where d: "fat_write sub (fs_dev sb1) 0 1 (sector[0x41 := sector ! 0x41 OR 1]) = (d, Inr v)" "sb2 = sb1\<lparr>fs_dev := d\<rparr>"
      using w by (auto simp: sb_write_def split: prod.splits)
    have "length sector = 512" using rs(5) sector_len [OF assms(1)] by simp
    then have "ok d" using fat_write_spec(1) [OF _ d(1)] rs(1) by (simp add: u64_max_def)
    then show ?thesis using d(2) sb' rs(3,4) by (simp add: fat_step_iff)
  qed
  then show "ok (fs_dev sb')" "fs_bpb sb' = fs_bpb sb" "fs_cache sb' = fs_cache sb" "fs_hint sb' = fs_hint sb" "fs_vol_dirty sb'" by auto
qed

lemma load_hint_spec:
  assumes "ok (fs_dev sb)" "2 \<le> fs_hint sb" "fs_hint sb \<le> total_clus (fs_bpb sb) + 2"
  shows "ok (fs_dev (load_hint sub sb)) \<and> fs_bpb (load_hint sub sb) = fs_bpb sb \<and> fs_cache (load_hint sub sb) = fs_cache sb
    \<and> 2 \<le> fs_hint (load_hint sub sb) \<and> fs_hint (load_hint sub sb) \<le> total_clus (fs_bpb sb) + 2"
proof -
  obtain sb1 r where rd: "sb_read sub sb (fsinfo_sec (fs_bpb sb)) 1 (replicate 512 0) = (sb1, r)" by fastforce
  note s = sb_read_spec [OF assms(1) rd]
  have w: "wadd32 2 x \<le> 2 + x" for x by (simp add: wadd32_def)
  show ?thesis unfolding load_hint_def rd Let_def using assms s(1,3,4) w [of "total_clus (fs_bpb sb)"]
    by (auto simp: fat_step_iff split: sum.splits)
qed

lemma scan_free_clusters_spec:
  assumes ok: "ok (fs_dev sb)" and lay: "fat_layout_ok (fs_bpb sb)" and c: "fs_cache sb = fc_new (fs_bpb sb)"
    and lt: "total_clus (fs_bpb sb) + 2 < 2 ^ 32" and h: "2 \<le> fs_hint sb" "fs_hint sb \<le> total_clus (fs_bpb sb) + 2"
    and s: "scan_free_clusters sub sb = (sb', Inr free)"
  shows "vol_ok disk ok (sb'\<lparr>fs_free := free\<rparr>)"
proof -
  define b where "b = fs_bpb sb"
  let ?n = "total_clus b" and ?flba = "fat_sector_lba b (active_fat_idx b) 0"
  define e where "e c = le_field (c * 4 mod 512) 4 (disk (fs_dev sb) (?flba + c * 4 div 512)) mod 0x10000000" for c
  have sz: "fat_sz32 b \<noteq> 0" "?n + 2 \<le> fat_sz32 b * 128" using lay by (auto simp: fat_layout_ok_def b_def)
  obtain sb1 acc where l: "scan_loop sub ?flba (fat_sz32 b) (2 + ?n - 1) 0 sb (replicate (504 * 512) 0)
      (0, if ?n \<le> BITMAP_MAX_CLUSTERS then Some (AllocBitmap_new ?n) else None) = (sb1, Inr acc)"
    and out: "sb' = sb1\<lparr>fs_bitmap := snd acc\<rparr>" "free = fst acc"
    using s sz(1) by (auto simp: scan_free_clusters_def Let_def b_def [symmetric] or_return_def split: prod.splits sum.splits)
  have "scanned ?n e (0 * 128) (0, if ?n \<le> BITMAP_MAX_CLUSTERS then Some (AllocBitmap_new ?n) else None)"
    using scanned_start by simp
  from scan_loop_spec [OF ok _ _ e_def this l] have
    sc: "ok (fs_dev sb1)" "disk (fs_dev sb1) = disk (fs_dev sb)" "fat_step sb sb1" "fs_cache sb1 = fs_cache sb" "scanned ?n e (fat_sz32 b * 128) acc"
    by auto
  let ?s = "sb'\<lparr>fs_free := free\<rparr>"
  have b1: "fs_bpb sb1 = b" using sc(3) by (simp add: fat_step_iff b_def)
  have fc: "fs_cache sb1 = fc_new b" using sc(4) c by (simp add: b_def)
  have ent: "fat_entry disk ?s = e"
    by (rule ext) (simp add: fat_entry_def e_def out(1) b1 fc sc(2) fat_view_def fc_new_def entry_lba_def fat_sector_lba_def)
  have "sb_ok disk ok ?s" using lay sc(1) by (simp add: sb_ok_def out b1 fc b_def [symmetric] fc_ok_def fc_new_def fat_sector_lba_def)
  moreover have "free_clusters disk ?s = {c. 2 \<le> c \<and> c < 2 + ?n \<and> c < fat_sz32 b * 128 \<and> e c = FREE_CLUSTER}"
    unfolding free_clusters_def ent valid_clus_def using sz(2) by (auto simp: out(1) b1)
  moreover have "bitmap_sync disk ?s"
    unfolding bitmap_sync_def ent using sc(5) sz(2) by (simp add: out(1) b1 scanned_def)
  ultimately show ?thesis using sc(3,5) h lt by (simp add: vol_ok_def out b1 b_def [symmetric] scanned_def fat_step_iff)
qed

text \<open>What the boot sector does not have to satisfy to be mounted, and the table needs: an entry for every
  cluster, in a FAT that is one of the copies.\<close>

lemma fat_mount_spec:
  assumes ok: "ok d" and m: "fat_mount sub n d = (d', Inr sb)"
    and lay: "active_fat_idx (fs_bpb sb) < num_fats (fs_bpb sb)" "(total_clus (fs_bpb sb) + 2) * 4 \<le> fat_sz32 (fs_bpb sb) * 512"
  shows "vol_ok disk ok sb"
proof -
  obtain d1 b where p: "parse_bpb sub n d = (d1, Inr b)" using m by (auto simp: fat_mount_def split: prod.splits sum.splits)
  obtain d2 sector where f: "fat_read sub d1 0 1 (replicate 512 0) = (d2, Inr sector)"
    using m unfolding fat_mount_def p by (auto split: prod.splits sum.splits)
  have "or_return (set_volume_dirty_flag sub (sb_new d2 b)) (\<lambda>sb1 _.
      or_return (scan_free_clusters sub (load_hint sub sb1)) (\<lambda>sb2 free. (sb2\<lparr>fs_free := free\<rparr>, Inr ()))) = (sb, Inr ())"
    using m by (simp only: fat_mount_def p f prod.case sum.case) (auto split: prod.splits sum.splits)
  then obtain sb1 u sb2 free where v: "set_volume_dirty_flag sub (sb_new d2 b) = (sb1, Inr u)"
    and s: "scan_free_clusters sub (load_hint sub sb1) = (sb2, Inr free)" and sb: "sb = sb2\<lparr>fs_free := free\<rparr>"
    unfolding or_return_Inr by auto
  obtain x where "fat_read sub d 0 1 (replicate 512 0) = (d1, x)" using parse_bpb_dev [OF p] by blast
  then have "ok d1" using fat_read_spec(1) [OF ok] by simp
  then have "ok d2" using fat_read_spec(1) [OF _ f] by simp
  then have "ok (fs_dev (sb_new d2 b))" by (simp add: sb_new_def)
  note v' = set_volume_dirty_flag_spec [OF this v]
  have h: "ok (fs_dev (load_hint sub sb1)) \<and> fs_bpb (load_hint sub sb1) = b \<and> fs_cache (load_hint sub sb1) = fc_new b
      \<and> 2 \<le> fs_hint (load_hint sub sb1) \<and> fs_hint (load_hint sub sb1) \<le> total_clus b + 2"
    using load_hint_spec [OF v'(1)] v' by (simp add: sb_new_def)
  have b: "fs_bpb sb = b" using scan_free_clusters_bpb [OF s] h sb by simp
  have g: "geometry_ok n b" by (rule parse_bpb_geometry [OF p])
  have "fat_layout_ok b" using g lay b by (auto simp: fat_layout_ok_def geometry_ok_def u64_max_def)
  then show "vol_ok disk ok sb" unfolding sb using scan_free_clusters_spec [OF _ _ _ _ _ _ s] h g by (simp add: geometry_ok_def)
qed

end

end
