(* ===== verification/Fat_File.thy ===== *)
theory Fat_File
  imports Fat_Dir
begin

text \<open>
  Regular files of a FAT32 volume (\<open>kernel/src/filesystems/fstypes/fat32/inode.rs\<close>): \<open>read_at\<close>,
  \<open>write_at\<close> and \<open>truncate\<close>. The methods take the superblock and the inode and return both; \<open>clock\<close> is
  the wall-clock time (\<open>None\<close> when unknown). A method that fails leaves the caller's buffer
  unspecified, so the model returns a buffer only on success.
\<close>

datatype file_type = Regular | Directory | Symlink | Fifo | CharDevice | BlockDevice | Socket

record fat_inode =
  fi_first :: nat
  fi_size :: nat
  fi_type :: file_type
  fi_ino :: nat
  fi_mtime :: nat
  fi_parent :: nat
  fi_name :: "nat list"
  fi_unlinked :: bool
  fi_dir_cache :: "(nat \<times> dir_slot list) option"
  fi_dir_gen :: nat

type_synonym 'd ictx = "'d fat_sb \<times> fat_inode"

definition on_sb :: "('d fat_sb \<Rightarrow> ('d, 'a) fs_result) \<Rightarrow> 'd ictx \<Rightarrow> 'd ictx \<times> (vfs_error, 'a) result" where
  "on_sb f s = (case f (fst s) of (sb, r) \<Rightarrow> ((sb, snd s), r))"

definition on_ino :: "(fat_inode \<Rightarrow> fat_inode) \<Rightarrow> 'd ictx \<Rightarrow> 'd ictx" where
  "on_ino f s = (fst s, f (snd s))"

definition ensure_chain_cache :: "'d submit \<Rightarrow> 'd ictx \<Rightarrow> 'd ictx \<times> (vfs_error, nat list) result" where
  "ensure_chain_cache sub s = on_sb (\<lambda>sb. chain_for sub sb (fi_first (snd s))) s"

definition update_dirent_meta ::
  "'d submit \<Rightarrow> nat option \<Rightarrow> 'd ictx \<Rightarrow> nat option \<Rightarrow> nat option \<Rightarrow> 'd ictx \<times> (vfs_error, unit) result" where
  "update_dirent_meta sub clock s clus sz =
     (if fi_unlinked (snd s) then (s, Inr ())
      else on_sb (\<lambda>sb. update_entry_cluster_and_size sub clock sb (fi_parent (snd s)) (fi_name (snd s)) clus sz) s)"

definition sync_clus_and_size :: "'d submit \<Rightarrow> nat option \<Rightarrow> 'd ictx \<Rightarrow> 'd ictx \<times> (vfs_error, unit) result" where
  "sync_clus_and_size sub clock s =
     (if fi_unlinked (snd s) then (s, Inr ())
      else on_sb (\<lambda>sb. update_entry_cluster_and_size sub clock sb (fi_parent (snd s)) (fi_name (snd s))
                         (Some (fi_first (snd s))) (Some (fi_size (snd s)))) s)"

section \<open>Reading\<close>

text \<open>How many clusters of the chain from position \<open>ci\<close> are adjacent on the disk.\<close>

definition contig_run :: "nat list \<Rightarrow> nat \<Rightarrow> nat" where
  "contig_run chain ci = 1 + length (takeWhile (\<lambda>k. chain ! (ci + k) = chain ! (ci + k - 1) + 1) [1..<length chain - ci])"

definition MAX_RUN_BYTES :: nat where
  "MAX_RUN_BYTES = 252 * 1024"

text \<open>The run at \<open>ci\<close> capped to the clusters still needed and to one request.\<close>

definition read_run_len :: "nat list \<Rightarrow> nat \<Rightarrow> nat \<Rightarrow> nat \<Rightarrow> nat \<Rightarrow> nat" where
  "read_run_len chain ci clus_bytes rest clus_off =
     min (min (contig_run chain ci) (max ((rest + clus_off + clus_bytes - 1) div clus_bytes) 1))
         (max (MAX_RUN_BYTES div clus_bytes) 1)"

lemma read_run_len_pos [simp]: "0 < read_run_len chain ci cb rest off"
  by (simp add: read_run_len_def contig_run_def less_max_iff_disj)

text \<open>The pending whole-run reads: sector, sector count, offset and length in the caller's buffer.\<close>

type_synonym read_req = "nat \<times> nat \<times> nat \<times> nat"

definition flush_read_batch :: "'d submit \<Rightarrow> 'd fat_sb \<Rightarrow> read_req list \<Rightarrow> u8 list \<Rightarrow> ('d, u8 list) fs_result" where
  "flush_read_batch sub sb batch buf =
     (if batch = [] then (sb, Inr buf)
      else
        (case read_sectors_batch sub (fs_dev sb) (map (\<lambda>(lba, cnt, off, len). (take len (drop off buf), lba, cnt)) batch) of
           (d, Inl e) \<Rightarrow> (sb\<lparr>fs_dev := d\<rparr>, Inl e)
         | (d, Inr bs) \<Rightarrow>
             (sb\<lparr>fs_dev := d\<rparr>, Inr (fold (\<lambda>((lba, cnt, off, len), b). put_field off b) (zip batch bs) buf))))"

text \<open>The variables of the loop: the caller's buffer, bytes read, position in the chain, offset in the
  cluster and the pending requests.\<close>

record read_state =
  rs_buf :: "u8 list"
  rs_done :: nat
  rs_ci :: nat
  rs_off :: nat
  rs_batch :: "read_req list"

definition next_read_partial :: "nat list \<Rightarrow> nat \<Rightarrow> nat \<Rightarrow> nat \<Rightarrow> nat \<Rightarrow> bool" where
  "next_read_partial chain tot clus_bytes fin ci \<longleftrightarrow>
     fin \<ge> tot \<or> ci \<ge> length chain
     \<or> (let next_bytes = read_run_len chain ci clus_bytes (tot - fin) 0 * clus_bytes
        in min (tot - fin) next_bytes \<noteq> next_bytes)"

text \<open>A whole run is queued; the queue is submitted when it is full or no whole run follows.\<close>

definition queue_read :: "'d submit \<Rightarrow> nat list \<Rightarrow> nat \<Rightarrow> 'd fat_sb \<Rightarrow> read_state \<Rightarrow> nat \<Rightarrow> ('d, read_state) fs_result" where
  "queue_read sub chain tot sb s run_len =
     (let clus_bytes = byts_per_clus (fs_bpb sb); want = run_len * clus_bytes;
          batch = rs_batch s @ [(cluster_to_lba (fs_bpb sb) (chain ! rs_ci s), want div 512, rs_done s, want)];
          s1 = s\<lparr>rs_done := rs_done s + want, rs_ci := rs_ci s + run_len, rs_batch := batch\<rparr>
      in if length batch \<ge> 16 \<or> next_read_partial chain tot clus_bytes (rs_done s1) (rs_ci s1) \<or> rs_done s1 \<ge> tot
         then or_return (flush_read_batch sub sb batch (rs_buf s)) (\<lambda>sb1 buf1. (sb1, Inr (s1\<lparr>rs_buf := buf1, rs_batch := []\<rparr>)))
         else (sb, Inr s1))"

text \<open>A misaligned head or a partial tail is read into a buffer of its own and copied.\<close>

definition copy_read :: "'d submit \<Rightarrow> nat list \<Rightarrow> 'd fat_sb \<Rightarrow> read_state \<Rightarrow> nat \<Rightarrow> nat \<Rightarrow> ('d, read_state) fs_result" where
  "copy_read sub chain sb s run_len want =
     (let run_bytes = run_len * byts_per_clus (fs_bpb sb)
      in or_return (flush_read_batch sub sb (rs_batch s) (rs_buf s)) (\<lambda>sb1 buf1.
           or_return (sb_read sub sb1 (cluster_to_lba (fs_bpb sb) (chain ! rs_ci s)) (run_bytes div 512) (replicate run_bytes 0))
             (\<lambda>sb2 run_buf.
               (sb2, Inr \<lparr>rs_buf = put_field (rs_done s) (take want (drop (rs_off s) run_buf)) buf1,
                          rs_done = rs_done s + want, rs_ci = rs_ci s + run_len, rs_off = 0, rs_batch = []\<rparr>))))"

definition read_step :: "'d submit \<Rightarrow> nat list \<Rightarrow> nat \<Rightarrow> 'd fat_sb \<Rightarrow> read_state \<Rightarrow> ('d, read_state) fs_result" where
  "read_step sub chain tot sb s =
     (let clus_bytes = byts_per_clus (fs_bpb sb);
          run_len = read_run_len chain (rs_ci s) clus_bytes (tot - rs_done s) (rs_off s);
          want = min (tot - rs_done s) (run_len * clus_bytes - rs_off s)
      in if rs_off s = 0 \<and> want = run_len * clus_bytes then queue_read sub chain tot sb s run_len
         else copy_read sub chain sb s run_len want)"

lemma read_step_progress: "read_step sub chain tot sb s = (sb', Inr s') \<Longrightarrow> rs_ci s < rs_ci s'"
  by (auto simp: read_step_def queue_read_def copy_read_def Let_def or_return_Inr split: if_splits)

function read_loop :: "'d submit \<Rightarrow> nat list \<Rightarrow> nat \<Rightarrow> 'd fat_sb \<Rightarrow> read_state \<Rightarrow> ('d, read_state) fs_result" where
  "read_loop sub chain tot sb s =
     (if rs_done s < tot \<and> rs_ci s < length chain then
        (case read_step sub chain tot sb s of
           (sb1, Inl e) \<Rightarrow> (sb1, Inl e)
         | (sb1, Inr s1) \<Rightarrow> read_loop sub chain tot sb1 s1)
      else (sb, Inr s))"
  by pat_completeness auto
termination
  by (relation "measure (\<lambda>(u, chain, t, sb, s). length chain - rs_ci s)") (auto dest!: read_step_progress [OF sym])

declare read_loop.simps [simp del]

text \<open>\<open>read_at\<close>: the buffer afterwards and the number of bytes read.\<close>

definition read_at :: "'d submit \<Rightarrow> 'd ictx \<Rightarrow> nat \<Rightarrow> u8 list \<Rightarrow> 'd ictx \<times> (vfs_error, u8 list \<times> nat) result" where
  "read_at sub s offset buf =
     (let ino = snd s; clus_size = byts_per_clus (fs_bpb (fst s))
      in if fi_type ino \<noteq> Regular then (s, Inl IsADirectory)
         else if offset \<ge> fi_size ino \<or> buf = [] \<or> fi_first ino = 0 then (s, Inr (buf, 0))
         else
           or_return (ensure_chain_cache sub s) (\<lambda>s1 chain.
             if chain = [] then (s1, Inr (buf, 0))
             else
               on_sb (\<lambda>sb.
                 or_return (read_loop sub chain (min (length buf) (fi_size ino - offset)) sb
                              \<lparr>rs_buf = buf, rs_done = 0, rs_ci = offset div clus_size, rs_off = offset mod clus_size, rs_batch = []\<rparr>)
                   (\<lambda>sb1 st. or_return (flush_read_batch sub sb1 (rs_batch st) (rs_buf st)) (\<lambda>sb2 buf2. (sb2, Inr (buf2, rs_done st))))) s1))"

section \<open>Writing\<close>

fun link_windows :: "'d submit \<Rightarrow> 'd fat_sb \<Rightarrow> nat list \<Rightarrow> ('d, unit) fs_result" where
  "link_windows sub sb (a # b # cs) = or_return (write_fat_entry sub sb a b) (\<lambda>sb1 _. link_windows sub sb1 (b # cs))"
| "link_windows sub sb _ = (sb, Inr ())"

text \<open>New clusters are zeroed unless the write touches them; \<open>idx\<close> is the position in the file.\<close>

fun zero_untouched :: "'d submit \<Rightarrow> nat \<Rightarrow> nat \<Rightarrow> nat \<Rightarrow> nat \<Rightarrow> 'd fat_sb \<Rightarrow> nat list \<Rightarrow> ('d, unit) fs_result" where
  "zero_untouched sub clus_size write_start write_end idx sb [] = (sb, Inr ())"
| "zero_untouched sub clus_size write_start write_end idx sb (c # cs) =
     (let lo = idx * clus_size; hi = lo + clus_size
      in if lo \<ge> write_start \<and> hi \<le> write_end
         then zero_untouched sub clus_size write_start write_end (idx + 1) sb cs
         else if lo < write_end \<and> hi > write_start
         then zero_untouched sub clus_size write_start write_end (idx + 1) sb cs
         else or_return (zero_cluster sub sb c) (\<lambda>sb1 _.
                zero_untouched sub clus_size write_start write_end (idx + 1) sb1 cs))"

text \<open>The clusters the write needs: the chain is allocated or extended.\<close>

definition reserve_for_write ::
  "'d submit \<Rightarrow> nat option \<Rightarrow> 'd ictx \<Rightarrow> nat \<Rightarrow> nat \<Rightarrow> nat \<Rightarrow> 'd ictx \<times> (vfs_error, nat) result" where
  "reserve_for_write sub clock s offset len needed_clus =
     (let clus_size = byts_per_clus (fs_bpb (fst s)); current = fi_first (snd s)
      in or_return (if current = 0 then (s, Inr 0)
                    else or_return (ensure_chain_cache sub s) (\<lambda>s1 chain. (s1, Inr (length chain)))) (\<lambda>s1 have_n.
           if have_n < needed_clus then
             (if current = 0 then
                or_return (on_sb (\<lambda>sb. or_return (alloc_clusters sub sb (needed_clus - have_n)) (\<lambda>sb1 clusters.
                             or_return (link_windows sub sb1 clusters) (\<lambda>sb2 _.
                               or_return (zero_untouched sub clus_size offset (offset + len) 0 sb2 clusters) (\<lambda>sb3 _.
                                 (sb3, Inr clusters))))) s1) (\<lambda>s2 clusters.
                  (let s3 = on_ino (fi_first_update (\<lambda>_. clusters ! 0)) s2;
                       s4 = (invalidate_chain (clusters ! 0) (fst s3), snd s3)
                   in or_return (sync_clus_and_size sub clock s4) (\<lambda>s5 _. (s5, Inr (clusters ! 0)))))
              else
                or_return (on_sb (\<lambda>sb. or_return (alloc_clusters sub sb (needed_clus - have_n)) (\<lambda>sb1 clusters.
                             or_return (link_windows sub sb1 clusters) (\<lambda>sb2 _. (sb2, Inr clusters)))) s1) (\<lambda>s2 clusters.
                  or_return (ensure_chain_cache sub s2) (\<lambda>s3 chain.
                    or_return (on_sb (\<lambda>sb. or_return (write_fat_entry sub sb (chain ! (have_n - 1)) (clusters ! 0)) (\<lambda>sb1 _.
                                 zero_untouched sub clus_size offset (offset + len) have_n sb1 clusters)) s3) (\<lambda>s4 _.
                      ((invalidate_chain current (fst s4), snd s4), Inr current)))))
           else (s1, Inr current)))"

type_synonym write_req = "u8 list \<times> nat \<times> nat"

definition flush_write_batch :: "'d submit \<Rightarrow> 'd fat_sb \<Rightarrow> write_req list \<Rightarrow> ('d, unit) fs_result" where
  "flush_write_batch sub sb batch =
     (if batch = [] then (sb, Inr ())
      else case write_sectors_batch sub (fs_dev sb) batch of (d, r) \<Rightarrow> (sb\<lparr>fs_dev := d\<rparr>, r))"

definition write_run_len :: "nat list \<Rightarrow> nat \<Rightarrow> nat \<Rightarrow> nat \<Rightarrow> nat \<Rightarrow> nat \<Rightarrow> nat \<Rightarrow> nat \<Rightarrow> nat" where
  "write_run_len chain ci start_idx offset len clus_bytes rest clus_off =
     min (1 + length (takeWhile (\<lambda>k. chain ! (ci + k) = chain ! (ci + k - 1) + 1
                                     \<and> ci + k \<le> start_idx + (offset + len + clus_bytes - 1) div clus_bytes)
                        [1..<length chain - ci]))
         ((rest + clus_off + clus_bytes - 1) div clus_bytes)"

text \<open>The bytes of the last cluster that the write does not touch: those on the disk when the cluster
  starts inside the file, zeros otherwise.\<close>

definition tail_base :: "'d submit \<Rightarrow> nat \<Rightarrow> nat \<Rightarrow> 'd fat_sb \<Rightarrow> nat \<Rightarrow> ('d, u8 list) fs_result" where
  "tail_base sub file_size ci sb cur =
     (let clus_bytes = byts_per_clus (fs_bpb sb)
      in if ci * clus_bytes < file_size then read_cluster sub sb cur (replicate clus_bytes 0)
         else (sb, Inr (replicate clus_bytes 0)))"

record write_state =
  ws_done :: nat
  ws_ci :: nat
  ws_off :: nat
  ws_batch :: "write_req list"

text \<open>The three ways to write from the current position: into the middle of a cluster, whole clusters
  queued for one request each, the start of a last cluster. The flag tells that the loop is left.\<close>

definition write_head :: "'d submit \<Rightarrow> nat list \<Rightarrow> u8 list \<Rightarrow> 'd fat_sb \<Rightarrow> write_state \<Rightarrow> ('d, write_state \<times> bool) fs_result" where
  "write_head sub chain buf sb s =
     (let clus_bytes = byts_per_clus (fs_bpb sb);
          want = min (length buf - ws_done s) (clus_bytes - ws_off s);
          cur = chain ! ws_ci s
      in or_return (flush_write_batch sub sb (ws_batch s)) (\<lambda>sb1 _.
           or_return (read_cluster sub sb1 cur (replicate clus_bytes 0)) (\<lambda>sb2 cbuf.
             or_return (write_cluster sub sb2 cur (put_field (ws_off s) (take want (drop (ws_done s) buf)) cbuf)) (\<lambda>sb3 _.
               (sb3, Inr (\<lparr>ws_done = ws_done s + want, ws_ci = ws_ci s + 1, ws_off = 0, ws_batch = []\<rparr>,
                          ws_done s + want \<ge> length buf))))))"

definition queue_write :: "'d submit \<Rightarrow> nat list \<Rightarrow> u8 list \<Rightarrow> 'd fat_sb \<Rightarrow> write_state \<Rightarrow> nat \<Rightarrow> ('d, write_state \<times> bool) fs_result" where
  "queue_write sub chain buf sb s whole =
     (let clus_bytes = byts_per_clus (fs_bpb sb);
          batch = ws_batch s @ [(take (whole * clus_bytes) (drop (ws_done s) buf), cluster_to_lba (fs_bpb sb) (chain ! ws_ci s),
                                 whole * sec_per_clus (fs_bpb sb))];
          s1 = s\<lparr>ws_done := ws_done s + whole * clus_bytes, ws_ci := ws_ci s + whole, ws_batch := batch\<rparr>;
          stop = ws_done s1 \<ge> length buf;
          next_partial = (stop \<or> ws_ci s1 \<ge> length chain \<or> length buf - ws_done s1 < clus_bytes)
      in if length batch \<ge> 16 \<or> next_partial \<or> stop
         then or_return (flush_write_batch sub sb batch) (\<lambda>sb1 _. (sb1, Inr (s1\<lparr>ws_batch := []\<rparr>, stop)))
         else (sb, Inr (s1, stop)))"

definition write_tail :: "'d submit \<Rightarrow> nat list \<Rightarrow> nat \<Rightarrow> u8 list \<Rightarrow> 'd fat_sb \<Rightarrow> write_state \<Rightarrow> ('d, write_state \<times> bool) fs_result" where
  "write_tail sub chain file_size buf sb s =
     or_return (flush_write_batch sub sb (ws_batch s)) (\<lambda>sb1 _.
       or_return (tail_base sub file_size (ws_ci s) sb1 (chain ! ws_ci s)) (\<lambda>sb2 cbuf.
         or_return (write_cluster sub sb2 (chain ! ws_ci s) (put_field 0 (drop (ws_done s) buf) cbuf)) (\<lambda>sb3 _.
           (sb3, Inr (s\<lparr>ws_batch := []\<rparr>, True)))))"

text \<open>A run has at least one cluster, so less than one cluster is left to write in the last case.\<close>

definition write_step ::
  "'d submit \<Rightarrow> nat list \<Rightarrow> nat \<Rightarrow> nat \<Rightarrow> nat \<Rightarrow> u8 list \<Rightarrow> 'd fat_sb \<Rightarrow> write_state \<Rightarrow> ('d, write_state \<times> bool) fs_result" where
  "write_step sub chain start_idx offset file_size buf sb s =
     (let clus_bytes = byts_per_clus (fs_bpb sb);
          remaining = length buf - ws_done s;
          run_len = write_run_len chain (ws_ci s) start_idx offset (length buf) clus_bytes remaining (ws_off s);
          whole = min run_len (remaining div clus_bytes)
      in if ws_off s \<noteq> 0 then write_head sub chain buf sb s
         else if whole > 0 then queue_write sub chain buf sb s whole
         else write_tail sub chain file_size buf sb s)"

lemma write_step_progress:
  "write_step sub chain si off fs buf sb s = (sb', Inr (s', False)) \<Longrightarrow> ws_ci s < ws_ci s'"
  by (auto simp: write_step_def write_head_def queue_write_def write_tail_def Let_def or_return_Inr split: if_splits)

function write_loop ::
  "'d submit \<Rightarrow> nat list \<Rightarrow> nat \<Rightarrow> nat \<Rightarrow> nat \<Rightarrow> u8 list \<Rightarrow> 'd fat_sb \<Rightarrow> write_state \<Rightarrow> ('d, write_state) fs_result" where
  "write_loop sub chain start_idx offset file_size buf sb s =
     (if ws_done s < length buf \<and> ws_ci s < length chain then
        (case write_step sub chain start_idx offset file_size buf sb s of
           (sb1, Inl e) \<Rightarrow> (sb1, Inl e)
         | (sb1, Inr (s1, True)) \<Rightarrow> (sb1, Inr s1)
         | (sb1, Inr (s1, False)) \<Rightarrow> write_loop sub chain start_idx offset file_size buf sb1 s1)
      else (sb, Inr s))"
  by pat_completeness auto
termination
  by (relation "measure (\<lambda>(u, chain, si, off, fs, buf, sb, s). length chain - ws_ci s)") (auto dest!: write_step_progress [OF sym])

declare write_loop.simps [simp del]

definition write_at :: "'d submit \<Rightarrow> nat option \<Rightarrow> 'd ictx \<Rightarrow> nat \<Rightarrow> u8 list \<Rightarrow> 'd ictx \<times> (vfs_error, nat) result" where
  "write_at sub clock s offset buf =
     (if fi_type (snd s) \<noteq> Regular then (s, Inl IsADirectory)
      else if buf = [] then (s, Inr 0)
      else if saturating_add64 offset (length buf) > 2 ^ 32 - 1 then (s, Inl FileTooLarge)
      else
        (let clus_size = byts_per_clus (fs_bpb (fst s));
             end_byte = offset + length buf;
             needed_clus = (if end_byte = 0 then 0 else (end_byte - 1) div clus_size + 1);
             start_idx = offset div clus_size
         in or_return (if needed_clus > 0 then reserve_for_write sub clock s offset (length buf) needed_clus
                       else (s, Inr (fi_first (snd s)))) (\<lambda>s1 current.
              or_return (ensure_chain_cache sub s1) (\<lambda>s2 chain.
                if start_idx \<ge> length chain then (s2, Inl IOError)
                else
                  or_return (on_sb (\<lambda>sb.
                      or_return (write_loop sub chain start_idx offset (fi_size (snd s2)) buf sb
                                   \<lparr>ws_done = 0, ws_ci = start_idx, ws_off = offset mod clus_size, ws_batch = []\<rparr>)
                        (\<lambda>sb1 st. or_return (flush_write_batch sub sb1 (ws_batch st)) (\<lambda>sb2 _. flush_fat_cache sub sb2))) s2) (\<lambda>s3 _.
                    (let cur_size = fi_size (snd s3);
                         new_size = max cur_size end_byte;
                         s4 = (if new_size > cur_size then on_ino (fi_size_update (\<lambda>_. new_size)) s3 else s3)
                     in or_return (if new_size > cur_size \<or> current \<noteq> fi_first (snd s4)
                                   then update_dirent_meta sub clock s4 None (Some new_size) else (s4, Inr ())) (\<lambda>s5 _.
                          (on_ino (fi_mtime_update (\<lambda>_. case clock of Some t \<Rightarrow> t | None \<Rightarrow> 0)) s5, Inr (length buf)))))))))"

section \<open>Truncating\<close>

definition truncate :: "'d submit \<Rightarrow> nat option \<Rightarrow> 'd ictx \<Rightarrow> nat \<Rightarrow> 'd ictx \<times> (vfs_error, unit) result" where
  "truncate sub clock s len =
     (if fi_type (snd s) \<noteq> Regular then (s, Inl IsADirectory)
      else if len > 2 ^ 32 - 1 then (s, Inl FileTooLarge)
      else
        (let clus_size = byts_per_clus (fs_bpb (fst s));
             needed = (if len = 0 then 0 else (len - 1) div clus_size + 1);
             current = fi_first (snd s);
             touch = (\<lambda>s'. (on_ino (fi_mtime_update (\<lambda>_. case clock of Some t \<Rightarrow> t | None \<Rightarrow> 0)) s', Inr ()))
         in or_return (if current = 0 then (s, Inr 0)
                       else or_return (ensure_chain_cache sub s) (\<lambda>s1 chain. (s1, Inr (length chain)))) (\<lambda>s1 have_n.
              if len = 0 \<and> current \<noteq> 0 then
                or_return (update_dirent_meta sub clock s1 (Some 0) (Some 0)) (\<lambda>s2 _.
                  or_return (on_sb (\<lambda>sb.
                      or_return (flush_fat_cache sub sb) (\<lambda>sb1 _.
                        or_return (free_chain sub (invalidate_chain current sb1) current) (\<lambda>sb2 _. flush_fat_cache sub sb2))) s2)
                    (\<lambda>s3 _. touch (on_ino (\<lambda>i. i\<lparr>fi_first := 0, fi_size := 0\<rparr>) s3)))
              else if needed < have_n \<and> current \<noteq> 0 then
                or_return (on_sb (\<lambda>sb. or_return (truncate_chain sub sb current needed) (\<lambda>sb1 _. flush_fat_cache sub sb1)) s1) (\<lambda>s2 _.
                  (let s3 = on_ino (fi_size_update (\<lambda>_. len)) (invalidate_chain current (fst s2), snd s2)
                   in or_return (update_dirent_meta sub clock s3 None (Some len)) (\<lambda>s4 _. touch s4)))
              else if needed > have_n then
                (if current = 0 then
                   or_return (on_sb (\<lambda>sb.
                       or_return (alloc_cluster sub sb) (\<lambda>sb1 new_clus.
                         or_return (zero_cluster sub sb1 new_clus) (\<lambda>sb2 _.
                           or_return (if needed > 1 then extend_chain sub sb2 new_clus (needed - 1) else (sb2, Inr ())) (\<lambda>sb3 _.
                             or_return (flush_fat_cache sub sb3) (\<lambda>sb4 _. (sb4, Inr new_clus)))))) s1) (\<lambda>s2 new_clus.
                     (let s3 = on_ino (\<lambda>i. i\<lparr>fi_first := new_clus, fi_size := len\<rparr>) s2
                      in or_return (update_dirent_meta sub clock s3 (Some new_clus) (Some len)) (\<lambda>s4 _. touch s4)))
                 else
                   or_return (on_sb (\<lambda>sb. or_return (extend_chain sub sb current (needed - have_n)) (\<lambda>sb1 _. flush_fat_cache sub sb1)) s1) (\<lambda>s2 _.
                     (let s3 = on_ino (fi_size_update (\<lambda>_. len)) (invalidate_chain current (fst s2), snd s2)
                      in or_return (update_dirent_meta sub clock s3 None (Some len)) (\<lambda>s4 _. touch s4))))
              else touch (on_ino (fi_size_update (\<lambda>_. len)) s1))))"

end
