(* ===== verification/Fat_Inode.thy ===== *)
theory Fat_Inode
  imports Fat_File
begin

text \<open>
  Directory operations of a FAT32 volume (\<open>inode.rs\<close> and the handle registry of \<open>mount.rs\<close>). A
  reference-counted inode object is a handle number; \<open>fv_node\<close> is its contents, \<open>fv_live\<close> the handles
  that are still referenced, so that upgrading a weak reference succeeds exactly for those. Dropping
  the last reference runs \<open>drop_node\<close>. The methods take the directory's handle.
\<close>

record 'd fat_vol =
  fv_sb :: "'d fat_sb"
  fv_node :: "nat \<Rightarrow> fat_inode"
  fv_live :: "nat list"
  fv_next :: nat
  fv_reg :: "((nat \<times> nat list) \<times> nat list) list"

type_synonym ('d, 'a) vol_result = "'d fat_vol \<times> (vfs_error, 'a) result"

definition on_vol_sb :: "('d fat_sb \<Rightarrow> ('d, 'a) fs_result) \<Rightarrow> 'd fat_vol \<Rightarrow> ('d, 'a) vol_result" where
  "on_vol_sb f v = (case f (fv_sb v) of (sb, r) \<Rightarrow> (v\<lparr>fv_sb := sb\<rparr>, r))"

definition on_node :: "('d ictx \<Rightarrow> 'd ictx \<times> (vfs_error, 'a) result) \<Rightarrow> nat \<Rightarrow> 'd fat_vol \<Rightarrow> ('d, 'a) vol_result" where
  "on_node f h v =
     (case f (fv_sb v, fv_node v h) of ((sb, i), r) \<Rightarrow> (v\<lparr>fv_sb := sb, fv_node := (fv_node v)(h := i)\<rparr>, r))"

section \<open>The handle registry\<close>

definition registry_key :: "nat \<Rightarrow> nat list \<Rightarrow> nat \<times> nat list" where
  "registry_key parent_clus name = (parent_clus, map char_lower name)"

definition reg_get :: "nat \<times> nat list \<Rightarrow> 'd fat_vol \<Rightarrow> nat list" where
  "reg_get key v = (case map_of (fv_reg v) key of Some hs \<Rightarrow> hs | None \<Rightarrow> [])"

definition reg_put :: "nat \<times> nat list \<Rightarrow> nat list \<Rightarrow> 'd fat_vol \<Rightarrow> 'd fat_vol" where
  "reg_put key hs v = v\<lparr>fv_reg := (key, hs) # filter (\<lambda>p. fst p \<noteq> key) (fv_reg v)\<rparr>"

definition reg_del :: "nat \<times> nat list \<Rightarrow> 'd fat_vol \<Rightarrow> 'd fat_vol" where
  "reg_del key v = v\<lparr>fv_reg := filter (\<lambda>p. fst p \<noteq> key) (fv_reg v)\<rparr>"

definition is_live :: "'d fat_vol \<Rightarrow> nat \<Rightarrow> bool" where
  "is_live v h \<longleftrightarrow> h \<in> set (fv_live v)"

definition register_handle :: "nat \<Rightarrow> nat list \<Rightarrow> nat \<Rightarrow> 'd fat_vol \<Rightarrow> 'd fat_vol" where
  "register_handle parent_clus name h v =
     (let key = registry_key parent_clus name in reg_put key (filter (is_live v) (reg_get key v) @ [h]) v)"

definition mark_handles_unlinked :: "nat \<Rightarrow> nat list \<Rightarrow> 'd fat_vol \<Rightarrow> 'd fat_vol \<times> nat" where
  "mark_handles_unlinked parent_clus name v =
     (let key = registry_key parent_clus name;
          hs = filter (is_live v) (reg_get key v)
      in ((reg_del key v)\<lparr>fv_node := fold (\<lambda>h n. n(h := (n h)\<lparr>fi_unlinked := True\<rparr>)) hs (fv_node v)\<rparr>, length hs))"

definition move_handles :: "nat \<Rightarrow> nat list \<Rightarrow> nat \<Rightarrow> nat list \<Rightarrow> 'd fat_vol \<Rightarrow> 'd fat_vol" where
  "move_handles old_parent old_name new_parent new_name v =
     (let src = registry_key old_parent old_name; dst = registry_key new_parent new_name;
          moved = reg_get src v;
          v1 = reg_del src v
      in reg_put dst (filter (is_live v1) (reg_get dst v1) @ filter (is_live v1) moved) v1)"

text \<open>A new inode object.\<close>

definition new_node :: "fat_inode \<Rightarrow> 'd fat_vol \<Rightarrow> 'd fat_vol \<times> nat" where
  "new_node i v =
     (v\<lparr>fv_node := (fv_node v)(fv_next v := i), fv_live := fv_next v # fv_live v, fv_next := fv_next v + 1\<rparr>, fv_next v)"

text \<open>The last reference is dropped: an unlinked file gives up its clusters.\<close>

definition drop_node :: "'d submit \<Rightarrow> nat \<Rightarrow> 'd fat_vol \<Rightarrow> 'd fat_vol" where
  "drop_node sub h v =
     (let i = fv_node v h; v1 = v\<lparr>fv_live := removeAll h (fv_live v)\<rparr>
      in if \<not> fi_unlinked i then v1
         else if fi_first i \<ge> 2 \<and> fi_first i < EOC_MARKER
         then v1\<lparr>fv_sb := fst (free_chain sub (invalidate_chain (fi_first i) (fv_sb v1)) (fi_first i))\<rparr>
         else v1)"

section \<open>Directory slots\<close>

definition invalidate_dir_cache :: "nat \<Rightarrow> 'd fat_vol \<Rightarrow> 'd fat_vol" where
  "invalidate_dir_cache h v =
     v\<lparr>fv_node := (fv_node v)(h := (fv_node v h)\<lparr>fi_dir_gen := (fi_dir_gen (fv_node v h) + 1) mod 2 ^ 64\<rparr>)\<rparr>"

definition get_dir_slots :: "'d submit \<Rightarrow> 'd ictx \<Rightarrow> 'd ictx \<times> (vfs_error, dir_slot list) result" where
  "get_dir_slots sub s =
     (let gen = fi_dir_gen (snd s);
          fresh = or_return (on_sb (\<lambda>sb. read_dir_slots sub sb (fi_first (snd s))) s) (\<lambda>s1 slots.
                    (on_ino (fi_dir_cache_update (\<lambda>_. Some (gen, slots))) s1, Inr slots))
      in case fi_dir_cache (snd s) of
           Some (g, slots) \<Rightarrow> if g = gen then (s, Inr slots) else fresh
         | None \<Rightarrow> fresh)"

definition find_slot :: "nat list \<Rightarrow> dir_slot list \<Rightarrow> dir_slot option" where
  "find_slot name slots = find (\<lambda>s. eq_ignore_ascii_case (decode_entry_name s) name) slots"

definition slot_clus :: "dir_slot \<Rightarrow> nat" where
  "slot_clus s = unat (first_clus_from_entry (sfn_entry s))"

definition slot_size :: "dir_slot \<Rightarrow> nat" where
  "slot_size s = unat (file_size_from_entry (sfn_entry s))"

definition slot_is_dir :: "dir_slot \<Rightarrow> bool" where
  "slot_is_dir s \<longleftrightarrow> sfn_entry s ! 0x0B AND ATTR_DIRECTORY \<noteq> 0"

definition DOT :: "nat list" where
  "DOT = [0x2E]"

definition DOTDOT :: "nat list" where
  "DOTDOT = [0x2E, 0x2E]"

definition fresh_inode :: "nat \<Rightarrow> nat \<Rightarrow> file_type \<Rightarrow> nat \<Rightarrow> nat \<Rightarrow> nat \<Rightarrow> nat list \<Rightarrow> fat_inode" where
  "fresh_inode first sz ft ino mtime parent name =
     \<lparr>fi_first = first, fi_size = sz, fi_type = ft, fi_ino = ino, fi_mtime = mtime, fi_parent = parent, fi_name = name,
      fi_unlinked = False, fi_dir_cache = None, fi_dir_gen = 0\<rparr>"

text \<open>A new inode object for an entry of directory \<open>parent\<close>, with its inode number.\<close>

definition open_entry ::
  "nat \<Rightarrow> nat list \<Rightarrow> bool \<Rightarrow> nat \<Rightarrow> nat \<Rightarrow> file_type \<Rightarrow> nat \<Rightarrow> 'd fat_vol \<Rightarrow> 'd fat_vol \<times> nat" where
  "open_entry parent name registered first sz ft mtime v =
     (case ino_for parent name (fv_sb v) of
        (sb, ino) \<Rightarrow>
          (case new_node (fresh_inode first sz ft ino mtime parent name) (v\<lparr>fv_sb := sb\<rparr>) of
             (v1, h) \<Rightarrow> (if registered then register_handle parent name h v1 else v1, h)))"

definition lookup :: "'d submit \<Rightarrow> nat \<Rightarrow> nat list \<Rightarrow> 'd fat_vol \<Rightarrow> ('d, nat) vol_result" where
  "lookup sub h name v =
     (if fi_type (fv_node v h) \<noteq> Directory then (v, Inl NotADirectory)
      else
        or_return (if name = DOTDOT then on_vol_sb (\<lambda>sb. read_dir_slots sub sb (fi_first (fv_node v h))) v
                   else on_node (get_dir_slots sub) h v) (\<lambda>v1 slots.
          (case find_slot name slots of
             None \<Rightarrow> (v1, Inl NotFound)
           | Some s \<Rightarrow>
               (let clus = (if name = DOTDOT \<and> slot_clus s = 0 then root_clus (fs_bpb (fv_sb v1)) else slot_clus s)
                in case open_entry (fi_first (fv_node v1 h)) name (name \<noteq> DOTDOT) clus (slot_size s)
                          (if slot_is_dir s then Directory else Regular) (mtime_from_entry (sfn_entry s)) v1 of
                     (v2, h') \<Rightarrow> (v2, Inr h')))))"

section \<open>Entry groups of new names\<close>

definition slot_sfns :: "dir_slot list \<Rightarrow> u8 list set" where
  "slot_sfns slots = set (map (\<lambda>s. take 11 (sfn_entry s)) slots)"

text \<open>The long-name slots and the short entry of a name, and the time stamp.\<close>

definition entry_group ::
  "nat option \<Rightarrow> nat list \<Rightarrow> u8 list \<Rightarrow> u8 \<Rightarrow> bool \<Rightarrow> nat \<Rightarrow> nat option \<Rightarrow> u8 list list \<times> nat option" where
  "entry_group clock name sfn attr nt clus sz =
     (let lfn = (if needs_vfat (as_bytes name) then encode_vfat_entries name (vfat_checksum sfn) else []);
          e0 = (put_field 0 sfn (replicate 32 0))[0x0B := attr];
          e1 = (if nt \<and> \<not> needs_vfat (as_bytes name) then e0[0x0C := nt_case_flags (as_bytes name)] else e0);
          e2 = set_first_clus_in_entry (of_nat clus) e1;
          e3 = (case sz of Some n \<Rightarrow> set_file_size_in_entry (of_nat n) e2 | None \<Rightarrow> e2)
      in case set_timestamps clock e3 of (e4, t) \<Rightarrow> (lfn @ [e4], t))"

definition MAX_LFN_ENTRIES :: nat where
  "MAX_LFN_ENTRIES = 20"

definition ATTR_ARCHIVE :: u8 where
  "ATTR_ARCHIVE = 0x20"

definition name_taken :: "nat list \<Rightarrow> dir_slot list \<Rightarrow> bool" where
  "name_taken name slots \<longleftrightarrow> (\<exists>s\<in>set slots. eq_ignore_ascii_case (decode_entry_name s) name)"

definition create :: "'d submit \<Rightarrow> nat option \<Rightarrow> nat \<Rightarrow> nat list \<Rightarrow> 'd fat_vol \<Rightarrow> ('d, nat) vol_result" where
  "create sub clock h name v =
     (if fi_type (fv_node v h) \<noteq> Directory then (v, Inl NotADirectory)
      else
        or_return (on_node (get_dir_slots sub) h v) (\<lambda>v1 slots.
          if name_taken name slots then (v1, Inl AlreadyExists)
          else if lfn_slot_count name > MAX_LFN_ENTRIES then (v1, Inl InvalidInput)
          else
            (case sfn_from_name (as_bytes name) (slot_sfns slots) of
               None \<Rightarrow> (v1, Inl InvalidInput)
             | Some sfn \<Rightarrow>
                 (case entry_group clock name sfn ATTR_ARCHIVE True 0 (Some 0) of
                    (grp, t) \<Rightarrow>
                      or_return (on_vol_sb (\<lambda>sb. write_dir_entries sub sb (fi_first (fv_node v1 h)) grp) v1) (\<lambda>v2 _.
                        (case open_entry (fi_first (fv_node v1 h)) name True 0 0 Regular (case t of Some x \<Rightarrow> x | None \<Rightarrow> 0)
                                (invalidate_dir_cache h v2) of
                           (v3, h') \<Rightarrow> (v3, Inr h')))))))"

section \<open>Removing names\<close>

text \<open>Removing the entry and, when no live handle owns the chain, releasing it.\<close>

definition remove_and_release :: "'d submit \<Rightarrow> nat \<Rightarrow> nat list \<Rightarrow> nat \<Rightarrow> 'd fat_vol \<Rightarrow> ('d, unit) vol_result" where
  "remove_and_release sub h name clus v =
     (let parent = fi_first (fv_node v h)
      in or_return (on_vol_sb (\<lambda>sb. or_return (remove_dir_entries sub sb parent name) (\<lambda>sb1 _. flush_fat_cache sub sb1)) v) (\<lambda>v1 _.
           (case mark_handles_unlinked parent name (invalidate_dir_cache h v1) of
              (v2, live) \<Rightarrow>
                if live = 0 \<and> clus \<ge> 2 \<and> clus < EOC_MARKER
                then on_vol_sb (\<lambda>sb. or_return (free_chain sub (invalidate_chain clus sb) clus) (\<lambda>sb1 _. flush_fat_cache sub sb1)) v2
                else (v2, Inr ()))))"

definition unlink :: "'d submit \<Rightarrow> nat \<Rightarrow> nat list \<Rightarrow> 'd fat_vol \<Rightarrow> ('d, unit) vol_result" where
  "unlink sub h name v =
     (if fi_type (fv_node v h) \<noteq> Directory then (v, Inl NotADirectory)
      else if name = DOT \<or> name = DOTDOT then (v, Inl InvalidInput)
      else
        or_return (on_node (get_dir_slots sub) h v) (\<lambda>v1 slots.
          (case find_slot name slots of
             None \<Rightarrow> (v1, Inl NotFound)
           | Some s \<Rightarrow> if slot_is_dir s then (v1, Inl IsADirectory) else remove_and_release sub h name (slot_clus s) v1)))"

definition rmdir :: "'d submit \<Rightarrow> nat \<Rightarrow> nat list \<Rightarrow> 'd fat_vol \<Rightarrow> ('d, unit) vol_result" where
  "rmdir sub h name v =
     (if fi_type (fv_node v h) \<noteq> Directory then (v, Inl NotADirectory)
      else if name = DOT \<or> name = DOTDOT then (v, Inl InvalidInput)
      else
        or_return (on_node (get_dir_slots sub) h v) (\<lambda>v1 slots.
          (case find_slot name slots of
             None \<Rightarrow> (v1, Inl NotFound)
           | Some s \<Rightarrow>
               if \<not> slot_is_dir s then (v1, Inl NotADirectory)
               else or_return (on_vol_sb (\<lambda>sb. read_dir_slots sub sb (slot_clus s)) v1) (\<lambda>v2 child_slots.
                      if length child_slots > 2 then (v2, Inl NotEmpty)
                      else remove_and_release sub h name (slot_clus s) v2))))"

section \<open>Making and listing directories\<close>

text \<open>The short name of \<open>.\<close> and \<open>..\<close>; its absence would be a panic.\<close>

definition dot_entry :: "nat option \<Rightarrow> nat list \<Rightarrow> nat \<Rightarrow> u8 list" where
  "dot_entry clock name clus =
     (case sfn_from_name (as_bytes name) {} of
        None \<Rightarrow> []
      | Some sfn \<Rightarrow>
          fst (set_timestamps clock
                (set_first_clus_in_entry (of_nat clus) ((put_field 0 sfn (replicate 32 0))[0x0B := ATTR_DIRECTORY]))))"

definition dot_cluster :: "nat option \<Rightarrow> nat \<Rightarrow> nat \<Rightarrow> nat \<Rightarrow> u8 list" where
  "dot_cluster clock clus_bytes self_clus parent_clus =
     put_field 32 (dot_entry clock DOTDOT parent_clus) (put_field 0 (dot_entry clock DOT self_clus) (replicate clus_bytes 0))"

definition mkdir :: "'d submit \<Rightarrow> nat option \<Rightarrow> nat \<Rightarrow> nat list \<Rightarrow> 'd fat_vol \<Rightarrow> ('d, nat) vol_result" where
  "mkdir sub clock h name v =
     (if fi_type (fv_node v h) \<noteq> Directory then (v, Inl NotADirectory)
      else
        or_return (on_node (get_dir_slots sub) h v) (\<lambda>v1 slots.
          if name_taken name slots then (v1, Inl AlreadyExists)
          else if lfn_slot_count name > MAX_LFN_ENTRIES then (v1, Inl InvalidInput)
          else
            (let parent = fi_first (fv_node v1 h)
             in or_return (on_vol_sb (\<lambda>sb.
                    or_return (alloc_cluster sub sb) (\<lambda>sb1 new_clus.
                      or_return (zero_cluster sub sb1 new_clus) (\<lambda>sb2 _.
                        or_return (write_cluster sub sb2 new_clus (dot_cluster clock (byts_per_clus (fs_bpb sb2)) new_clus parent)) (\<lambda>sb3 _.
                          (sb3, Inr new_clus))))) v1) (\<lambda>v2 new_clus.
                  (case sfn_from_name (as_bytes name) (slot_sfns slots) of
                     None \<Rightarrow> (v2, Inl InvalidInput)
                   | Some sfn \<Rightarrow>
                       (case entry_group clock name sfn ATTR_DIRECTORY False new_clus None of
                          (grp, t) \<Rightarrow>
                            or_return (on_vol_sb (\<lambda>sb. write_dir_entries sub sb parent grp) v2) (\<lambda>v3 _.
                              (case open_entry parent name True new_clus 0 Directory (case t of Some x \<Rightarrow> x | None \<Rightarrow> 0)
                                      (invalidate_dir_cache h v3) of
                                 (v4, h') \<Rightarrow> (v4, Inr h')))))))))"

text \<open>\<open>readdir\<close>: inode number, name and type of every named entry but \<open>.\<close> and \<open>..\<close>.\<close>

fun list_slots :: "nat \<Rightarrow> dir_slot list \<Rightarrow> 'd fat_sb \<Rightarrow> 'd fat_sb \<times> (nat \<times> nat list \<times> file_type) list" where
  "list_slots dir_clus [] sb = (sb, [])"
| "list_slots dir_clus (s # ss) sb =
     (let name = decode_entry_name s
      in if name = [] \<or> name = DOT \<or> name = DOTDOT then list_slots dir_clus ss sb
         else
           (case ino_for dir_clus name sb of
              (sb1, ino) \<Rightarrow>
                (case list_slots dir_clus ss sb1 of
                   (sb2, es) \<Rightarrow> (sb2, (ino, name, if slot_is_dir s then Directory else Regular) # es))))"

definition readdir :: "'d submit \<Rightarrow> nat \<Rightarrow> 'd fat_vol \<Rightarrow> ('d, (nat \<times> nat list \<times> file_type) list) vol_result" where
  "readdir sub h v =
     (if fi_type (fv_node v h) \<noteq> Directory then (v, Inl NotADirectory)
      else
        or_return (on_node (get_dir_slots sub) h v) (\<lambda>v1 slots.
          (case list_slots (fi_first (fv_node v1 h)) slots (fv_sb v1) of (sb, es) \<Rightarrow> (v1\<lparr>fv_sb := sb\<rparr>, Inr es))))"

text \<open>\<open>getattr\<close>: inode number, size, type, modification time and mode.\<close>

definition getattr :: "fat_inode \<Rightarrow> nat \<times> nat \<times> file_type \<times> nat \<times> nat" where
  "getattr i =
     (fi_ino i, if fi_type i = Directory then 0 else fi_size i, fi_type i, fi_mtime i,
      if fi_type i = Directory then 493 else 420)"

section \<open>Renaming\<close>

text \<open>The file that has the new name already loses it, and its chain is released.\<close>

definition overwrite_target :: "'d submit \<Rightarrow> nat \<Rightarrow> nat list \<Rightarrow> dir_slot list \<Rightarrow> bool \<Rightarrow> 'd fat_vol \<Rightarrow> ('d, unit) vol_result" where
  "overwrite_target sub h new_name slots flush_after v =
     (case find_slot new_name slots of
        None \<Rightarrow> (v, Inr ())
      | Some existing \<Rightarrow>
          (let dir = fi_first (fv_node v h); clus = slot_clus existing;
               v1 = fst (mark_handles_unlinked dir new_name v)
           in or_return (on_vol_sb (\<lambda>sb.
                  or_return (remove_dir_entries sub sb dir new_name) (\<lambda>sb1 _.
                    or_return (flush_fat_cache sub sb1) (\<lambda>sb2 _.
                      or_return (if clus \<ge> 2 \<and> clus < EOC_MARKER then free_chain sub (invalidate_chain clus sb2) clus else (sb2, Inr ()))
                        (\<lambda>sb3 _. if flush_after then flush_fat_cache sub sb3 else (sb3, Inr ()))))) v1) (\<lambda>v2 _.
                (invalidate_dir_cache h v2, Inr ()))))"

text \<open>A moved directory's \<open>..\<close> entry is pointed at its new parent.\<close>

definition fix_dotdot :: "'d submit \<Rightarrow> bool \<Rightarrow> nat \<Rightarrow> nat \<Rightarrow> 'd fat_sb \<Rightarrow> ('d, unit) fs_result" where
  "fix_dotdot sub is_dir clus parent sb =
     (if is_dir \<and> clus \<ge> 2 \<and> clus < EOC_MARKER \<and> clus \<noteq> root_clus (fs_bpb sb) then
        or_return (read_cluster sub sb clus (replicate (byts_per_clus (fs_bpb sb)) 0)) (\<lambda>sb1 buf.
          write_cluster sub sb1 clus (put_field 32 (set_first_clus_in_entry (of_nat parent) (take 32 (drop 32 buf))) buf))
      else (sb, Inr ()))"

definition rename :: "'d submit \<Rightarrow> nat option \<Rightarrow> nat \<Rightarrow> nat list \<Rightarrow> nat list \<Rightarrow> 'd fat_vol \<Rightarrow> ('d, unit) vol_result" where
  "rename sub clock h old_name new_name v =
     (if fi_type (fv_node v h) \<noteq> Directory then (v, Inl NotADirectory)
      else
        or_return (on_node (get_dir_slots sub) h v) (\<lambda>v1 slots.
          (case find_slot old_name slots of
             None \<Rightarrow> (v1, Inl NotFound)
           | Some target \<Rightarrow>
               or_return (overwrite_target sub h new_name slots True v1) (\<lambda>v2 _.
                 (case sfn_from_name (as_bytes new_name) (slot_sfns slots - {take 11 (sfn_entry target)}) of
                    None \<Rightarrow> (v2, Inl InvalidInput)
                  | Some sfn \<Rightarrow>
                      if needs_vfat (as_bytes new_name) \<and> lfn_slot_count new_name > MAX_LFN_ENTRIES then (v2, Inl InvalidInput)
                      else
                        (let parent = fi_first (fv_node v2 h);
                             grp = fst (entry_group clock new_name sfn (sfn_entry target ! 0x0B) True (slot_clus target)
                                            (Some (slot_size target)))
                         in or_return (on_vol_sb (\<lambda>sb.
                                or_return (write_dir_entries sub sb parent grp) (\<lambda>sb1 _. remove_dir_entries sub sb1 parent old_name)) v2) (\<lambda>v3 _.
                              on_vol_sb (\<lambda>sb.
                                  if slot_is_dir target \<and> slot_clus target \<ge> 2 \<and> slot_clus target < EOC_MARKER
                                     \<and> slot_clus target \<noteq> root_clus (fs_bpb sb)
                                  then or_return (flush_fat_cache sub sb) (\<lambda>sb1 _. fix_dotdot sub True (slot_clus target) parent sb1)
                                  else (sb, Inr ()))
                                (move_handles parent old_name parent new_name (invalidate_dir_cache h v3)))))))))"

text \<open>\<open>rename_across_dirs\<close> between two directories \<open>h\<close> and \<open>h'\<close> of the same superblock.\<close>

definition rename_across_dirs ::
  "'d submit \<Rightarrow> nat option \<Rightarrow> nat \<Rightarrow> nat \<Rightarrow> nat list \<Rightarrow> nat list \<Rightarrow> 'd fat_vol \<Rightarrow> ('d, unit) vol_result" where
  "rename_across_dirs sub clock h h' old_name new_name v =
     (if fi_type (fv_node v h) \<noteq> Directory \<or> fi_type (fv_node v h') \<noteq> Directory then (v, Inl NotADirectory)
      else if old_name = DOT \<or> old_name = DOTDOT \<or> new_name = DOT \<or> new_name = DOTDOT then (v, Inl InvalidInput)
      else
        (let src_first = fi_first (fv_node v h); dst_first = fi_first (fv_node v h')
         in or_return (on_node (get_dir_slots sub) h v) (\<lambda>v1 slots_src.
              (case find_slot old_name slots_src of
                 None \<Rightarrow> (v1, Inl NotFound)
               | Some target \<Rightarrow>
                   or_return (on_node (get_dir_slots sub) h' v1) (\<lambda>v2 slots_dst.
                     or_return (overwrite_target sub h' new_name slots_dst False v2) (\<lambda>v3 _.
                       (case sfn_from_name (as_bytes new_name) (slot_sfns slots_dst) of
                          None \<Rightarrow> (v3, Inl InvalidInput)
                        | Some sfn \<Rightarrow>
                            if needs_vfat (as_bytes new_name) \<and> lfn_slot_count new_name > MAX_LFN_ENTRIES then (v3, Inl InvalidInput)
                            else
                              (let grp = fst (entry_group clock new_name sfn (sfn_entry target ! 0x0B) True (slot_clus target)
                                                  (Some (slot_size target)))
                               in or_return (on_vol_sb (\<lambda>sb.
                                      or_return (write_dir_entries sub sb dst_first grp) (\<lambda>sb1 _.
                                        or_return (remove_dir_entries sub sb1 src_first old_name) (\<lambda>sb2 _.
                                          flush_fat_cache sub sb2))) v3) (\<lambda>v4 _.
                                    or_return (on_vol_sb (fix_dotdot sub (slot_is_dir target) (slot_clus target) dst_first)
                                                 (invalidate_dir_cache h' (invalidate_dir_cache h v4))) (\<lambda>v5 _.
                                      (move_handles src_first old_name dst_first new_name v5, Inr ())))))))))))"

end
