(* ===== verification/Fat_Example.thy ===== *)
theory Fat_Example
  imports Fat_Growth Fat_Scan Fat_Inode
begin

text \<open>
  A small volume on the RAM disk: one reserved sector, two FATs of one sector, eight clusters of one
  sector, the root directory in cluster 2 with one file \<open>A\<close> of 512 bytes in cluster 3. It instantiates
  the hypotheses of the general theorems and carries the scenarios.
\<close>

definition ex_bpb :: bpb where
  "ex_bpb = \<lparr>bytes_per_sec = 512, sec_per_clus = 1, rsvd_sec_cnt = 1, num_fats = 2, fat_sz32 = 1, root_clus = 2,
     fsinfo_sec = 0, byts_per_clus = 512, first_data_sec = 3, total_clus = 8, ext_flags = 0\<rparr>"

definition ex_boot :: "u8 list" where
  "ex_boot = replicate 11 0 @ [0, 2, 1, 1, 0, 2, 0, 0, 11, 0, 0, 0, 0] @ replicate 12 0 @ [1, 0, 0, 0, 0, 0, 0, 0, 2, 0, 0, 0]
     @ replicate 462 0 @ [0x55, 0xAA]"

definition ex_fat :: "u8 list" where
  "ex_fat = [0xF8, 0xFF, 0xFF, 0x0F, 0xFF, 0xFF, 0xFF, 0x0F, 0xFF, 0xFF, 0xFF, 0x0F, 0xFF, 0xFF, 0xFF, 0x0F] @ replicate 496 0"

definition ex_entry :: "u8 list" where
  "ex_entry = [65, 32, 32, 32, 32, 32, 32, 32, 32, 32, 32, 0x20] @ replicate 14 0 @ [3, 0, 0, 2, 0, 0]"

definition ex_root :: "u8 list" where
  "ex_root = ex_entry @ replicate 480 0"

definition ex_disk :: ram_disk where
  "ex_disk l = (if l = 0 then ex_boot else if l = 1 \<or> l = 2 then ex_fat else if l = 3 then ex_root else replicate 512 0)"

definition ex_sb :: "ram_disk fat_sb" where
  "ex_sb = \<lparr>fs_dev = ex_disk, fs_bpb = ex_bpb, fs_cache = fc_new ex_bpb, fs_next_ino = 2, fs_ino_map = [],
     fs_chain_cache = [], fs_bitmap = Some [3], fs_hint = 2, fs_free = 6, fs_vol_dirty = True\<rparr>"

definition ex_ino :: fat_inode where
  "ex_ino = fresh_inode 3 512 Regular 3 0 2 [65]"

lemmas ex_geometry = ex_sb_def ex_bpb_def fat_sector_lba_def active_fat_idx_def unmirrored_def fc_new_def

lemma ex_lengths [simp]: "length ex_boot = 512" "length ex_fat = 512" "length ex_entry = 32" "length ex_root = 512"
  by (simp_all add: ex_boot_def ex_fat_def ex_entry_def ex_root_def)

lemma ex_disk_ok: "ram_ok ex_disk"
  by (simp add: ram_ok_def ex_disk_def)

lemma ex_disk_sectors [simp]: "ex_disk 0 = ex_boot" "ex_disk 1 = ex_fat" "ex_disk (Suc 0) = ex_fat" "ex_disk 2 = ex_fat" "ex_disk 3 = ex_root"
  by (simp_all add: ex_disk_def)

section \<open>The RAM disk, one sector at a time\<close>

definition put_sector :: "nat \<Rightarrow> u8 list \<Rightarrow> ram_disk \<Rightarrow> ram_disk" where
  "put_sector lba buf d = ram_write d \<lparr>rq_lba = lba, rq_count = 1, rq_buffer = ConstBuf buf, rq_write = True\<rparr>"

lemma put_sector_apply: "length buf = 512 \<Longrightarrow> put_sector lba buf d l = (if l = lba then buf else d l)"
  by (auto simp: put_sector_def ram_write_def rq_range_def sector_of_def)

lemma ram_read_sector: "fat_read ram_submit d lba 1 buf = (d, Inr (d lba))"
  by (simp add: fat_read_def ram_submit_def all_ok_def)

lemma ram_write_sector: "fat_write ram_submit d lba 1 buf = (put_sector lba buf d, Inr ())"
  by (simp add: fat_write_def ram_submit_def all_ok_def put_sector_def)

lemmas ram_sector = ram_read_sector ram_read_sector [simplified] ram_write_sector ram_write_sector [simplified]

lemma no_eviction: "length (fc_sectors c) < 4096 \<Longrightarrow> fc_maybe_evict sub c d = (d, c)"
  by (simp add: fc_maybe_evict_def MAX_FAT_CACHE_ENTRIES_def)

text \<open>An entry of a cluster of the volume can always be read and written.\<close>

lemma ram_get_or_read: "\<exists>d' c' s. get_or_read ram_submit c d lba = (d', c', Inr s)"
  by (simp add: get_or_read_def ram_sector split: option.splits prod.splits)

lemma ram_read_entry:
  assumes "valid_clus (fs_bpb sb) c"
  shows "\<exists>sb' v. read_fat_entry ram_submit sb c = (sb', Inr v)"
proof -
  obtain d' c' s where "get_or_read ram_submit (fs_cache sb) (fs_dev sb)
      (fat_sector_lba (fs_bpb sb) (active_fat_idx (fs_bpb sb)) (c * 4 div bytes_per_sec (fs_bpb sb))) = (d', c', Inr s)"
    using ram_get_or_read by blast
  then show ?thesis using assms by (simp add: read_fat_entry_def fat_entry_position_def valid_clus_def)
qed

lemma ram_write_entry:
  assumes "valid_clus (fs_bpb sb) c"
  shows "\<exists>sb'. write_fat_entry ram_submit sb c v = (sb', Inr ()) \<and> fs_bpb sb' = fs_bpb sb"
proof -
  obtain d' c' s where "get_or_read ram_submit (fs_cache sb) (fs_dev sb)
      (fat_sector_lba (fs_bpb sb) (active_fat_idx (fs_bpb sb)) (c * 4 div bytes_per_sec (fs_bpb sb))) = (d', c', Inr s)"
    using ram_get_or_read by blast
  then show ?thesis using assms by (simp add: write_fat_entry_def fat_entry_position_def valid_clus_def get_or_read_mut_def Let_def)
qed

lemma ram_write_eocs:
  "\<forall>i\<in>set is. valid_clus (fs_bpb sb) (2 + i) \<Longrightarrow> \<exists>sb'. write_eocs ram_submit cands sb out is = (sb', Inr (out @ map (\<lambda>i. 2 + i) is))"
proof (induction "is" arbitrary: sb out)
  case (Cons i "is")
  obtain sb1 where "write_fat_entry ram_submit sb (2 + i) EOC_MARKER = (sb1, Inr ())" "fs_bpb sb1 = fs_bpb sb"
    using ram_write_entry [of sb "2 + i" EOC_MARKER] Cons.prems by auto
  then show ?case using Cons.IH [of sb1 "out @ [2 + i]"] Cons.prems by simp
qed simp

lemma ram_alloc:
  assumes "fs_bitmap sb = Some ws" "reserve_bits ws (total_clus (fs_bpb sb)) cnt (fs_hint sb) = (ws', Inr is)" "is \<noteq> []" "0 < cnt"
    and "\<forall>i\<in>set is. i < total_clus (fs_bpb sb)"
  shows "\<exists>sb'. alloc_clusters ram_submit sb cnt = (sb', Inr (map (\<lambda>i. 2 + i) is))"
proof -
  have "\<forall>i\<in>set is. valid_clus (fs_bpb (sb\<lparr>fs_bitmap := Some ws'\<rparr>)) (2 + i)" using assms(5) by (simp add: valid_clus_def)
  from ram_write_eocs [OF this, of "is" "[]"] obtain sb1 where
    "write_eocs ram_submit is (sb\<lparr>fs_bitmap := Some ws'\<rparr>) [] is = (sb1, Inr (map (\<lambda>i. 2 + i) is))" by auto
  moreover have "total_clus (fs_bpb sb) \<noteq> 0" using assms(3,5) by (cases "is") auto
  ultimately show ?thesis using assms(1-4) by (simp add: alloc_clusters_def or_return_def)
qed

section \<open>Its boot sector\<close>

lemma ex_parse: "parse_bpb ram_submit 11 ex_disk = (ex_disk, Inr ex_bpb)"
proof -
  have "ex_boot ! 510 = 0x55" "ex_boot ! 511 = 0xAA" by (simp_all add: ex_boot_def nth_append)
  moreover have "le_field 0x0B 2 ex_boot = 512" "le_field 0x0D 1 ex_boot = 1" "le_field 0x0E 2 ex_boot = 1" "le_field 0x10 1 ex_boot = 2"
    "le_field 0x11 2 ex_boot = 0" "le_field 0x16 2 ex_boot = 0" "le_field 0x24 4 ex_boot = 1" "le_field 0x2C 4 ex_boot = 2"
    "le_field 0x30 2 ex_boot = 0" "le_field 0x13 2 ex_boot = 11" "le_field 0x28 2 ex_boot = 0"
    by (simp_all add: le_field_def field_def ex_boot_def)
  ultimately show ?thesis unfolding parse_bpb_def ram_read_sector by (simp add: Let_def ex_bpb_def)
qed

lemma ex_mount: "\<exists>d' sb. fat_mount ram_submit 11 ex_disk = (d', Inr sb) \<and> fs_bpb sb = ex_bpb"
proof -
  obtain sb1 where v: "set_volume_dirty_flag ram_submit (sb_new ex_disk ex_bpb) = (sb1, Inr ())" "fs_bpb sb1 = ex_bpb"
    by (simp add: set_volume_dirty_flag_def sb_new_def sb_read_def sb_write_def ram_sector or_return_def)
  have h: "load_hint ram_submit sb1 = sb1" using v(2) by (simp add: load_hint_def fsinfo_is_valid_def ex_bpb_def)
  have "\<exists>sb2 free. scan_free_clusters ram_submit sb1 = (sb2, Inr free)" using v(2)
    by (simp add: scan_free_clusters_def Let_def ex_bpb_def scan_loop.simps sb_read_def ram_sector or_return_def)
  then obtain sb2 free where s: "scan_free_clusters ram_submit sb1 = (sb2, Inr free)" by blast
  have "fat_mount ram_submit 11 ex_disk = (fs_dev sb2, Inr (sb2\<lparr>fs_free := free\<rparr>))"
    unfolding fat_mount_def ex_parse ram_read_sector prod.case sum.case v(1) by (simp add: or_return_def h s)
  then show ?thesis using scan_free_clusters_bpb [OF s] v(2) by auto
qed

section \<open>Its table\<close>

lemma ex_layout: "fat_layout_ok ex_bpb"
  by (simp add: fat_layout_ok_def ex_geometry u64_max_def)

lemma ex_fat_fields:
  "le_field 8 4 ex_fat = 0x0FFFFFFF" "le_field 12 4 ex_fat = 0x0FFFFFFF"
  "4 \<le> c \<Longrightarrow> c < 10 \<Longrightarrow> le_field (c * 4) 4 ex_fat = 0"
proof -
  show "le_field 8 4 ex_fat = 0x0FFFFFFF" "le_field 12 4 ex_fat = 0x0FFFFFFF" by (simp_all add: le_field_def field_def ex_fat_def)
  show "le_field (c * 4) 4 ex_fat = 0" if "4 \<le> c" "c < 10"
  proof -
    have "drop (c * 4) ex_fat = replicate (496 - (c * 4 - 16)) 0" using that unfolding ex_fat_def drop_append by simp
    then show ?thesis by (simp add: le_field_def field_def)
  qed
qed

lemma ex_fat_entry:
  assumes "valid_clus ex_bpb c"
  shows "fat_entry (\<lambda>d. d) ex_sb c = (if c < 4 then 0x0FFFFFFF else FREE_CLUSTER)"
proof -
  have c: "2 \<le> c" "c < 10" using assms by (auto simp: valid_clus_def ex_bpb_def)
  then have l: "c * 4 div 512 = 0" "c * 4 mod 512 = c * 4" by auto
  have "fat_entry (\<lambda>d. d) ex_sb c = le_field (c * 4) 4 ex_fat mod 0x10000000"
    using l by (simp add: fat_entry_def entry_lba_def ex_geometry fat_view_def)
  moreover have "c = 2 \<or> c = 3 \<or> 4 \<le> c" using c by auto
  ultimately show ?thesis using c ex_fat_fields by (auto simp: FREE_CLUSTER_def)
qed

lemma ex_free: "free_clusters (\<lambda>d. d) ex_sb = {4..<10}"
proof -
  have "fs_bpb ex_sb = ex_bpb" "\<And>c. valid_clus ex_bpb c \<longleftrightarrow> 2 \<le> c \<and> c < 10" by (auto simp: ex_sb_def ex_bpb_def valid_clus_def)
  then show ?thesis using ex_fat_entry by (auto simp: free_clusters_def FREE_CLUSTER_def split: if_splits)
qed

lemma ex_vol_ok: "vol_ok (\<lambda>d. d) ram_ok ex_sb"
proof -
  have "sb_ok (\<lambda>d. d) ram_ok ex_sb"
    using ex_layout ex_disk_ok by (simp add: sb_ok_def ex_sb_def fc_ok_def fc_new_def fat_sector_lba_def)
  moreover have "bitmap_sync (\<lambda>d. d) ex_sb"
    unfolding bitmap_sync_def
  proof (intro allI impI conjI)
    fix ws i assume ws: "fs_bitmap ex_sb = Some ws"
    then have w: "ws = [3]" by (simp add: ex_sb_def)
    show "bitmap_len (total_clus (fs_bpb ex_sb)) ws" by (simp add: w bitmap_len_def ex_sb_def ex_bpb_def)
    assume "i < total_clus (fs_bpb ex_sb)"
    then have i: "i < 8" by (simp add: ex_sb_def ex_bpb_def)
    then have "i \<in> set [0..<8]" by simp
    then have "bit (3::u64) i \<longleftrightarrow> i < 2" by (auto simp: upt_rec)
    then show "bmp_test ws i \<longleftrightarrow> fat_entry (\<lambda>d. d) ex_sb (2 + i) \<noteq> FREE_CLUSTER"
      using ex_fat_entry [of "2 + i"] i by (simp add: w bmp_test_bit valid_clus_def ex_bpb_def FREE_CLUSTER_def)
  qed
  ultimately show ?thesis by (simp add: vol_ok_def ex_free) (simp add: ex_sb_def ex_bpb_def)
qed

end
