(* ===== verification/Fat_Flush.thy ===== *)
theory Fat_Flush
  imports Fat_Entries
begin

text \<open>
  Flushing the FAT cache: after a successful flush the device holds the current contents of the active
  FAT and, on a mirrored volume, every FAT copy holds the sectors that were dirty. A failed flush loses
  nothing.
\<close>

lemma dirty_active:
  assumes "fc_ok b c dk"
  shows "set (fc_dirty c) \<subseteq> active_region b"
proof
  fix l assume "l \<in> set (fc_dirty c)"
  then obtain s where "map_of (fc_sectors c) l = Some s" using assms by (auto simp: fc_ok_def)
  then show "l \<in> active_region b" by (rule fc_okD(2) [OF assms])
qed

text \<open>The places of a FAT sector: the sector itself and its mirrors.\<close>

definition copies :: "bpb \<Rightarrow> nat \<Rightarrow> nat set" where
  "copies b l = (if unmirrored b then {l} else (\<lambda>n. l + n * fat_sz32 b) ` {..<num_fats b})"

lemma shifted_interval: "{lba + k..<lba + k + cnt} = (\<lambda>i. lba + i + k) ` {..<cnt::nat}"
proof (intro equalityI subsetI)
  fix x assume "x \<in> {lba + k..<lba + k + cnt}"
  then have "x = lba + (x - (lba + k)) + k" "x - (lba + k) < cnt" by auto
  then show "x \<in> (\<lambda>i. lba + i + k) ` {..<cnt}" by blast
qed auto

lemma shift_inj:
  assumes "fat_layout_ok b" "\<not> unmirrored b" "l \<in> active_region b" "l' \<in> active_region b"
    and "l + n * fat_sz32 b = l' + n' * fat_sz32 b"
  shows "l = l' \<and> n = n'"
proof -
  let ?f = "fat_sz32 b" and ?r = "rsvd_sec_cnt b"
  have b: "?r \<le> l" "l < ?r + ?f" "?r \<le> l'" "l' < ?r + ?f"
    using active_region_bound [OF assms(1,3)] active_region_bound [OF assms(1,4)] assms(2) by auto
  have eq: "(l - ?r) + n * ?f = (l' - ?r) + n' * ?f" using assms(5) b by linarith
  have md: "(x + k * ?f) mod ?f = x" if "x < ?f" for x k using that by simp
  have lt: "l - ?r < ?f" "l' - ?r < ?f" using b by linarith+
  have "l - ?r = ((l - ?r) + n * ?f) mod ?f" by (rule md [OF lt(1), symmetric])
  also have "\<dots> = ((l' - ?r) + n' * ?f) mod ?f" by (simp only: eq)
  also have "\<dots> = l' - ?r" by (rule md [OF lt(2)])
  finally have "l = l'" using b by linarith
  then show ?thesis using assms(5) b by simp
qed

lemma copies_disjoint:
  assumes "fat_layout_ok b" "l \<in> active_region b" "l' \<in> active_region b" "l \<noteq> l'"
  shows "copies b l \<inter> copies b l' = {}"
  using assms shift_inj [OF assms(1) _ assms(2,3)] by (auto simp: copies_def)

lemma copies_active:
  assumes "fat_layout_ok b" "l \<in> active_region b"
  shows "l \<in> copies b l" and "l' \<in> active_region b \<Longrightarrow> l' \<in> copies b l \<Longrightarrow> l' = l"
proof -
  have m: "l \<in> copies b l" if "l \<in> active_region b" for l
    using assms(1) by (auto simp: copies_def fat_layout_ok_def active_fat_idx_def intro!: image_eqI [where x = 0])
  show "l' = l" if "l' \<in> active_region b" "l' \<in> copies b l"
    using copies_disjoint [OF assms that(1)] m [OF that(1)] that(2) by blast
  show "l \<in> copies b l" by (rule m [OF assms(2)])
qed

lemma length_concat_sectors: "\<forall>x\<in>set xs. length x = 512 \<Longrightarrow> length (concat xs) = 512 * length xs"
  by (induction xs) auto

text \<open>One chunk: the primary copy and its mirrors.\<close>

definition write_chunk :: "'d submit \<Rightarrow> fat_cache \<Rightarrow> 'd \<Rightarrow> nat \<Rightarrow> nat \<Rightarrow> u8 list \<Rightarrow> 'd \<times> (vfs_error, unit) result" where
  "write_chunk sub c d lba cnt buf =
     (case fat_write sub d lba cnt buf of
        (d1, Inl e) \<Rightarrow> (d1, Inl e)
      | (d1, Inr _) \<Rightarrow> if fc_mirrored c then write_mirrors sub c d1 lba cnt buf [1..<fc_num_fats c] else (d1, Inr ()))"

text \<open>What a part of the flush that covers the sectors \<open>S\<close> does to the device.\<close>

definition flushes ::
  "('d \<Rightarrow> nat \<Rightarrow> u8 list) \<Rightarrow> ('d \<Rightarrow> bool) \<Rightarrow> bpb \<Rightarrow> fat_cache \<Rightarrow> nat set \<Rightarrow> 'd \<Rightarrow> 'd \<Rightarrow> (vfs_error, unit) result \<Rightarrow> bool" where
  "flushes dk dev_ok b c S d d' r \<longleftrightarrow> dev_ok d' \<and> (\<forall>x. x \<notin> (\<Union>l\<in>S. copies b l) \<longrightarrow> dk d' x = dk d x)
     \<and> (\<forall>u. r = Inr u \<longrightarrow> (\<forall>l\<in>S. \<forall>x\<in>copies b l. dk d' x = the (map_of (fc_sectors c) l)))"

context reliable_device
begin

lemma write_mirrors_data:
  assumes lay: "fat_layout_ok b" and c: "fc_ok b c dk" and mir: "\<not> unmirrored b" and cnt: "0 < cnt" "length buf = 512 * cnt"
    and reg: "{lba..<lba + cnt} \<subseteq> active_region b"
  shows "ok d \<Longrightarrow> distinct ns \<Longrightarrow> set ns \<subseteq> {1..<num_fats b} \<Longrightarrow> write_mirrors sub c d lba cnt buf ns = (d', r) \<Longrightarrow>
    (\<forall>x. x \<notin> (\<Union>n\<in>set ns. (\<lambda>i. lba + i + n * fat_sz32 b) ` {..<cnt}) \<longrightarrow> disk d' x = disk d x)
    \<and> (\<forall>u. r = Inr u \<longrightarrow> (\<forall>n\<in>set ns. \<forall>i<cnt. disk d' (lba + i + n * fat_sz32 b) = sector_of buf i))"
proof (induction ns arbitrary: d)
  case (Cons n ns)
  let ?m = "mirror_lba c n lba"
  have n: "1 \<le> n" "n < num_fats b" using Cons.prems(3) by auto
  have m: "?m = lba + n * fat_sz32 b" "?m + cnt \<le> u64_max" using mirror_bound [OF lay c mir n(2) cnt(1) reg] by auto
  obtain d1 r1 where w: "fat_write sub d ?m cnt buf = (d1, r1)" by fastforce
  note sp = fat_write_spec [OF Cons.prems(1) w cnt m(2)]
  have rng: "{?m..<?m + cnt} = (\<lambda>i. lba + i + n * fat_sz32 b) ` {..<cnt}"
    unfolding m(1) by (rule shifted_interval)
  have fr: "\<forall>x. x \<notin> (\<lambda>i. lba + i + n * fat_sz32 b) ` {..<cnt} \<longrightarrow> disk d1 x = disk d x" using sp(2) rng by auto
  show ?case
  proof (cases r1)
    case (Inl e)
    then show ?thesis using Cons.prems(4) w fr by auto
  next
    case (Inr u)
    have "write_mirrors sub c d1 lba cnt buf ns = (d', r)" using Cons.prems(4) w Inr by simp
    from Cons.IH [OF sp(1) _ _ this] Cons.prems(2,3)
    have ih: "\<forall>x. x \<notin> (\<Union>n\<in>set ns. (\<lambda>i. lba + i + n * fat_sz32 b) ` {..<cnt}) \<longrightarrow> disk d' x = disk d1 x"
      "\<forall>u. r = Inr u \<longrightarrow> (\<forall>n\<in>set ns. \<forall>i<cnt. disk d' (lba + i + n * fat_sz32 b) = sector_of buf i)" by auto
    have "disk d' (lba + i + n * fat_sz32 b) = sector_of buf i" if "i < cnt" for i
    proof -
      have "lba + i + n * fat_sz32 b \<noteq> lba + j + k * fat_sz32 b" if "j < cnt" "k \<in> set ns" for j k
        using shift_inj [OF lay mir, of "lba + i" "lba + j" n k] reg \<open>i < cnt\<close> that Cons.prems(2) by (auto simp: subset_iff)
      then have "lba + i + n * fat_sz32 b \<notin> (\<Union>n\<in>set ns. (\<lambda>i. lba + i + n * fat_sz32 b) ` {..<cnt})" by blast
      then have "disk d' (lba + i + n * fat_sz32 b) = disk d1 (lba + i + n * fat_sz32 b)" using ih(1) by blast
      also have "\<dots> = sector_of buf i" using sp(3) [OF Inr that] unfolding m(1) by (simp add: ac_simps)
      finally show ?thesis .
    qed
    then show ?thesis using ih fr by auto
  qed
qed simp

lemma write_chunk_spec:
  assumes lay: "fat_layout_ok b" and c: "fc_ok b c dk" and d: "ok d" and cnt: "0 < cnt" "length buf = 512 * cnt"
    and reg: "{lba..<lba + cnt} \<subseteq> active_region b" and w: "write_chunk sub c d lba cnt buf = (d', r)"
  shows "ok d'" and "x \<notin> (\<Union>l\<in>{lba..<lba + cnt}. copies b l) \<Longrightarrow> disk d' x = disk d x"
    and "r = Inr u \<Longrightarrow> i < cnt \<Longrightarrow> x \<in> copies b (lba + i) \<Longrightarrow> disk d' x = sector_of buf i"
proof -
  have u: "lba + cnt \<le> u64_max" using active_region_bound(1) [OF lay, of "lba + cnt - 1"] reg cnt(1) by (auto simp: subset_iff)
  obtain d1 r1 where w1: "fat_write sub d lba cnt buf = (d1, r1)" by fastforce
  note sp = fat_write_spec [OF d w1 cnt u]
  have own: "l \<in> copies b l" if "l \<in> {lba..<lba + cnt}" for l using copies_active(1) [OF lay] reg that by auto
  have "ok d' \<and> (\<forall>x. x \<notin> (\<Union>l\<in>{lba..<lba + cnt}. copies b l) \<longrightarrow> disk d' x = disk d x)
      \<and> (\<forall>u i x. r = Inr u \<longrightarrow> i < cnt \<longrightarrow> x \<in> copies b (lba + i) \<longrightarrow> disk d' x = sector_of buf i)"
  proof (cases "(\<exists>e. r1 = Inl e) \<or> unmirrored b")
    case True
    then have d': "d' = d1" and r: "\<And>u. r = Inr u \<Longrightarrow> \<exists>v. r1 = Inr v" and un: "\<And>u. r = Inr u \<Longrightarrow> unmirrored b"
      using w w1 c by (auto simp: write_chunk_def fc_ok_def split: sum.splits)
    have "disk d1 x = disk d x" if "x \<notin> (\<Union>l\<in>{lba..<lba + cnt}. copies b l)" for x
      using sp(2) own that by blast
    then show ?thesis using sp(1,3) d' r un by (fastforce simp: copies_def)
  next
    case False
    then have mir: "\<not> unmirrored b" and r1: "r1 = Inr ()"
      and m: "write_mirrors sub c d1 lba cnt buf [1..<num_fats b] = (d', r)"
      using w w1 c by (auto simp: write_chunk_def fc_ok_def split: sum.splits)
    have ok': "ok d' \<and> (\<forall>l\<in>active_region b. disk d' l = disk d1 l)"
      by (rule write_mirrors_spec [OF lay c mir cnt reg sp(1) _ m]) simp
    have md: "(\<forall>x. x \<notin> (\<Union>n\<in>{1..<num_fats b}. (\<lambda>i. lba + i + n * fat_sz32 b) ` {..<cnt}) \<longrightarrow> disk d' x = disk d1 x)"
      "\<And>u n i. r = Inr u \<Longrightarrow> n \<in> {1..<num_fats b} \<Longrightarrow> i < cnt \<Longrightarrow> disk d' (lba + i + n * fat_sz32 b) = sector_of buf i"
      using write_mirrors_data [OF lay c mir cnt reg sp(1) _ _ m] by auto
    have "disk d' x = disk d x" if x: "x \<notin> (\<Union>l\<in>{lba..<lba + cnt}. copies b l)" for x
    proof -
      have "x \<notin> {lba..<lba + cnt}" using own x by blast
      then have "disk d1 x = disk d x" by (rule sp(2))
      moreover have "x \<notin> (\<Union>n\<in>{1..<num_fats b}. (\<lambda>i. lba + i + n * fat_sz32 b) ` {..<cnt})"
      proof
        assume "x \<in> (\<Union>n\<in>{1..<num_fats b}. (\<lambda>i. lba + i + n * fat_sz32 b) ` {..<cnt})"
        then obtain n i where "n < num_fats b" "i < cnt" "x = lba + i + n * fat_sz32 b" by auto
        then have "x \<in> copies b (lba + i)" "lba + i \<in> {lba..<lba + cnt}" using mir by (auto simp: copies_def)
        then show False using x by blast
      qed
      ultimately show ?thesis using md(1) by simp
    qed
    moreover have "disk d' x = sector_of buf i" if ri: "r = Inr u" and i: "i < cnt" and xc: "x \<in> copies b (lba + i)" for u i x
    proof -
      obtain n where n: "n < num_fats b" "x = lba + i + n * fat_sz32 b" using xc mir by (auto simp: copies_def)
      show ?thesis
      proof (cases "n = 0")
        case True
        have "lba + i \<in> active_region b" using reg i by auto
        then have "disk d' (lba + i) = disk d1 (lba + i)" using ok' by blast
        then show ?thesis using True n sp(3) [OF r1 i] by simp
      next
        case False
        then show ?thesis using md(2) [OF ri _ i] n by simp
      qed
    qed
    ultimately show ?thesis using ok' by blast
  qed
  then show "ok d'" "x \<notin> (\<Union>l\<in>{lba..<lba + cnt}. copies b l) \<Longrightarrow> disk d' x = disk d x"
    "r = Inr u \<Longrightarrow> i < cnt \<Longrightarrow> x \<in> copies b (lba + i) \<Longrightarrow> disk d' x = sector_of buf i" by blast+
qed

lemma flushes_seq:
  assumes "flushes disk ok b c S d d1 (Inr v)" "flushes disk ok b c T d1 d2 r" "fat_layout_ok b" "S \<union> T \<subseteq> active_region b" "S \<inter> T = {}"
  shows "flushes disk ok b c (S \<union> T) d d2 r"
proof -
  have "disk d2 x = the (map_of (fc_sectors c) l)" if "l \<in> S" "x \<in> copies b l" for l x
  proof -
    have "x \<notin> copies b l'" if "l' \<in> T" for l'
      using copies_disjoint [OF assms(3), of l l'] assms(4,5) \<open>l \<in> S\<close> \<open>x \<in> copies b l\<close> that by blast
    then show ?thesis using assms(1,2) that unfolding flushes_def by auto
  qed
  then show ?thesis using assms(1,2) unfolding flushes_def by auto
qed

lemma flushes_error: "flushes disk ok b c S d d' (Inl e) \<Longrightarrow> S \<subseteq> T \<Longrightarrow> flushes disk ok b c T d d' (Inl e)"
  unfolding flushes_def by auto

lemma gather_cached:
  "\<forall>l\<in>set ls. map_of (fc_sectors c) l \<noteq> None \<Longrightarrow> gather c ls = Inr (concat (map (\<lambda>l. the (map_of (fc_sectors c) l)) ls))"
  by (induction ls) auto

lemma flush_chunk:
  assumes lay: "fat_layout_ok b" and c: "fc_ok b c dk" and d: "ok d" and cnt: "0 < cnt"
    and dirty: "{lba..<lba + cnt} \<subseteq> set (fc_dirty c)"
    and w: "write_chunk sub c d lba cnt (concat (map (\<lambda>l. the (map_of (fc_sectors c) l)) [lba..<lba + cnt])) = (d', r)"
  shows "flushes disk ok b c {lba..<lba + cnt} d d' r"
proof -
  let ?xs = "map (\<lambda>l. the (map_of (fc_sectors c) l)) [lba..<lba + cnt]"
  have cached: "\<exists>s. map_of (fc_sectors c) l = Some s" if "l \<in> {lba..<lba + cnt}" for l
    using c dirty that by (auto simp: fc_ok_def)
  then have reg: "{lba..<lba + cnt} \<subseteq> active_region b" using fc_okD(2) [OF c] by blast
  have len: "\<forall>x\<in>set ?xs. length x = 512" using cached fc_okD(1) [OF c] by fastforce
  then have tot: "length (concat ?xs) = 512 * cnt" using length_concat_sectors [of ?xs] by simp
  note sp = write_chunk_spec [OF lay c d cnt tot reg w]
  have "disk d' x = the (map_of (fc_sectors c) l)" if u: "r = Inr u" and l: "l \<in> {lba..<lba + cnt}" and x: "x \<in> copies b l" for u l x
  proof -
    have i: "l - lba < cnt" "lba + (l - lba) = l" using l by auto
    have "disk d' x = sector_of (concat ?xs) (l - lba)" using sp(3) [OF u i(1)] x i(2) by simp
    also have "\<dots> = ?xs ! (l - lba)" by (rule concat_sectors [OF _ len i(1)]) simp
    also have "\<dots> = the (map_of (fc_sectors c) l)" using i by simp
    finally show ?thesis .
  qed
  then show ?thesis using sp(1,2) unfolding flushes_def by blast
qed

lemma flush_run_spec:
  assumes lay: "fat_layout_ok b" and c: "fc_ok b c dk"
  shows "ok d \<Longrightarrow> {start..<start + len} \<subseteq> set (fc_dirty c) \<Longrightarrow> flush_run sub c d start len = (d', r) \<Longrightarrow>
    flushes disk ok b c {start..<start + len} d d' r"
proof (induction len arbitrary: d start rule: less_induct)
  case (less len)
  show ?case
  proof (cases "len = 0")
    case True
    then show ?thesis using less.prems by (simp add: flush_run.simps flushes_def)
  next
    case False
    define chunk where "chunk = min PRDT_MAX_SECTORS len"
    have ch: "0 < chunk" "chunk \<le> len" using False by (auto simp: chunk_def PRDT_MAX_SECTORS_def)
    have sub: "{start..<start + chunk} \<subseteq> set (fc_dirty c)" using less.prems(2) ch by auto
    define buf where "buf = concat (map (\<lambda>l. the (map_of (fc_sectors c) l)) [start..<start + chunk])"
    have "\<forall>l\<in>set [start..<start + chunk]. map_of (fc_sectors c) l \<noteq> None" using sub c by (auto simp: fc_ok_def)
    then have g: "gather c [start..<start + chunk] = Inr buf" unfolding buf_def by (rule gather_cached)
    obtain d1 r1 where w: "write_chunk sub c d start chunk buf = (d1, r1)" by fastforce
    note f1 = flush_chunk [OF lay c less.prems(1) ch(1) sub w [unfolded buf_def]]
    have eq: "flush_run sub c d start len =
        (case write_chunk sub c d start chunk buf of
           (d1, Inl e) \<Rightarrow> (d1, Inl e)
         | (d1, Inr _) \<Rightarrow> flush_run sub c d1 (start + chunk) (len - chunk))"
      using False g unfolding flush_run.simps [of sub c d start len] write_chunk_def Let_def chunk_def [symmetric]
      by (auto split: prod.splits sum.splits)
    show ?thesis
    proof (cases r1)
      case (Inl e)
      then have "d' = d1" "r = Inl e" using less.prems(3) eq w by auto
      then show ?thesis using f1 Inl flushes_error [of b c "{start..<start + chunk}"] ch by auto
    next
      case (Inr v)
      have ok1: "ok d1" using f1 by (simp add: flushes_def)
      have nx: "flush_run sub c d1 (start + chunk) (len - chunk) = (d', r)" using less.prems(3) eq w Inr by simp
      have rest: "{start + chunk..<start + chunk + (len - chunk)} \<subseteq> set (fc_dirty c)" using less.prems(2) ch by auto
      have f2: "flushes disk ok b c {start + chunk..<start + chunk + (len - chunk)} d1 d' r"
        by (rule less.IH [OF _ ok1 rest nx]) (use ch False in simp)
      have un: "{start..<start + chunk} \<union> {start + chunk..<start + chunk + (len - chunk)} = {start..<start + len}" using ch by auto
      have act: "{start..<start + len} \<subseteq> active_region b" using less.prems(2) dirty_active [OF c] by blast
      show ?thesis using flushes_seq [OF f1 [unfolded Inr] f2 lay] un act by auto
    qed
  qed
qed

lemma flush_lbas_spec:
  assumes lay: "fat_layout_ok b" and c: "fc_ok b c dk"
  shows "ok d \<Longrightarrow> {start..<start + len} \<union> set ls \<subseteq> set (fc_dirty c) \<Longrightarrow> distinct ls \<Longrightarrow> {start..<start + len} \<inter> set ls = {} \<Longrightarrow>
    flush_lbas sub c d start len ls = (d', r) \<Longrightarrow> flushes disk ok b c ({start..<start + len} \<union> set ls) d d' r"
proof (induction ls arbitrary: d start len)
  case Nil
  then show ?case using flush_run_spec [OF lay c] by simp
next
  case (Cons l ls)
  show ?case
  proof (cases "l = start + len")
    case True
    have eq: "{start..<start + (len + 1)} = insert l {start..<start + len}" using True by auto
    have "flushes disk ok b c ({start..<start + (len + 1)} \<union> set ls) d d' r"
      by (rule Cons.IH) (use Cons.prems True eq in auto)
    then show ?thesis unfolding eq by (simp add: Un_commute)
  next
    case False
    obtain d1 r1 where f: "flush_run sub c d start len = (d1, r1)" by fastforce
    have f1: "flushes disk ok b c {start..<start + len} d d1 r1"
      using flush_run_spec [OF lay c Cons.prems(1) _ f] Cons.prems(2) by auto
    show ?thesis
    proof (cases r1)
      case (Inl e)
      then have "d' = d1" "r = Inl e" using Cons.prems(5) False f by auto
      then show ?thesis using f1 Inl flushes_error by blast
    next
      case (Inr v)
      have f2: "flushes disk ok b c ({l..<l + 1} \<union> set ls) d1 d' r"
        by (rule Cons.IH) (use f1 Cons.prems False f Inr in \<open>auto simp: flushes_def\<close>)
      have act: "set (fc_dirty c) \<subseteq> active_region b" by (rule dirty_active [OF c])
      have "flushes disk ok b c ({start..<start + len} \<union> ({l..<l + 1} \<union> set ls)) d d' r"
        by (rule flushes_seq [OF f1 [unfolded Inr] f2 lay]) (use Cons.prems act in auto)
      then show ?thesis by simp
    qed
  qed
qed

text \<open>The flush: nothing of the FAT is lost; on success the device and all copies hold it.\<close>

lemma fc_flush_spec:
  assumes lay: "fat_layout_ok b" and c: "fc_ok b c (disk d)" and d: "ok d" and f: "fc_flush sub c d = (d', c', r)"
  shows "ok d'" and "keeps_view b (c, disk d) (c', disk d')"
    and "r = Inr u \<Longrightarrow> l \<in> active_region b \<Longrightarrow> disk d' l = fat_view c (disk d) l"
    and "r = Inr u \<Longrightarrow> l \<in> set (fc_dirty c) \<Longrightarrow> x \<in> copies b l \<Longrightarrow> disk d' x = fat_view c (disk d) l"
    and "x \<notin> (\<Union>l\<in>set (fc_dirty c). copies b l) \<Longrightarrow> disk d' x = disk d x"
proof -
  have act: "set (fc_dirty c) \<subseteq> active_region b" by (rule dirty_active [OF c])
  have fl: "flushes disk ok b c (set (fc_dirty c)) d d' r \<and> c' = (if \<exists>u. r = Inr u then c\<lparr>fc_dirty := []\<rparr> else c)"
  proof (cases "sort (fc_dirty c)")
    case Nil
    then have "fc_dirty c = []" by (metis set_sort set_empty)
    then show ?thesis using f d Nil by (auto simp: fc_flush_def flushes_def)
  next
    case (Cons l ls)
    have st: "set (fc_dirty c) = insert l (set ls)" using Cons by (metis list.simps(15) set_sort)
    have "distinct (sort (fc_dirty c))" using c by (simp add: fc_ok_def)
    then have di: "distinct ls" "l \<notin> set ls" using Cons by simp_all
    obtain d1 r1 where fb: "flush_lbas sub c d l 1 ls = (d1, r1)" by fastforce
    have "flushes disk ok b c ({l..<l + 1} \<union> set ls) d d1 r1"
      by (rule flush_lbas_spec [OF lay c d _ di(1) _ fb]) (use st di in auto)
    then show ?thesis using f Cons fb st by (auto simp: fc_flush_def split: sum.splits)
  qed
  then have ok': "ok d'" and fr: "\<And>x. x \<notin> (\<Union>l\<in>set (fc_dirty c). copies b l) \<Longrightarrow> disk d' x = disk d x"
    and dat: "\<And>u l x. r = Inr u \<Longrightarrow> l \<in> set (fc_dirty c) \<Longrightarrow> x \<in> copies b l \<Longrightarrow> disk d' x = the (map_of (fc_sectors c) l)"
    and c': "c' = (if \<exists>u. r = Inr u then c\<lparr>fc_dirty := []\<rparr> else c)"
    unfolding flushes_def by auto
  have clean: "disk d' l = disk d l" if "l \<in> active_region b" "l \<notin> set (fc_dirty c)" for l
    using fr copies_active(2) [OF lay _ that(1)] act that by blast
  have view: "fat_view c (disk d) l = the (map_of (fc_sectors c) l)" if "l \<in> set (fc_dirty c)" for l
    using c that by (auto simp: fat_view_def fc_ok_def)
  show "ok d'" by (rule ok')
  show "x \<notin> (\<Union>l\<in>set (fc_dirty c). copies b l) \<Longrightarrow> disk d' x = disk d x" by (rule fr)
  show "disk d' x = fat_view c (disk d) l" if "r = Inr u" "l \<in> set (fc_dirty c)" "x \<in> copies b l" for l x u
    using dat [OF that] view [OF that(2)] by simp
  have all: "disk d' l = fat_view c (disk d) l" if "r = Inr u" "l \<in> active_region b" for l u
  proof (cases "l \<in> set (fc_dirty c)")
    case True
    then show ?thesis using dat [OF that(1) True copies_active(1) [OF lay that(2)]] view by simp
  next
    case False
    then show ?thesis using clean [OF that(2)] fc_okD(3) [OF c] by (auto simp: fat_view_def split: option.splits)
  qed
  then show "r = Inr u \<Longrightarrow> l \<in> active_region b \<Longrightarrow> disk d' l = fat_view c (disk d) l" by blast
  have okc: "fc_ok b c (disk d')" by (rule fc_ok_disk [OF c]) (use clean fc_okD(2) [OF c] in blast)
  have vw: "fat_view c (disk d') l = fat_view c (disk d) l" if "l \<in> active_region b" for l
  proof (cases "map_of (fc_sectors c) l")
    case None
    then have "l \<notin> set (fc_dirty c)" using c by (auto simp: fc_ok_def)
    then show ?thesis using None clean [OF that] by (simp add: fat_view_def)
  qed (simp add: fat_view_def)
  show "keeps_view b (c, disk d) (c', disk d')"
  proof (cases "\<exists>u. r = Inr u")
    case True
    then have "s = disk d' l" if "map_of (fc_sectors c) l = Some s" for l s
      using all fc_okD(2) [OF c that] that by (auto simp: fat_view_def)
    then have "fc_ok b c' (disk d')" using okc c' True by (auto simp: fc_ok_def)
    then show ?thesis using vw c' True by (simp add: keeps_view_def fat_view_def)
  next
    case False
    then show ?thesis using okc vw c' by (simp add: keeps_view_def)
  qed
qed

lemma flush_fat_cache_spec:
  assumes ok: "sb_ok disk ok sb" and f: "flush_fat_cache sub sb = (sb', r)"
  shows "sb_ok disk ok sb'" and "fat_step sb sb'" and "valid_clus (fs_bpb sb) k \<Longrightarrow> fat_entry disk sb' k = fat_entry disk sb k"
proof -
  obtain d' c' where g: "fc_flush sub (fs_cache sb) (fs_dev sb) = (d', c', r)" "sb' = sb\<lparr>fs_dev := d', fs_cache := c'\<rparr>"
    using f by (auto simp: flush_fat_cache_def split: prod.splits)
  have pre: "fat_layout_ok (fs_bpb sb)" "fc_ok (fs_bpb sb) (fs_cache sb) (disk (fs_dev sb))" "ok (fs_dev sb)"
    using ok by (auto simp: sb_ok_def)
  note k = fc_flush_spec [OF pre g(1)]
  show "sb_ok disk ok sb'" "fat_step sb sb'" using k(1,2) pre g(2) by (auto simp: sb_ok_def keeps_view_def)
  show "valid_clus (fs_bpb sb) k \<Longrightarrow> fat_entry disk sb' k = fat_entry disk sb k"
    using k(2) g(2) entry_lba_region [OF pre(1)] by (simp add: keeps_view_def fat_entry_def)
qed

end

end
