(* ===== verification/Fat_Theorems.thy ===== *)
theory Fat_Theorems
  imports Fat_Example Fat_Flush
begin

text \<open>
  The properties of a mounted FAT32 volume, over any driver that keeps the contract of
  \<open>reliable_device\<close>; the witnesses instantiate them with the RAM disk and the example volume.
\<close>

lemmas ram_is_reliable = ram_reliable.reliable_device_axioms

text \<open>A boot sector with one FAT of one sector and 202 sectors in all.\<close>

definition short_boot :: "u8 list" where
  "short_boot = replicate 11 0 @ [0, 2, 1, 1, 0, 1, 0, 0, 202, 0, 0, 0, 0] @ replicate 12 0 @ [1, 0, 0, 0, 0, 0, 0, 0, 2, 0, 0, 0]
     @ replicate 462 0 @ [0x55, 0xAA]"

definition short_disk :: ram_disk where
  "short_disk = (\<lambda>l. if l = 0 then short_boot else replicate 512 0)"

section \<open>Mounting\<close>

text \<open>C36: A boot sector that is accepted describes a well-formed volume: sectors of 512 bytes, a power-of-two cluster
  size, a root directory that is one of the clusters, every cluster on the device behind the FATs, and
  no sector in two clusters or in a cluster and a FAT.\<close>

theorem accepted_geometry:
  assumes "parse_bpb sub n d = (d', Inr b)"
  shows "geometry_ok n b
    \<and> (\<forall>c. valid_clus b c \<longrightarrow> cluster_sectors b c \<subseteq> {first_data_sec b..<n})
    \<and> (\<forall>c c'. valid_clus b c \<longrightarrow> valid_clus b c' \<longrightarrow> c \<noteq> c' \<longrightarrow> cluster_sectors b c \<inter> cluster_sectors b c' = {})
    \<and> (\<forall>c i. valid_clus b c \<longrightarrow> i < num_fats b \<longrightarrow> cluster_sectors b c \<inter> fat_sectors b i = {})"
proof -
  note g = parse_bpb_geometry [OF assms]
  have "cluster_sectors b c \<inter> fat_sectors b i = {}" if "valid_clus b c" "i < num_fats b" for c i
    using cluster_sectors_in [OF g that(1)] fat_sectors_in [OF g that(2)] by fastforce
  then show ?thesis using g cluster_sectors_in [OF g] cluster_sectors_disjoint by blast
qed

theorem accepted_geometry_witness:
  "parse_bpb ram_submit 11 ex_disk = (ex_disk, Inr ex_bpb) \<and> geometry_ok 11 ex_bpb \<and> cluster_sectors ex_bpb 9 \<subseteq> {3..<11}
     \<and> cluster_sectors ex_bpb 2 \<inter> cluster_sectors ex_bpb 3 = {} \<and> cluster_sectors ex_bpb 2 \<inter> fat_sectors ex_bpb 1 = {}"
proof -
  have "valid_clus ex_bpb 9" "valid_clus ex_bpb 2" "valid_clus ex_bpb 3" "first_data_sec ex_bpb = 3" "1 < num_fats ex_bpb"
    by (simp_all add: valid_clus_def ex_bpb_def)
  moreover have "(2::nat) \<noteq> 3" by simp
  ultimately show ?thesis using accepted_geometry [OF ex_parse] ex_parse by metis
qed

text \<open>C31: Mounting establishes the invariant of the volume. When the FAT has an entry for every cluster and the active FAT
  is one of the copies, a mounted volume has a bitmap that marks exactly the clusters in use, a free
  count that counts the others, and a FAT cache that agrees with the device.\<close>

theorem mount_establishes_invariant:
  assumes "reliable_device sub disk ok" "ok d" "fat_mount sub n d = (d', Inr sb)"
    and "active_fat_idx (fs_bpb sb) < num_fats (fs_bpb sb)" "(total_clus (fs_bpb sb) + 2) * 4 \<le> fat_sz32 (fs_bpb sb) * 512"
  shows "vol_ok disk ok sb"
  by (rule reliable_device.fat_mount_spec [OF assms])

theorem mount_establishes_invariant_witness:
  "\<exists>d' sb. fat_mount ram_submit 11 ex_disk = (d', Inr sb) \<and> vol_ok (\<lambda>d. d) ram_ok sb"
proof -
  obtain d' sb where m: "fat_mount ram_submit 11 ex_disk = (d', Inr sb)" "fs_bpb sb = ex_bpb" using ex_mount by blast
  have "active_fat_idx ex_bpb < num_fats ex_bpb" "(total_clus ex_bpb + 2) * 4 \<le> fat_sz32 ex_bpb * 512"
    by (simp_all add: ex_geometry)
  then show ?thesis using mount_establishes_invariant [OF ram_is_reliable ex_disk_ok m(1)] m by auto
qed

text \<open>The boot sector is not checked for that. A volume whose only FAT has one sector is accepted with 200 clusters;
  the entry of cluster 130 lies in the sector of the root directory, so linking that cluster
  overwrites the directory.\<close>

theorem short_fat_accepted:
  "\<exists>b. parse_bpb ram_submit 202 short_disk = (short_disk, Inr b) \<and> valid_clus b 130 \<and> entry_lba b 130 \<in> cluster_sectors b (root_clus b)
     \<and> entry_lba b 130 \<notin> \<Union> (fat_sectors b ` {..<num_fats b})"
proof -
  have "short_boot ! 510 = 0x55" "short_boot ! 511 = 0xAA" by (simp_all add: short_boot_def nth_append)
  moreover have "le_field 0x0B 2 short_boot = 512" "le_field 0x0D 1 short_boot = 1" "le_field 0x0E 2 short_boot = 1" "le_field 0x10 1 short_boot = 1"
    "le_field 0x11 2 short_boot = 0" "le_field 0x16 2 short_boot = 0" "le_field 0x24 4 short_boot = 1" "le_field 0x2C 4 short_boot = 2"
    "le_field 0x30 2 short_boot = 0" "le_field 0x13 2 short_boot = 202" "le_field 0x28 2 short_boot = 0"
    by (simp_all add: le_field_def field_def short_boot_def)
  ultimately show ?thesis unfolding parse_bpb_def ram_read_sector short_disk_def
    by (simp add: valid_clus_def entry_lba_def cluster_sectors_def cluster_to_lba_def fat_sectors_def fat_sector_lba_def active_fat_idx_def
        unmirrored_def)
qed

section \<open>The table\<close>

text \<open>C32: The FAT behind its write-back cache is a table of 28-bit entries. Whatever is cached, dirty or evicted, reading an
  entry returns the table's value and changes nothing, a successful write changes that one entry, a
  failed one none, and both keep the cache's invariant.\<close>

theorem fat_cache_refines_table:
  assumes "reliable_device sub disk ok" "sb_ok disk ok sb" "v < 0x10000000" "valid_clus (fs_bpb sb) k"
  shows "(case read_fat_entry sub sb c of (sb', r) \<Rightarrow>
       sb_ok disk ok sb' \<and> fat_entry disk sb' k = fat_entry disk sb k \<and> (\<forall>x. r = Inr x \<longrightarrow> x = fat_entry disk sb c))
    \<and> (case write_fat_entry sub sb c v of (sb', r) \<Rightarrow>
       sb_ok disk ok sb' \<and> fat_entry disk sb' k = (if r = Inr () \<and> k = c then v else fat_entry disk sb k))"
proof -
  obtain sb1 r1 where r: "read_fat_entry sub sb c = (sb1, r1)" by fastforce
  obtain sb2 r2 where w: "write_fat_entry sub sb c v = (sb2, r2)" by fastforce
  note rs = reliable_device.read_fat_entry_spec [OF assms(1,2) r] and ws = reliable_device.write_fat_entry_spec [OF assms(1,2) w assms(3)]
  have "fat_entry disk sb2 k = (if r2 = Inr () \<and> k = c then v else fat_entry disk sb k)"
    using ws(3,5) assms(4) by (cases r2) auto
  then show ?thesis using rs(1,2,4) ws(1) assms(4) by (simp add: r w)
qed

theorem fat_cache_refines_table_witness:
  "case write_fat_entry ram_submit ex_sb 3 4 of (sb', r) \<Rightarrow>
     sb_ok (\<lambda>d. d) ram_ok sb' \<and> fat_entry (\<lambda>d. d) sb' 3 = (if r = Inr () then 4 else 0x0FFFFFFF)"
proof -
  have k: "valid_clus (fs_bpb ex_sb) 3" by (simp add: valid_clus_def ex_sb_def ex_bpb_def)
  have "sb_ok (\<lambda>d. d) ram_ok ex_sb" using ex_vol_ok by (simp add: vol_ok_def)
  from fat_cache_refines_table [OF ram_is_reliable this, of 4 3 3] k ex_fat_entry [of 3] show ?thesis
    by (simp add: ex_sb_def split: prod.splits)
qed

text \<open>C33: A flush makes the table durable. When it succeeds, the device itself holds the entry of every cluster, every copy of
  a sector that was dirty holds the same bytes, and no sector but the copies of the dirty sectors has
  changed.\<close>

theorem flush_makes_durable:
  assumes "reliable_device sub disk ok" "sb_ok disk ok sb" "flush_fat_cache sub sb = (sb', Inr u)"
  shows "(\<forall>k. valid_clus (fs_bpb sb) k \<longrightarrow>
       le_field (k * 4 mod 512) 4 (disk (fs_dev sb') (entry_lba (fs_bpb sb) k)) mod 0x10000000 = fat_entry disk sb k)
    \<and> (\<forall>l\<in>set (fc_dirty (fs_cache sb)). \<forall>x\<in>copies (fs_bpb sb) l. disk (fs_dev sb') x = disk (fs_dev sb') l)
    \<and> (\<forall>x. x \<notin> (\<Union>l\<in>set (fc_dirty (fs_cache sb)). copies (fs_bpb sb) l) \<longrightarrow> disk (fs_dev sb') x = disk (fs_dev sb) x)"
proof -
  obtain d' c' where g: "fc_flush sub (fs_cache sb) (fs_dev sb) = (d', c', Inr u)" "sb' = sb\<lparr>fs_dev := d', fs_cache := c'\<rparr>"
    using assms(3) by (auto simp: flush_fat_cache_def split: prod.splits)
  have pre: "fat_layout_ok (fs_bpb sb)" "fc_ok (fs_bpb sb) (fs_cache sb) (disk (fs_dev sb))" "ok (fs_dev sb)"
    using assms(2) by (auto simp: sb_ok_def)
  note f = reliable_device.fc_flush_spec [OF assms(1) pre g(1)]
  have "disk d' x = disk d' l" if "l \<in> set (fc_dirty (fs_cache sb))" "x \<in> copies (fs_bpb sb) l" for l x
    using f(4) [OF refl that] f(3) [OF refl] dirty_active [OF pre(2)] that(1) by auto
  moreover have "disk d' (entry_lba (fs_bpb sb) k) = fat_view (fs_cache sb) (disk (fs_dev sb)) (entry_lba (fs_bpb sb) k)"
    if "valid_clus (fs_bpb sb) k" for k by (rule f(3) [OF refl entry_lba_region [OF pre(1) that]])
  ultimately show ?thesis using f(5) by (simp add: g(2) fat_entry_def)
qed

theorem flush_makes_durable_witness:
  "\<exists>sb sb'. write_fat_entry ram_submit ex_sb 3 4 = (sb, Inr ()) \<and> flush_fat_cache ram_submit sb = (sb', Inr ())
     \<and> fat_entry (\<lambda>d. d) sb 3 = 4 \<and> le_field 12 4 (fs_dev sb' 1) mod 0x10000000 = 4 \<and> fs_dev sb' 2 = fs_dev sb' 1"
proof -
  define f where "f = put_field 12 (le_bytes 4 4) ex_fat"
  define sb where "sb = ex_sb\<lparr>fs_cache := (fc_new ex_bpb)\<lparr>fc_sectors := [(1, f)], fc_dirty := [1], fc_clock := [1]\<rparr>\<rparr>"
  have w: "write_fat_entry ram_submit ex_sb 3 4 = (sb, Inr ())"
    by (simp add: write_fat_entry_def fat_entry_position_def ex_geometry get_or_read_mut_def get_or_read_def
        ram_sector no_eviction hm_insert_def hm_remove_def mark_dirty_def sb_def f_def)
  have fl: "\<exists>sb'. flush_fat_cache ram_submit sb = (sb', Inr ())"
    by (simp add: sb_def flush_fat_cache_def fc_flush_def flush_run.simps PRDT_MAX_SECTORS_def ram_sector ex_geometry upt_rec)
  then obtain sb' where fl: "flush_fat_cache ram_submit sb = (sb', Inr ())" by blast
  have ok: "sb_ok (\<lambda>d. d) ram_ok ex_sb" using ex_vol_ok by (simp add: vol_ok_def)
  have v: "valid_clus (fs_bpb ex_sb) 3" "fs_bpb sb = fs_bpb ex_sb" by (simp_all add: valid_clus_def ex_sb_def ex_bpb_def sb_def)
  note ws = ram_reliable.write_fat_entry_spec [OF ok w]
  have e: "fat_entry (\<lambda>d. d) sb 3 = 4" using ws(3) [OF _ refl v(1)] by simp
  have "sb_ok (\<lambda>d. d) ram_ok sb" using ws(1) by simp
  note d = flush_makes_durable [OF ram_is_reliable this fl]
  have "entry_lba ex_bpb 3 = 1" "copies ex_bpb 1 = {1, 2}" by (auto simp: entry_lba_def copies_def ex_geometry lessThan_Suc numeral_2_eq_2)
  then have "le_field 12 4 (fs_dev sb' 1) mod 0x10000000 = 4" "fs_dev sb' 2 = fs_dev sb' 1"
    using d v e by (auto simp: ex_sb_def sb_def)
  then show ?thesis using w fl e by blast
qed

section \<open>Allocation\<close>

text \<open>C34: Cluster allocation hands out exactly what was asked for and only free clusters. On success the result has the
  length requested, no cluster twice, only clusters that were free; each becomes an end-of-chain entry,
  every other entry stays, and the bitmap and the free count follow. With an allocation bitmap, and without one
  on volumes of at most \<open>2 ^ 31\<close> clusters, \<open>NoSpace\<close> means that fewer clusters than requested were free; on
  larger volumes the scan order wraps around in 32 bits and skips clusters.\<close>

theorem alloc_clusters_exact:
  assumes "reliable_device sub disk ok" "vol_ok disk ok sb" "0 < cnt" "alloc_clusters sub sb cnt = (sb', res)"
  shows "case res of
      Inr cs \<Rightarrow> vol_ok disk ok sb' \<and> length cs = cnt \<and> distinct cs \<and> set cs \<subseteq> free_clusters disk sb \<and> takes disk sb sb' cs
        \<and> free_clusters disk sb' = free_clusters disk sb - set cs
    | Inl e \<Rightarrow> e = NoSpace \<longrightarrow> fs_bitmap sb \<noteq> None \<or> total_clus (fs_bpb sb) \<le> 2 ^ 31 \<longrightarrow> card (free_clusters disk sb) < cnt"
proof (cases res)
  case (Inr cs)
  note a = reliable_device.alloc_clusters_spec(1) [OF assms Inr]
  then have "free_clusters disk sb' = free_clusters disk sb - set cs" using takes_free alloc_clusters_bpb [OF assms(4)] by blast
  then show ?thesis using a Inr by simp
qed (use reliable_device.alloc_clusters_spec(2) [OF assms] in auto)

theorem alloc_clusters_exact_witness:
  "\<exists>sb cs. alloc_clusters ram_submit ex_sb 2 = (sb, Inr cs) \<and> distinct cs \<and> set cs \<subseteq> {4..<10} \<and> length cs = 2
     \<and> card (free_clusters (\<lambda>d. d) sb) = 4"
proof -
  have r: "reserve_bits [3] 8 2 2 = ([15], Inr [2, 3])"
    by (simp add: reserve_bits_def Let_def upt_rec run_indices_def bmp_test_def bmp_set_def)
  have "\<exists>sb. alloc_clusters ram_submit ex_sb 2 = (sb, Inr [4, 5])"
    using ram_alloc [of ex_sb "[3]" 2 "[15]" "[2, 3]"] r by (simp add: ex_sb_def ex_bpb_def)
  then obtain sb where a: "alloc_clusters ram_submit ex_sb 2 = (sb, Inr [4, 5])" by blast
  have s: "(0::nat) < 2" by simp
  note al = alloc_clusters_exact [OF ram_is_reliable ex_vol_ok s a]
  have f: "free_clusters (\<lambda>d. d) sb = {4..<10} - set [4, 5]" and c: "set [4, 5] \<subseteq> {4..<10::nat}" "distinct [4, 5::nat]"
    using al unfolding sum.case ex_free by (blast, blast, blast)
  have "card (free_clusters (\<lambda>d. d) sb) = 4" unfolding f by (simp add: card_Diff_subset [OF _ c(1)])
  then have "alloc_clusters ram_submit ex_sb 2 = (sb, Inr [4, 5]) \<and> distinct [4, 5::nat] \<and> set [4, 5] \<subseteq> {4..<10::nat}
     \<and> length [4, 5::nat] = 2 \<and> card (free_clusters (\<lambda>d. d) sb) = 4" using a c by simp
  then show ?thesis by blast
qed

text \<open>C35: Releasing a chain frees exactly its clusters. For a chain without repetition whose clusters are in use, \<open>free_chain\<close>
  keeps the bitmap and the free count in step with the table even when the device fails in the middle:
  then the first clusters of the chain are free; on success all are. No other entry changes.\<close>

theorem free_chain_exact:
  assumes "reliable_device sub disk ok" "vol_ok disk ok sb" "chain_of (fat_entry disk sb) c cs" "distinct cs"
    and "\<forall>x\<in>set cs. valid_clus (fs_bpb sb) x \<and> fat_entry disk sb x \<noteq> FREE_CLUSTER"
    and "free_chain sub sb c = (sb', res)"
  shows "vol_ok disk ok sb' \<and> (\<exists>k\<le>length cs. releases disk sb sb' (take k cs) \<and> (res = Inr () \<longrightarrow> k = length cs))"
  using reliable_device.free_chain_spec [OF assms] by auto

theorem free_chain_exact_witness:
  "\<exists>sb r. free_chain ram_submit ex_sb 3 = (sb, r) \<and> vol_ok (\<lambda>d. d) ram_ok sb
     \<and> (\<exists>k\<le>1. releases (\<lambda>d. d) ex_sb sb (take k [3]) \<and> (if r = Inr () then k = 1 else True))"
proof -
  obtain sb r where f: "free_chain ram_submit ex_sb 3 = (sb, r)" by fastforce
  have v: "valid_clus ex_bpb 3" "fs_bpb ex_sb = ex_bpb" by (simp_all add: valid_clus_def ex_sb_def ex_bpb_def)
  have "chain_of (fat_entry (\<lambda>d. d) ex_sb) 3 [3]" "\<forall>x\<in>set [3]. valid_clus (fs_bpb ex_sb) x \<and> fat_entry (\<lambda>d. d) ex_sb x \<noteq> FREE_CLUSTER"
    using v ex_fat_entry [OF v(1)] by (simp_all add: EOC_MARKER_def FREE_CLUSTER_def)
  from free_chain_exact [OF ram_is_reliable ex_vol_ok this(1) _ this(2) f] show ?thesis using f by auto
qed

section \<open>Directories\<close>

text \<open>C37: Growing a directory ends. Once every group of entries fits into a cluster, which is checked first, the loop that
  appends clusters needs at most one round per entry: any larger bound on the rounds gives the same
  result.\<close>

theorem directory_growth_terminates:
  assumes "max_group_loop es 0 1 = Some m" "m \<le> entries_per_clus (fs_bpb sb)" "length es - placed \<le> fuel"
  shows "grow_loop sub (fuel + k) sb c es placed = grow_loop sub fuel sb c es placed"
  by (rule grow_loop_fuel [OF assms])

theorem directory_growth_terminates_witness:
  "grow_loop ram_submit 100 ex_sb 2 [ex_entry, ex_entry] 0 = grow_loop ram_submit 2 ex_sb 2 [ex_entry, ex_entry] 0"
proof -
  have a: "ex_entry ! 11 = 0x20" by (simp add: ex_entry_def)
  have "max_group_loop [ex_entry, ex_entry] 0 1 = Some 1"
    by (simp add: max_group_loop.simps entry_group_len_def Let_def a ATTR_LONG_NAME_def)
  moreover have "(1::nat) \<le> entries_per_clus (fs_bpb ex_sb)" by (simp add: entries_per_clus_def ex_sb_def ex_bpb_def)
  ultimately show ?thesis using directory_growth_terminates [of "[ex_entry, ex_entry]" 1 ex_sb 0 2 ram_submit 98 2] by simp
qed

end
