(* ===== verification/Fat_Lost_Write.thy ===== *)
theory Fat_Lost_Write
  imports Fat_Example
begin

text \<open>
  The chain cache and the FAT cache disagree: \<open>chain_for\<close> builds the chain of a file on a small volume
  from the FAT on the device, while \<open>write_at\<close> links new clusters in the FAT cache and asks for the
  chain before it flushes. The stages of an extending write on the example volume, one lemma each.
\<close>

section \<open>The chain read past the cache\<close>

lemma ex_chain:
  assumes "fs_bpb sb = ex_bpb" "fs_dev sb = ex_disk"
  shows "build_chain ram_submit sb 3 = (sb, Inr [3])"
proof -
  have "read_fat_bulk ram_submit 1 1 0 sb (replicate 512 0) = (sb, Inr ex_fat)"
    using assms(2) by (simp add: read_fat_bulk.simps sb_read_def ram_sector or_return_def put_field_def)
  moreover have "bulk_walk 8 ex_fat [] 0 3 = Inr [3]"
    by (simp add: bulk_walk.simps Let_def ex_fat_fields EOC_MARKER_def)
  ultimately show ?thesis using assms(1) by (simp add: build_chain_def ex_geometry use_bulk_def or_return_def)
qed

section \<open>States of the scenario\<close>

text \<open>The FAT sector after cluster 4 is taken, and after it is linked behind cluster 3.\<close>

definition fat_taken :: "u8 list" where
  "fat_taken = put_field 16 (le_bytes 4 EOC_MARKER) ex_fat"

definition fat_linked :: "u8 list" where
  "fat_linked = put_field 12 (le_bytes 4 4) fat_taken"

definition one_dirty :: "u8 list \<Rightarrow> fat_cache" where
  "one_dirty f = (fc_new ex_bpb)\<lparr>fc_sectors := [(1, f)], fc_dirty := [1], fc_clock := [1]\<rparr>"

definition sb_chained :: "ram_disk fat_sb" where
  "sb_chained = ex_sb\<lparr>fs_chain_cache := [(3, [3])]\<rparr>"

definition sb_taken :: "ram_disk fat_sb" where
  "sb_taken = sb_chained\<lparr>fs_cache := one_dirty fat_taken, fs_bitmap := Some [7], fs_hint := 5, fs_free := 5\<rparr>"

definition sb_linked :: "ram_disk fat_sb" where
  "sb_linked = sb_taken\<lparr>fs_cache := one_dirty fat_linked\<rparr>"

definition lost_data :: "u8 list" where
  "lost_data = replicate 1024 1"

definition sb_written :: "ram_disk fat_sb" where
  "sb_written = sb_linked\<lparr>fs_dev := put_sector 4 (take 512 lost_data) ex_disk\<rparr>"

definition sb_flushed :: "ram_disk fat_sb" where
  "sb_flushed = sb_written\<lparr>fs_dev := put_sector 2 fat_linked (put_sector 1 fat_linked (fs_dev sb_written)),
     fs_cache := (one_dirty fat_linked)\<lparr>fc_dirty := []\<rparr>\<rparr>"

lemmas scenario = sb_flushed_def sb_written_def sb_linked_def sb_taken_def sb_chained_def

lemma scenario_bpb [simp]:
  "fs_bpb sb_flushed = ex_bpb" "fs_bpb sb_written = ex_bpb" "fs_bpb sb_linked = ex_bpb" "fs_bpb ex_sb = ex_bpb"
  by (simp_all add: scenario ex_sb_def)

lemma scenario_lengths [simp]: "length fat_linked = 512" "length lost_data = 1024" "lost_data \<noteq> []"
  by (simp_all add: fat_linked_def fat_taken_def put_field_def lost_data_def)

section \<open>The stages\<close>

lemma stage_chain: "chain_for ram_submit ex_sb 3 = (sb_chained, Inr [3])"
  by (simp add: chain_for_def ex_chain EOC_MARKER_def ex_sb_def or_return_def sb_chained_def)

lemma stage_alloc: "alloc_clusters ram_submit sb_chained 1 = (sb_taken, Inr [4])"
proof -
  have r: "reserve_bits [3] 8 1 2 = ([7], Inr [2])"
    by (simp add: reserve_bits_def Let_def upt_rec run_indices_def bmp_test_def bmp_set_def)
  have "write_fat_entry ram_submit (sb_chained\<lparr>fs_bitmap := Some [7]\<rparr>) 4 EOC_MARKER
      = (sb_chained\<lparr>fs_bitmap := Some [7], fs_cache := one_dirty fat_taken\<rparr>, Inr ())"
    by (simp add: write_fat_entry_def fat_entry_position_def sb_chained_def ex_geometry get_or_read_mut_def get_or_read_def
        ram_sector no_eviction hm_insert_def hm_remove_def mark_dirty_def one_dirty_def fat_taken_def EOC_MARKER_def)
  then show ?thesis
    by (simp add: alloc_clusters_def sb_chained_def ex_sb_def ex_bpb_def r [simplified] or_return_def free_sub_def sb_taken_def wadd32_def)
qed

lemma stage_link: "write_fat_entry ram_submit sb_taken 3 4 = (sb_linked, Inr ())"
  by (simp add: sb_taken_def sb_chained_def write_fat_entry_def fat_entry_position_def Let_def ex_geometry get_or_read_mut_def
      get_or_read_def hm_insert_def hm_remove_def mark_dirty_def one_dirty_def sb_linked_def fat_linked_def)

lemma stage_reserve:
  "reserve_for_write ram_submit None (ex_sb, ex_ino) 0 1024 2 = ((sb_linked\<lparr>fs_chain_cache := []\<rparr>, ex_ino), Inr 3)"
proof -
  have "chain_for ram_submit sb_taken 3 = (sb_taken, Inr [3])" by (simp add: chain_for_def sb_taken_def sb_chained_def EOC_MARKER_def)
  moreover have "invalidate_chain 3 sb_linked = sb_linked\<lparr>fs_chain_cache := []\<rparr>"
    by (simp add: invalidate_chain_def scenario hm_remove_def)
  ultimately show ?thesis
    by (simp add: reserve_for_write_def Let_def ex_ino_def fresh_inode_def ensure_chain_cache_def on_sb_def stage_chain or_return_def
        stage_alloc [simplified] stage_link ex_bpb_def)
qed

lemma stage_chain_again:
  "chain_for ram_submit (sb_linked\<lparr>fs_chain_cache := []\<rparr>) 3 = (sb_linked, Inr [3])"
proof -
  have "fs_bpb (sb_linked\<lparr>fs_chain_cache := []\<rparr>) = ex_bpb" "fs_dev (sb_linked\<lparr>fs_chain_cache := []\<rparr>) = ex_disk"
    by (simp_all add: scenario ex_sb_def)
  from ex_chain [OF this] show ?thesis by (simp add: chain_for_def EOC_MARKER_def or_return_def scenario)
qed

lemma stage_write:
  "write_loop ram_submit [3] 0 0 512 lost_data sb_linked \<lparr>ws_done = 0, ws_ci = 0, ws_off = 0, ws_batch = []\<rparr>
   = (sb_written, Inr \<lparr>ws_done = 512, ws_ci = 1, ws_off = 0, ws_batch = []\<rparr>)"
proof -
  have "write_step ram_submit [3] 0 0 512 lost_data sb_linked \<lparr>ws_done = 0, ws_ci = 0, ws_off = 0, ws_batch = []\<rparr>
      = (sb_written, Inr (\<lparr>ws_done = 512, ws_ci = 1, ws_off = 0, ws_batch = []\<rparr>, False))"
    by (simp add: write_step_def Let_def write_run_len_def ex_bpb_def queue_write_def flush_write_batch_def write_sectors_batch_def
        or_return_def cluster_to_lba_def ram_submit_def all_ok_def)
      (simp add: scenario ex_sb_def put_sector_def)
  then show ?thesis by (simp add: write_loop.simps)
qed

lemma stage_flush: "flush_fat_cache ram_submit sb_written = (sb_flushed, Inr ())"
  by (simp add: flush_fat_cache_def sb_written_def sb_linked_def fc_flush_def one_dirty_def flush_run.simps PRDT_MAX_SECTORS_def
      ram_sector fc_new_def ex_geometry upt_rec mirror_lba_def)
     (simp add: sb_flushed_def sb_written_def sb_linked_def one_dirty_def ex_geometry numeral_2_eq_2)

lemma ex_root_search: "search_slots ex_root [65] [0..<16] = Inr 0"
proof -
  have f: "ex_root ! 0 = 65" "ex_root ! 11 = 0x20" "ex_root ! 12 = 0" "take 11 (dir_entry_at ex_root 0) = [65, 32, 32, 32, 32, 32, 32, 32, 32, 32, 32]"
    by (simp_all add: ex_root_def ex_entry_def dir_entry_at_def nth_append)
  have "name_at ex_root 0 = [65]" using f by (simp add: name_at_def decode_sfn_case_def Let_def char_lower_def char_upper_def)
  then show ?thesis using f
    by (simp add: upt_conv_Cons DIR_END_def DIR_DELETED_def ATTR_LONG_NAME_def ATTR_VOLUME_ID_def eq_ignore_ascii_case_def)
qed

lemma stage_dirent:
  "\<exists>buf. length buf = 512 \<and> update_entry_cluster_and_size ram_submit None sb_flushed 2 [65] None (Some 1024)
     = (sb_flushed\<lparr>fs_dev := put_sector 3 buf (fs_dev sb_flushed)\<rparr>, Inr ())"
proof -
  have root: "fs_dev sb_flushed 3 = ex_root" by (simp add: scenario put_sector_apply)
  let ?buf = "put_field 0 (fst (set_timestamps None (set_file_size_in_entry 1024 (dir_entry_at ex_root 0)))) ex_root"
  have "length ?buf = 512" by (simp add: put_field_def set_timestamps_def set_file_size_in_entry_def dir_entry_at_def)
  moreover have "update_entry_cluster_and_size ram_submit None sb_flushed 2 [65] None (Some 1024)
     = (sb_flushed\<lparr>fs_dev := put_sector 3 ?buf (fs_dev sb_flushed)\<rparr>, Inr ())"
    by (simp add: update_entry_cluster_and_size_def find_and_update_entry_def edit_entry_loop.simps read_cluster_def ex_bpb_def
        cluster_to_lba_def sb_read_def sb_write_def ram_sector or_return_def root entries_per_clus_def ex_root_search write_cluster_def)
  ultimately show ?thesis by blast
qed

text \<open>C38: On a small volume a write that extends a file can report every byte written and lose the bytes of the new
  clusters. On the example volume, writing 1024 bytes over the 512-byte file succeeds, the file's size
  becomes 1024, the first sector of the data is on the disk, and the sector of the new cluster is not
  touched.\<close>

theorem extending_write_loses_data:
  "\<exists>sb ino. write_at ram_submit None (ex_sb, ex_ino) 0 lost_data = ((sb, ino), Inr 1024) \<and> fi_size ino = 1024
     \<and> fs_dev sb 4 = take 512 lost_data \<and> fs_dev sb 5 = ex_disk 5"
proof -
  obtain buf where u: "length buf = 512"
    "update_entry_cluster_and_size ram_submit None sb_flushed 2 [65] None (Some 1024)
       = (sb_flushed\<lparr>fs_dev := put_sector 3 buf (fs_dev sb_flushed)\<rparr>, Inr ())"
    using stage_dirent by blast
  have i: "fi_type ex_ino = Regular" "fi_first ex_ino = 3" "fi_size ex_ino = 512" "\<not> fi_unlinked ex_ino" "fi_parent ex_ino = 2"
    "fi_name ex_ino = [65]" and clus: "byts_per_clus ex_bpb = 512"
    by (simp_all add: ex_ino_def fresh_inode_def ex_bpb_def)
  have "write_at ram_submit None (ex_sb, ex_ino) 0 lost_data
      = ((sb_flushed\<lparr>fs_dev := put_sector 3 buf (fs_dev sb_flushed)\<rparr>, ex_ino\<lparr>fi_size := 1024, fi_mtime := 0\<rparr>), Inr 1024)"
    unfolding write_at_def Let_def
    by (simp add: i clus saturating_add64_def u64_max_def stage_reserve [unfolded numeral_2_eq_2] or_return_def ensure_chain_cache_def
        on_sb_def stage_chain_again stage_write flush_write_batch_def stage_flush on_ino_def update_dirent_meta_def u(2))
  moreover have "put_sector 3 buf (fs_dev sb_flushed) 4 = take 512 lost_data" "put_sector 3 buf (fs_dev sb_flushed) 5 = ex_disk 5"
    by (simp_all add: u(1) put_sector_apply scenario)
  ultimately show ?thesis by simp
qed

end
