(* ===== verification/Fat_Defects.thy ===== *)
theory Fat_Defects
  imports Fat_Lost_Write Fat_Theorems Dirent_Fields
begin

text \<open>Operations of the FAT32 driver that do less, or more, than they promise.\<close>

section \<open>Truncation inside the last cluster\<close>

text \<open>Truncating a file to a length that needs as many clusters as it has never reaches the disk. The call succeeds and
  the inode has the new size, but the superblock, the device included, is exactly what it was: the
  directory entry keeps the old size.\<close>

theorem truncate_same_clusters_not_persisted:
  assumes "fi_type ino = Regular" "0 < len" "len \<le> 2 ^ 32 - 1" "2 \<le> fi_first ino" "fi_first ino < EOC_MARKER"
    and "map_of (fs_chain_cache sb) (fi_first ino) = Some chain" "length chain = (len - 1) div byts_per_clus (fs_bpb sb) + 1"
  shows "Fat_File.truncate sub clock (sb, ino) len
    = ((sb, ino\<lparr>fi_size := len, fi_mtime := (case clock of Some t \<Rightarrow> t | None \<Rightarrow> 0)\<rparr>), Inr ())"
proof -
  have "ensure_chain_cache sub (sb, ino) = ((sb, ino), Inr chain)"
    using assms(4-6) by (simp add: ensure_chain_cache_def on_sb_def chain_for_def)
  then show ?thesis using assms(1-4,7) by (simp add: Fat_File.truncate_def Let_def or_return_def on_ino_def split: option.splits)
qed

theorem truncate_same_clusters_not_persisted_witness:
  "Fat_File.truncate ram_submit None (sb_chained, ex_ino) 100 = ((sb_chained, ex_ino\<lparr>fi_size := 100, fi_mtime := 0\<rparr>), Inr ())
     \<and> fs_dev sb_chained 3 = ex_root \<and> field 0x1C 4 ex_root = [0, 2, 0, 0]"
proof -
  have "Fat_File.truncate ram_submit None (sb_chained, ex_ino) 100 = ((sb_chained, ex_ino\<lparr>fi_size := 100, fi_mtime := (case None of Some t \<Rightarrow> t | None \<Rightarrow> 0)\<rparr>), Inr ())"
    by (rule truncate_same_clusters_not_persisted [where chain = "[3]"])
      (simp_all add: ex_ino_def fresh_inode_def EOC_MARKER_def sb_chained_def ex_sb_def ex_bpb_def)
  then show ?thesis by (simp add: sb_chained_def ex_sb_def field_def ex_root_def ex_entry_def)
qed

section \<open>Dot entries\<close>

text \<open>Fields behind the name do not change it.\<close>

lemma take_put_field: "k \<le> off \<Longrightarrow> off \<le> length b \<Longrightarrow> take k (put_field off v b) = take k b"
  by (simp add: put_field_def min_absorb1)

lemma timestamps_head: "length e = 32 \<Longrightarrow> take 13 (fst (set_timestamps clock e)) = take 13 e \<and> length (fst (set_timestamps clock e)) = 32"
  by (simp add: set_timestamps_def Let_def take_put_field split: option.splits prod.splits)

lemma first_clus_head: "length e = 32 \<Longrightarrow> take 13 (set_first_clus_in_entry c e) = take 13 e \<and> length (set_first_clus_in_entry c e) = 32"
  by (simp add: set_first_clus_in_entry_def take_put_field)

lemma timestamps_clus: "length e = 32 \<Longrightarrow> first_clus_from_entry (fst (set_timestamps clock e)) = first_clus_from_entry e"
  by (simp add: set_timestamps_def Let_def first_clus_from_entry_def le_field_def field_put_other split: option.splits prod.splits)
     (simp add: field_def)

lemma dot_sfn:
  "sfn_from_name (as_bytes DOT) {} = Some (replicate 11 0x20)"
  "sfn_from_name (as_bytes DOTDOT) {} = Some (0x2E # replicate 10 0x20)"
proof -
  have b: "as_bytes DOT = [0x2E]" "as_bytes DOTDOT = [0x2E, 0x2E]"
    by (simp_all add: DOT_def DOTDOT_def as_bytes_def utf8_char_def)
  show "sfn_from_name (as_bytes DOT) {} = Some (replicate 11 0x20)"
    by (simp add: b sfn_from_name_def split_name_def rfind_dot_def make_sfn_bytes_def put_field_def fix_lead_def flip: replicate_add)
  show "sfn_from_name (as_bytes DOTDOT) {} = Some (0x2E # replicate 10 0x20)"
    by (simp add: b sfn_from_name_def split_name_def rfind_dot_def make_sfn_bytes_def put_field_def fix_lead_def ascii_upper_def flip: replicate_add)
qed

text \<open>The entries \<open>mkdir\<close> writes first: they decode to the empty name and to a single dot.\<close>

definition dot_slot :: "nat option \<Rightarrow> nat list \<Rightarrow> nat \<Rightarrow> dir_slot" where
  "dot_slot clock name clus = \<lparr>vfat_entries = [], sfn_entry = dot_entry clock name clus\<rparr>"

lemma dot_entry_head:
  assumes "sfn_from_name (as_bytes name) {} = Some sfn" "length sfn = 11"
  shows "take 13 (dot_entry clock name c) = sfn @ [0x10, 0] \<and> length (dot_entry clock name c) = 32
    \<and> first_clus_from_entry (dot_entry clock name c) = of_nat c"
proof -
  let ?e = "(put_field 0 sfn (replicate 32 0))[0x0B := ATTR_DIRECTORY]"
  have e: "length ?e = 32" "take 13 ?e = sfn @ [0x10, 0]"
    using assms(2) by (simp_all add: put_field_def ATTR_DIRECTORY_def take_update_swap list_update_append numeral_2_eq_2)
  show ?thesis using assms(1) timestamps_head first_clus_head e timestamps_clus entry_fields_roundtrip
    by (simp add: dot_entry_def)
qed

lemma dot_entry_bytes:
  assumes "sfn_from_name (as_bytes name) {} = Some sfn" "length sfn = 11"
  shows "take 11 (dot_entry clock name c) = sfn" and "dot_entry clock name c ! 0 = sfn ! 0"
    and "dot_entry clock name c ! 11 = 0x10" and "dot_entry clock name c ! 12 = 0"
proof -
  let ?e = "dot_entry clock name c"
  have h: "take 13 ?e = sfn @ [0x10, 0]" using dot_entry_head [OF assms] by blast
  have "take 11 ?e = take 11 (take 13 ?e)" "?e ! 0 = take 13 ?e ! 0" "?e ! 11 = take 13 ?e ! 11" "?e ! 12 = take 13 ?e ! 12" by simp_all
  then show "take 11 ?e = sfn" "?e ! 0 = sfn ! 0" "?e ! 11 = 0x10" "?e ! 12 = 0"
    using assms(2) unfolding h by (simp_all add: nth_append)
qed

lemma dot_slot_names:
  "decode_entry_name (dot_slot clock DOT c) = []" "decode_entry_name (dot_slot clock DOTDOT c) = DOT"
proof -
  have name: "decode_entry_name (dot_slot clock nm c) = decode_sfn_case sfn 0"
    if "sfn_from_name (as_bytes nm) {} = Some sfn" "length sfn = 11" for nm sfn
    using dot_entry_bytes [OF that, of clock c] by (simp add: decode_entry_name_def dot_slot_def ATTR_VOLUME_ID_def)
  have "dropWhile (\<lambda>b. b = 32) (replicate 7 32 @ [46]) = [46::u8]" by (subst dropWhile_append2) auto
  then show "decode_entry_name (dot_slot clock DOT c) = []" "decode_entry_name (dot_slot clock DOTDOT c) = DOT"
    by (simp_all add: name dot_sfn) (simp_all add: decode_sfn_case_def DOT_def char_lower_def char_upper_def)
qed

lemma dot_cluster_slots:
  assumes "96 \<le> cb"
  shows "scan_slots (map (dir_entry_at (dot_cluster clock cb self parent)) [0..<cb div 32]) [] []
    = ([dot_slot clock DOT self, dot_slot clock DOTDOT parent], [], True)"
proof -
  let ?b = "dot_cluster clock cb self parent"
  have len: "length (dot_entry clock DOT self) = 32" "length (dot_entry clock DOTDOT parent) = 32"
    using dot_entry_head [OF dot_sfn(1)] dot_entry_head [OF dot_sfn(2)] by auto
  have b: "?b = dot_entry clock DOT self @ dot_entry clock DOTDOT parent @ replicate (cb - 64) 0"
    using assms by (simp add: dot_cluster_def put_field_def len)
  have e: "dir_entry_at ?b 0 = dot_entry clock DOT self" "dir_entry_at ?b 1 = dot_entry clock DOTDOT parent" "dir_entry_at ?b 2 ! 0 = 0"
    using assms by (simp_all add: dir_entry_at_def b len)
  have "[0..<n] = 0 # 1 # 2 # [3..<n]" if "3 \<le> n" for n using that by (simp add: upt_conv_Cons eval_nat_numeral)
  from this [of "cb div 32"] have "[0..<cb div 32] = 0 # 1 # 2 # [3..<cb div 32]" using assms by simp
  then show ?thesis
    using e dot_entry_bytes [OF dot_sfn(1), of clock self] dot_entry_bytes [OF dot_sfn(2), of clock parent]
    by (simp add: DIR_END_def DIR_DELETED_def ATTR_LONG_NAME_def ATTR_VOLUME_ID_def dot_slot_def)
qed

text \<open>The dot entries of a new directory have the wrong names. \<open>mkdir\<close> writes them with \<open>sfn_from_name\<close>, which turns \<open>.\<close>
  into a blank name and \<open>..\<close> into a single dot: in the cluster of every directory it makes, looking up
  \<open>..\<close> finds nothing and looking up \<open>.\<close> finds the parent's cluster.\<close>

theorem mkdir_dot_names_wrong:
  assumes "96 \<le> cb" "parent < 2 ^ 32"
  shows "case scan_slots (map (dir_entry_at (dot_cluster clock cb self parent)) [0..<cb div 32]) [] [] of
    (slots, _, _) \<Rightarrow> find_slot DOTDOT slots = None \<and> (\<exists>s. find_slot DOT slots = Some s \<and> slot_clus s = parent)"
proof -
  have "slot_clus (dot_slot clock DOTDOT parent) = parent"
    using dot_entry_head [OF dot_sfn(2), of clock parent] assms(2) by (simp add: slot_clus_def dot_slot_def unat_of_nat)
  moreover have "\<not> eq_ignore_ascii_case [] DOTDOT" "\<not> eq_ignore_ascii_case DOT DOTDOT" "\<not> eq_ignore_ascii_case [] DOT"
    by (simp_all add: eq_ignore_ascii_case_def DOT_def DOTDOT_def)
  ultimately show ?thesis
    by (simp add: dot_cluster_slots [OF assms(1)] find_slot_def dot_slot_names) (simp add: eq_ignore_ascii_case_def)
qed

theorem mkdir_dot_names_wrong_witness:
  "case scan_slots (map (dir_entry_at (dot_cluster None 512 5 2)) [0..<512 div 32]) [] [] of
    (slots, _, _) \<Rightarrow> find_slot DOTDOT slots = None \<and> (\<exists>s. find_slot DOT slots = Some s \<and> slot_clus s = 2)"
  by (rule mkdir_dot_names_wrong) simp_all

section \<open>Files open twice\<close>

text \<open>Releasing a chain of one cluster, in use or not.\<close>

lemma ram_free_one:
  assumes ok: "sb_ok (\<lambda>d. d) ram_ok sb" and v: "valid_clus (fs_bpb sb) c" "c < EOC_MARKER" "EOC_MARKER \<le> fat_entry (\<lambda>d. d) sb c"
  shows "\<exists>sb'. free_chain ram_submit sb c = (sb', Inr ()) \<and> sb_ok (\<lambda>d. d) ram_ok sb' \<and> releases (\<lambda>d. d) sb sb' [c]
    \<and> fs_bpb sb' = fs_bpb sb \<and> fs_hint sb' = fs_hint sb \<and> fs_bitmap sb' = map_option (bmp_clear (c - 2)) (fs_bitmap sb)"
proof -
  obtain sb1 x where r: "read_fat_entry ram_submit sb c = (sb1, Inr x)" using ram_read_entry [OF v(1)] by blast
  note rs = ram_reliable.read_fat_entry_spec [OF ok r]
  have x: "x = fat_entry (\<lambda>d. d) sb c" using rs(4) [OF refl] by simp
  have b1: "fs_bpb sb1 = fs_bpb sb" using rs(3) by (simp add: fat_step_iff)
  obtain sb2 where w: "write_fat_entry ram_submit sb1 c FREE_CLUSTER = (sb2, Inr ())" using ram_write_entry v(1) b1 by metis
  note ws = ram_reliable.write_fat_entry_spec [OF rs(1) w]
  let ?s = "(bitmap_mark_free c sb2)\<lparr>fs_free := (fs_free (bitmap_mark_free c sb2) + 1) mod 2 ^ 32\<rparr>"
  have "free_chain ram_submit sb c = (?s, Inr ())"
    unfolding free_chain_def using v x
    by (subst free_chain_loop.simps) (simp add: r w or_return_def Let_def free_chain_loop.simps [of _ _ "Suc 0"] valid_clus_def)
  moreover have "sb_ok (\<lambda>d. d) ram_ok ?s" using ws(1) by (simp add: FREE_CLUSTER_def)
  moreover have "releases (\<lambda>d. d) sb ?s [c]" using ws(3) rs(2) b1 by (simp add: releases_def FREE_CLUSTER_def)
  moreover have "fs_bpb ?s = fs_bpb sb" "fs_hint ?s = fs_hint sb" "fs_bitmap ?s = map_option (bmp_clear (c - 2)) (fs_bitmap sb)"
    using rs(3) ws(2) v(1) by (auto simp: fat_step_iff FREE_CLUSTER_def bitmap_mark_free_def bit_index_def valid_clus_def split: option.splits)
  ultimately show ?thesis by blast
qed

lemma invalidate_chain_fields [simp]:
  "sb_ok dk dev_ok (invalidate_chain c sb) = sb_ok dk dev_ok sb" "fat_entry dk (invalidate_chain c sb) = fat_entry dk sb"
  "fs_bpb (invalidate_chain c sb) = fs_bpb sb" "fs_hint (invalidate_chain c sb) = fs_hint sb"
  "fs_bitmap (invalidate_chain c sb) = fs_bitmap sb" "vol_ok dk dev_ok (invalidate_chain c sb) = vol_ok dk dev_ok sb"
  by (auto simp: invalidate_chain_def sb_ok_def fat_entry_def fun_eq_iff vol_ok_def bitmap_sync_def free_clusters_def)

text \<open>The example volume with the file \<open>A\<close> open twice.\<close>

definition ex_vol :: "ram_disk fat_vol" where
  "ex_vol = \<lparr>fv_sb = ex_sb, fv_node = (\<lambda>_. ex_ino), fv_live = [0, 1], fv_next = 2, fv_reg = [((2, [97]), [0, 1])]\<rparr>"

lemma ex_marked:
  "\<exists>v. mark_handles_unlinked 2 [65] ex_vol = (v, 2) \<and> fv_sb v = ex_sb
     \<and> fv_node v 0 = ex_ino\<lparr>fi_unlinked := True\<rparr> \<and> fv_node v 1 = ex_ino\<lparr>fi_unlinked := True\<rparr>"
  by (simp add: mark_handles_unlinked_def ex_vol_def registry_key_def char_lower_def reg_get_def reg_del_def is_live_def Let_def)

lemma drop_unlinked:
  assumes "fv_node v h = ex_ino\<lparr>fi_unlinked := True\<rparr>"
  shows "fv_sb (drop_node sub h v) = fst (free_chain sub (invalidate_chain 3 (fv_sb v)) 3)" and "fv_node (drop_node sub h v) = fv_node v"
  using assms by (simp_all add: drop_node_def Let_def ex_ino_def fresh_inode_def EOC_MARKER_def)

text \<open>C40: An unlinked file that is open through two inode objects is released twice. Both objects are marked by the unlink, and
  each gives up the chain when it is dropped: on the example volume the cluster the first drop
  releases is allocated to another file, and the second drop frees it under that file.\<close>

theorem unlinked_file_released_per_handle:
  "\<exists>v0 sb. mark_handles_unlinked 2 [65] ex_vol = (v0, 2)
     \<and> alloc_clusters ram_submit (fv_sb (drop_node ram_submit 0 v0)) 1 = (sb, Inr [3])
     \<and> fat_entry (\<lambda>d. d) sb 3 = EOC_MARKER
     \<and> fat_entry (\<lambda>d. d) (fv_sb (drop_node ram_submit 1 ((drop_node ram_submit 0 v0)\<lparr>fv_sb := sb\<rparr>))) 3 = FREE_CLUSTER"
proof -
  obtain v0 where m: "mark_handles_unlinked 2 [65] ex_vol = (v0, 2)" "fv_sb v0 = ex_sb"
    and n: "fv_node v0 0 = ex_ino\<lparr>fi_unlinked := True\<rparr>" "fv_node v0 1 = ex_ino\<lparr>fi_unlinked := True\<rparr>" using ex_marked by blast
  have vc: "valid_clus ex_bpb 3" "fs_bpb ex_sb = ex_bpb" "(3::nat) < EOC_MARKER" by (simp_all add: valid_clus_def ex_bpb_def ex_sb_def EOC_MARKER_def)
  have e: "fat_entry (\<lambda>d. d) ex_sb 3 = 0x0FFFFFFF" using ex_fat_entry [OF vc(1)] by simp
  have ok: "sb_ok (\<lambda>d. d) ram_ok (invalidate_chain 3 ex_sb)" using ex_vol_ok by (simp add: vol_ok_def)
  have ex: "fs_hint ex_sb = 2" "fs_bitmap ex_sb = Some [3]" "bmp_clear 1 [3] = [1]" "bmp_clear (Suc 0) [3] = [1]"
    by (simp_all add: ex_sb_def bmp_clear_def)
  obtain sb1 where f: "free_chain ram_submit (invalidate_chain 3 ex_sb) 3 = (sb1, Inr ())" and b: "fs_bpb sb1 = ex_bpb"
    and h: "fs_hint sb1 = 2" "fs_bitmap sb1 = Some [1]"
    using ram_free_one [OF ok _ vc(3)] vc e ex by (auto simp: EOC_MARKER_def)
  have d1: "fv_sb (drop_node ram_submit 0 v0) = sb1" "fv_node (drop_node ram_submit 0 v0) = fv_node v0"
    using drop_unlinked [OF n(1)] m(2) f by simp_all
  have v1: "vol_ok (\<lambda>d. d) ram_ok sb1"
    by (rule ram_reliable.free_chain_spec(1) [OF _ _ _ _ f, of "[3]"]) (use ex_vol_ok e vc in \<open>auto simp: EOC_MARKER_def FREE_CLUSTER_def\<close>)
  have r: "reserve_bits [1] 8 1 2 = ([3], Inr [1])"
    by (simp add: reserve_bits_def Let_def upt_rec run_indices_def bmp_test_def bmp_set_def)
  have "total_clus (fs_bpb sb1) = 8" by (simp add: b ex_bpb_def)
  then obtain sb where a: "alloc_clusters ram_submit sb1 1 = (sb, Inr [3])"
    using ram_alloc [of sb1 "[1]" 1 "[3]" "[1]"] r h by auto
  note al = ram_reliable.alloc_clusters_spec(1) [OF v1 _ a refl]
  have b2: "fs_bpb sb = ex_bpb" using alloc_clusters_bpb [OF a] b by simp
  have taken: "fat_entry (\<lambda>d. d) sb 3 = EOC_MARKER" using al vc(1) b by (simp add: takes_def)
  have "sb_ok (\<lambda>d. d) ram_ok (invalidate_chain 3 sb)" using al by (simp add: vol_ok_def)
  from ram_free_one [OF this _ vc(3)] obtain sb3 where f3: "free_chain ram_submit (invalidate_chain 3 sb) 3 = (sb3, Inr ())"
    "releases (\<lambda>d. d) (invalidate_chain 3 sb) sb3 [3]" using taken b2 vc(1) by auto
  have "fv_sb (drop_node ram_submit 1 ((drop_node ram_submit 0 v0)\<lparr>fv_sb := sb\<rparr>)) = sb3"
    using drop_unlinked(1) [of "(drop_node ram_submit 0 v0)\<lparr>fv_sb := sb\<rparr>" 1] n(2) d1(2) f3(1) by simp
  moreover have "fat_entry (\<lambda>d. d) sb3 3 = FREE_CLUSTER" using f3(2) vc(1) b2 by (simp add: releases_def)
  ultimately show ?thesis using m(1) a taken d1(1) by (intro exI [of _ v0] exI [of _ sb]) simp
qed

end
