(* ===== verification/Fat_Rename_Case.thy ===== *)
theory Fat_Rename_Case
  imports Fat_Lost_Write
begin

text \<open>
  Renaming a file to its own name in another case. Names are compared without case, so the file is taken
  for the target that the rename replaces: the stages of \<open>rename A a\<close> on the example volume.
\<close>

definition ex_slot :: dir_slot where
  "ex_slot = \<lparr>vfat_entries = [], sfn_entry = ex_entry\<rparr>"

definition ex_dir :: fat_inode where
  "ex_dir = fresh_inode 2 0 Directory 1 0 0 []"

definition dir_vol :: "ram_disk fat_vol" where
  "dir_vol = \<lparr>fv_sb = ex_sb, fv_node = (\<lambda>_. ex_dir), fv_live = [0], fv_next = 1, fv_reg = []\<rparr>"

lemma ex_entry_bytes:
  "ex_entry ! 0 = 65" "ex_entry ! 11 = 0x20" "ex_entry ! 12 = 0" "take 11 ex_entry = [65, 32, 32, 32, 32, 32, 32, 32, 32, 32, 32]"
  "first_clus_from_entry ex_entry = 3" "file_size_from_entry ex_entry = 512"
  by (simp_all add: ex_entry_def first_clus_from_entry_def file_size_from_entry_def le_field_def field_def nth_append)

lemma ex_root_scan: "scan_slots (map (dir_entry_at ex_root) [0..<16]) [] [] = ([ex_slot], [], True)"
proof -
  have "dir_entry_at ex_root 0 = ex_entry" "dir_entry_at ex_root 1 ! 0 = 0" by (simp_all add: dir_entry_at_def ex_root_def)
  moreover have "[0..<16] = 0 # 1 # [2..<16]" by (simp add: upt_rec)
  ultimately show ?thesis
    by (simp add: ex_entry_bytes DIR_END_def DIR_DELETED_def ATTR_LONG_NAME_def ATTR_VOLUME_ID_def ex_slot_def)
qed

lemma ex_dir_slots: "read_dir_slots ram_submit ex_sb 2 = (ex_sb, Inr [ex_slot])"
proof -
  have "read_cluster ram_submit ex_sb 2 buf = (ex_sb, Inr ex_root)" for buf
    by (simp add: read_cluster_def ex_sb_def ex_bpb_def cluster_to_lba_def sb_read_def ram_sector)
  then show ?thesis
    by (simp add: read_dir_slots_def Let_def read_slots_loop.simps or_return_def entries_per_clus_def ex_bpb_def ex_root_scan)
qed


text \<open>The root directory with the entry deleted, with the entry of the new name, and with that deleted too.\<close>

definition root_deleted :: "u8 list" where
  "root_deleted = ex_root[0 := DIR_DELETED]"

definition new_entry :: "u8 list" where
  "new_entry = ex_entry[12 := 8]"

definition root_renamed :: "u8 list" where
  "root_renamed = put_field 0 new_entry root_deleted"

definition fat_released :: "u8 list" where
  "fat_released = put_field 12 (le_bytes 4 FREE_CLUSTER) ex_fat"

definition sb_removed :: "ram_disk fat_sb" where
  "sb_removed = ex_sb\<lparr>fs_dev := put_sector 3 root_deleted ex_disk\<rparr>"

definition sb_released :: "ram_disk fat_sb" where
  "sb_released = sb_removed\<lparr>fs_cache := one_dirty fat_released, fs_bitmap := Some [1], fs_free := 7\<rparr>"

definition sb_synced :: "ram_disk fat_sb" where
  "sb_synced = sb_released\<lparr>fs_dev := put_sector 2 fat_released (put_sector 1 fat_released (fs_dev sb_released)),
     fs_cache := (one_dirty fat_released)\<lparr>fc_dirty := []\<rparr>\<rparr>"

definition sb_renamed :: "ram_disk fat_sb" where
  "sb_renamed = sb_synced\<lparr>fs_dev := put_sector 3 root_renamed (fs_dev sb_synced)\<rparr>"

definition sb_gone :: "ram_disk fat_sb" where
  "sb_gone = sb_renamed\<lparr>fs_dev := put_sector 3 (root_renamed[0 := DIR_DELETED]) (fs_dev sb_renamed)\<rparr>"

lemmas rename_states = sb_gone_def sb_renamed_def sb_synced_def sb_released_def sb_removed_def

lemma rename_lengths [simp]: "length root_deleted = 512" "length root_renamed = 512" "length fat_released = 512" "length new_entry = 32"
  by (simp_all add: root_deleted_def root_renamed_def fat_released_def new_entry_def)

lemma rename_bpb [simp]: "fs_bpb sb_removed = ex_bpb" "fs_bpb sb_released = ex_bpb" "fs_bpb sb_synced = ex_bpb" "fs_bpb sb_renamed = ex_bpb"
  by (simp_all add: rename_states ex_sb_def)

text \<open>Reading and writing the root directory's cluster.\<close>

lemma root_io:
  assumes "fs_bpb sb = ex_bpb"
  shows "read_cluster ram_submit sb 2 buf = (sb, Inr (fs_dev sb 3))"
    and "write_cluster ram_submit sb 2 buf = (sb\<lparr>fs_dev := put_sector 3 buf (fs_dev sb)\<rparr>, Inr ())"
  using assms by (simp_all add: read_cluster_def write_cluster_def ex_bpb_def cluster_to_lba_def sb_read_def sb_write_def ram_sector)

lemma root_remove:
  assumes "fs_bpb sb = ex_bpb" "search_slots (fs_dev sb 3) name [0..<16] = Inr 0"
  shows "remove_dir_entries ram_submit sb 2 name = (sb\<lparr>fs_dev := put_sector 3 ((fs_dev sb 3)[0 := DIR_DELETED]) (fs_dev sb)\<rparr>, Inr ())"
  using assms
  by (simp add: remove_dir_entries_def edit_entry_loop.simps root_io or_return_def entries_per_clus_def ex_bpb_def mark_deleted_def upt_rec)

lemma search_first:
  assumes "buf ! 0 \<noteq> DIR_END" "buf ! 0 \<noteq> DIR_DELETED" "buf ! 11 = 0x20" "eq_ignore_ascii_case (name_at buf 0) name"
  shows "search_slots buf name [0..<16] = Inr 0"
  using assms by (simp add: upt_conv_Cons ATTR_LONG_NAME_def ATTR_VOLUME_ID_def)

lemma stage_remove: "remove_dir_entries ram_submit ex_sb 2 [97] = (sb_removed, Inr ())"
proof -
  have "name_at ex_root 0 = [65]"
    by (simp add: name_at_def decode_sfn_case_def Let_def char_lower_def char_upper_def dir_entry_at_def ex_root_def nth_append ex_entry_bytes)
  then have "search_slots ex_root [97] [0..<16] = Inr 0"
    by (intro search_first) (simp_all add: ex_root_def nth_append ex_entry_bytes DIR_END_def DIR_DELETED_def eq_ignore_ascii_case_def char_lower_def)
  then show ?thesis using root_remove [of ex_sb "[97]"] by (simp add: sb_removed_def root_deleted_def) (simp add: ex_sb_def)
qed

lemma stage_no_flush: "flush_fat_cache ram_submit sb_removed = (sb_removed, Inr ())"
  by (simp add: flush_fat_cache_def sb_removed_def ex_sb_def fc_flush_def fc_new_def)

lemma stage_release: "free_chain ram_submit (invalidate_chain 3 sb_removed) 3 = (sb_released, Inr ())"
proof -
  have i: "invalidate_chain 3 sb_removed = sb_removed" by (simp add: invalidate_chain_def sb_removed_def ex_sb_def hm_remove_def)
  define c where "c = (fc_new ex_bpb)\<lparr>fc_sectors := [(1, ex_fat)], fc_clock := [1]\<rparr>"
  have dev: "fs_dev sb_removed (Suc 0) = ex_fat" "fs_cache sb_removed = fc_new ex_bpb" by (simp_all add: sb_removed_def put_sector_apply ex_sb_def)
  have r: "read_fat_entry ram_submit sb_removed 3 = (sb_removed\<lparr>fs_cache := c\<rparr>, Inr 0x0FFFFFFF)"
    by (simp add: read_fat_entry_def fat_entry_position_def get_or_read_def ram_sector dev no_eviction hm_insert_def hm_remove_def
        ex_fat_fields c_def ex_bpb_def fat_sector_lba_def active_fat_idx_def unmirrored_def fc_new_def)
  have w: "write_fat_entry ram_submit (sb_removed\<lparr>fs_cache := c\<rparr>) 3 FREE_CLUSTER = (sb_removed\<lparr>fs_cache := one_dirty fat_released\<rparr>, Inr ())"
    by (simp add: write_fat_entry_def fat_entry_position_def get_or_read_mut_def get_or_read_def hm_insert_def hm_remove_def mark_dirty_def
        one_dirty_def fat_released_def FREE_CLUSTER_def c_def ex_bpb_def fat_sector_lba_def active_fat_idx_def unmirrored_def fc_new_def)
  have m: "bitmap_mark_free 3 (sb_removed\<lparr>fs_cache := one_dirty fat_released\<rparr>) = sb_removed\<lparr>fs_cache := one_dirty fat_released, fs_bitmap := Some [1]\<rparr>"
    by (simp add: bitmap_mark_free_def sb_removed_def ex_sb_def ex_bpb_def bit_index_def bmp_clear_def)
  show ?thesis unfolding i free_chain_def
    by (simp add: free_chain_loop.simps EOC_MARKER_def r w m or_return_def Let_def sb_released_def) (simp add: sb_removed_def ex_sb_def)
qed

lemma stage_sync: "flush_fat_cache ram_submit sb_released = (sb_synced, Inr ())"
  by (simp add: flush_fat_cache_def sb_released_def fc_flush_def one_dirty_def flush_run.simps PRDT_MAX_SECTORS_def
      ram_sector fc_new_def ex_geometry upt_rec mirror_lba_def)
     (simp add: sb_synced_def sb_released_def one_dirty_def ex_geometry numeral_2_eq_2)

lemma ex_slot_fields:
  "decode_entry_name ex_slot = [65]" "slot_clus ex_slot = 3" "slot_size ex_slot = 512" "\<not> slot_is_dir ex_slot" "sfn_entry ex_slot = ex_entry"
  by (simp_all add: ex_slot_def decode_entry_name_def ex_entry_bytes ATTR_VOLUME_ID_def decode_sfn_case_def char_lower_def char_upper_def
      slot_clus_def slot_size_def slot_is_dir_def ATTR_DIRECTORY_def)

lemma find_ex_slot: "find_slot [97] [ex_slot] = Some ex_slot" "find_slot [65] [ex_slot] = Some ex_slot"
  by (simp_all add: find_slot_def ex_slot_fields eq_ignore_ascii_case_def char_lower_def)

lemma new_group: "entry_group None [97] (take 11 ex_entry) (ex_entry ! 0x0B) True 3 (Some 512) = ([new_entry], None)"
proof -
  have z: "replicate 21 (0::u8) = [0, 0, 0, 0, 0, 0, 0, 0, 0, 0, 0, 0, 0, 0, 0, 0, 0, 0, 0, 0, 0]" "replicate 14 (0::u8) = [0, 0, 0, 0, 0, 0, 0, 0, 0, 0, 0, 0, 0, 0]"
    by (simp_all add: numeral_eq_Suc)
  have lb: "le_bytes 2 3 = [3, 0]" "le_bytes 2 0 = [0, 0]" "le_bytes 4 512 = [0, 2, 0, 0]" by code_simp+
  have p: "put_field 0 (take 11 ex_entry) (replicate 32 0) = take 11 ex_entry @ replicate 21 0" by (simp add: put_field_def ex_entry_bytes)
  have f: "set_first_clus_in_entry 3 e = put_field 0x1A [3, 0] (put_field 0x14 [0, 0] e)"
    "set_file_size_in_entry 512 e = put_field 0x1C [0, 2, 0, 0] e" for e by (simp_all add: set_first_clus_in_entry_def set_file_size_in_entry_def lb)
  have "set_file_size_in_entry 512 (set_first_clus_in_entry 3 ((put_field 0 (take 11 ex_entry) (replicate 32 0))[11 := 32, 12 := 8])) = new_entry"
    unfolding f p ex_entry_bytes by (simp add: put_field_def z new_entry_def ex_entry_def)
  then show ?thesis
    by (simp add: entry_group_def as_bytes_def utf8_char_def needs_vfat_def rfind_dot_def Let_def ex_entry_bytes set_timestamps_def nt_case_flags_def)
qed

lemma new_sfn: "sfn_from_name (as_bytes [97]) (slot_sfns [ex_slot] - {take 11 ex_entry}) = Some (take 11 ex_entry)"
proof -
  have "slot_sfns [ex_slot] - {take 11 ex_entry} = {}" by (simp add: slot_sfns_def ex_slot_def)
  moreover have "replicate 7 (32::u8) @ replicate 3 32 = [32, 32, 32, 32, 32, 32, 32, 32, 32, 32]" by (simp add: numeral_eq_Suc)
  ultimately show ?thesis
    by (simp add: sfn_from_name_def as_bytes_def utf8_char_def split_name_def rfind_dot_def make_sfn_bytes_def put_field_def fix_lead_def
        ascii_upper_def ex_entry_bytes flip: replicate_add)
qed

lemma root_devs: "fs_dev sb_synced 3 = root_deleted" "fs_dev sb_renamed 3 = root_renamed"
  by (simp_all add: rename_states put_sector_apply)

lemma stage_place: "write_dir_entries ram_submit sb_synced 2 [new_entry] = (sb_renamed, Inr ())"
proof -
  have "root_deleted ! 0 = DIR_DELETED" by (simp add: root_deleted_def)
  then have "find_spot 16 root_deleted 1 = Some 0" by (simp add: find_spot_def upt_conv_Cons is_free_mark_def space_at_def)
  then show ?thesis
    by (simp add: write_dir_entries_def write_entries_loop.simps root_io or_return_def entries_per_clus_def ex_bpb_def root_devs
        put_entries_def root_renamed_def [symmetric] sb_renamed_def)
qed

lemma stage_remove_again: "remove_dir_entries ram_submit sb_renamed 2 [65] = (sb_gone, Inr ())"
proof -
  have r: "root_renamed = new_entry @ drop 32 root_deleted" by (simp add: root_renamed_def put_field_def)
  have n: "new_entry ! 0 = 65" "new_entry ! 11 = 0x20" "new_entry ! 12 = 8" "take 11 new_entry = [65, 32, 32, 32, 32, 32, 32, 32, 32, 32, 32]"
    by (simp_all add: new_entry_def ex_entry_bytes)
  have "name_at root_renamed 0 = [97]"
    by (simp add: name_at_def decode_sfn_case_def Let_def char_lower_def char_upper_def dir_entry_at_def r nth_append n)
  then have "search_slots root_renamed [65] [0..<16] = Inr 0"
    by (intro search_first) (simp_all add: r nth_append n DIR_END_def DIR_DELETED_def eq_ignore_ascii_case_def char_lower_def)
  then show ?thesis using root_remove [of sb_renamed "[65]"] by (simp add: root_devs sb_gone_def)
qed

lemma stage_overwrite:
  assumes "fv_sb v = ex_sb" "fi_first (fv_node v 0) = 2" "fv_reg v = []"
  shows "\<exists>v'. overwrite_target ram_submit 0 [97] [ex_slot] True v = (v', Inr ()) \<and> fv_sb v' = sb_synced \<and> fi_first (fv_node v' 0) = 2"
proof -
  have "fv_sb (fst (mark_handles_unlinked 2 [97] v)) = ex_sb" "fi_first (fv_node (fst (mark_handles_unlinked 2 [97] v)) 0) = 2"
    using assms by (simp_all add: mark_handles_unlinked_def reg_get_def reg_del_def Let_def)
  then show ?thesis
    using assms by (simp add: overwrite_target_def find_ex_slot Let_def ex_slot_fields on_vol_sb_def stage_remove stage_no_flush
        stage_release stage_sync EOC_MARKER_def or_return_def invalidate_dir_cache_def)
qed

text \<open>C39: Renaming a file to its own name in another case destroys it. On the example volume renaming \<open>A\<close> to \<open>a\<close> succeeds; afterwards
  the root directory's only entry is marked deleted and the file's cluster is free in both FATs on the disk.\<close>

theorem case_rename_destroys_file:
  "\<exists>v. rename ram_submit None 0 [65] [97] dir_vol = (v, Inr ())
     \<and> fs_dev (fv_sb v) 3 ! 0 = DIR_DELETED \<and> drop 32 (fs_dev (fv_sb v) 3) = replicate 480 0
     \<and> field 12 4 (fs_dev (fv_sb v) 1) = [0, 0, 0, 0] \<and> field 12 4 (fs_dev (fv_sb v) 2) = [0, 0, 0, 0]"
proof -
  have no_lfn: "\<not> needs_vfat (as_bytes [97])" by (simp add: as_bytes_def utf8_char_def needs_vfat_def rfind_dot_def)
  have lb0: "le_bytes 4 FREE_CLUSTER = [0, 0, 0, 0]" by code_simp
  define v1 where "v1 = dir_vol\<lparr>fv_node := (fv_node dir_vol)(0 := ex_dir\<lparr>fi_dir_cache := Some (0, [ex_slot])\<rparr>)\<rparr>"
  have get: "on_node (get_dir_slots ram_submit) 0 dir_vol = (v1, Inr [ex_slot])"
    by (simp add: on_node_def get_dir_slots_def dir_vol_def ex_dir_def fresh_inode_def on_sb_def on_ino_def ex_dir_slots or_return_def v1_def)
  have v: "fv_sb v1 = ex_sb" "fi_first (fv_node v1 0) = 2" "fv_reg v1 = []" "fi_type (fv_node dir_vol 0) = Directory"
    by (simp_all add: v1_def dir_vol_def ex_dir_def fresh_inode_def)
  obtain v2 where o: "overwrite_target ram_submit 0 [97] [ex_slot] True v1 = (v2, Inr ())" "fv_sb v2 = sb_synced" "fi_first (fv_node v2 0) = 2"
    using stage_overwrite [OF v(1-3)] by blast
  have "\<exists>v3. rename ram_submit None 0 [65] [97] dir_vol = (v3, Inr ()) \<and> fv_sb v3 = sb_gone"
    unfolding rename_def
    by (simp add: v(4) get or_return_def find_ex_slot o new_sfn ex_slot_fields no_lfn Let_def new_group on_vol_sb_def stage_place stage_remove_again)
      (simp add: move_handles_def Let_def reg_put_def reg_del_def invalidate_dir_cache_def)
  moreover have "fs_dev sb_gone 3 = root_renamed[0 := DIR_DELETED]" "fs_dev sb_gone 1 = fat_released" "fs_dev sb_gone 2 = fat_released"
    by (simp_all add: rename_states put_sector_apply)
  moreover have "drop 32 root_renamed = replicate 480 0" by (simp add: root_renamed_def put_field_def root_deleted_def ex_root_def)
  moreover have "field 12 4 fat_released = [0, 0, 0, 0]"
    unfolding fat_released_def lb0 by (simp add: field_def put_field_def)
  ultimately show ?thesis by auto
qed

end
