(* ===== verification/Cache_Reliable.thy ===== *)
theory Cache_Reliable
  imports Cache_Theorems Fat_Table
begin

text \<open>
  The device the file system really works on: \<open>mount\<close> puts the sector cache between the volume and the
  driver (\<open>fstypes/fat32/mount.rs\<close>), so what the FAT lemmas ask of their device (\<open>reliable_device\<close>) has to
  hold for the cached device. It does over a driver whose failed requests leave the disk as it was
  (\<open>clean_device\<close>); over a driver that may fail after writing it does not, as
  \<open>failed_write_leaves_stale_line\<close> shows.
\<close>

locale clean_device = reliable_device +
  assumes failed_batch: "sub d rs = (d', bs, Inl x) \<Longrightarrow> disk d' = disk d"
    and failed_request: "sub d [r] = (d', bs, Inr cs) \<Longrightarrow> \<not> all_ok cs \<Longrightarrow> disk d' = disk d"
begin

lemma read_keeps:
  "ok d \<Longrightarrow> sub d [r] = (d', bs, res) \<Longrightarrow> \<not> rq_write r \<Longrightarrow> ok d'"
  using keeps_any [of d "[r]" d' bs res] by simp

lemma bc_read_keeps: "ok d \<Longrightarrow> bc_read sub d c lba = (d', c', v) \<Longrightarrow> ok d'"
  by (auto simp: bc_read_def Let_def split: option.splits prod.splits sum.splits if_splits dest: read_keeps)

lemma read_io_keeps: "ok d \<Longrightarrow> read_io sub d c r = (d', c', b, s) \<Longrightarrow> ok d'"
  by (auto simp: read_io_def read_raw_def Let_def
      split: io_buffer.splits option.splits prod.splits sum.splits if_splits dest: read_keeps bc_read_keeps)

text \<open>A turn of the batch loop keeps the cache coherent, whether its requests succeed or not.\<close>

lemma loop_turn_clean:
  assumes ord: "key_order ord" and t: "loop_turn ord sub (d, c, rs, n, e) (d', c', rs', n', e')"
    and n: "n + e + length rs < 2 ^ 32" "batch_ok rs"
    and st: "ok d" "cache_ok c" "coherent (disk d) c"
  shows "ok d' \<and> coherent (disk d') c'"
  using t
proof cases
  case (phys_ok r bs cs)
  then show ?thesis using loop_turn_coherent [OF ord t n _ st] by simp
next
  case (phys_err r bs res)
  have "batch_ok [r]" using n(2) phys_err(1) by auto
  then have "ok d'" using keeps_any [OF st(1) _ _ phys_err(6)] by simp
  moreover have "disk d' = disk d"
    using phys_err(6,7) failed_batch failed_request by (cases res) blast+
  ultimately show ?thesis using phys_err(2) st(3) by simp
next
  case (run_ok run bs cs)
  have b: "batch_ok run" "length run < 2 ^ 32" using batch_ok_append [of run rs'] n run_ok(1) by auto
  show ?thesis
    using keeps_any [OF st(1) b(2,1) run_ok(7)] run_coherent [OF ord st b(1) run_ok(5) b(2) run_ok(7)] run_ok(2) by simp
next
  case (run_err run bs x)
  have b: "batch_ok run" "length run < 2 ^ 32" using batch_ok_append [of run rs'] n run_err(1) by auto
  show ?thesis using keeps_any [OF st(1) b(2,1) run_err(7)] failed_batch [OF run_err(7)] run_err(2) st(3) by simp
next
  case (rd r b s)
  show ?thesis using read_io_coherent [OF st rd(4,5)] read_io_keeps [OF st(1) rd(5)] by blast
qed

lemma loop_turns_clean:
  assumes ord: "key_order ord" and t: "(loop_turn ord sub)\<^sup>*\<^sup>* (d, c, rs, 0, 0) y"
    and n: "length rs < 2 ^ 32" "batch_ok rs" and st: "ok d" "cache_ok c" "coherent (disk d) c"
  shows "ok (fst y) \<and> cache_ok (fst (snd y)) \<and> coherent (disk (fst y)) (fst (snd y))"
  using t
proof (induction rule: rtranclp_induct)
  case (step y z)
  obtain d1 c1 rs1 n1 e1 where y: "y = (d1, c1, rs1, n1, e1)" by (metis prod_cases5)
  obtain d2 c2 rs2 n2 e2 where z: "z = (d2, c2, rs2, n2, e2)" by (metis prod_cases5)
  note IH = step.IH [unfolded y fst_conv snd_conv] and t = step.hyps(2) [unfolded y z]
  have lt: "n1 + e1 + length rs1 < 2 ^ 32"
    using loop_turns_props [OF ord step.hyps(1)] n(1) by (simp add: y)
  have "batch_ok rs1" using loop_turns_frame [OF step.hyps(1)] n(2) by (simp add: y)
  from loop_turn_clean [OF ord t lt this] loop_turn_cache_ok [OF ord t] IH show ?case by (simp add: z)
qed (use st in simp)

lemma cached_reliable:
  assumes "key_order ord"
  shows "reliable_device (cached_submit ord sub) (\<lambda>s. disk (cd_inner s)) (cached_ok disk ok)"
proof (intro reliable_device.intro cached_contract [OF assms] reliable_device_axioms.intro)
  fix s s' rs bs res
  assume s: "cached_ok disk ok s" "length rs < 2 ^ 32" "batch_ok rs" "cached_submit ord sub s rs = (s', bs, res)"
  obtain cs where "res = Inr cs" using s(4) by (auto simp: cached_submit_def split: prod.splits)
  note t = cached_turns [OF s(4) [unfolded this]]
  show "cached_ok disk ok s'" using loop_turns_clean [OF assms t s(2,3)] s(1) by (simp add: cached_ok_def)
qed

end

interpretation ram_clean: clean_device ram_submit "\<lambda>d. d" ram_ok
  by unfold_locales (auto simp: ram_submit_def all_ok_def split: if_splits prod.splits)

interpretation cached_ram_reliable: reliable_device "cached_submit (\<lambda>ks. ks) ram_submit" "\<lambda>s. cd_inner s" "cached_ok (\<lambda>d. d) ram_ok"
  by (rule ram_clean.cached_reliable [OF ord_id])



end
