(* ===== verification/Heap_Arena.thy ===== *)
theory Heap_Arena
  imports Bedrock_Prelude
begin

text \<open>
  The arena of the kernel heap (\<open>kernel/src/mm/heap.rs\<close>): block headers, the free list in address
  order, the table of growth regions and first-fit allocation. Memory is a map from addresses to
  64-bit words; a block header at \<open>a\<close> is the word \<open>a\<close> (its size) and the word \<open>a + 8\<close> (the next free
  block), a null pointer is 0. A panic is \<open>Inl\<close> with the tag of the fault. The warnings printed on the
  serial port are not modelled.
\<close>

type_synonym memory = "nat \<Rightarrow> nat"

definition HEADER_SIZE :: nat where
  "HEADER_SIZE = 16"

definition BLOCK_ALIGN :: nat where
  "BLOCK_ALIGN = 8"

definition BACKPTR_SIZE :: nat where
  "BACKPTR_SIZE = 8"

definition MIN_ALLOC :: nat where
  "MIN_ALLOC = 8"

definition MIN_BLOCK_SIZE :: nat where
  "MIN_BLOCK_SIZE = HEADER_SIZE + BACKPTR_SIZE + MIN_ALLOC"

definition FREE_LIST_WALK_BOUND :: nat where
  "FREE_LIST_WALK_BOUND = 1000000"

definition KERNEL_VMA_BASE :: nat where
  "KERNEL_VMA_BASE = 0xFFFFFFFF80000000"

definition HEAP_TOP :: nat where
  "HEAP_TOP = KERNEL_VMA_BASE + 0x38000000"

definition HEAP_FLOOR :: nat where
  "HEAP_FLOOR = KERNEL_VMA_BASE + 0x10000000"

definition HEAP_GUARD_BYTES :: nat where
  "HEAP_GUARD_BYTES = 4096"

definition MAX_CHUNKS :: nat where
  "MAX_CHUNKS = 8192"

section \<open>Headers\<close>

definition blk_size :: "memory \<Rightarrow> nat \<Rightarrow> nat" where
  "blk_size m a = m a"

definition blk_next :: "memory \<Rightarrow> nat \<Rightarrow> nat" where
  "blk_next m a = m (a + 8)"

definition put_header :: "nat \<Rightarrow> nat \<Rightarrow> nat \<Rightarrow> memory \<Rightarrow> memory" where
  "put_header a sz nx m = m(a := sz, a + 8 := nx)"

definition from_payload :: "memory \<Rightarrow> nat \<Rightarrow> nat" where
  "from_payload m p = m (p - BACKPTR_SIZE)"

definition blk_end :: "memory \<Rightarrow> nat \<Rightarrow> nat" where
  "blk_end m a = (case checked_add64 a (blk_size m a) of Some e \<Rightarrow> e | None \<Rightarrow> u64_max)"

definition is_valid :: "memory \<Rightarrow> nat \<Rightarrow> bool" where
  "is_valid m a =
     (let sz = blk_size m a
      in if sz < MIN_BLOCK_SIZE then False
         else if sz mod BLOCK_ALIGN \<noteq> 0 then False
         else
           (case checked_add64 a sz of
              None \<Rightarrow> False
            | Some e \<Rightarrow>
                if (a < HEAP_FLOOR \<or> e > HEAP_TOP) \<and> sz > 0x40000000 then False
                else if sz > 0x40000000 then False
                else True))"

record chunk_meta =
  ck_vaddr :: nat
  ck_phys :: nat
  ck_size :: nat
  ck_live :: nat
  ck_scattered :: bool

text \<open>The first \<open>chunk_count\<close> entries of the table are the list \<open>chunks\<close>.\<close>

record heap_inner =
  hp_mem :: memory
  free_list :: nat
  low_vaddr :: nat
  hp_root :: nat
  chunks :: "chunk_meta list"

definition heap_empty :: "memory \<Rightarrow> heap_inner" where
  "heap_empty m = \<lparr>hp_mem = m, free_list = 0, low_vaddr = u64_max, hp_root = 0, chunks = []\<rparr>"

definition set_next :: "nat \<Rightarrow> nat \<Rightarrow> heap_inner \<Rightarrow> heap_inner" where
  "set_next a nx h = h\<lparr>hp_mem := (hp_mem h)(a + 8 := nx)\<rparr>"

definition set_size :: "nat \<Rightarrow> nat \<Rightarrow> heap_inner \<Rightarrow> heap_inner" where
  "set_size a sz h = h\<lparr>hp_mem := (hp_mem h)(a := sz)\<rparr>"

text \<open>The successor of \<open>prev\<close>, or the head of the list when \<open>prev\<close> is null, becomes \<open>nx\<close>.\<close>

definition relink :: "nat \<Rightarrow> nat \<Rightarrow> heap_inner \<Rightarrow> heap_inner" where
  "relink prev nx h = (if prev = 0 then h\<lparr>free_list := nx\<rparr> else set_next prev nx h)"

section \<open>Freeing\<close>

text \<open>The walk to the insertion point; invalid nodes on the way are unlinked. The predecessor and the
  successor, or the fault when the walk is too long.\<close>

function push_walk :: "nat \<Rightarrow> nat \<Rightarrow> heap_inner \<Rightarrow> nat \<Rightarrow> nat \<Rightarrow> (string, heap_inner \<times> nat \<times> nat) result" where
  "push_walk block steps h prev cur =
     (if cur \<noteq> 0 \<and> cur < block then
        (if steps + 1 > FREE_LIST_WALK_BOUND then Inl ''push_free''
         else if \<not> is_valid (hp_mem h) cur
         then push_walk block (steps + 1) (relink prev (blk_next (hp_mem h) cur) h) prev (blk_next (hp_mem h) cur)
         else push_walk block (steps + 1) h cur (blk_next (hp_mem h) cur))
      else Inr (h, prev, cur))"
  by pat_completeness auto
termination
  by (relation "measure (\<lambda>(b, steps, h, p, c). FREE_LIST_WALK_BOUND - steps)") auto

declare push_walk.simps [simp del]

text \<open>The block joined with its successor, or linked to it.\<close>

definition join_next :: "nat \<Rightarrow> nat \<Rightarrow> heap_inner \<Rightarrow> (string, heap_inner) result" where
  "join_next block cur h =
     (let m = hp_mem h
      in if cur = 0 then Inr h
         else if blk_end m block = cur then
           (case checked_add64 (blk_size m block) (blk_size m cur) of
              None \<Rightarrow> Inl ''push_free: size overflow coalesce next''
            | Some sz \<Rightarrow>
                if sz > 0x40000000 then Inl ''push_free: coalesced size huge''
                else Inr (set_next block (blk_next m cur) (set_size block sz h)))
         else Inr (set_next block cur h))"

text \<open>The predecessor absorbs the block, or is linked to it.\<close>

definition join_prev :: "nat \<Rightarrow> nat \<Rightarrow> heap_inner \<Rightarrow> (string, heap_inner) result" where
  "join_prev block prev h =
     (let m = hp_mem h
      in if prev = 0 then Inr (h\<lparr>free_list := block\<rparr>)
         else if blk_end m prev = block then
           (case checked_add64 (blk_size m prev) (blk_size m block) of
              None \<Rightarrow> Inl ''push_free: size overflow coalesce prev''
            | Some sz \<Rightarrow>
                if sz > 0x40000000 then Inl ''push_free: coalesced prev size huge''
                else Inr (set_next prev (blk_next m block) (set_size prev sz h)))
         else Inr (set_next prev block h))"

definition push_free :: "nat \<Rightarrow> heap_inner \<Rightarrow> (string, heap_inner) result" where
  "push_free block h =
     (if \<not> is_valid (hp_mem h) block then Inr h
      else
        (case push_walk block 0 (set_next block 0 h) 0 (free_list h) of
           Inl t \<Rightarrow> Inl t
         | Inr (h1, prev, cur) \<Rightarrow>
             (let bad = (cur \<noteq> 0 \<and> \<not> is_valid (hp_mem h1) cur);
                  succ = blk_next (hp_mem h1) cur;
                  h2 = (if bad then relink prev succ h1 else h1);
                  cur2 = (if bad then succ else cur)
              in if prev \<noteq> 0 \<and> \<not> is_valid (hp_mem h2) prev then Inl ''push_free: prev invalid after insertion point''
                 else (case join_next block cur2 h2 of Inl t \<Rightarrow> Inl t | Inr h3 \<Rightarrow> join_prev block prev h3))))"

definition add_region :: "nat \<Rightarrow> nat \<Rightarrow> heap_inner \<Rightarrow> (string, heap_inner) result" where
  "add_region start sz h = push_free start (h\<lparr>hp_mem := put_header start sz 0 (hp_mem h)\<rparr>)"

definition remove_next :: "nat \<Rightarrow> heap_inner \<Rightarrow> heap_inner" where
  "remove_next prev h =
     (let m = hp_mem h
      in if prev = 0 then (if free_list h \<noteq> 0 then h\<lparr>free_list := blk_next m (free_list h)\<rparr> else h)
         else if blk_next m prev \<noteq> 0 then set_next prev (blk_next m (blk_next m prev)) h
         else h)"

section \<open>Growth regions\<close>

definition register_chunk :: "nat \<Rightarrow> nat \<Rightarrow> nat \<Rightarrow> bool \<Rightarrow> heap_inner \<Rightarrow> (string, heap_inner) result" where
  "register_chunk vaddr phys sz scattered h =
     (if length (chunks h) < MAX_CHUNKS
      then Inr (h\<lparr>chunks := chunks h @ [\<lparr>ck_vaddr = vaddr, ck_phys = phys, ck_size = sz, ck_live = 0, ck_scattered = scattered\<rparr>]\<rparr>)
      else Inl ''heap: chunk table exhausted'')"

definition chunk_idx :: "heap_inner \<Rightarrow> nat \<Rightarrow> nat option" where
  "chunk_idx h addr =
     (if addr = 0 then None
      else find (\<lambda>i. let c = chunks h ! i in ck_vaddr c \<le> addr \<and> addr < wadd64 (ck_vaddr c) (ck_size c)) [0..<length (chunks h)])"

definition mark_live :: "nat \<Rightarrow> heap_inner \<Rightarrow> heap_inner" where
  "mark_live addr h =
     (case chunk_idx h addr of
        None \<Rightarrow> h
      | Some i \<Rightarrow> h\<lparr>chunks := (chunks h)[i := (chunks h ! i)\<lparr>ck_live := saturating_add64 (ck_live (chunks h ! i)) 1\<rparr>]\<rparr>)"

definition unmark_live :: "nat \<Rightarrow> heap_inner \<Rightarrow> heap_inner \<times> (nat \<times> nat) option" where
  "unmark_live addr h =
     (case chunk_idx h addr of
        None \<Rightarrow> (h, None)
      | Some i \<Rightarrow>
          (let live = ck_live (chunks h ! i) - 1
           in (h\<lparr>chunks := (chunks h)[i := (chunks h ! i)\<lparr>ck_live := live\<rparr>]\<rparr>, Some (i, live))))"

definition chunk_is_reclaimable :: "heap_inner \<Rightarrow> nat \<Rightarrow> bool" where
  "chunk_is_reclaimable h i \<longleftrightarrow>
     ck_live (chunks h ! i) = 0 \<and> \<not> ck_scattered (chunks h ! i) \<and> ck_vaddr (chunks h ! i) \<noteq> low_vaddr h"

section \<open>Allocating\<close>

text \<open>\<open>v & !(a - 1)\<close> for a power of two \<open>a\<close>.\<close>

definition align_down :: "nat \<Rightarrow> nat \<Rightarrow> nat" where
  "align_down v a = v - v mod a"

text \<open>Where an allocation from a block would lie: the payload, the end of the allocated part and the end
  of the block; \<open>None\<close> when one of the additions overflows.\<close>

definition alloc_fit :: "nat \<Rightarrow> nat \<Rightarrow> nat \<Rightarrow> nat \<Rightarrow> (nat \<times> nat \<times> nat) option" where
  "alloc_fit block_addr sz align needed =
     (case checked_add64 block_addr sz of
        None \<Rightarrow> None
      | Some block_end \<Rightarrow>
          (case checked_add64 block_addr (HEADER_SIZE + BACKPTR_SIZE + align - 1) of
             None \<Rightarrow> None
           | Some v \<Rightarrow>
               (let payload_addr = align_down v align
                in case checked_add64 payload_addr needed of
                     None \<Rightarrow> None
                   | Some payload_end \<Rightarrow>
                       (case checked_add64 payload_end (BLOCK_ALIGN - 1) of
                          None \<Rightarrow> None
                        | Some w \<Rightarrow> Some (payload_addr, align_down w BLOCK_ALIGN, block_end)))))"

text \<open>The block \<open>cur\<close> is taken: split when the rest is large enough, used whole otherwise.\<close>

definition take_block :: "nat \<Rightarrow> nat \<Rightarrow> nat \<Rightarrow> nat \<Rightarrow> nat \<Rightarrow> heap_inner \<Rightarrow> heap_inner" where
  "take_block prev cur payload_addr alloc_end block_end h =
     (let remaining = block_end - alloc_end;
          nx = blk_next (hp_mem h) cur;
          h1 = (if remaining \<ge> MIN_BLOCK_SIZE
                then (let h2 = set_size cur (alloc_end - cur) h
                      in relink prev alloc_end (h2\<lparr>hp_mem := put_header alloc_end remaining nx (hp_mem h2)\<rparr>))
                else remove_next prev h)
      in h1\<lparr>hp_mem := (hp_mem h1)(payload_addr - BACKPTR_SIZE := cur)\<rparr>)"

text \<open>The loop of \<open>alloc_inner\<close>. \<open>None\<close> is a loop that never ends: an overflow continues with the same
  block.\<close>

partial_function (option) alloc_loop :: "heap_inner \<Rightarrow> nat \<Rightarrow> nat \<Rightarrow> nat \<Rightarrow> nat \<Rightarrow> (heap_inner \<times> nat) option" where
  "alloc_loop h align needed prev cur =
     (if cur = 0 then Some (h, 0)
      else
        (case alloc_fit cur (blk_size (hp_mem h) cur) align needed of
           None \<Rightarrow> alloc_loop h align needed prev cur
         | Some (payload_addr, alloc_end, block_end) \<Rightarrow>
             if alloc_end \<le> block_end
             then Some (take_block prev cur payload_addr alloc_end block_end h, payload_addr)
             else alloc_loop h align needed cur (blk_next (hp_mem h) cur)))"

text \<open>\<open>layout\<close> is the size and the alignment, a power of two.\<close>

definition alloc_inner :: "heap_inner \<Rightarrow> nat \<Rightarrow> nat \<Rightarrow> (heap_inner \<times> nat) option" where
  "alloc_inner h lsize lalign = alloc_loop h (max lalign BLOCK_ALIGN) (max lsize MIN_ALLOC) 0 (free_list h)"

end
