(* ===== verification/Heap_Cache.thy ===== *)
theory Heap_Cache
  imports Heap_Arena
begin

text \<open>
  The per-CPU caches of freed payloads in \<open>kernel/src/mm/heap.rs\<close>: a stack threaded through the first
  word of each cached payload. The number of the running CPU is an argument of the operations, since
  \<open>current_cpu_id\<close> reads it from the hardware. A scan of a cyclic stack does not return; its value is
  \<open>None\<close>.
\<close>

definition CPU_CACHE_CAP :: nat where
  "CPU_CACHE_CAP = 64"

definition MAX_CPUS :: nat where
  "MAX_CPUS = 16"

record cpu_cache =
  cc_head :: nat
  cc_count :: nat

definition cache_empty :: cpu_cache where
  "cache_empty = \<lparr>cc_head = 0, cc_count = 0\<rparr>"

text \<open>The state of the allocator: the arena under its lock, a cache per CPU and the flag
  \<open>HEAP_INITIALIZED\<close>.\<close>

record kheap =
  kh_heap :: heap_inner
  kh_caches :: "cpu_cache list"
  kh_initialized :: bool

abbreviation kh_mem :: "kheap \<Rightarrow> memory" where
  "kh_mem k \<equiv> hp_mem (kh_heap k)"

definition set_word :: "nat \<Rightarrow> nat \<Rightarrow> kheap \<Rightarrow> kheap" where
  "set_word a v k = k\<lparr>kh_heap := (kh_heap k)\<lparr>hp_mem := (kh_mem k)(a := v)\<rparr>\<rparr>"

definition set_cache :: "nat \<Rightarrow> cpu_cache \<Rightarrow> kheap \<Rightarrow> kheap" where
  "set_cache cpu c k = k\<lparr>kh_caches := (kh_caches k)[cpu := c]\<rparr>"

text \<open>The bytes from a payload to the end of its block.\<close>

definition usable_bytes :: "memory \<Rightarrow> nat \<Rightarrow> nat" where
  "usable_bytes m p = (let header = from_payload m p in wsub64 (wadd64 header (blk_size m header)) p)"

text \<open>The entry \<open>cur\<close> is unlinked from the stack of \<open>cpu\<close>.\<close>

definition cache_unlink :: "nat \<Rightarrow> nat \<Rightarrow> nat \<Rightarrow> kheap \<Rightarrow> kheap" where
  "cache_unlink cpu prev nx k =
     (let c = kh_caches k ! cpu;
          c1 = (if prev = 0 then c\<lparr>cc_head := nx\<rparr> else c);
          k1 = (if prev = 0 then k else set_word prev nx k)
      in set_cache cpu (c1\<lparr>cc_count := wsub64 (cc_count c1) 1\<rparr>) k1)"

partial_function (option) cache_scan :: "nat \<Rightarrow> nat \<Rightarrow> nat \<Rightarrow> kheap \<Rightarrow> nat \<Rightarrow> nat \<Rightarrow> (kheap \<times> nat) option" where
  "cache_scan cpu align need k prev cur =
     (if cur = 0 then Some (k, 0)
      else if usable_bytes (kh_mem k) cur \<ge> need \<and> cur mod align = 0
      then Some (cache_unlink cpu prev (kh_mem k cur) k, cur)
      else cache_scan cpu align need k cur (kh_mem k cur))"

definition per_cpu_alloc_cached :: "nat \<Rightarrow> nat \<Rightarrow> nat \<Rightarrow> kheap \<Rightarrow> (kheap \<times> nat) option" where
  "per_cpu_alloc_cached cpu lsize lalign k =
     (if cc_head (kh_caches k ! cpu) = 0 then Some (k, 0)
      else cache_scan cpu (max lalign BLOCK_ALIGN) lsize k 0 (cc_head (kh_caches k ! cpu)))"

definition cache_push :: "nat \<Rightarrow> nat \<Rightarrow> kheap \<Rightarrow> kheap" where
  "cache_push cpu payload k =
     (let c = kh_caches k ! cpu
      in set_cache cpu \<lparr>cc_head = payload, cc_count = cc_count c + 1\<rparr> (set_word payload (cc_head c) k))"

definition per_cpu_free_cached :: "nat \<Rightarrow> nat \<Rightarrow> kheap \<Rightarrow> kheap \<times> bool" where
  "per_cpu_free_cached cpu payload k =
     (if cc_count (kh_caches k ! cpu) \<ge> CPU_CACHE_CAP then (k, False)
      else (cache_push cpu payload k, True))"

end
