(* ===== verification/Heap_Reclaim.thy ===== *)
theory Heap_Reclaim
  imports Heap_Cache
begin

text \<open>
  Chunk reclamation of \<open>kernel/src/mm/heap.rs\<close>: the in-place merge sort of the free list, the merging of
  adjacent blocks, the coverage test, the draining of the per-CPU caches and the choice of the chunks to
  unmap. The path is compiled in and guarded by \<open>ENABLE_HEAP_CHUNK_RECLAIM\<close>, which is false. The
  unmapping itself works on the page tables and is not modelled.
\<close>

definition SORT_OUTER_BOUND :: nat where
  "SORT_OUTER_BOUND = 1000000"

definition SORT_INNER_BOUND :: nat where
  "SORT_INNER_BOUND = 50000000"

definition MAX_RECLAIMS_PER_CALL :: nat where
  "MAX_RECLAIMS_PER_CALL = 64"

section \<open>Lookup in the free list\<close>

function is_single_walk :: "memory \<Rightarrow> nat \<Rightarrow> nat \<Rightarrow> nat \<Rightarrow> nat \<Rightarrow> (string, bool) result" where
  "is_single_walk m addr sz steps cur =
     (if cur = 0 then Inr False
      else if steps + 1 > FREE_LIST_WALK_BOUND then Inl ''is_single_free_block''
      else if cur = addr then Inr (blk_size m cur = sz)
      else is_single_walk m addr sz (steps + 1) (blk_next m cur))"
  by pat_completeness auto
termination
  by (relation "measure (\<lambda>(m, a, s, steps, c). FREE_LIST_WALK_BOUND - steps)") auto

declare is_single_walk.simps [simp del]

definition is_single_free_block :: "heap_inner \<Rightarrow> nat \<Rightarrow> nat \<Rightarrow> (string, bool) result" where
  "is_single_free_block h addr sz = is_single_walk (hp_mem h) addr sz 0 (free_list h)"

function remove_walk :: "heap_inner \<Rightarrow> nat \<Rightarrow> nat \<Rightarrow> nat \<Rightarrow> nat \<Rightarrow> (string, heap_inner \<times> bool) result" where
  "remove_walk h addr steps prev cur =
     (if cur = 0 then Inr (h, False)
      else if steps + 1 > FREE_LIST_WALK_BOUND then Inl ''remove_free_block''
      else if cur = addr then Inr (remove_next prev h, True)
      else remove_walk h addr (steps + 1) cur (blk_next (hp_mem h) cur))"
  by pat_completeness auto
termination
  by (relation "measure (\<lambda>(h, a, steps, p, c). FREE_LIST_WALK_BOUND - steps)") auto

declare remove_walk.simps [simp del]

definition remove_free_block :: "nat \<Rightarrow> heap_inner \<Rightarrow> (string, heap_inner \<times> bool) result" where
  "remove_free_block addr h = remove_walk h addr 0 0 (free_list h)"

section \<open>Sorting\<close>

text \<open>The loop that takes from two runs while both are non-empty: the memory, the two rests, the head and
  the tail of the result and the count of visits.\<close>

function merge_loop ::
  "memory \<Rightarrow> nat \<Rightarrow> nat \<Rightarrow> nat \<Rightarrow> nat \<Rightarrow> nat \<Rightarrow> (string, memory \<times> nat \<times> nat \<times> nat \<times> nat \<times> nat) result" where
  "merge_loop m a b head tail inner =
     (if a \<noteq> 0 \<and> b \<noteq> 0 then
        (if inner + 1 > SORT_INNER_BOUND then Inl ''sort''
         else
           (let take_a = a < b;
                node = (if take_a then a else b);
                m1 = (if tail = 0 then m else m(tail + 8 := node));
                head1 = (if tail = 0 then node else head)
            in merge_loop m1 (if take_a then blk_next m1 a else a) (if take_a then b else blk_next m1 b)
                 head1 node (inner + 1)))
      else Inr (m, a, b, head, tail, inner))"
  by pat_completeness auto
termination
  by (relation "measure (\<lambda>(m, a, b, h, t, inner). SORT_INNER_BOUND - inner)") auto

declare merge_loop.simps [simp del]

function last_loop :: "memory \<Rightarrow> nat \<Rightarrow> nat \<Rightarrow> (string, nat \<times> nat) result" where
  "last_loop m rest inner =
     (if rest \<noteq> 0 \<and> blk_next m rest \<noteq> 0 then
        (if inner + 1 > SORT_INNER_BOUND then Inl ''sort'' else last_loop m (blk_next m rest) (inner + 1))
      else Inr (rest, inner))"
  by pat_completeness auto
termination
  by (relation "measure (\<lambda>(m, r, inner). SORT_INNER_BOUND - inner)") auto

declare last_loop.simps [simp del]

text \<open>The memory, the head and the tail of the merged run and the count of visits.\<close>

definition merge_runs :: "memory \<Rightarrow> nat \<Rightarrow> nat \<Rightarrow> nat \<Rightarrow> (string, memory \<times> nat \<times> nat \<times> nat) result" where
  "merge_runs m a b inner =
     (case merge_loop m a b 0 0 inner of
        Inl t \<Rightarrow> Inl t
      | Inr (m1, a1, b1, head, tail, inner1) \<Rightarrow>
          (let rest = (if a1 = 0 then b1 else a1);
               m2 = (if tail = 0 then m1 else m1(tail + 8 := rest))
           in case last_loop m2 rest inner1 of
                Inl t \<Rightarrow> Inl t
              | Inr (r, inner2) \<Rightarrow> Inr (m2, if tail = 0 then rest else head, r, inner2)))"

text \<open>At most \<open>width - 1\<close> steps along the list.\<close>

function advance :: "memory \<Rightarrow> nat \<Rightarrow> nat \<Rightarrow> nat \<Rightarrow> nat \<Rightarrow> (string, nat \<times> nat) result" where
  "advance m width i cur inner =
     (if i + 1 < width \<and> cur \<noteq> 0 then
        (if inner + 1 > SORT_INNER_BOUND then Inl ''sort''
         else advance m width (i + 1) (blk_next m cur) (inner + 1))
      else Inr (cur, inner))"
  by pat_completeness auto
termination
  by (relation "measure (\<lambda>(m, w, i, c, inner). w - i)") auto

declare advance.simps [simp del]

lemma advance_grows: "advance m width i cur inner = Inr (c, inner') \<Longrightarrow> inner \<le> inner'"
  by (induction m width i cur inner rule: advance.induct)
     (subst (asm) (2) advance.simps, auto split: if_splits)

lemma last_loop_grows: "last_loop m rest inner = Inr (r, inner') \<Longrightarrow> inner \<le> inner'"
  by (induction m rest inner rule: last_loop.induct)
     (subst (asm) (2) last_loop.simps, auto split: if_splits)

lemma merge_loop_grows: "merge_loop m a b head tail inner = Inr (m', a', b', h', t', inner') \<Longrightarrow> inner \<le> inner'"
proof (induction m a b head tail inner rule: merge_loop.induct)
  case (1 m a b head tail inner)
  show ?case
  proof (cases "a \<noteq> 0 \<and> b \<noteq> 0")
    case True
    then have nb: "\<not> inner + 1 > SORT_INNER_BOUND"
      using 1(2) by (subst (asm) merge_loop.simps) (auto split: if_splits)
    show ?thesis
      using 1(1) [OF True nb refl refl refl refl] 1(2) True nb
      by (subst (asm) (2) merge_loop.simps) (simp add: Let_def)
  next
    case False
    then show ?thesis using 1(2) by (subst (asm) merge_loop.simps) auto
  qed
qed

lemma merge_runs_grows:
  assumes r: "merge_runs m a b inner = Inr (m', h, t, inner')" and ab: "a \<noteq> 0" "b \<noteq> 0"
  shows "inner < inner'"
proof -
  have nb: "\<not> inner + 1 > SORT_INNER_BOUND"
    using r ab unfolding merge_runs_def by (subst (asm) merge_loop.simps) (auto split: if_splits)
  obtain m1 a1 b1 hd1 tl1 i1 where
    ml: "merge_loop m a b 0 0 inner = Inr (m1, a1, b1, hd1, tl1, i1)"
    using r unfolding merge_runs_def by (auto split: sum.splits)
  have "inner + 1 \<le> i1"
    using ml ab nb by (subst (asm) merge_loop.simps) (auto simp: Let_def dest: merge_loop_grows)
  moreover have "i1 \<le> inner'"
    using r ml unfolding merge_runs_def by (auto simp: Let_def split: sum.splits dest!: last_loop_grows)
  ultimately show ?thesis by simp
qed

text \<open>A pass with runs of \<open>width\<close> nodes. One round: \<open>Inr (m, head, tail, next, inner, finished)\<close>.\<close>

definition attach :: "memory \<Rightarrow> nat \<Rightarrow> nat \<Rightarrow> nat \<Rightarrow> memory \<times> nat" where
  "attach m new_head new_tail run = (if new_tail = 0 then (m, run) else (m(new_tail + 8 := run), new_head))"

definition sort_round ::
  "nat \<Rightarrow> memory \<Rightarrow> nat \<Rightarrow> nat \<Rightarrow> nat \<Rightarrow> nat \<Rightarrow> (string, memory \<times> nat \<times> nat \<times> nat \<times> nat \<times> bool) result" where
  "sort_round width m new_head new_tail run1 inner =
     (case advance m width 0 run1 inner of
        Inl t \<Rightarrow> Inl t
      | Inr (cur, inner1) \<Rightarrow>
          (if cur = 0
           then (let (m1, hd1) = attach m new_head new_tail run1 in Inr (m1, hd1, new_tail, 0, inner1, True))
           else
             (let run2 = blk_next m cur;
                  m1 = m(cur + 8 := 0)
              in if run2 = 0
                 then (let (m2, hd1) = attach m1 new_head new_tail run1 in Inr (m2, hd1, new_tail, 0, inner1, True))
                 else
                   (case advance m1 width 0 run2 inner1 of
                      Inl t \<Rightarrow> Inl t
                    | Inr (cur2, inner2) \<Rightarrow>
                        (let next_run = (if cur2 = 0 then 0 else blk_next m1 cur2);
                             m2 = (if cur2 = 0 then m1 else m1(cur2 + 8 := 0))
                         in case merge_runs m2 run1 run2 inner2 of
                              Inl t \<Rightarrow> Inl t
                            | Inr (m3, merged, merged_tail, inner3) \<Rightarrow>
                                (let (m4, hd1) = attach m3 new_head new_tail merged
                                 in Inr (m4, hd1, merged_tail, next_run, inner3, False)))))))"

lemma sort_round_grows:
  assumes r: "sort_round width m hd0 tl0 run1 inner = Inr (m', hd1', tl1', nx, inner', False)" and ne: "run1 \<noteq> 0"
  shows "inner < inner'"
proof -
  obtain cur inner1 where a1: "advance m width 0 run1 inner = Inr (cur, inner1)"
    using r unfolding sort_round_def by (auto split: sum.splits)
  have c: "cur \<noteq> 0" using r a1 unfolding sort_round_def by (auto split: if_splits prod.splits)
  have r2: "blk_next m cur \<noteq> 0"
    using r a1 c unfolding sort_round_def by (auto simp: Let_def split: if_splits prod.splits)
  obtain cur2 inner2 where a2: "advance (m(cur + 8 := 0)) width 0 (blk_next m cur) inner1 = Inr (cur2, inner2)"
    using r a1 c r2 unfolding sort_round_def by (auto simp: Let_def split: sum.splits)
  obtain m2 m3 mg mt where mr: "merge_runs m2 run1 (blk_next m cur) inner2 = Inr (m3, mg, mt, inner')"
    using r a1 c r2 a2 unfolding sort_round_def by (auto simp: Let_def split: sum.splits prod.splits)
  show ?thesis
    using advance_grows [OF a1] advance_grows [OF a2] merge_runs_grows [OF mr ne r2] by simp
qed

lemma merge_runs_bound:
  assumes "merge_runs m a b inner = Inr (m', h, t, inner')" and "a \<noteq> 0" "b \<noteq> 0"
  shows "inner < SORT_INNER_BOUND"
  using assms unfolding merge_runs_def by (subst (asm) merge_loop.simps) (auto split: if_splits)

lemma sort_round_bound:
  assumes r: "sort_round width m hd0 tl0 run1 inner = Inr (m', hd1', tl1', nx, inner', False)" and ne: "run1 \<noteq> 0"
  shows "inner < SORT_INNER_BOUND"
proof -
  obtain cur inner1 where a1: "advance m width 0 run1 inner = Inr (cur, inner1)"
    using r unfolding sort_round_def by (auto split: sum.splits)
  have c: "cur \<noteq> 0" using r a1 unfolding sort_round_def by (auto split: if_splits prod.splits)
  have r2: "blk_next m cur \<noteq> 0"
    using r a1 c unfolding sort_round_def by (auto simp: Let_def split: if_splits prod.splits)
  obtain cur2 inner2 where a2: "advance (m(cur + 8 := 0)) width 0 (blk_next m cur) inner1 = Inr (cur2, inner2)"
    using r a1 c r2 unfolding sort_round_def by (auto simp: Let_def split: sum.splits)
  obtain m2 m3 mg mt where mr: "merge_runs m2 run1 (blk_next m cur) inner2 = Inr (m3, mg, mt, inner')"
    using r a1 c r2 a2 unfolding sort_round_def by (auto simp: Let_def split: sum.splits prod.splits)
  show ?thesis
    using advance_grows [OF a1] advance_grows [OF a2] merge_runs_bound [OF mr ne r2] by simp
qed

lemma sort_round_progress:
  "sort_round width m hd0 tl0 run1 inner = Inr (m', hd1', tl1', nx, inner', False) \<Longrightarrow> run1 \<noteq> 0
   \<Longrightarrow> SORT_INNER_BOUND - inner' < SORT_INNER_BOUND - inner"
  using sort_round_grows sort_round_bound by (metis diff_less_mono2)

text \<open>The pass: memory, head, number of runs and visits.\<close>

function sort_pass ::
  "nat \<Rightarrow> memory \<Rightarrow> nat \<Rightarrow> nat \<Rightarrow> nat \<Rightarrow> nat \<Rightarrow> nat \<Rightarrow> (string, memory \<times> nat \<times> nat \<times> nat) result" where
  "sort_pass width m new_head new_tail cur runs inner =
     (if cur = 0 then Inr (m, new_head, runs, inner)
      else
        (case sort_round width m new_head new_tail cur inner of
           Inl t \<Rightarrow> Inl t
         | Inr (m1, hd1, tl1, nx, inner1, finished) \<Rightarrow>
             if finished then Inr (m1, hd1, runs + 1, inner1)
             else sort_pass width m1 hd1 tl1 nx (runs + 1) inner1))"
  by pat_completeness auto
termination
  by (relation "measure (\<lambda>(w, m, h, t, c, r, inner). SORT_INNER_BOUND - inner)")
     (auto dest: sort_round_progress)

declare sort_pass.simps [simp del]

function sort_outer :: "memory \<Rightarrow> nat \<Rightarrow> nat \<Rightarrow> nat \<Rightarrow> nat \<Rightarrow> (string, memory \<times> nat) result" where
  "sort_outer m lst width outer inner =
     (if outer + 1 > SORT_OUTER_BOUND \<or> inner > SORT_INNER_BOUND then Inl ''sort''
      else
        (case sort_pass width m 0 0 lst 0 inner of
           Inl t \<Rightarrow> Inl t
         | Inr (m1, new_head, runs, inner1) \<Rightarrow>
             if runs \<le> 1 then Inr (m1, new_head)
             else sort_outer m1 new_head (min (width * 2) u64_max) (outer + 1) inner1))"
  by pat_completeness auto
termination
  by (relation "measure (\<lambda>(m, l, w, outer, i). SORT_OUTER_BOUND - outer)") auto

declare sort_outer.simps [simp del]

definition sort_free_list :: "heap_inner \<Rightarrow> (string, heap_inner) result" where
  "sort_free_list h =
     (if free_list h = 0 then Inr h
      else
        (case sort_outer (hp_mem h) (free_list h) 1 0 0 of
           Inl t \<Rightarrow> Inl t
         | Inr (m, hd1) \<Rightarrow> Inr (h\<lparr>hp_mem := m, free_list := hd1\<rparr>)))"

section \<open>Merging adjacent blocks\<close>

text \<open>One round on the block \<open>cur\<close>: the new state, the next predecessor and the next block.\<close>

definition merge_step :: "heap_inner \<Rightarrow> nat \<Rightarrow> nat \<Rightarrow> heap_inner \<times> nat \<times> nat" where
  "merge_step h prev cur =
     (let m = hp_mem h;
          nx = blk_next m cur;
          drop_cur = (relink prev nx h, prev, nx);
          drop_next = (set_next cur (blk_next m nx) h, prev, cur)
      in if \<not> is_valid m cur then drop_cur
         else if nx = 0 then (h, cur, nx)
         else if \<not> is_valid m nx then drop_next
         else
           (case checked_add64 cur (blk_size m cur) of
              None \<Rightarrow> drop_cur
            | Some cur_end \<Rightarrow>
                if cur_end = nx then
                  (case checked_add64 (blk_size m cur) (blk_size m nx) of
                     None \<Rightarrow> drop_next
                   | Some sz \<Rightarrow>
                       if sz > 0x40000000 then drop_next
                       else (set_next cur (blk_next m nx) (set_size cur sz h), prev, cur))
                else (h, cur, nx)))"

function merge_blocks :: "heap_inner \<Rightarrow> nat \<Rightarrow> nat \<Rightarrow> nat \<Rightarrow> (string, heap_inner) result" where
  "merge_blocks h steps prev cur =
     (if cur = 0 then Inr h
      else if steps + 1 > FREE_LIST_WALK_BOUND then Inl ''merge''
      else (case merge_step h prev cur of (h1, prev1, cur1) \<Rightarrow> merge_blocks h1 (steps + 1) prev1 cur1))"
  by pat_completeness auto
termination
  by (relation "measure (\<lambda>(h, steps, p, c). FREE_LIST_WALK_BOUND - steps)") auto

declare merge_blocks.simps [simp del]

definition merge_sorted_free_blocks :: "heap_inner \<Rightarrow> (string, heap_inner) result" where
  "merge_sorted_free_blocks h = merge_blocks h 0 0 (free_list h)"

definition coalesce_all :: "heap_inner \<Rightarrow> (string, heap_inner) result" where
  "coalesce_all h = (case sort_free_list h of Inl t \<Rightarrow> Inl t | Inr h1 \<Rightarrow> merge_sorted_free_blocks h1)"

section \<open>Coverage\<close>

function cover_walk :: "memory \<Rightarrow> nat \<Rightarrow> nat \<Rightarrow> nat \<Rightarrow> nat \<Rightarrow> nat \<Rightarrow> nat \<Rightarrow> (string, bool) result" where
  "cover_walk m vaddr cend csize steps acc cur =
     (if cur = 0 then Inr False
      else if steps + 1 > FREE_LIST_WALK_BOUND then Inl ''coverage''
      else if vaddr \<le> cur \<and> cur < cend then
        (if wadd64 acc (blk_size m cur) \<ge> csize then Inr True
         else cover_walk m vaddr cend csize (steps + 1) (wadd64 acc (blk_size m cur)) (blk_next m cur))
      else cover_walk m vaddr cend csize (steps + 1) acc (blk_next m cur))"
  by pat_completeness auto
termination
  by (relation "measure (\<lambda>(m, v, e, s, steps, acc, c). FREE_LIST_WALK_BOUND - steps)") auto

declare cover_walk.simps [simp del]

fun cover_chunks :: "heap_inner \<Rightarrow> nat \<Rightarrow> nat list \<Rightarrow> (string, bool) result" where
  "cover_chunks h base [] = Inr False"
| "cover_chunks h base (i # is) =
     (let c = chunks h ! i
      in if ck_live c \<noteq> 0 \<or> ck_vaddr c = base then cover_chunks h base is
         else
           (case cover_walk (hp_mem h) (ck_vaddr c) (saturating_add64 (ck_vaddr c) (ck_size c)) (ck_size c) 0 0 (free_list h) of
              Inl t \<Rightarrow> Inl t
            | Inr True \<Rightarrow> Inr True
            | Inr False \<Rightarrow> cover_chunks h base is))"

definition any_idle_chunk_covered :: "heap_inner \<Rightarrow> nat \<Rightarrow> nat \<Rightarrow> (string, bool) result" where
  "any_idle_chunk_covered h base trigger_idx =
     cover_chunks h base (map (\<lambda>step. wadd64 trigger_idx step mod length (chunks h)) [0..<length (chunks h)])"

section \<open>Draining the caches\<close>

partial_function (option) drain_cache ::
  "nat \<Rightarrow> nat \<Rightarrow> nat \<Rightarrow> kheap \<Rightarrow> nat \<Rightarrow> nat \<Rightarrow> (string, kheap) result option" where
  "drain_cache cpu vaddr cend k prev cur =
     (if cur = 0 then Some (Inr k)
      else
        (let nx = kh_mem k cur
         in if vaddr \<le> cur \<and> cur < cend then
              (let k1 = cache_unlink cpu prev nx k;
                   block = from_payload (kh_mem k1) cur;
                   h1 = set_next block 0 (kh_heap k1)
               in case push_free block h1 of
                    Inl t \<Rightarrow> Some (Inl t)
                  | Inr h2 \<Rightarrow> drain_cache cpu vaddr cend (k1\<lparr>kh_heap := h2\<rparr>) prev nx)
            else drain_cache cpu vaddr cend k cur nx))"

fun drain_cpus :: "nat list \<Rightarrow> nat \<Rightarrow> nat \<Rightarrow> kheap \<Rightarrow> (string, kheap) result option" where
  "drain_cpus [] vaddr cend k = Some (Inr k)"
| "drain_cpus (cpu # cpus) vaddr cend k =
     (case drain_cache cpu vaddr cend k 0 (cc_head (kh_caches k ! cpu)) of
        None \<Rightarrow> None
      | Some (Inl t) \<Rightarrow> Some (Inl t)
      | Some (Inr k1) \<Rightarrow> drain_cpus cpus vaddr cend k1)"

definition drain_cached_blocks :: "nat \<Rightarrow> kheap \<Rightarrow> (string, kheap) result option" where
  "drain_cached_blocks i k =
     (let c = chunks (kh_heap k) ! i
      in drain_cpus [0..<MAX_CPUS] (ck_vaddr c) (saturating_add64 (ck_vaddr c) (ck_size c)) k)"

fun drain_chunks :: "nat list \<Rightarrow> kheap \<Rightarrow> (string, kheap) result option" where
  "drain_chunks [] k = Some (Inr k)"
| "drain_chunks (i # is) k =
     (if chunk_is_reclaimable (kh_heap k) i then
        (case drain_cached_blocks i k of
           None \<Rightarrow> None
         | Some (Inl t) \<Rightarrow> Some (Inl t)
         | Some (Inr k1) \<Rightarrow> drain_chunks is k1)
      else drain_chunks is k)"

section \<open>Reclaiming\<close>

record reclaim_record =
  rr_vaddr :: nat
  rr_phys :: nat
  rr_size :: nat

text \<open>The chunks taken out of the table, in order; \<open>room\<close> is the length of the record buffer. The entry
  after a removed one moves to its place.\<close>

lemma length_remove_chunk: "i < length xs \<Longrightarrow> length (take i xs @ drop (Suc i) xs) - i < length xs - i"
  by simp

lemma remove_next_chunks [simp]: "chunks (remove_next prev h) = chunks h"
  by (simp add: remove_next_def set_next_def Let_def)

lemma remove_walk_chunks: "remove_walk h addr steps prev cur = Inr (h', b) \<Longrightarrow> chunks h' = chunks h"
  by (induction h addr steps prev cur rule: remove_walk.induct)
     (subst (asm) (2) remove_walk.simps, auto split: if_splits)

lemma remove_free_block_chunks: "remove_free_block addr h = Inr (h', b) \<Longrightarrow> chunks h' = chunks h"
  unfolding remove_free_block_def by (rule remove_walk_chunks)

function reclaim_loop :: "nat \<Rightarrow> heap_inner \<Rightarrow> nat \<Rightarrow> reclaim_record list \<Rightarrow> (string, heap_inner \<times> reclaim_record list) result" where
  "reclaim_loop room h i out =
     (if i < length (chunks h) then
        (if \<not> chunk_is_reclaimable h i then reclaim_loop room h (i + 1) out
         else
           (let c = chunks h ! i
            in case is_single_free_block h (ck_vaddr c) (ck_size c) of
                 Inl t \<Rightarrow> Inl t
               | Inr single \<Rightarrow>
                   if \<not> single then reclaim_loop room h (i + 1) out
                   else if length out = room then Inr (h, out)
                   else
                     (case remove_free_block (ck_vaddr c) h of
                        Inl t \<Rightarrow> Inl t
                      | Inr (h1, b) \<Rightarrow>
                          reclaim_loop room (h1\<lparr>chunks := take i (chunks h1) @ drop (Suc i) (chunks h1)\<rparr>) i
                            (out @ [\<lparr>rr_vaddr = ck_vaddr c, rr_phys = ck_phys c, rr_size = ck_size c\<rparr>]))))
      else Inr (h, out))"
  by pat_completeness auto
termination
  by (relation "measure (\<lambda>(r, h, i, out). length (chunks h) - i)")
     (auto dest!: remove_free_block_chunks)

declare reclaim_loop.simps [simp del]

definition try_reclaim :: "nat \<Rightarrow> kheap \<Rightarrow> (string, kheap \<times> reclaim_record list) result option" where
  "try_reclaim trigger_idx k =
     (let h = kh_heap k;
          base = low_vaddr h;
          n = length (chunks h)
      in if \<not> list_ex (chunk_is_reclaimable h) [0..<n] then Some (Inr (k, []))
         else
           (case drain_chunks [0..<n] k of
              None \<Rightarrow> None
            | Some (Inl t) \<Rightarrow> Some (Inl t)
            | Some (Inr k1) \<Rightarrow>
                (case any_idle_chunk_covered (kh_heap k1) base trigger_idx of
                   Inl t \<Rightarrow> Some (Inl t)
                 | Inr False \<Rightarrow> Some (Inr (k1, []))
                 | Inr True \<Rightarrow>
                     (case coalesce_all (kh_heap k1) of
                        Inl t \<Rightarrow> Some (Inl t)
                      | Inr h2 \<Rightarrow>
                          (case reclaim_loop MAX_RECLAIMS_PER_CALL h2 0 [] of
                             Inl t \<Rightarrow> Some (Inl t)
                           | Inr (h3, out) \<Rightarrow> Some (Inr (k1\<lparr>kh_heap := h3\<rparr>, out)))))))"

end
