(* ===== verification/Kernel_Heap.thy ===== *)
theory Kernel_Heap
  imports Heap_Reclaim
begin

text \<open>
  The kernel's global allocator (\<open>kernel/src/mm/heap.rs\<close>): start-up, growth of the arena, \<open>alloc\<close>,
  \<open>dealloc\<close> and the snapshots. Growth gets its pages from the physical allocator and the page tables,
  which are other components; their outcome is the argument \<open>backing\<close>: \<open>Some (phys, scattered)\<close> when
  the pages were obtained and mapped at the reserved address, \<open>None\<close> when they were not and the partial
  mapping was undone. A panic is \<open>Some (Inl tag)\<close>, a call that does not return is \<open>None\<close>.
\<close>

definition HEAP_INIT_PAGES :: nat where
  "HEAP_INIT_PAGES = 256"

definition HEAP_GROW_PAGES :: nat where
  "HEAP_GROW_PAGES = 16"

definition ENABLE_HEAP_CHUNK_RECLAIM :: bool where
  "ENABLE_HEAP_CHUNK_RECLAIM = False"

type_synonym backing = "(nat \<times> bool) option"

section \<open>Growth\<close>

text \<open>The address range the next region gets: its start and its size.\<close>

definition reserve_range :: "nat \<Rightarrow> nat \<Rightarrow> (nat \<times> nat) option" where
  "reserve_range low pages =
     (case checked_mul64 pages 4096 of
        None \<Rightarrow> None
      | Some sz \<Rightarrow>
          if low = u64_max
          then (if sz \<le> HEAP_TOP \<and> HEAP_TOP - sz \<ge> HEAP_FLOOR then Some (HEAP_TOP - sz, sz) else None)
          else (if HEAP_GUARD_BYTES \<le> low \<and> sz \<le> low - HEAP_GUARD_BYTES \<and> low - HEAP_GUARD_BYTES - sz \<ge> HEAP_FLOOR
                then Some (low - HEAP_GUARD_BYTES - sz, sz) else None))"

text \<open>Growth at start-up, under the lock.\<close>

definition allocate_pages :: "nat \<Rightarrow> backing \<Rightarrow> heap_inner \<Rightarrow> (string, heap_inner \<times> bool) result" where
  "allocate_pages pages backing h =
     (case reserve_range (low_vaddr h) pages of
        None \<Rightarrow> Inr (h, False)
      | Some (low, sz) \<Rightarrow>
          (case backing of
             None \<Rightarrow> Inr (h, False)
           | Some (phys, scattered) \<Rightarrow>
               (case add_region low sz h of
                  Inl t \<Rightarrow> Inl t
                | Inr h1 \<Rightarrow>
                    (case register_chunk low (if scattered then 0 else phys) sz scattered (h1\<lparr>low_vaddr := low\<rparr>) of
                       Inl t \<Rightarrow> Inl t
                     | Inr h2 \<Rightarrow> Inr (h2, True)))))"

definition heap_init :: "nat \<Rightarrow> backing \<Rightarrow> kheap \<Rightarrow> (string, kheap) result" where
  "heap_init root backing k =
     (case allocate_pages HEAP_INIT_PAGES backing ((kh_heap k)\<lparr>hp_root := root\<rparr>) of
        Inl t \<Rightarrow> Inl t
      | Inr (h, ok) \<Rightarrow>
          if ok then Inr (k\<lparr>kh_heap := h, kh_initialized := True\<rparr>)
          else Inl ''heap: initial chunk allocation failed'')"

text \<open>The first critical section of \<open>heap_grow\<close>: the range is reserved. The result has the start, the
  size and the previous low end of the arena.\<close>

definition grow_reserve :: "nat \<Rightarrow> heap_inner \<Rightarrow> heap_inner \<times> (nat \<times> nat \<times> nat) option" where
  "grow_reserve pages h =
     (case reserve_range (low_vaddr h) pages of
        None \<Rightarrow> (h, None)
      | Some (low, sz) \<Rightarrow> (h\<lparr>low_vaddr := low\<rparr>, Some (low, sz, low_vaddr h)))"

text \<open>The second one: the region joins the arena, or the reservation is undone.\<close>

definition grow_commit :: "nat \<Rightarrow> nat \<Rightarrow> nat \<Rightarrow> backing \<Rightarrow> heap_inner \<Rightarrow> (string, heap_inner) result" where
  "grow_commit low sz old_low backing h =
     (case backing of
        Some (phys, scattered) \<Rightarrow>
          (case add_region low sz h of
             Inl t \<Rightarrow> Inl t
           | Inr h1 \<Rightarrow> register_chunk low (if scattered then 0 else phys) sz scattered h1)
      | None \<Rightarrow> Inr (if low_vaddr h = low then h\<lparr>low_vaddr := old_low\<rparr> else h))"

definition heap_grow :: "nat \<Rightarrow> backing \<Rightarrow> heap_inner \<Rightarrow> (string, heap_inner \<times> bool) result" where
  "heap_grow pages backing h =
     (case grow_reserve pages h of
        (h1, None) \<Rightarrow> Inr (h1, False)
      | (h1, Some (low, sz, old_low)) \<Rightarrow>
          (case grow_commit low sz old_low backing h1 of
             Inl t \<Rightarrow> Inl t
           | Inr h2 \<Rightarrow> Inr (h2, backing \<noteq> None)))"

section \<open>Allocation\<close>

text \<open>One critical section under the lock of the arena.\<close>

definition arena_alloc :: "nat \<Rightarrow> nat \<Rightarrow> kheap \<Rightarrow> (kheap \<times> nat) option" where
  "arena_alloc lsize lalign k =
     (case alloc_inner (kh_heap k) lsize lalign of
        None \<Rightarrow> None
      | Some (h, p) \<Rightarrow>
          Some (k\<lparr>kh_heap := (if p \<noteq> 0 \<and> ENABLE_HEAP_CHUNK_RECLAIM then mark_live p h else h)\<rparr>, p))"

definition pages_needed :: "nat \<Rightarrow> nat option" where
  "pages_needed lsize =
     (case checked_add64 lsize 4095 of None \<Rightarrow> None | Some s \<Rightarrow> checked_add64 (s div 4096) 1)"

definition alloc :: "nat \<Rightarrow> backing \<Rightarrow> nat \<Rightarrow> nat \<Rightarrow> kheap \<Rightarrow> (string, kheap \<times> nat) result option" where
  "alloc cpu backing lsize lalign k =
     (if \<not> kh_initialized k then Some (Inr (k, 0))
      else
        (case per_cpu_alloc_cached cpu lsize lalign k of
           None \<Rightarrow> None
         | Some (k1, cached) \<Rightarrow>
             if cached \<noteq> 0
             then Some (Inr (if ENABLE_HEAP_CHUNK_RECLAIM then k1\<lparr>kh_heap := mark_live cached (kh_heap k1)\<rparr> else k1, cached))
             else
               (case arena_alloc lsize lalign k1 of
                  None \<Rightarrow> None
                | Some (k2, p) \<Rightarrow>
                    if p \<noteq> 0 then Some (Inr (k2, p))
                    else
                      (case pages_needed lsize of
                         None \<Rightarrow> Some (Inr (k2, 0))
                       | Some n \<Rightarrow>
                           (case heap_grow (max n HEAP_GROW_PAGES) backing (kh_heap k2) of
                              Inl t \<Rightarrow> Some (Inl t)
                            | Inr (h3, b) \<Rightarrow>
                                (case arena_alloc lsize lalign (k2\<lparr>kh_heap := h3\<rparr>) of
                                   None \<Rightarrow> None
                                 | Some (k4, p4) \<Rightarrow> Some (Inr (k4, p4))))))))"

section \<open>Deallocation\<close>

text \<open>The live count goes down and the chunk is reclaimed when it becomes idle; the chunks to unmap are
  the second result.\<close>

definition reclaim_after :: "nat \<Rightarrow> kheap \<Rightarrow> (string, kheap \<times> reclaim_record list) result option" where
  "reclaim_after p k =
     (if \<not> ENABLE_HEAP_CHUNK_RECLAIM then Some (Inr (k, []))
      else
        (case unmark_live p (kh_heap k) of
           (h, None) \<Rightarrow> Some (Inr (k\<lparr>kh_heap := h\<rparr>, []))
         | (h, Some (idx, live)) \<Rightarrow>
             if live = 0 \<and> chunk_is_reclaimable h idx then try_reclaim idx (k\<lparr>kh_heap := h\<rparr>)
             else Some (Inr (k\<lparr>kh_heap := h\<rparr>, []))))"

definition arena_free :: "nat \<Rightarrow> kheap \<Rightarrow> (string, kheap) result" where
  "arena_free p k =
     (let block = from_payload (kh_mem k) p
      in case push_free block (set_next block 0 (kh_heap k)) of
           Inl t \<Rightarrow> Inl t
         | Inr h \<Rightarrow> Inr (k\<lparr>kh_heap := h\<rparr>))"

definition dealloc :: "nat \<Rightarrow> nat \<Rightarrow> kheap \<Rightarrow> (string, kheap \<times> reclaim_record list) result option" where
  "dealloc cpu p k =
     (if p = 0 then Some (Inr (k, []))
      else
        (case per_cpu_free_cached cpu p k of
           (k1, True) \<Rightarrow> reclaim_after p k1
         | (k1, False) \<Rightarrow>
             (case arena_free p k1 of
                Inl t \<Rightarrow> Some (Inl t)
              | Inr k2 \<Rightarrow> reclaim_after p k2)))"

section \<open>Snapshots\<close>

function snapshot_walk :: "memory \<Rightarrow> nat \<Rightarrow> nat \<Rightarrow> nat \<Rightarrow> nat option" where
  "snapshot_walk m steps len cur =
     (if cur = 0 then Some len
      else if steps + 1 > FREE_LIST_WALK_BOUND then None
      else if blk_next m cur = cur then None
      else snapshot_walk m (steps + 1) (len + 1) (blk_next m cur))"
  by pat_completeness auto
termination
  by (relation "measure (\<lambda>(m, steps, l, c). FREE_LIST_WALK_BOUND - steps)") auto

declare snapshot_walk.simps [simp del]

text \<open>\<open>Inl ()\<close> reports a corrupted free list.\<close>

definition heap_snapshot :: "kheap \<Rightarrow> (unit, nat \<times> nat \<times> nat) result" where
  "heap_snapshot k =
     (if \<not> kh_initialized k then Inr (0, 0, 0)
      else
        (case snapshot_walk (kh_mem k) 0 0 (free_list (kh_heap k)) of
           None \<Rightarrow> Inl ()
         | Some len \<Rightarrow> Inr (low_vaddr (kh_heap k), length (chunks (kh_heap k)), len)))"

definition heap_chunk_snapshot :: "nat \<Rightarrow> kheap \<Rightarrow> (nat \<times> nat \<times> nat \<times> nat \<times> bool) option" where
  "heap_chunk_snapshot idx k =
     (if \<not> kh_initialized k then None
      else if idx \<ge> length (chunks (kh_heap k)) then None
      else (let c = chunks (kh_heap k) ! idx in Some (ck_vaddr c, ck_phys c, ck_size c, ck_live c, ck_scattered c)))"

definition heap_chunk_count :: "kheap \<Rightarrow> nat" where
  "heap_chunk_count k = (if \<not> kh_initialized k then 0 else length (chunks (kh_heap k)))"

definition kheap_boot :: "memory \<Rightarrow> kheap" where
  "kheap_boot m = \<lparr>kh_heap = heap_empty m, kh_caches = replicate MAX_CPUS cache_empty, kh_initialized = False\<rparr>"

end
