(* ===== verification/Heap_List.thy ===== *)
theory Heap_List
  imports Heap_Arena
begin

text \<open>
  The free list of the arena as a list of extents in address order, and the two operations on it as
  functions on such lists: \<open>push_free\<close> inserts an extent and joins it with its neighbours, \<open>alloc_inner\<close>
  takes from the first extent that fits.
\<close>

type_synonym extent = "nat \<times> nat"

named_theorems heap_consts

lemmas heap_consts_defs [heap_consts] =
  HEADER_SIZE_def BLOCK_ALIGN_def BACKPTR_SIZE_def MIN_ALLOC_def MIN_BLOCK_SIZE_def
  KERNEL_VMA_BASE_def HEAP_TOP_def HEAP_FLOOR_def HEAP_GUARD_BYTES_def

fun bytes :: "extent \<Rightarrow> nat set" where
  "bytes (a, s) = {a..<a + s}"

lemma bytes_iff: "w \<in> bytes x \<longleftrightarrow> fst x \<le> w \<and> w < fst x + snd x"
  by (cases x) auto

fun block_ok :: "extent \<Rightarrow> bool" where
  "block_ok (a, s) \<longleftrightarrow> a mod 8 = 0 \<and> s mod 8 = 0 \<and> 32 \<le> s \<and> HEAP_FLOOR \<le> a \<and> a + s \<le> HEAP_TOP"

fun fseg :: "memory \<Rightarrow> nat \<Rightarrow> extent list \<Rightarrow> nat \<Rightarrow> bool" where
  "fseg m p [] q \<longleftrightarrow> p = q"
| "fseg m p ((a, s) # xs) q \<longleftrightarrow> p = a \<and> m a = s \<and> fseg m (m (a + 8)) xs q"

definition ordered :: "extent list \<Rightarrow> bool" where
  "ordered = sorted_wrt (\<lambda>x y. fst x + snd x \<le> fst y)"

definition last_addr :: "extent list \<Rightarrow> nat" where
  "last_addr xs = (if xs = [] then 0 else fst (last xs))"

definition free_wf :: "memory \<Rightarrow> nat \<Rightarrow> extent list \<Rightarrow> bool" where
  "free_wf m p F \<longleftrightarrow> fseg m p F 0 \<and> ordered F \<and> (\<forall>x\<in>set F. block_ok x)"

abbreviation all_bytes :: "extent list \<Rightarrow> nat set" where
  "all_bytes F \<equiv> \<Union> (bytes ` set F)"

section \<open>The abstract free store\<close>

definition join_right :: "nat \<Rightarrow> nat \<Rightarrow> extent list \<Rightarrow> extent list" where
  "join_right b s ys =
     (case ys of [] \<Rightarrow> [(b, s)] | y # zs \<Rightarrow> if b + s = fst y then (b, s + snd y) # zs else (b, s) # ys)"

definition join_left :: "extent list \<Rightarrow> extent list \<Rightarrow> extent list" where
  "join_left xs ys =
     (if xs \<noteq> [] \<and> fst (last xs) + snd (last xs) = fst (hd ys)
      then butlast xs @ (fst (last xs), snd (last xs) + snd (hd ys)) # tl ys
      else xs @ ys)"

definition free_insert :: "nat \<Rightarrow> nat \<Rightarrow> extent list \<Rightarrow> extent list" where
  "free_insert b s F =
     join_left (takeWhile (\<lambda>x. fst x < b) F) (join_right b s (dropWhile (\<lambda>x. fst x < b) F))"

definition fit :: "nat \<Rightarrow> nat \<Rightarrow> extent \<Rightarrow> (nat \<times> nat) option" where
  "fit align need x =
     (let p = align_down (fst x + 24 + align - 1) align;
          e = align_down (p + need + 7) 8
      in if e \<le> fst x + snd x then Some (p, e) else None)"

text \<open>The block taken, its payload, and the extents that stay free.\<close>

fun first_fit :: "nat \<Rightarrow> nat \<Rightarrow> extent list \<Rightarrow> (extent \<times> nat \<times> extent list) option" where
  "first_fit align need [] = None"
| "first_fit align need (x # xs) =
     (case fit align need x of
        Some (p, e) \<Rightarrow>
          (if fst x + snd x - e \<ge> 32
           then Some ((fst x, e - fst x), p, (e, fst x + snd x - e) # xs)
           else Some (x, p, xs))
      | None \<Rightarrow>
          (case first_fit align need xs of
             None \<Rightarrow> None
           | Some (blk, p, ys) \<Rightarrow> Some (blk, p, x # ys)))"

section \<open>Segments\<close>

lemma fseg_append: "fseg m p (xs @ ys) q \<longleftrightarrow> (\<exists>r. fseg m p xs r \<and> fseg m r ys q)"
  by (induction m p xs q rule: fseg.induct) auto

lemma fseg_cong:
  assumes "\<And>x. x \<in> set F \<Longrightarrow> m' (fst x) = m (fst x)" "\<And>x. x \<in> set F \<Longrightarrow> m' (fst x + 8) = m (fst x + 8)"
  shows "fseg m' p F q = fseg m p F q"
  using assms
proof (induction F arbitrary: p)
  case (Cons x F)
  have "m' (fst x) = m (fst x)" "m' (fst x + 8) = m (fst x + 8)" using Cons.prems by simp_all
  moreover have "fseg m' r F q = fseg m r F q" for r using Cons.prems by (intro Cons.IH) simp_all
  ultimately show ?case by (cases x) auto
qed simp

lemma fseg_next_last:
  assumes "fseg m p (xs @ [x]) q" shows "m (fst x + 8) = q"
  using assms by (cases x) (auto simp: fseg_append)

lemma fseg_head: "fseg m p (x # xs) q \<longleftrightarrow> p = fst x \<and> m p = snd x \<and> fseg m (m (p + 8)) xs q"
  by (cases x) auto

lemma ordered_append:
  "ordered (xs @ ys) \<longleftrightarrow> ordered xs \<and> ordered ys \<and> (\<forall>x\<in>set xs. \<forall>y\<in>set ys. fst x + snd x \<le> fst y)"
  by (simp add: ordered_def sorted_wrt_append)

lemma ordered_Cons: "ordered (x # xs) \<longleftrightarrow> (\<forall>y\<in>set xs. fst x + snd x \<le> fst y) \<and> ordered xs"
  by (simp add: ordered_def)

lemma ordered_Nil [simp]: "ordered []"
  by (simp add: ordered_def)

lemma block_okD:
  assumes "block_ok x"
  shows "32 \<le> snd x" "fst x \<noteq> 0" "fst x + snd x \<le> u64_max" "snd x \<le> 0x40000000" "fst x mod 8 = 0" "snd x mod 8 = 0"
    "HEAP_FLOOR \<le> fst x" "fst x + snd x \<le> HEAP_TOP"
  using assms by (cases x; simp add: heap_consts u64_max_def)+

lemma block_ok_valid: "block_ok x \<Longrightarrow> m (fst x) = snd x \<Longrightarrow> is_valid m (fst x)"
  by (cases x) (simp add: is_valid_def blk_size_def checked_add64_def heap_consts u64_max_def Let_def)

text \<open>Relinking the last node of a segment.\<close>

lemma relink_frame:
  "hp_mem (relink p nx h) w = (if p \<noteq> 0 \<and> w = p + 8 then nx else hp_mem h w)"
  by (simp add: relink_def set_next_def)

lemma relink_rest [simp]:
  "chunks (relink p nx h) = chunks h" "low_vaddr (relink p nx h) = low_vaddr h" "hp_root (relink p nx h) = hp_root h"
  by (simp_all add: relink_def set_next_def)

lemma ordered_distinct:
  assumes "ordered (xs @ [x])" "y \<in> set xs" "32 \<le> snd y"
  shows "fst y + 32 \<le> fst x"
  using assms by (force simp: ordered_append)

lemma relink_fseg:
  assumes s: "fseg (hp_mem h) (free_list h) xs r" and o: "ordered xs" and ok: "\<forall>x\<in>set xs. block_ok x"
  shows "fseg (hp_mem (relink (last_addr xs) nx h)) (free_list (relink (last_addr xs) nx h)) xs nx"
proof (cases xs rule: rev_cases)
  case Nil
  then show ?thesis by (simp add: relink_def last_addr_def)
next
  case (snoc ys y)
  have y: "fst y \<noteq> 0" using ok snoc block_okD(2) by simp
  have sep: "fst x + 32 \<le> fst y" if "x \<in> set ys" for x
    using ordered_distinct [OF o [unfolded snoc] that] ok snoc that block_okD(1) by simp
  obtain q where q: "fseg (hp_mem h) (free_list h) ys q" "q = fst y" "hp_mem h (fst y) = snd y"
    using s snoc by (auto simp: fseg_append fseg_head)
  let ?h = "relink (fst y) nx h"
  have "fseg (hp_mem ?h) (free_list h) ys q"
    using q(1) by (subst fseg_cong [where m = "hp_mem h"]) (auto simp: relink_frame dest: sep)
  moreover have "free_list ?h = free_list h" using y by (simp add: relink_def set_next_def)
  moreover have "hp_mem ?h (fst y) = snd y" "hp_mem ?h (fst y + 8) = nx" using q(3) y by (simp_all add: relink_frame)
  ultimately show ?thesis using q(2) by (simp add: snoc fseg_append fseg_head last_addr_def)
qed

section \<open>Insertion\<close>

lemma push_walk_wf:
  assumes "fseg (hp_mem h) cur xs nxt" "\<forall>x\<in>set xs. block_ok x \<and> fst x < b" "nxt = 0 \<or> b \<le> nxt"
    "steps + length xs \<le> FREE_LIST_WALK_BOUND"
  shows "push_walk b steps h prev cur = Inr (h, if xs = [] then prev else last_addr xs, nxt)"
  using assms
proof (induction xs arbitrary: steps prev cur)
  case Nil
  then show ?case by (subst push_walk.simps) auto
next
  case (Cons x xs)
  have c: "cur = fst x" "hp_mem h cur = snd x" "fseg (hp_mem h) (blk_next (hp_mem h) cur) xs nxt"
    using Cons.prems(1) by (auto simp: fseg_head blk_next_def)
  have v: "is_valid (hp_mem h) cur" using block_ok_valid [of x "hp_mem h"] c Cons.prems(2) by simp
  have ne: "cur \<noteq> 0" "cur < b" using c Cons.prems(2) block_okD(2) by auto
  have "push_walk b (steps + 1) h cur (blk_next (hp_mem h) cur)
        = Inr (h, if xs = [] then cur else last_addr xs, nxt)"
    using Cons.prems by (intro Cons.IH [OF c(3)]) auto
  then show ?case
    using v ne Cons.prems(4) c(1) by (subst push_walk.simps) (simp add: last_addr_def)
qed

lemma push_walk_long:
  assumes "fseg (hp_mem h) cur xs nxt" "\<forall>x\<in>set xs. block_ok x \<and> fst x < b" "FREE_LIST_WALK_BOUND < steps + length xs"
  shows "\<exists>t. push_walk b steps h prev cur = Inl t \<or> FREE_LIST_WALK_BOUND < steps"
  using assms
proof (induction xs arbitrary: steps prev cur)
  case (Cons x xs)
  have c: "cur = fst x" "hp_mem h cur = snd x" "fseg (hp_mem h) (blk_next (hp_mem h) cur) xs nxt"
    using Cons.prems(1) by (auto simp: fseg_head blk_next_def)
  have v: "is_valid (hp_mem h) cur" using block_ok_valid [of x "hp_mem h"] c Cons.prems(2) by simp
  have ne: "cur \<noteq> 0" "cur < b" using c Cons.prems(2) block_okD(2) by auto
  have "\<exists>t. push_walk b (steps + 1) h cur (blk_next (hp_mem h) cur) = Inl t \<or> FREE_LIST_WALK_BOUND < steps + 1"
    using Cons.prems by (intro Cons.IH [OF c(3)]) auto
  then show ?case using v ne by (subst push_walk.simps) auto
qed simp

lemma takeWhile_ordered_ge:
  assumes "ordered F" "x \<in> set (dropWhile (\<lambda>x. fst x < b) F)"
  shows "b \<le> fst x"
  using assms
proof (induction F)
  case (Cons y F)
  show ?case
  proof (cases "fst y < b")
    case True
    then show ?thesis using Cons by (simp add: ordered_Cons)
  next
    case False
    then have "x = y \<or> x \<in> set F" using Cons.prems by simp
    then show ?thesis using False Cons.prems(1) by (force simp: ordered_Cons)
  qed
qed simp

text \<open>The two joins on memory. The words that change lie in the headers of the blocks involved.\<close>

definition same_outside :: "nat set \<Rightarrow> heap_inner \<Rightarrow> heap_inner \<Rightarrow> bool" where
  "same_outside S h h' \<longleftrightarrow>
     (\<forall>w. w \<notin> S \<longrightarrow> hp_mem h' w = hp_mem h w) \<and> chunks h' = chunks h \<and> low_vaddr h' = low_vaddr h \<and> hp_root h' = hp_root h"

lemma same_outside_refl [simp]: "same_outside S h h"
  by (simp add: same_outside_def)

lemma same_outside_trans: "same_outside S h h1 \<Longrightarrow> same_outside S h1 h2 \<Longrightarrow> same_outside S h h2"
  by (simp add: same_outside_def)

lemma same_outside_mono: "same_outside S h h' \<Longrightarrow> S \<subseteq> T \<Longrightarrow> same_outside T h h'"
  by (auto simp: same_outside_def)

lemma same_outside_set_next: "a + 8 \<in> S \<Longrightarrow> same_outside S h (set_next a nx h)"
  by (auto simp: same_outside_def set_next_def)

lemma same_outside_set_size: "a \<in> S \<Longrightarrow> same_outside S h (set_size a nx h)"
  by (auto simp: same_outside_def set_size_def)

lemma same_outside_relink: "p = 0 \<or> p + 8 \<in> S \<Longrightarrow> same_outside S h (relink p nx h)"
  by (auto simp: same_outside_def relink_def set_next_def)

lemma join_next_wf:
  assumes seg: "fseg (hp_mem h) nxt ys 0" and ys: "ordered ((b, s) # ys)" "\<forall>x\<in>set ((b, s) # ys). block_ok x"
    and hb: "hp_mem h b = s"  "hp_mem h (b + 8) = 0"
  shows "\<exists>h'. join_next b nxt h = Inr h' \<and> fseg (hp_mem h') b (join_right b s ys) 0 \<and> free_list h' = free_list h
    \<and> same_outside {b, b + 8} h h'"
proof (cases ys)
  case Nil
  then show ?thesis using seg hb by (simp add: join_next_def join_right_def Let_def)
next
  case (Cons y zs)
  have n: "nxt = fst y" "hp_mem h nxt = snd y" "fseg (hp_mem h) (hp_mem h (nxt + 8)) zs 0" "nxt \<noteq> 0"
    using seg ys(2) block_okD(2) Cons by (auto simp: fseg_head)
  have sep: "b + 32 \<le> fst x" if "x \<in> set ys" for x
    using ys that by (auto simp: ordered_Cons dest!: block_okD(1) bspec)
  have ok: "block_ok (b, s)" "block_ok y" using ys(2) Cons by auto
  have e: "blk_end (hp_mem h) b = b + s"
    using block_okD(3) [OF ok(1)] hb by (simp add: blk_end_def blk_size_def checked_add64_def)
  have keep: "fseg (m(b := v, b + 8 := w)) r us 0 = fseg m r us 0" if "set us \<subseteq> set ys" for m v w r us
    using that by (intro fseg_cong) (auto dest!: sep subsetD)
  show ?thesis
  proof (cases "b + s = nxt")
    case True
    have "fst y + snd y \<le> HEAP_TOP" "HEAP_FLOOR \<le> b" using block_okD(7,8) ok by auto
    then have sz: "s + snd y \<le> 0x40000000" using True n(1) by (simp add: heap_consts)
    then have "s + snd y \<le> u64_max" by (simp add: u64_max_def)
    then have j: "join_next b nxt h = Inr (set_next b (hp_mem h (nxt + 8)) (set_size b (s + snd y) h))"
      using sz e True n hb by (simp add: join_next_def Let_def blk_size_def blk_next_def checked_add64_def)
    moreover have "fseg (hp_mem (set_next b (hp_mem h (nxt + 8)) (set_size b (s + snd y) h))) b ((b, s + snd y) # zs) 0"
      using n(3) keep [of zs] Cons by (auto simp: set_next_def set_size_def)
    ultimately show ?thesis using True n(1) Cons
      by (intro exI [of _ "set_next b (hp_mem h (nxt + 8)) (set_size b (s + snd y) h)"])
         (auto simp: join_right_def same_outside_def set_next_def set_size_def)
  next
    case False
    then have j: "join_next b nxt h = Inr (set_next b nxt h)"
      using e n by (simp add: join_next_def Let_def)
    have "fseg (hp_mem (set_next b nxt h)) nxt ys 0"
      using seg by (subst fseg_cong [where m = "hp_mem h"]) (auto simp: set_next_def dest!: sep)
    then have "fseg (hp_mem (set_next b nxt h)) b ((b, s) # ys) 0" using hb by (simp add: set_next_def)
    then show ?thesis using j False n(1) Cons
      by (intro exI [of _ "set_next b nxt h"]) (auto simp: join_right_def same_outside_def set_next_def)
  qed
qed

lemma header_in_bytes: "block_ok x \<Longrightarrow> fst x \<in> bytes x \<and> fst x + 8 \<in> bytes x"
  by (cases x) (simp add: heap_consts)

lemma join_prev_wf:
  assumes sx: "fseg (hp_mem h) (free_list h) xs r" and sz: "fseg (hp_mem h) b zs 0" "zs \<noteq> []" "fst (hd zs) = b"
    and o: "ordered (xs @ zs)" "\<forall>x\<in>set (xs @ zs). block_ok x"
  shows "\<exists>h'. join_prev b (last_addr xs) h = Inr h' \<and> fseg (hp_mem h') (free_list h') (join_left xs zs) 0
    \<and> same_outside (all_bytes xs) h h'"
proof (cases "xs \<noteq> [] \<and> fst (last xs) + snd (last xs) = b")
  case False
  let ?h = "relink (last_addr xs) b h"
  have ends: "blk_end (hp_mem h) (last_addr xs) \<noteq> b" if "xs \<noteq> []"
  proof -
    have "hp_mem h (fst (last xs)) = snd (last xs)"
      using sx that by (cases xs rule: rev_cases) (auto simp: fseg_append fseg_head)
    moreover have "block_ok (last xs)" using o(2) that by simp
    ultimately show ?thesis using False that block_okD(3) [of "last xs"]
      by (simp add: last_addr_def blk_end_def blk_size_def checked_add64_def)
  qed
  have l0: "last_addr xs = 0 \<longleftrightarrow> xs = []" using o(2) block_okD(2) by (auto simp: last_addr_def)
  have j: "join_prev b (last_addr xs) h = Inr ?h"
    using ends l0 by (auto simp: join_prev_def relink_def Let_def)
  have "fseg (hp_mem ?h) b zs 0"
  proof (subst fseg_cong [where m = "hp_mem h"])
    fix z assume z: "z \<in> set zs"
    have "last_addr xs + 32 \<le> fst z" if "xs \<noteq> []"
    proof -
      have "last xs \<in> set xs" using that by simp
      then have "fst (last xs) + snd (last xs) \<le> fst z" "32 \<le> snd (last xs)"
        using o z block_okD(1) [of "last xs"] by (auto simp: ordered_append)
      then show ?thesis using that by (simp add: last_addr_def)
    qed
    then show "hp_mem ?h (fst z) = hp_mem h (fst z)" "hp_mem ?h (fst z + 8) = hp_mem h (fst z + 8)"
      using l0 by (auto simp: relink_frame)
  qed (rule sz(1))
  moreover have "fseg (hp_mem ?h) (free_list ?h) xs b"
    using o by (intro relink_fseg [OF sx]) (auto simp: ordered_append)
  moreover have "same_outside (all_bytes xs) h ?h"
    using l0 o(2) header_in_bytes [of "last xs"]
    by (intro same_outside_relink) (auto simp: last_addr_def intro!: bexI [of _ "last xs"])
  ultimately show ?thesis using j False sz(3) by (auto simp: join_left_def fseg_append)
next
  case True
  then obtain us u where xs: "xs = us @ [u]" by (cases xs rule: rev_cases) auto
  obtain t ws where zs: "zs = (b, t) # ws" using sz(2,3) by (cases zs; force)
  have ok: "block_ok u" "block_ok (b, t)" using o(2) xs zs by auto
  have b: "fst u + snd u = b" using True xs by simp
  have mu: "hp_mem h (fst u) = snd u" "fseg (hp_mem h) (free_list h) us (fst u)"
    using sx xs by (auto simp: fseg_append fseg_head)
  have mb: "hp_mem h b = t" "fseg (hp_mem h) (hp_mem h (b + 8)) ws 0" using sz(1) zs by auto
  have e: "blk_end (hp_mem h) (fst u) = b"
    using block_okD(3) [OF ok(1)] mu(1) b by (simp add: blk_end_def blk_size_def checked_add64_def)
  have "b + t \<le> HEAP_TOP" "HEAP_FLOOR \<le> fst u" using block_okD(7,8) ok by auto
  then have le: "snd u + t \<le> 0x40000000" using b by (simp add: heap_consts)
  then have le2: "snd u + t \<le> u64_max" by (simp add: u64_max_def)
  let ?h = "set_next (fst u) (hp_mem h (b + 8)) (set_size (fst u) (snd u + t) h)"
  have j: "join_prev b (last_addr xs) h = Inr ?h"
    using e le le2 mu(1) mb(1) block_okD(2) [OF ok(1)]
    by (simp add: join_prev_def Let_def xs last_addr_def blk_size_def blk_next_def checked_add64_def)
  have su: "fst x + 32 \<le> fst u" if "x \<in> set us" for x
    using ordered_distinct [of us u x] o that xs block_okD(1) [of x] by (auto simp: ordered_append)
  have sw: "fst u + 32 \<le> fst x" if "x \<in> set ws" for x
    using o(1) that xs zs block_okD(1) [OF ok(1)] by (force simp: ordered_append ordered_Cons)
  have m: "hp_mem ?h = (hp_mem h)(fst u := snd u + t, fst u + 8 := hp_mem h (b + 8))"
    by (simp add: set_next_def set_size_def)
  have "fseg (hp_mem ?h) (free_list h) us (fst u)" unfolding m
    using mu(2) by (subst fseg_cong [where m = "hp_mem h"]) (auto dest!: su)
  moreover have "fseg (hp_mem ?h) (hp_mem h (b + 8)) ws 0" unfolding m
    using mb(2) by (subst fseg_cong [where m = "hp_mem h"]) (auto dest!: sw)
  ultimately have "fseg (hp_mem ?h) (free_list h) (us @ (fst u, snd u + t) # ws) 0"
    by (auto simp: fseg_append fseg_head m)
  moreover have "same_outside (all_bytes xs) h ?h"
    using header_in_bytes [OF ok(1)] xs by (auto simp: same_outside_def m) (auto simp: set_next_def set_size_def)
  ultimately show ?thesis using j b
    by (intro exI [of _ ?h]) (auto simp: join_left_def xs zs set_next_def set_size_def)
qed

section \<open>What insertion keeps\<close>

lemma join_right_wf:
  assumes "ordered ((b, s) # ys)" "\<forall>x\<in>set ((b, s) # ys). block_ok x"
  shows "ordered (join_right b s ys)" "\<forall>x\<in>set (join_right b s ys). block_ok x \<and> b \<le> fst x"
    "all_bytes (join_right b s ys) = bytes (b, s) \<union> all_bytes ys" "join_right b s ys \<noteq> []" "fst (hd (join_right b s ys)) = b"
proof -
  show "ordered (join_right b s ys)"
    using assms(1) by (cases ys) (auto simp: join_right_def ordered_Cons)
  have k: "block_ok (b, s + t)" if "block_ok (b + s, t)" "block_ok (b, s)" for t
    using that by (auto simp: mod_add_eq [symmetric, of s t])
  have g: "b \<le> fst y" if "y \<in> set ys" for y
    using assms(1) that by (fastforce simp: ordered_Cons)
  show "\<forall>x\<in>set (join_right b s ys). block_ok x \<and> b \<le> fst x"
    using assms(2) g k by (cases ys) (auto simp del: block_ok.simps simp: join_right_def)
  show "all_bytes (join_right b s ys) = bytes (b, s) \<union> all_bytes ys"
    by (cases ys) (auto simp: join_right_def)
qed (auto simp: join_right_def split: list.splits)

lemma join_left_wf:
  assumes "ordered (xs @ zs)" "\<forall>x\<in>set (xs @ zs). block_ok x" "zs \<noteq> []"
  shows "ordered (join_left xs zs)" "\<forall>x\<in>set (join_left xs zs). block_ok x"
    "all_bytes (join_left xs zs) = all_bytes xs \<union> all_bytes zs"
proof -
  obtain b t ws where zs: "zs = (b, t) # ws" using assms(3) by (cases zs) auto
  consider "join_left xs zs = xs @ zs"
    | us a s where "xs = us @ [(a, s)]" "a + s = b" "join_left xs zs = us @ (a, s + t) # ws"
  proof (cases "xs \<noteq> [] \<and> fst (last xs) + snd (last xs) = b")
    case True
    then obtain us a s where "xs = us @ [(a, s)]" by (cases xs rule: rev_cases) auto
    then show thesis using True zs that(2) [of us a s] by (simp add: join_left_def)
  next
    case False
    then show thesis using zs that(1) by (auto simp: join_left_def)
  qed
  then have "ordered (join_left xs zs) \<and> (\<forall>x\<in>set (join_left xs zs). block_ok x)
    \<and> all_bytes (join_left xs zs) = all_bytes xs \<union> all_bytes zs"
  proof cases
    case 1
    then show ?thesis using assms by auto
  next
    case 2
    have o: "ordered (us @ (a, s + t) # ws)" using assms(1) 2 zs by (auto simp: ordered_append ordered_Cons)
    have k: "\<forall>x\<in>set (us @ (a, s + t) # ws). block_ok x"
      using assms(2) 2 zs by (auto simp: mod_add_eq [symmetric, of s t])
    show ?thesis using o k 2 zs by auto
  qed
  then show "ordered (join_left xs zs)" "\<forall>x\<in>set (join_left xs zs). block_ok x"
    "all_bytes (join_left xs zs) = all_bytes xs \<union> all_bytes zs" by auto
qed

lemma split_at:
  assumes "ordered F" "\<forall>x\<in>set F. block_ok x" "block_ok (b, s)" "all_bytes F \<inter> bytes (b, s) = {}"
  defines "xs \<equiv> takeWhile (\<lambda>x. fst x < b) F" and "ys \<equiv> dropWhile (\<lambda>x. fst x < b) F"
  shows "F = xs @ ys" "ordered (xs @ (b, s) # ys)" "\<forall>x\<in>set (xs @ (b, s) # ys). block_ok x"
    "\<forall>x\<in>set xs. fst x < b" "\<forall>y\<in>set ys. b \<le> fst y"
proof -
  show F: "F = xs @ ys" by (simp add: xs_def ys_def)
  show lt: "\<forall>x\<in>set xs. fst x < b" by (auto simp: xs_def dest: set_takeWhileD)
  show ge: "\<forall>y\<in>set ys. b \<le> fst y" using takeWhile_ordered_ge [OF assms(1)] by (auto simp: ys_def)
  show "\<forall>x\<in>set (xs @ (b, s) # ys). block_ok x" using assms(2,3) F by auto
  have dj: "bytes x \<inter> bytes (b, s) = {}" if "x \<in> set F" for x using assms(4) that by auto
  have s: "32 \<le> s" using block_okD(1) [OF assms(3)] by simp
  have "fst x + snd x \<le> b" if "x \<in> set xs" for x
  proof (rule ccontr)
    assume "\<not> fst x + snd x \<le> b"
    then have "b \<in> bytes x \<inter> bytes (b, s)" using lt that s by (cases x) auto
    moreover have "bytes x \<inter> bytes (b, s) = {}" using dj F that by simp
    ultimately show False by blast
  qed
  moreover have "b + s \<le> fst y" if "y \<in> set ys" for y
  proof (rule ccontr)
    assume n: "\<not> b + s \<le> fst y"
    have "32 \<le> snd y" using assms(2) F that block_okD(1) by auto
    then have "fst y \<in> bytes y \<inter> bytes (b, s)" using n ge that by (cases y) auto
    moreover have "bytes y \<inter> bytes (b, s) = {}" using dj F that by simp
    ultimately show False by blast
  qed
  ultimately show "ordered (xs @ (b, s) # ys)"
    using assms(1) F by (fastforce simp: ordered_append ordered_Cons)
qed

lemma prefix_join_right:
  assumes "ordered (xs @ (b, s) # ys)" "\<forall>x\<in>set (xs @ (b, s) # ys). block_ok x"
  shows "ordered (xs @ join_right b s ys)" "\<forall>x\<in>set (xs @ join_right b s ys). block_ok x"
proof -
  have r: "ordered ((b, s) # ys)" "\<forall>x\<in>set ((b, s) # ys). block_ok x" using assms by (auto simp: ordered_append)
  note jr = join_right_wf [OF r]
  have "fst x + snd x \<le> fst y" if "x \<in> set xs" "y \<in> set (join_right b s ys)" for x y
  proof -
    have "fst x + snd x \<le> b" using assms(1) that(1) by (simp add: ordered_append)
    also have "b \<le> fst y" using jr(2) that(2) by simp
    finally show ?thesis .
  qed
  then show "ordered (xs @ join_right b s ys)" using assms(1) jr(1) by (simp add: ordered_append)
  show "\<forall>x\<in>set (xs @ join_right b s ys). block_ok x" using assms(2) jr(2) by auto
qed

lemma free_insert_wf:
  assumes "ordered F" "\<forall>x\<in>set F. block_ok x" "block_ok (b, s)" "all_bytes F \<inter> bytes (b, s) = {}"
  shows "ordered (free_insert b s F)" "\<forall>x\<in>set (free_insert b s F). block_ok x"
    "all_bytes (free_insert b s F) = bytes (b, s) \<union> all_bytes F"
proof -
  let ?xs = "takeWhile (\<lambda>x. fst x < b) F" and ?ys = "dropWhile (\<lambda>x. fst x < b) F"
  note sp = split_at [OF assms]
  have r: "ordered ((b, s) # ?ys)" "\<forall>x\<in>set ((b, s) # ?ys). block_ok x" using sp(2,3) by (auto simp: ordered_append)
  note jr = join_right_wf [OF r]
  note o = prefix_join_right [OF sp(2,3)]
  note jl = join_left_wf [OF o jr(4)]
  show "ordered (free_insert b s F)" "\<forall>x\<in>set (free_insert b s F). block_ok x" using jl(1,2) by (simp_all add: free_insert_def)
  have "all_bytes (?xs @ ?ys) = all_bytes ?xs \<union> all_bytes ?ys" by (simp del: takeWhile_dropWhile_id)
  then have "all_bytes F = all_bytes ?xs \<union> all_bytes ?ys" by simp
  then show "all_bytes (free_insert b s F) = bytes (b, s) \<union> all_bytes F"
    using jl(3) jr(3) by (auto simp: free_insert_def)
qed

lemma set_next_fseg:
  assumes "free_wf (hp_mem h) (free_list h) F" "block_ok (b, s)" "all_bytes F \<inter> bytes (b, s) = {}"
  shows "fseg (hp_mem (set_next b nx h)) (free_list (set_next b nx h)) F 0"
proof -
  have "fst x \<noteq> b + 8 \<and> fst x + 8 \<noteq> b + 8" if "x \<in> set F" for x
    using header_in_bytes [of x] header_in_bytes [OF assms(2)] assms(1,3) that by (fastforce simp: free_wf_def)
  then show ?thesis using assms(1) unfolding free_wf_def
    by (subst fseg_cong [where m = "hp_mem h"]) (auto simp: set_next_def)
qed

text \<open>\<open>push_free\<close> of a block outside the free list: no fault, and the list of the result is the insertion.\<close>

lemma push_free_refines:
  assumes wf: "free_wf (hp_mem h) (free_list h) F" and b: "block_ok (b, s)" "hp_mem h b = s"
    and dj: "all_bytes F \<inter> bytes (b, s) = {}" and len: "length (takeWhile (\<lambda>x. fst x < b) F) \<le> FREE_LIST_WALK_BOUND"
  shows "\<exists>h'. push_free b h = Inr h' \<and> free_wf (hp_mem h') (free_list h') (free_insert b s F)
    \<and> same_outside (bytes (b, s) \<union> all_bytes F) h h'"
proof -
  let ?xs = "takeWhile (\<lambda>x. fst x < b) F" and ?ys = "dropWhile (\<lambda>x. fst x < b) F"
  have F: "ordered F" "\<forall>x\<in>set F. block_ok x" "fseg (hp_mem h) (free_list h) F 0" using wf by (auto simp: free_wf_def)
  note sp = split_at [OF F(1,2) b(1) dj]
  let ?h = "set_next b 0 h"
  have seg: "fseg (hp_mem ?h) (free_list ?h) F 0" by (rule set_next_fseg [OF wf b(1) dj])
  then have "fseg (hp_mem ?h) (free_list ?h) (?xs @ ?ys) 0" by simp
  then obtain nxt where n: "fseg (hp_mem ?h) (free_list ?h) ?xs nxt" "fseg (hp_mem ?h) nxt ?ys 0"
    unfolding fseg_append by blast
  have nx: "nxt = 0 \<or> b \<le> nxt" using n(2) sp(5) by (cases ?ys) (auto simp: fseg_head)
  have len2: "0 + length ?xs \<le> FREE_LIST_WALK_BOUND" using len by simp
  have w: "push_walk b 0 ?h 0 (free_list h) = Inr (?h, last_addr ?xs, nxt)"
    using push_walk_wf [OF n(1) _ nx len2, of 0] sp(3,4) by (simp add: set_next_def last_addr_def split: if_splits)
  have vb: "is_valid (hp_mem h) b" using block_ok_valid [OF b(1), of "hp_mem h"] b(2) by simp
  have vn: "nxt = 0 \<or> is_valid (hp_mem ?h) nxt"
    using n(2) sp(3) block_ok_valid by (cases ?ys) (auto simp: fseg_head)
  have vp: "last_addr ?xs = 0 \<or> is_valid (hp_mem ?h) (last_addr ?xs)"
  proof (cases ?xs rule: rev_cases)
    case (snoc us u)
    then have "hp_mem ?h (fst u) = snd u" "block_ok u" using n(1) sp(3) by (auto simp: fseg_append fseg_head)
    then show ?thesis using block_ok_valid snoc by (simp add: last_addr_def)
  qed (simp add: last_addr_def)
  have p: "push_free b h = (case join_next b nxt ?h of Inl t \<Rightarrow> Inl t | Inr h3 \<Rightarrow> join_prev b (last_addr ?xs) h3)"
    using vb vn vp w by (auto simp: push_free_def Let_def)
  have r: "ordered ((b, s) # ?ys)" "\<forall>x\<in>set ((b, s) # ?ys). block_ok x" using sp(2,3) by (auto simp: ordered_append)
  have hb: "hp_mem ?h b = s" "hp_mem ?h (b + 8) = 0" using b(2) by (simp_all add: set_next_def)
  obtain h3 where h3: "join_next b nxt ?h = Inr h3" "fseg (hp_mem h3) b (join_right b s ?ys) 0"
    "free_list h3 = free_list ?h" "same_outside {b, b + 8} ?h h3"
    using join_next_wf [OF n(2) r hb] by blast
  note jr = join_right_wf [OF r]
  note o = prefix_join_right [OF sp(2,3)]
  have x3: "fseg (hp_mem h3) (free_list h3) ?xs nxt"
  proof -
    have "fst x + 32 \<le> b" if "x \<in> set ?xs" for x
      using sp(2,3) that block_okD(1) [of x] by (force simp: ordered_append)
    then have k: "fst x \<notin> {b, b + 8} \<and> fst x + 8 \<notin> {b, b + 8}" if "x \<in> set ?xs" for x
      using that by fastforce
    have "fseg (hp_mem h3) r ?xs q = fseg (hp_mem ?h) r ?xs q" for r q
      using h3(4) k unfolding same_outside_def by (intro fseg_cong) blast+
    then show ?thesis using n(1) h3(3) by simp
  qed
  obtain h' where h': "join_prev b (last_addr ?xs) h3 = Inr h'" "fseg (hp_mem h') (free_list h') (join_left ?xs (join_right b s ?ys)) 0"
    "same_outside (all_bytes ?xs) h3 h'"
    using join_prev_wf [OF x3 h3(2) jr(4,5) o] by blast
  have "set ?xs \<subseteq> set F" by (auto dest: set_takeWhileD)
  then have sub: "all_bytes ?xs \<subseteq> bytes (b, s) \<union> all_bytes F" by (intro le_supI2 Union_mono image_mono)
  have hd: "{b, b + 8} \<subseteq> bytes (b, s) \<union> all_bytes F" using header_in_bytes [OF b(1)] by simp
  then have "same_outside (bytes (b, s) \<union> all_bytes F) h ?h" by (intro same_outside_set_next) simp
  note s3 = same_outside_trans [OF same_outside_trans [OF this same_outside_mono [OF h3(4) hd]] same_outside_mono [OF h'(3) sub]]
  have "push_free b h = Inr h'" using p h3(1) h'(1) by simp
  moreover have "free_wf (hp_mem h') (free_list h') (free_insert b s F)"
    using h'(2) free_insert_wf(1,2) [OF F(1,2) b(1) dj] unfolding free_wf_def free_insert_def by blast
  ultimately show ?thesis using s3 by blast
qed

lemma push_free_long:
  assumes wf: "free_wf (hp_mem h) (free_list h) F" and b: "block_ok (b, s)" "hp_mem h b = s"
    and dj: "all_bytes F \<inter> bytes (b, s) = {}" and len: "FREE_LIST_WALK_BOUND < length (takeWhile (\<lambda>x. fst x < b) F)"
  shows "\<exists>t. push_free b h = Inl t"
proof -
  let ?xs = "takeWhile (\<lambda>x. fst x < b) F" and ?ys = "dropWhile (\<lambda>x. fst x < b) F" and ?h = "set_next b 0 h"
  have "fseg (hp_mem ?h) (free_list ?h) (?xs @ ?ys) 0" using set_next_fseg [OF wf b(1) dj] by simp
  then obtain nxt where n: "fseg (hp_mem ?h) (free_list ?h) ?xs nxt" unfolding fseg_append by blast
  have "\<forall>x\<in>set ?xs. block_ok x \<and> fst x < b" using wf by (auto simp: free_wf_def dest: set_takeWhileD)
  from push_walk_long [OF n this, of 0 0] len obtain t where "push_walk b 0 ?h 0 (free_list h) = Inl t"
    by (auto simp: set_next_def)
  moreover have "is_valid (hp_mem h) b" using block_ok_valid [OF b(1), of "hp_mem h"] b(2) by simp
  ultimately show ?thesis by (simp add: push_free_def)
qed

text \<open>Whenever \<open>push_free\<close> returns, it is the insertion.\<close>

lemma push_free_returned:
  assumes "free_wf (hp_mem h) (free_list h) F" "block_ok (b, s)" "hp_mem h b = s" "all_bytes F \<inter> bytes (b, s) = {}"
    and "push_free b h = Inr h'"
  shows "free_wf (hp_mem h') (free_list h') (free_insert b s F)" "same_outside (bytes (b, s) \<union> all_bytes F) h h'"
proof -
  have "length (takeWhile (\<lambda>x. fst x < b) F) \<le> FREE_LIST_WALK_BOUND"
    using push_free_long [OF assms(1-4)] assms(5) by (cases "FREE_LIST_WALK_BOUND < length (takeWhile (\<lambda>x. fst x < b) F)") auto
  from push_free_refines [OF assms(1-4) this] assms(5)
  show "free_wf (hp_mem h') (free_list h') (free_insert b s F)" "same_outside (bytes (b, s) \<union> all_bytes F) h h'" by auto
qed

end
