(* ===== verification/Heap_Fit.thy ===== *)
theory Heap_Fit
  imports Heap_List
begin

text \<open>
  First-fit allocation: \<open>alloc_inner\<close> on a well-formed free list is \<open>first_fit\<close> on its extents whenever it
  returns; it returns for every request up to a gibibyte, and it loops for ever when the end of the
  request overflows at a block it visits.
\<close>

lemma align_down_le: "align_down v a \<le> v"
  by (simp add: align_down_def)

lemma align_down_gt: "0 < a \<Longrightarrow> v < align_down v a + a"
proof -
  assume "0 < a"
  then have "v mod a < a" by simp
  then show ?thesis using mod_less_eq_dividend [of v a] by (simp add: align_down_def)
qed

lemma align_down_mod: "align_down v a mod a = 0"
  by (simp add: align_down_def minus_mod_eq_mult_div)

lemma align_down_dvd: "8 dvd a \<Longrightarrow> align_down v a mod 8 = 0"
  using align_down_mod [of v a] by (metis mod_0_imp_dvd dvd_trans mod_greater_zero_iff_not_dvd not_gr_zero)

lemma align_up_ge: "0 < a \<Longrightarrow> w \<le> align_down (w + a - 1) a"
  using align_down_gt [of a "w + a - 1"] by linarith

lemma alloc_fit_cases:
  assumes "fst x + snd x \<le> u64_max" "0 < align"
  obtains "alloc_fit (fst x) (snd x) align need = None"
  | p e where "alloc_fit (fst x) (snd x) align need = Some (p, e, fst x + snd x)"
    "p = align_down (fst x + 24 + align - 1) align" "e = align_down (p + need + 7) 8"
proof (cases "alloc_fit (fst x) (snd x) align need")
  case (Some r)
  have "fst x + (24 + align - 1) = fst x + 24 + align - 1" using assms(2) by linarith
  with Some show ?thesis
    by (intro that(2) [of "fst r" "fst (snd r)"])
       (auto simp: alloc_fit_def checked_add64_def heap_consts Let_def ac_simps split: if_splits option.splits)
qed (rule that(1))

text \<open>An overflow leaves the loop where it is.\<close>

lemma alloc_loop_stuck:
  assumes "cur \<noteq> 0" "alloc_fit cur (blk_size (hp_mem h) cur) align need = None"
  shows "alloc_loop h align need prev cur = None"
proof -
  have "\<not> (cur \<noteq> 0 \<and> alloc_fit cur (blk_size (hp_mem h) cur) align need = None)"
    if "alloc_loop h align need prev cur = Some r" for r
    by (rule alloc_loop.raw_induct
          [where P = "\<lambda>h align need prev cur r. \<not> (cur \<noteq> 0 \<and> alloc_fit cur (blk_size (hp_mem h) cur) align need = None)", OF _ that])
       (auto split: option.splits if_splits, fastforce)
  then show ?thesis using assms by (cases "alloc_loop h align need prev cur") auto
qed

lemma alloc_loop_null: "alloc_loop h align need prev 0 = Some (h, 0)"
  by (subst alloc_loop.simps) simp

lemma alloc_loop_skip:
  "cur \<noteq> 0 \<Longrightarrow> alloc_fit cur (blk_size (hp_mem h) cur) align need = Some (p, e, t) \<Longrightarrow> \<not> e \<le> t
   \<Longrightarrow> alloc_loop h align need prev cur = alloc_loop h align need cur (blk_next (hp_mem h) cur)"
  by (subst alloc_loop.simps) simp

lemma alloc_loop_take:
  "cur \<noteq> 0 \<Longrightarrow> alloc_fit cur (blk_size (hp_mem h) cur) align need = Some (p, e, t) \<Longrightarrow> e \<le> t
   \<Longrightarrow> alloc_loop h align need prev cur = Some (take_block prev cur p e t h, p)"
  by (subst alloc_loop.simps) simp

section \<open>Taking a block\<close>

lemma fit_bounds:
  assumes "fit align need x = Some (p, e)" "8 \<le> need" "8 dvd align" "0 < align" "block_ok x"
  shows "fst x + 24 \<le> p" "p + need \<le> e" "e \<le> fst x + snd x" "e mod 8 = 0" "p mod align = 0" "p mod 8 = 0"
proof -
  have pe: "p = align_down (fst x + 24 + align - 1) align" "e = align_down (p + need + 7) 8" "e \<le> fst x + snd x"
    using assms(1) by (auto simp: fit_def Let_def split: if_splits)
  show "fst x + 24 \<le> p" unfolding pe(1) using align_up_ge [OF assms(4), of "fst x + 24"] .
  show "p + need \<le> e" using align_up_ge [of 8 "p + need"] pe(2) by (simp add: ac_simps)
  show "e \<le> fst x + snd x" by (rule pe(3))
  show "e mod 8 = 0" unfolding pe(2) by (rule align_down_mod)
  show "p mod align = 0" unfolding pe(1) by (rule align_down_mod)
  show "p mod 8 = 0" unfolding pe(1) by (rule align_down_dvd [OF assms(3)])
qed

lemma remove_next_relink:
  assumes "fseg (hp_mem h) (free_list h) xs cur" "cur \<noteq> 0" "\<forall>x\<in>set xs. block_ok x"
  shows "remove_next (last_addr xs) h = relink (last_addr xs) (blk_next (hp_mem h) cur) h"
proof (cases xs rule: rev_cases)
  case Nil
  then show ?thesis using assms by (simp add: last_addr_def remove_next_def relink_def Let_def)
next
  case (snoc ys y)
  then have "hp_mem h (fst y + 8) = cur" "fst y \<noteq> 0"
    using assms fseg_next_last block_okD(2) by auto
  then show ?thesis using assms(2) snoc by (simp add: last_addr_def remove_next_def relink_def blk_next_def Let_def)
qed

lemma take_block_wf:
  assumes sx: "fseg (hp_mem h) (free_list h) xs (fst x)" and sz: "fseg (hp_mem h) (hp_mem h (fst x + 8)) zs 0"
    and mx: "hp_mem h (fst x) = snd x" and o: "ordered (xs @ x # zs)" "\<forall>y\<in>set (xs @ x # zs). block_ok y"
    and p: "fst x + 24 \<le> p" "p + 8 \<le> e" "e \<le> fst x + snd x"
  defines "h' \<equiv> take_block (last_addr xs) (fst x) p e (fst x + snd x) h"
    and "split \<equiv> 32 \<le> fst x + snd x - e"
  shows "fseg (hp_mem h') (free_list h') (xs @ (if split then (e, fst x + snd x - e) # zs else zs)) 0"
    "hp_mem h' (fst x) = (if split then e - fst x else snd x)" "hp_mem h' (p - 8) = fst x"
    "same_outside (all_bytes (xs @ [x])) h h'"
proof -
  let ?a = "fst x" and ?r = "fst x + snd x - e"
  have okx: "block_ok x" using o(2) by simp
  have l0: "last_addr xs = 0 \<longleftrightarrow> xs = []" using o(2) block_okD(2) by (auto simp: last_addr_def)
  have ox: "ordered xs" "\<forall>y\<in>set xs. block_ok y" using o by (auto simp: ordered_append)
  have bx: "fst y + 32 \<le> ?a" if "y \<in> set xs" for y
  proof -
    have "fst y + snd y \<le> ?a" "32 \<le> snd y" using o that block_okD(1) [of y] by (auto simp: ordered_append)
    then show ?thesis by linarith
  qed
  have bl: "last_addr xs + 32 \<le> ?a" if "xs \<noteq> []" using bx [of "last xs"] that by (simp add: last_addr_def)
  have bz: "?a + snd x \<le> fst z" if "z \<in> set zs" for z using o(1) that by (simp add: ordered_append ordered_Cons)
  have p8: "?a + 16 \<le> p - 8" "p - 8 + 16 \<le> e" using p(1,2) by linarith+
  have s32: "32 \<le> snd x" by (rule block_okD(1) [OF okx])
  define nx where "nx = (if split then e else hp_mem h (?a + 8))"
  define h0 where "h0 = (if split then h\<lparr>hp_mem := put_header e ?r (hp_mem h (?a + 8)) ((hp_mem h)(?a := e - ?a))\<rparr> else h)"
  have h'_eq: "h' = (relink (last_addr xs) nx h0)\<lparr>hp_mem := (hp_mem (relink (last_addr xs) nx h0))(p - 8 := ?a)\<rparr>"
    using remove_next_relink [OF sx] block_okD(2) [OF okx] ox(2)
    by (simp add: h'_def take_block_def Let_def heap_consts split_def nx_def h0_def set_size_def blk_next_def)
  have fl: "free_list h0 = free_list h" "chunks h0 = chunks h" "low_vaddr h0 = low_vaddr h" "hp_root h0 = hp_root h"
    by (simp_all add: h0_def)
  have m0: "hp_mem h0 w = hp_mem h w" if "w < ?a \<or> ?a + snd x \<le> w" for w
    using that p s32 by (auto simp: h0_def put_header_def split_def)
  have sx0: "fseg (hp_mem h0) (free_list h0) xs ?a"
    unfolding fl using sx by (subst fseg_cong [where m = "hp_mem h"]) (auto intro!: m0 dest!: bx)
  have m': "hp_mem h' w = (if w = p - 8 then ?a else if xs \<noteq> [] \<and> w = last_addr xs + 8 then nx else hp_mem h0 w)" for w
    using l0 by (simp add: h'_eq relink_frame)
  have mlow: "hp_mem h' w = hp_mem (relink (last_addr xs) nx h0) w" if "w < ?a" for w
    using that p8(1) by (simp add: h'_eq)
  have seg1: "fseg (hp_mem h') (free_list h') xs nx"
  proof -
    have "fseg (hp_mem (relink (last_addr xs) nx h0)) (free_list (relink (last_addr xs) nx h0)) xs nx"
      by (rule relink_fseg [OF sx0 ox])
    moreover have "free_list h' = free_list (relink (last_addr xs) nx h0)" by (simp add: h'_eq)
    ultimately show ?thesis
      by (subst fseg_cong [where m = "hp_mem (relink (last_addr xs) nx h0)"]) (auto intro!: mlow dest!: bx)
  qed
  have mhigh: "hp_mem h' w = hp_mem h w" if "?a + snd x \<le> w" for w
    using that p8 p(3) bl m0 [of w] s32 by (auto simp: m')
  have seg2: "fseg (hp_mem h') (hp_mem h (?a + 8)) zs 0"
  proof -
    have "fseg (hp_mem h') q zs 0 = fseg (hp_mem h) q zs 0" for q
      by (intro fseg_cong mhigh) (use bz in force)+
    then show ?thesis using sz by simp
  qed
  have me: "hp_mem h' e = ?r" "hp_mem h' (e + 8) = hp_mem h (?a + 8)" if split
    using that p8 bl by (auto simp: m' h0_def put_header_def)
  show "fseg (hp_mem h') (free_list h') (xs @ (if split then (e, ?r) # zs else zs)) 0"
    using seg1 seg2 me by (auto simp: fseg_append nx_def)
  show "hp_mem h' ?a = (if split then e - ?a else snd x)"
    using p8 bl mx by (auto simp: m' h0_def put_header_def)
  show "hp_mem h' (p - 8) = ?a" by (simp add: m')
  show "same_outside (all_bytes (xs @ [x])) h h'"
    unfolding same_outside_def
  proof (intro conjI allI impI)
    fix w assume w: "w \<notin> all_bytes (xs @ [x])"
    have "w \<notin> bytes x" using w by simp
    then have out: "w < ?a \<or> ?a + snd x \<le> w" by (cases x) auto
    have "w \<noteq> last_addr xs + 8" if "xs \<noteq> []"
      using w that header_in_bytes [of "last xs"] ox(2) by (auto simp: last_addr_def)
    then show "hp_mem h' w = hp_mem h w" using out m0 p8 p(3) by (auto simp: m')
  qed (simp_all add: h'_eq fl)
qed

section \<open>The search\<close>

definition taken :: "heap_inner \<Rightarrow> extent list \<Rightarrow> extent \<Rightarrow> nat \<Rightarrow> extent list \<Rightarrow> heap_inner \<Rightarrow> bool" where
  "taken h F blk p G h' \<longleftrightarrow>
     fseg (hp_mem h') (free_list h') G 0 \<and> hp_mem h' (fst blk) = snd blk \<and> hp_mem h' (p - 8) = fst blk
     \<and> same_outside (all_bytes F) h h'"

lemma alloc_loop_refines:
  assumes sx: "fseg (hp_mem h) (free_list h) xs cur" and sy: "fseg (hp_mem h) cur ys 0"
    and o: "ordered (xs @ ys)" "\<forall>x\<in>set (xs @ ys). block_ok x" and al: "8 dvd align" "0 < align" "8 \<le> need"
    and r: "alloc_loop h align need (last_addr xs) cur = Some (h', p)"
  shows "(first_fit align need ys = None \<and> h' = h \<and> p = 0) \<or>
    (\<exists>blk G. first_fit align need ys = Some (blk, p, G) \<and> taken h (xs @ ys) blk p (xs @ G) h')"
  using sx sy o r
proof (induction ys arbitrary: xs cur)
  case Nil
  then show ?case using alloc_loop_null by simp
next
  case (Cons x zs)
  have x: "cur = fst x" "hp_mem h (fst x) = snd x" "fseg (hp_mem h) (hp_mem h (fst x + 8)) zs 0"
    using Cons.prems(2) by (auto simp: fseg_head)
  have ok: "block_ok x" "fst x \<noteq> 0" "fst x + snd x \<le> u64_max" using Cons.prems(4) block_okD(2,3) by auto
  have sz: "blk_size (hp_mem h) cur = snd x" using x by (simp add: blk_size_def)
  show ?case
  proof (rule alloc_fit_cases [OF ok(3) al(2), of need])
    assume "alloc_fit (fst x) (snd x) align need = None"
    then show ?thesis using alloc_loop_stuck [of cur h align need] Cons.prems(5) sz x(1) ok(2) by simp
  next
    fix q e assume af: "alloc_fit (fst x) (snd x) align need = Some (q, e, fst x + snd x)"
      and qe: "q = align_down (fst x + 24 + align - 1) align" "e = align_down (q + need + 7) 8"
    let ?split = "32 \<le> fst x + snd x - e"
    show ?thesis
    proof (cases "e \<le> fst x + snd x")
      case True
      then have ft: "fit align need x = Some (q, e)" using qe by (simp add: fit_def Let_def)
      note fb = fit_bounds [OF ft al(3,1,2) ok(1)]
      have r: "h' = take_block (last_addr xs) (fst x) q e (fst x + snd x) h" "p = q"
        using alloc_loop_take [of cur h align need q e "fst x + snd x"] af True Cons.prems(5) sz x(1) ok(2) by auto
      have "q + 8 \<le> e" using fb(2) al(3) by linarith
      note tb = take_block_wf [OF Cons.prems(1) [unfolded x(1)] x(3,2) Cons.prems(3,4) fb(1) this fb(3), folded r(1)]
      have "same_outside (all_bytes (xs @ x # zs)) h h'" by (rule same_outside_mono [OF tb(4)]) auto
      then have "taken h (xs @ x # zs) (if ?split then (fst x, e - fst x) else x) q
          (xs @ (if ?split then (e, fst x + snd x - e) # zs else zs)) h'"
        unfolding taken_def using tb(1-3) by (cases ?split) (simp_all only: if_True if_False fst_conv snd_conv simp_thms)
      moreover have "first_fit align need (x # zs) =
          Some (if ?split then (fst x, e - fst x) else x, q, if ?split then (e, fst x + snd x - e) # zs else zs)"
        using ft by simp
      ultimately show ?thesis unfolding r(2) by blast
    next
      case False
      then have ft: "fit align need x = None" using qe by (simp add: fit_def Let_def)
      have l: "alloc_loop h align need (last_addr (xs @ [x])) (hp_mem h (fst x + 8)) = Some (h', p)"
        using alloc_loop_skip [of cur h align need q e "fst x + snd x"] af False Cons.prems(5) sz x(1) ok(2)
        by (simp add: last_addr_def blk_next_def)
      have sg: "fseg (hp_mem h) (free_list h) (xs @ [x]) (hp_mem h (fst x + 8))"
        using Cons.prems(1) x by (auto simp: fseg_append fseg_head)
      have o: "ordered ((xs @ [x]) @ zs)" "\<forall>y\<in>set ((xs @ [x]) @ zs). block_ok y" using Cons.prems(3,4) by simp_all
      show ?thesis
      proof (rule disjE [OF Cons.IH [OF sg x(3) o l]])
        assume "first_fit align need zs = None \<and> h' = h \<and> p = 0"
        then show ?thesis using ft by simp
      next
        assume "\<exists>blk G. first_fit align need zs = Some (blk, p, G) \<and> taken h ((xs @ [x]) @ zs) blk p ((xs @ [x]) @ G) h'"
        then obtain blk G where "first_fit align need zs = Some (blk, p, G)" "taken h (xs @ x # zs) blk p (xs @ x # G) h'"
          by auto
        then show ?thesis using ft by auto
      qed
    qed
  qed
qed

lemma first_fit_wf:
  assumes "first_fit align need F = Some ((b, s), p, G)" "ordered F" "\<forall>x\<in>set F. block_ok x"
    and al: "8 dvd align" "0 < align" "8 \<le> need"
  shows "ordered G \<and> (\<forall>x\<in>set G. block_ok x) \<and> block_ok (b, s) \<and> all_bytes F = bytes (b, s) \<union> all_bytes G
    \<and> bytes (b, s) \<inter> all_bytes G = {} \<and> b + 24 \<le> p \<and> p + need \<le> b + s \<and> p mod align = 0 \<and> p mod 8 = 0"
  using assms(1-3)
proof (induction F arbitrary: G)
  case (Cons x xs)
  obtain a t where x: "x = (a, t)" by (cases x)
  have ok: "block_ok x" "ordered xs" "\<forall>y\<in>set xs. block_ok y" and dj: "\<forall>y\<in>set xs. a + t \<le> fst y"
    using Cons.prems(2,3) x by (auto simp: ordered_Cons)
  have djb: "bytes x \<inter> all_bytes xs = {}" using dj x by fastforce
  show ?case
  proof (cases "fit align need x")
    case None
    then obtain G' where G: "first_fit align need xs = Some ((b, s), p, G')" "G = x # G'"
      using Cons.prems(1) by (auto split: option.splits)
    note ih = Cons.IH [OF G(1) ok(2,3)]
    have "all_bytes G' \<subseteq> all_bytes xs" "bytes (b, s) \<subseteq> all_bytes xs" using ih by blast+
    then have d: "bytes (b, s) \<inter> bytes x = {}" using djb by blast
    have "a + t \<le> fst y" if "y \<in> set G'" for y
    proof -
      have "fst y \<in> all_bytes G'" using ih that header_in_bytes [of y] by blast
      then have "fst y \<in> all_bytes xs" using ih by blast
      then obtain z where "z \<in> set xs" "fst y \<in> bytes z" by blast
      then have "a + t \<le> fst z" "fst z \<le> fst y" using dj by (simp_all add: bytes_iff)
      then show ?thesis by linarith
    qed
    then have "ordered G" using G(2) ih x by (simp add: ordered_Cons)
    then show ?thesis using ih G(2) d ok(1) by auto
  next
    case (Some pe)
    obtain q e where pe: "pe = (q, e)" by (cases pe)
    note fb = fit_bounds [OF Some [unfolded pe] al(3,1,2) ok(1)]
    have bt: "a + 24 \<le> q" "q + need \<le> e" "e \<le> a + t" using fb x by auto
    have m8: "(e - a) mod 8 = 0" "(a + t - e) mod 8 = 0"
      using fb(4) block_okD(5,6) [OF ok(1)] x bt by (simp_all add: mod_eq_0_iff_dvd dvd_diff_nat)
    have w: "HEAP_FLOOR \<le> a" "a + t \<le> HEAP_TOP" "a mod 8 = 0" "32 \<le> t" using ok(1) x by auto
    show ?thesis
    proof (cases "32 \<le> a + t - e")
      case True
      then have eq: "b = a" "s = e - a" "p = q" "G = (e, a + t - e) # xs" using Cons.prems(1) Some pe x by auto
      have "bytes x = bytes (a, e - a) \<union> bytes (e, a + t - e)" using bt x by auto
      moreover have "bytes (a, e - a) \<inter> bytes (e, a + t - e) = {}" by auto
      moreover have "bytes (a, e - a) \<inter> all_bytes xs = {}" using djb calculation(1) by blast
      ultimately have "all_bytes (x # xs) = bytes (b, s) \<union> all_bytes G" "bytes (b, s) \<inter> all_bytes G = {}"
        unfolding eq by (auto simp del: bytes.simps)
      moreover have "ordered G" using ok(2) dj bt eq by (auto simp: ordered_Cons)
      moreover have "block_ok (b, s)" "\<forall>y\<in>set G. block_ok y"
        using bt al(3) m8 w fb(4) ok(3) True eq by auto
      ultimately show ?thesis using fb bt eq by simp
    next
      case False
      then have "b = a" "s = t" "p = q" "G = xs" using Cons.prems(1) Some pe x by auto
      then show ?thesis using djb ok fb bt x by auto
    qed
  qed
qed simp

section \<open>Requests\<close>

definition layout_ok :: "nat \<Rightarrow> bool" where
  "layout_ok lalign \<longleftrightarrow> (\<exists>n. lalign = 2 ^ n)"

lemma layout_align:
  assumes "layout_ok lalign"
  shows "8 dvd max lalign BLOCK_ALIGN" "0 < max lalign BLOCK_ALIGN" "lalign dvd max lalign BLOCK_ALIGN"
proof -
  obtain n where n: "lalign = 2 ^ n" using assms by (auto simp: layout_ok_def)
  have e: "max lalign BLOCK_ALIGN = 2 ^ max n 3"
  proof (cases "n \<le> 3")
    case True
    then have "(2::nat) ^ n \<le> 2 ^ 3" by (intro power_increasing) simp_all
    then show ?thesis using True by (simp add: n BLOCK_ALIGN_def max_def)
  next
    case False
    then have "(2::nat) ^ 3 \<le> 2 ^ n" by (intro power_increasing) simp_all
    then show ?thesis using False by (simp add: n BLOCK_ALIGN_def max_def)
  qed
  have "(2::nat) ^ 3 dvd 2 ^ max n 3" by (intro le_imp_power_dvd) simp
  then show "8 dvd max lalign BLOCK_ALIGN" unfolding e by simp
  show "lalign dvd max lalign BLOCK_ALIGN" unfolding e unfolding n by (intro le_imp_power_dvd) simp
  show "0 < max lalign BLOCK_ALIGN" by (simp add: BLOCK_ALIGN_def)
qed

lemma alloc_inner_refines:
  assumes "free_wf (hp_mem h) (free_list h) F" "layout_ok lalign" "alloc_inner h lsize lalign = Some (h', p)"
  shows "(first_fit (max lalign 8) (max lsize 8) F = None \<and> h' = h \<and> p = 0) \<or>
    (\<exists>blk G. first_fit (max lalign 8) (max lsize 8) F = Some (blk, p, G) \<and> taken h F blk p G h')"
  using alloc_loop_refines [of h "[]" "free_list h" F "max lalign BLOCK_ALIGN" "max lsize MIN_ALLOC" h' p]
    layout_align [OF assms(2)] assms(1,3)
  by (simp add: free_wf_def alloc_inner_def last_addr_def BLOCK_ALIGN_def MIN_ALLOC_def)

lemma alloc_fit_small:
  assumes "block_ok x" "0 < align" "align + need \<le> 0x40000000"
  shows "alloc_fit (fst x) (snd x) align need \<noteq> None"
proof -
  let ?v = "fst x + (24 + align - 1)"
  have t: "fst x + snd x \<le> HEAP_TOP" "32 \<le> snd x" using block_okD(1,8) [OF assms(1)] by auto
  then have "?v + need + 7 \<le> u64_max" using assms(3) by (simp add: heap_consts u64_max_def)
  moreover have "align_down ?v align \<le> ?v" by (rule align_down_le)
  ultimately show ?thesis using t block_okD(3) [OF assms(1)] assms(2)
    by (simp add: alloc_fit_def checked_add64_def heap_consts Let_def)
qed

lemma alloc_loop_returns:
  assumes "fseg (hp_mem h) cur ys 0" "\<forall>x\<in>set ys. block_ok x" "0 < align" "align + need \<le> 0x40000000"
  shows "\<exists>r. alloc_loop h align need prev cur = Some r"
  using assms(1,2)
proof (induction ys arbitrary: prev cur)
  case Nil
  then show ?case using alloc_loop_null by simp
next
  case (Cons x zs)
  have x: "cur = fst x" "blk_size (hp_mem h) cur = snd x" "fseg (hp_mem h) (blk_next (hp_mem h) cur) zs 0"
    using Cons.prems(1) by (auto simp: fseg_head blk_size_def blk_next_def)
  have ok: "block_ok x" "cur \<noteq> 0" using Cons.prems(2) block_okD(2) x(1) by auto
  obtain p e t where af: "alloc_fit cur (blk_size (hp_mem h) cur) align need = Some (p, e, t)"
    using alloc_fit_small [OF ok(1) assms(3,4)] x by auto
  show ?case
  proof (cases "e \<le> t")
    case True
    then show ?thesis using alloc_loop_take [OF ok(2) af] by simp
  next
    case False
    then show ?thesis using alloc_loop_skip [OF ok(2) af] Cons.IH [OF x(3)] Cons.prems(2) by simp
  qed
qed

lemma alloc_inner_returns:
  assumes "free_wf (hp_mem h) (free_list h) F" "max lalign 8 + max lsize 8 \<le> 0x40000000"
  shows "\<exists>r. alloc_inner h lsize lalign = Some r"
  unfolding alloc_inner_def BLOCK_ALIGN_def MIN_ALLOC_def
  using assms by (intro alloc_loop_returns [of h _ F]) (auto simp: free_wf_def)

lemma alloc_inner_hangs:
  assumes wf: "free_wf (hp_mem h) (free_list h) (x # F)" and big: "u64_max < fst x + 24 + lsize"
  shows "alloc_inner h lsize lalign = None"
proof -
  let ?al = "max lalign BLOCK_ALIGN" and ?n = "max lsize MIN_ALLOC"
  have x: "free_list h = fst x" "blk_size (hp_mem h) (fst x) = snd x" "block_ok x" "fst x \<noteq> 0"
    using wf block_okD(2) by (auto simp: free_wf_def fseg_head blk_size_def)
  have al: "0 < ?al" by (simp add: BLOCK_ALIGN_def)
  have e: "fst x + 24 + ?al - 1 = fst x + (23 + ?al)" by simp
  have g: "fst x + 24 \<le> align_down (fst x + (23 + ?al)) ?al" using align_up_ge [OF al, of "fst x + 24"] unfolding e .
  have "alloc_fit (fst x) (snd x) ?al ?n = None"
    using g big unfolding alloc_fit_def HEADER_SIZE_def BACKPTR_SIZE_def checked_add64_def
    by (auto simp: Let_def split: option.splits if_splits)
  then show ?thesis unfolding alloc_inner_def using alloc_loop_stuck [of "fst x" h] x by simp
qed

end
