(* ===== verification/Heap_Stack.thy ===== *)
theory Heap_Stack
  imports Heap_Cache
begin

text \<open>
  A per-CPU cache as the list of its payloads: what pushing, scanning and unlinking do to it.
\<close>

fun cstack :: "memory \<Rightarrow> nat \<Rightarrow> nat list \<Rightarrow> bool" where
  "cstack m p [] \<longleftrightarrow> p = 0"
| "cstack m p (q # qs) \<longleftrightarrow> p = q \<and> q \<noteq> 0 \<and> cstack m (m q) qs"

lemma cstack_cong: "(\<And>q. q \<in> set qs \<Longrightarrow> m' q = m q) \<Longrightarrow> cstack m' p qs = cstack m p qs"
  by (induction qs arbitrary: p) auto

definition last_or_null :: "nat list \<Rightarrow> nat" where
  "last_or_null qs = (if qs = [] then 0 else last qs)"

text \<open>Unlinking \<open>p\<close> from the stack \<open>xs @ p # ys\<close>.\<close>

lemma cstack_unlink:
  assumes "cstack m hd0 (xs @ p # ys)" "distinct (xs @ p # ys)"
  shows "cstack (if xs = [] then m else m(last xs := m p)) (if xs = [] then m p else hd0) (xs @ ys)"
  using assms
proof (induction xs arbitrary: hd0)
  case Nil
  then show ?case by simp
next
  case (Cons x xs)
  show ?case
  proof (cases "xs = []")
    case True
    have "cstack (m(x := m p)) (m p) ys = cstack m (m p) ys" using Cons.prems(2) True by (intro cstack_cong) auto
    then show ?thesis using Cons.prems(1) True by (simp add: fun_upd_def)
  next
    case False
    then have "cstack (m(last xs := m p)) (m x) (xs @ ys)" using Cons by (simp add: fun_upd_def)
    moreover have "last xs \<noteq> x" using Cons.prems(2) False by auto
    ultimately show ?thesis using Cons.prems(1) False by (simp add: fun_upd_def)
  qed
qed

lemma cstack_nonzero: "cstack m p qs \<Longrightarrow> q \<in> set qs \<Longrightarrow> q \<noteq> 0"
  by (induction qs arbitrary: p) auto

text \<open>The scan takes the first entry that is large enough and aligned, or none.\<close>

definition fits_cached :: "memory \<Rightarrow> nat \<Rightarrow> nat \<Rightarrow> nat \<Rightarrow> bool" where
  "fits_cached m align need q \<longleftrightarrow> need \<le> usable_bytes m q \<and> q mod align = 0"

definition scanned :: "nat \<Rightarrow> nat \<Rightarrow> nat \<Rightarrow> kheap \<Rightarrow> nat list \<Rightarrow> nat list \<Rightarrow> kheap \<times> nat \<Rightarrow> bool" where
  "scanned cpu align need k xs ys r \<longleftrightarrow>
     (snd r = 0 \<and> fst r = k \<and> \<not> (\<exists>q\<in>set ys. fits_cached (kh_mem k) align need q)) \<or>
     (\<exists>us vs. ys = us @ snd r # vs \<and> snd r \<noteq> 0 \<and> fits_cached (kh_mem k) align need (snd r) \<and>
        fst r = cache_unlink cpu (last_or_null (xs @ us)) (kh_mem k (snd r)) k)"

lemma scanned_skip:
  assumes "scanned cpu align need k (xs @ [y]) ys r" "\<not> fits_cached (kh_mem k) align need y"
  shows "scanned cpu align need k xs (y # ys) r"
  using assms(1) unfolding scanned_def
proof (elim disjE exE conjE)
  fix us vs assume "ys = us @ snd r # vs" "snd r \<noteq> 0" "fits_cached (kh_mem k) align need (snd r)"
    "fst r = cache_unlink cpu (last_or_null ((xs @ [y]) @ us)) (kh_mem k (snd r)) k"
  then show "(snd r = 0 \<and> fst r = k \<and> \<not> (\<exists>q\<in>set (y # ys). fits_cached (kh_mem k) align need q)) \<or>
     (\<exists>us vs. y # ys = us @ snd r # vs \<and> snd r \<noteq> 0 \<and> fits_cached (kh_mem k) align need (snd r) \<and>
        fst r = cache_unlink cpu (last_or_null (xs @ us)) (kh_mem k (snd r)) k)"
    by (intro disjI2 exI [of _ "y # us"] exI [of _ vs]) simp
qed (use assms(2) in simp)

lemma cache_scan_spec:
  assumes "cstack (kh_mem k) cur ys"
  shows "\<exists>r. cache_scan cpu align need k (last_or_null xs) cur = Some r \<and> scanned cpu align need k xs ys r"
  using assms
proof (induction ys arbitrary: cur xs)
  case Nil
  then show ?case by (subst cache_scan.simps) (simp add: scanned_def)
next
  case (Cons y ys)
  have y: "cur = y" "y \<noteq> 0" "cstack (kh_mem k) (kh_mem k y) ys" using Cons.prems by auto
  show ?case
  proof (cases "fits_cached (kh_mem k) align need y")
    case True
    have "cache_scan cpu align need k (last_or_null xs) cur = Some (cache_unlink cpu (last_or_null xs) (kh_mem k y) k, y)"
      using True y(1,2) by (subst cache_scan.simps) (simp add: fits_cached_def)
    moreover have "scanned cpu align need k xs (y # ys) (cache_unlink cpu (last_or_null xs) (kh_mem k y) k, y)"
      unfolding scanned_def using True y(2) by (intro disjI2 exI [of _ "[]"] exI [of _ ys]) simp
    ultimately show ?thesis by simp
  next
    case False
    have "cache_scan cpu align need k (last_or_null xs) cur = cache_scan cpu align need k (last_or_null (xs @ [y])) (kh_mem k y)"
      using False y(1,2) by (subst cache_scan.simps) (auto simp: last_or_null_def fits_cached_def)
    then show ?thesis using Cons.IH [OF y(3), of "xs @ [y]"] scanned_skip [OF _ False] by auto
  qed
qed

lemma per_cpu_alloc_cached_spec:
  assumes "cstack (kh_mem k) (cc_head (kh_caches k ! cpu)) qs"
  shows "\<exists>r. per_cpu_alloc_cached cpu lsize lalign k = Some r \<and> scanned cpu (max lalign BLOCK_ALIGN) lsize k [] qs r"
proof (cases "cc_head (kh_caches k ! cpu) = 0")
  case True
  then have "qs = []" using assms by (cases qs) auto
  then show ?thesis using True by (simp add: per_cpu_alloc_cached_def scanned_def)
next
  case False
  then show ?thesis
    using cache_scan_spec [OF assms, of cpu "max lalign BLOCK_ALIGN" lsize "[]"]
    by (simp add: per_cpu_alloc_cached_def last_or_null_def)
qed

lemma cpu_cache_upd:
  "c\<lparr>cc_head := a, cc_count := b\<rparr> = \<lparr>cc_head = a, cc_count = b\<rparr>"
  "c\<lparr>cc_count := b\<rparr> = \<lparr>cc_head = cc_head c, cc_count = b\<rparr>"
  by simp_all

lemma cache_unlink_simps:
  "kh_mem (cache_unlink cpu prev nx k) = (if prev = 0 then kh_mem k else (kh_mem k)(prev := nx))"
  "kh_caches (cache_unlink cpu prev nx k) =
     (kh_caches k)[cpu := \<lparr>cc_head = (if prev = 0 then nx else cc_head (kh_caches k ! cpu)), cc_count = wsub64 (cc_count (kh_caches k ! cpu)) 1\<rparr>]"
  "free_list (kh_heap (cache_unlink cpu prev nx k)) = free_list (kh_heap k)"
  "chunks (kh_heap (cache_unlink cpu prev nx k)) = chunks (kh_heap k)"
  "low_vaddr (kh_heap (cache_unlink cpu prev nx k)) = low_vaddr (kh_heap k)"
  "kh_initialized (cache_unlink cpu prev nx k) = kh_initialized k"
  by (simp_all add: cache_unlink_def set_cache_def set_word_def Let_def cpu_cache_upd del: cpu_cache.update_convs)

lemma cache_push_simps:
  "kh_mem (cache_push cpu p k) = (kh_mem k)(p := cc_head (kh_caches k ! cpu))"
  "kh_caches (cache_push cpu p k) = (kh_caches k)[cpu := \<lparr>cc_head = p, cc_count = cc_count (kh_caches k ! cpu) + 1\<rparr>]"
  "free_list (kh_heap (cache_push cpu p k)) = free_list (kh_heap k)"
  "chunks (kh_heap (cache_push cpu p k)) = chunks (kh_heap k)"
  "low_vaddr (kh_heap (cache_push cpu p k)) = low_vaddr (kh_heap k)"
  "kh_initialized (cache_push cpu p k) = kh_initialized k"
  by (simp_all add: cache_push_def set_cache_def set_word_def Let_def)

end
