(* ===== verification/Heap_System.thy ===== *)
theory Heap_System
  imports Kernel_Heap Heap_Fit Heap_Stack
begin

text \<open>
  The allocator as a transition system. A state has the allocator, the live allocations (payload, size and
  alignment of the request) and the growth reservations whose pages are being mapped. A transition is one
  critical section of \<open>alloc\<close>, \<open>dealloc\<close> or \<open>heap_grow\<close> on some CPU, a write of a client into a live
  allocation, or the arrival of a page with arbitrary contents in a reserved range: the interleavings of
  any number of calls on all CPUs.
\<close>

type_synonym ablock = "nat \<times> nat \<times> nat"
type_synonym allocation = "nat \<times> nat \<times> nat"
type_synonym reservation = "nat \<times> nat \<times> nat"
type_synonym hstate = "kheap \<times> allocation list \<times> reservation list"

inductive heap_step :: "hstate \<Rightarrow> hstate \<Rightarrow> bool" where
  cached_alloc:
    "cpu < MAX_CPUS \<Longrightarrow> layout_ok al \<Longrightarrow> per_cpu_alloc_cached cpu n al k = Some (k', p) \<Longrightarrow>
     heap_step (k, L, P) (k', if p = 0 then L else (p, n, al) # L, P)"
| arena_alloc:
    "layout_ok al \<Longrightarrow> arena_alloc n al k = Some (k', p) \<Longrightarrow>
     heap_step (k, L, P) (k', if p = 0 then L else (p, n, al) # L, P)"
| cached_free:
    "cpu < MAX_CPUS \<Longrightarrow> (p, n, al) \<in> set L \<Longrightarrow> per_cpu_free_cached cpu p k = (k', True) \<Longrightarrow>
     heap_step (k, L, P) (k', remove1 (p, n, al) L, P)"
| arena_free:
    "(p, n, al) \<in> set L \<Longrightarrow> arena_free p k = Inr k' \<Longrightarrow>
     heap_step (k, L, P) (k', remove1 (p, n, al) L, P)"
| reserve:
    "HEAP_GROW_PAGES \<le> pages \<Longrightarrow> grow_reserve pages (kh_heap k) = (h', Some r) \<Longrightarrow>
     heap_step (k, L, P) (k\<lparr>kh_heap := h'\<rparr>, L, r # P)"
| commit:
    "(low, sz, old) \<in> set P \<Longrightarrow> grow_commit low sz old backing (kh_heap k) = Inr h' \<Longrightarrow>
     heap_step (k, L, P) (k\<lparr>kh_heap := h'\<rparr>, L, remove1 (low, sz, old) P)"
| client_write:
    "(p, n, al) \<in> set L \<Longrightarrow> p \<le> w \<Longrightarrow> w < p + n \<Longrightarrow> w mod 8 = 0 \<Longrightarrow>
     heap_step (k, L, P) (set_word w v k, L, P)"
| fresh_page:
    "(low, sz, old) \<in> set P \<Longrightarrow> low \<le> w \<Longrightarrow> w < low + sz \<Longrightarrow> w mod 8 = 0 \<Longrightarrow>
     heap_step (k, L, P) (set_word w v k, L, P)"

section \<open>The invariant of the arena\<close>

fun abytes :: "ablock \<Rightarrow> nat set" where
  "abytes (b, s, p) = {b..<b + s}"

fun alloc_wf :: "memory \<Rightarrow> ablock \<Rightarrow> bool" where
  "alloc_wf m (b, s, p) \<longleftrightarrow>
     block_ok (b, s) \<and> b + 24 \<le> p \<and> p + 8 \<le> b + s \<and> p mod 8 = 0 \<and> m b = s \<and> m (p - 8) = b"

fun payload :: "ablock \<Rightarrow> nat" where
  "payload (b, s, p) = p"

definition chunk_extent :: "chunk_meta \<Rightarrow> extent" where
  "chunk_extent c = (ck_vaddr c, ck_size c)"

definition chunk_bytes :: "heap_inner \<Rightarrow> nat set" where
  "chunk_bytes h = all_bytes (map chunk_extent (chunks h))"

definition arena_inv :: "heap_inner \<Rightarrow> extent list \<Rightarrow> ablock set \<Rightarrow> bool" where
  "arena_inv h F A \<longleftrightarrow>
     free_wf (hp_mem h) (free_list h) F \<and> (\<forall>x\<in>A. alloc_wf (hp_mem h) x) \<and>
     (\<forall>x\<in>A. \<forall>y\<in>A. x \<noteq> y \<longrightarrow> abytes x \<inter> abytes y = {}) \<and> (\<forall>x\<in>A. abytes x \<inter> all_bytes F = {}) \<and>
     all_bytes F \<union> \<Union> (abytes ` A) = chunk_bytes h"

lemma arena_invD:
  assumes "arena_inv h F A"
  shows "free_wf (hp_mem h) (free_list h) F" "x \<in> A \<Longrightarrow> alloc_wf (hp_mem h) x"
    "x \<in> A \<Longrightarrow> y \<in> A \<Longrightarrow> x \<noteq> y \<Longrightarrow> abytes x \<inter> abytes y = {}" "x \<in> A \<Longrightarrow> abytes x \<inter> all_bytes F = {}"
    "all_bytes F \<union> \<Union> (abytes ` A) = chunk_bytes h"
  using assms unfolding arena_inv_def by simp_all

lemma alloc_wfD:
  assumes "alloc_wf m (b, s, p)"
  shows "block_ok (b, s)" "b + 24 \<le> p" "p + 8 \<le> b + s" "p mod 8 = 0" "m b = s" "m (p - 8) = b" "p \<in> abytes (b, s, p)"
    "b \<in> abytes (b, s, p)" "p - 8 \<in> abytes (b, s, p)" "p \<noteq> 0"
  using assms by auto

lemma alloc_wf_same:
  assumes "alloc_wf m x" "\<And>w. w \<in> abytes x \<Longrightarrow> m' w = m w"
  shows "alloc_wf m' x"
proof -
  obtain b s p where x: "x = (b, s, p)" by (cases x)
  note w = alloc_wfD [OF assms(1) [unfolded x]]
  have "m' b = m b" "m' (p - 8) = m (p - 8)" using w(8,9) assms(2) x by auto
  then show ?thesis using w x by simp
qed

lemma alloc_wf_outside:
  assumes "alloc_wf (hp_mem h) x" "same_outside S h h'" "abytes x \<inter> S = {}"
  shows "alloc_wf (hp_mem h') x"
  using assms(2,3) unfolding same_outside_def by (intro alloc_wf_same [OF assms(1)]) blast

text \<open>A block is found from its payload.\<close>

lemma same_payload:
  assumes i: "arena_inv h F A" and "(b, s, p) \<in> A" "(b', s', p) \<in> A"
  shows "b' = b \<and> s' = s"
  using arena_invD(3) [OF i assms(2,3)] alloc_wfD(7) [OF arena_invD(2) [OF i assms(2)]]
    alloc_wfD(7) [OF arena_invD(2) [OF i assms(3)]] by blast

text \<open>The words of a payload belong to nobody else.\<close>

lemma payload_write:
  assumes i: "arena_inv h F A" and a: "(b, s, p) \<in> A" and w: "p \<le> w" "w < b + s"
  shows "arena_inv (h\<lparr>hp_mem := (hp_mem h)(w := v)\<rparr>) F A"
proof -
  note wf = alloc_wfD [OF arena_invD(2) [OF i a]]
  have wa: "w \<in> abytes (b, s, p)" using w wf(2) by simp
  have "free_wf ((hp_mem h)(w := v)) (free_list h) F"
  proof -
    have "w \<notin> all_bytes F" using arena_invD(4) [OF i a] wa by blast
    then have "fst x \<noteq> w \<and> fst x + 8 \<noteq> w" if "x \<in> set F" for x
      using header_in_bytes [of x] that arena_invD(1) [OF i] by (auto simp: free_wf_def)
    then have "fseg ((hp_mem h)(w := v)) q F 0 = fseg (hp_mem h) q F 0" for q by (intro fseg_cong) auto
    then show ?thesis using arena_invD(1) [OF i] by (simp add: free_wf_def)
  qed
  moreover have "alloc_wf ((hp_mem h)(w := v)) y" if y: "y \<in> A" for y
  proof (cases "y = (b, s, p)")
    case True
    then show ?thesis using wf w by auto
  next
    case False
    then have "w \<notin> abytes y" using arena_invD(3) [OF i y a] wa by blast
    then show ?thesis by (intro alloc_wf_same [OF arena_invD(2) [OF i y]]) auto
  qed
  ultimately show ?thesis using i unfolding arena_inv_def by (simp add: chunk_bytes_def)
qed

lemma arena_inv_mem_eq:
  "arena_inv h F A \<Longrightarrow> hp_mem h' = hp_mem h \<Longrightarrow> free_list h' = free_list h \<Longrightarrow> chunks h' = chunks h \<Longrightarrow> arena_inv h' F A"
  by (simp add: arena_inv_def chunk_bytes_def)

text \<open>Taking a block from the free list.\<close>

lemma arena_take:
  assumes i: "arena_inv h F A" and t: "taken h F (b, s) p G h'" and G: "ordered G" "\<forall>x\<in>set G. block_ok x" "block_ok (b, s)"
    "all_bytes F = bytes (b, s) \<union> all_bytes G" "bytes (b, s) \<inter> all_bytes G = {}"
    and p: "b + 24 \<le> p" "p + 8 \<le> b + s" "p mod 8 = 0"
  shows "arena_inv h' G (insert (b, s, p) A)"
proof -
  have so: "same_outside (all_bytes F) h h'" using t by (simp add: taken_def)
  have new: "alloc_wf (hp_mem h') (b, s, p)" using t G(3) p by (simp add: taken_def)
  have old: "alloc_wf (hp_mem h') x" if x: "x \<in> A" for x
    by (rule alloc_wf_outside [OF arena_invD(2) [OF i x] so arena_invD(4) [OF i x]])
  have dj: "abytes (b, s, p) \<inter> abytes x = {}" if "x \<in> A" for x
    using arena_invD(4) [OF i that] G(4) by auto
  have fw: "free_wf (hp_mem h') (free_list h') G" using t G(1,2) by (simp add: free_wf_def taken_def)
  have ch: "chunk_bytes h' = chunk_bytes h" using so by (simp add: same_outside_def chunk_bytes_def)
  have e1: "abytes (b, s, p) = bytes (b, s)" by simp
  have pw: "x \<in> insert (b, s, p) A \<Longrightarrow> y \<in> insert (b, s, p) A \<Longrightarrow> x \<noteq> y \<Longrightarrow> abytes x \<inter> abytes y = {}" for x y
    using dj [of x] dj [of y] arena_invD(3) [OF i, of x y] by blast
  have pf: "abytes x \<inter> all_bytes G = {}" if "x \<in> insert (b, s, p) A" for x
  proof (cases "x \<in> A")
    case True
    then show ?thesis using arena_invD(4) [OF i True] unfolding G(4) by blast
  next
    case False
    then show ?thesis using that G(5) e1 by simp
  qed
  have cov: "all_bytes G \<union> \<Union> (abytes ` insert (b, s, p) A) = chunk_bytes h'"
    unfolding ch arena_invD(5) [OF i, symmetric] G(4) image_insert Union_insert e1 by blast
  show ?thesis unfolding arena_inv_def using fw new old pw pf cov by blast
qed

text \<open>Giving a block back, and adding a fresh region.\<close>

lemma arena_insert:
  assumes i: "arena_inv h F A" and b: "block_ok (b, s)" "hp_mem h0 b = s"
    and so: "same_outside (bytes (b, s)) h h0" "free_list h0 = free_list h"
    and dj: "all_bytes F \<inter> bytes (b, s) = {}" "\<And>x. x \<in> B \<Longrightarrow> abytes x \<inter> bytes (b, s) = {}"
    and B: "B \<subseteq> A" and r: "push_free b h0 = Inr h'"
  shows "free_wf (hp_mem h') (free_list h') (free_insert b s F)" "\<And>x. x \<in> B \<Longrightarrow> alloc_wf (hp_mem h') x"
    "\<And>x. x \<in> B \<Longrightarrow> abytes x \<inter> all_bytes (free_insert b s F) = {}"
    "all_bytes (free_insert b s F) = bytes (b, s) \<union> all_bytes F" "same_outside (bytes (b, s) \<union> all_bytes F) h h'"
proof -
  have F: "fseg (hp_mem h) (free_list h) F 0" "ordered F" "\<forall>x\<in>set F. block_ok x"
    using arena_invD(1) [OF i] by (auto simp: free_wf_def)
  have "fseg (hp_mem h0) (free_list h) F 0"
  proof -
    have "fst x \<notin> bytes (b, s) \<and> fst x + 8 \<notin> bytes (b, s)" if "x \<in> set F" for x
      using header_in_bytes [of x] that F(3) dj(1) by blast
    then have "fseg (hp_mem h0) q F 0 = fseg (hp_mem h) q F 0" for q
      using so(1) unfolding same_outside_def by (intro fseg_cong) blast+
    then show ?thesis using F(1) by simp
  qed
  then have wf0: "free_wf (hp_mem h0) (free_list h0) F" using F so(2) by (simp add: free_wf_def)
  note pf = push_free_returned [OF wf0 b dj(1) r]
  show "free_wf (hp_mem h') (free_list h') (free_insert b s F)" by (rule pf(1))
  show fb: "all_bytes (free_insert b s F) = bytes (b, s) \<union> all_bytes F" by (rule free_insert_wf(3) [OF F(2,3) b(1) dj(1)])
  show so': "same_outside (bytes (b, s) \<union> all_bytes F) h h'"
    by (rule same_outside_trans [OF same_outside_mono [OF so(1)] pf(2)]) simp
  fix x assume x: "x \<in> B"
  then have xA: "x \<in> A" using B by blast
  show k: "abytes x \<inter> all_bytes (free_insert b s F) = {}" using fb dj(2) [OF x] arena_invD(4) [OF i xA] by blast
  show "alloc_wf (hp_mem h') x"
    using k unfolding fb by (rule alloc_wf_outside [OF arena_invD(2) [OF i xA] so'])
qed

lemma Un_swap: "(X \<union> Y) \<union> Z = Y \<union> (X \<union> Z)"
  by blast

lemma arena_give:
  assumes i: "arena_inv h F A" and a: "(b, s, p) \<in> A" and r: "push_free b (set_next b 0 h) = Inr h'"
  shows "arena_inv h' (free_insert b s F) (A - {(b, s, p)})" "same_outside (bytes (b, s) \<union> all_bytes F) h h'"
proof -
  note wf = alloc_wfD [OF arena_invD(2) [OF i a]]
  have h0: "hp_mem (set_next b 0 h) b = s" using wf(5) by (simp add: set_next_def)
  have so: "same_outside (bytes (b, s)) h (set_next b 0 h)"
    using header_in_bytes [OF wf(1)] by (intro same_outside_set_next) simp
  have dj: "all_bytes F \<inter> bytes (b, s) = {}" using arena_invD(4) [OF i a] by auto
  have dB: "abytes x \<inter> bytes (b, s) = {}" if "x \<in> A - {(b, s, p)}" for x
    using arena_invD(3) [OF i, of x "(b, s, p)"] a that by auto
  have fl: "free_list (set_next b 0 h) = free_list h" by (simp add: set_next_def)
  note ai = arena_insert [where B = "A - {(b, s, p)}", OF i wf(1) h0 so fl dj dB Diff_subset r]
  have ch: "chunk_bytes h' = chunk_bytes h" using ai(5) by (simp add: same_outside_def chunk_bytes_def)
  have "insert (b, s, p) (A - {(b, s, p)}) = A" using a by blast
  then have "\<Union> (abytes ` A) = abytes (b, s, p) \<union> \<Union> (abytes ` (A - {(b, s, p)}))" by (metis image_insert Union_insert)
  then have ub: "\<Union> (abytes ` A) = bytes (b, s) \<union> \<Union> (abytes ` (A - {(b, s, p)}))" by simp
  have cov: "all_bytes (free_insert b s F) \<union> \<Union> (abytes ` (A - {(b, s, p)})) = chunk_bytes h'"
    unfolding ch arena_invD(5) [OF i, symmetric] ub using ai(4) by (metis Un_swap)
  have pw: "\<forall>x\<in>A - {(b, s, p)}. \<forall>y\<in>A - {(b, s, p)}. x \<noteq> y \<longrightarrow> abytes x \<inter> abytes y = {}"
    using i unfolding arena_inv_def by simp
  show "arena_inv h' (free_insert b s F) (A - {(b, s, p)})"
    unfolding arena_inv_def by (intro conjI ballI ai(1-3) pw cov)
  show "same_outside (bytes (b, s) \<union> all_bytes F) h h'" by (rule ai(5))
qed

end
