(* ===== verification/Heap_Inv.thy ===== *)
theory Heap_Inv
  imports Heap_System
begin

text \<open>
  The invariant of the allocator: the free list and the allocated blocks partition the chunks, the chunks
  and the reservations are apart by a guard page, each cached or live payload belongs to one block, and
  the free list is fully coalesced. Each transition keeps it.
\<close>

section \<open>Coalescing\<close>

definition gapped :: "extent list \<Rightarrow> bool" where
  "gapped = sorted_wrt (\<lambda>x y. fst x + snd x < fst y)"

lemma gapped_append:
  "gapped (xs @ ys) \<longleftrightarrow> gapped xs \<and> gapped ys \<and> (\<forall>x\<in>set xs. \<forall>y\<in>set ys. fst x + snd x < fst y)"
  by (simp add: gapped_def sorted_wrt_append)

lemma gapped_Cons: "gapped (x # xs) \<longleftrightarrow> (\<forall>y\<in>set xs. fst x + snd x < fst y) \<and> gapped xs"
  by (simp add: gapped_def)

lemma gapped_Nil [simp]: "gapped []"
  by (simp add: gapped_def)

lemma gapped_join_right:
  assumes "ordered ((b, s) # ys)" "gapped ys" "\<forall>y\<in>set ys. 0 < snd y"
  shows "gapped (join_right b s ys)"
proof (cases ys)
  case (Cons y zs)
  have "b + s \<le> fst y" using assms(1) Cons by (simp add: ordered_Cons)
  moreover have "\<forall>z\<in>set zs. fst y + snd y < fst z" "gapped zs" using assms(2) Cons by (auto simp: gapped_Cons)
  ultimately show ?thesis using Cons by (fastforce simp: join_right_def gapped_Cons)
qed (simp add: join_right_def gapped_Cons)

lemma gapped_join_left:
  assumes "ordered (xs @ zs)" "gapped xs" "gapped zs" "zs \<noteq> []" "\<forall>z\<in>set zs. 0 < snd z" "\<forall>x\<in>set xs. 0 < snd x"
  shows "gapped (join_left xs zs)"
proof -
  obtain z ws where z: "zs = z # ws" using assms(4) by (cases zs) auto
  have zw: "fst z + snd z < fst w" if "w \<in> set ws" for w using assms(3) z that by (simp add: gapped_Cons)
  have gw: "gapped ws" using assms(3) z by (simp add: gapped_Cons)
  show ?thesis
  proof (cases xs rule: rev_cases)
    case Nil
    then show ?thesis using assms(3) by (simp add: join_left_def)
  next
    case (snoc us u)
    have uz: "fst u + snd u \<le> fst z" using assms(1) z snoc by (simp add: ordered_append ordered_Cons)
    have xu: "fst x + snd x < fst u" if "x \<in> set us" for x using assms(2) snoc that by (simp add: gapped_append gapped_Cons)
    have gu: "gapped us" using assms(2) snoc by (simp add: gapped_append)
    have u0: "0 < snd u" "0 < snd z" using assms(5,6) snoc z by auto
    have "fst x + snd x < fst w" if "x \<in> set us" "w \<in> set zs" for x w
      using xu [OF that(1)] zw [of w] that(2) uz u0 z by fastforce
    then show ?thesis using uz zw gw gu xu u0 assms(3)
      by (fastforce simp: join_left_def snoc z gapped_append gapped_Cons)
  qed
qed

lemma gapped_free_insert:
  assumes "ordered F" "gapped F" "\<forall>x\<in>set F. block_ok x" "block_ok (b, s)" "all_bytes F \<inter> bytes (b, s) = {}"
  shows "gapped (free_insert b s F)"
proof -
  let ?xs = "takeWhile (\<lambda>x. fst x < b) F" and ?ys = "dropWhile (\<lambda>x. fst x < b) F"
  note sp = split_at [OF assms(1,3-5)]
  have g: "gapped ?xs" "gapped ?ys" using assms(2) sp(1) by (metis gapped_append)+
  have r: "ordered ((b, s) # ?ys)" "\<forall>x\<in>set ((b, s) # ?ys). block_ok x" using sp(2,3) by (auto simp: ordered_append)
  note jr = join_right_wf [OF r] and pj = prefix_join_right [OF sp(2,3)]
  have pos: "block_ok x \<Longrightarrow> 0 < snd x" for x using block_okD(1) [of x] by simp
  have "gapped (join_right b s ?ys)" using r pos by (intro gapped_join_right [OF r(1) g(2)]) simp
  then show ?thesis unfolding free_insert_def
    using pj pos by (intro gapped_join_left [OF pj(1) g(1) _ jr(4)]) simp_all
qed

lemma gapped_first_fit:
  "first_fit align need F = Some (blk, p, G) \<Longrightarrow> gapped F \<Longrightarrow> 0 < align \<Longrightarrow>
   gapped G \<and> (\<forall>y\<in>set G. \<exists>x\<in>set F. fst x \<le> fst y \<and> fst y + snd y \<le> fst x + snd x)"
proof (induction F arbitrary: G)
  case (Cons x xs)
  show ?case
  proof (cases "fit align need x")
    case None
    then obtain G' where G: "first_fit align need xs = Some (blk, p, G')" "G = x # G'"
      using Cons.prems(1) by (auto split: option.splits)
    note ih = Cons.IH [OF G(1)]
    have gx: "\<forall>y\<in>set xs. fst x + snd x < fst y" "gapped xs" using Cons.prems(2) by (auto simp: gapped_Cons)
    then have ih': "gapped G'" "\<forall>y\<in>set G'. \<exists>x\<in>set xs. fst x \<le> fst y \<and> fst y + snd y \<le> fst x + snd x"
      using ih Cons.prems(3) by auto
    have "fst x + snd x < fst y" if "y \<in> set G'" for y
      using ih'(2) gx(1) that by (meson order.strict_trans2)
    then show ?thesis using ih' G(2) by (simp add: gapped_Cons)
  next
    case (Some pe)
    then obtain q e where pe: "pe = (q, e)" by (cases pe)
    have e: "e \<le> fst x + snd x" "q = align_down (fst x + 24 + align - 1) align" "e = align_down (q + need + 7) 8"
      using Some pe by (auto simp: fit_def Let_def split: if_splits)
    have "fst x + 24 \<le> q" unfolding e(2) by (rule align_up_ge [OF Cons.prems(3)])
    moreover have "q + need \<le> e" unfolding e(3) using align_up_ge [of 8 "q + need"] by (simp add: ac_simps)
    ultimately have ge: "fst x \<le> e" by linarith
    have gx: "\<forall>y\<in>set xs. fst x + snd x < fst y" "gapped xs" using Cons.prems(2) by (auto simp: gapped_Cons)
    have "G = (if 32 \<le> fst x + snd x - e then (e, fst x + snd x - e) # xs else xs)"
      using Cons.prems(1) Some pe by (auto split: if_splits)
    then show ?thesis using gx e(1) ge by (cases "32 \<le> fst x + snd x - e") (auto simp: gapped_Cons)
  qed
qed simp

section \<open>Chunks and reservations\<close>

definition separated :: "extent \<Rightarrow> extent \<Rightarrow> bool" where
  "separated x y \<longleftrightarrow> fst x + snd x + HEAP_GUARD_BYTES \<le> fst y \<or> fst y + snd y + HEAP_GUARD_BYTES \<le> fst x"

definition pending_extent :: "reservation \<Rightarrow> extent" where
  "pending_extent r = (fst r, fst (snd r))"

definition regions :: "heap_inner \<Rightarrow> reservation list \<Rightarrow> extent list" where
  "regions h P = map chunk_extent (chunks h) @ map pending_extent P"

definition low_ok :: "nat \<Rightarrow> bool" where
  "low_ok low \<longleftrightarrow> low = u64_max \<or> (low mod 8 = 0 \<and> low \<le> HEAP_TOP)"

definition pending_ok :: "reservation \<Rightarrow> bool" where
  "pending_ok r \<longleftrightarrow> low_ok (snd (snd r)) \<and>
     (if snd (snd r) = u64_max then fst r + fst (snd r) = HEAP_TOP
      else fst r + fst (snd r) + HEAP_GUARD_BYTES = snd (snd r))"

definition regions_inv :: "heap_inner \<Rightarrow> reservation list \<Rightarrow> bool" where
  "regions_inv h P \<longleftrightarrow>
     low_ok (low_vaddr h) \<and> (\<forall>r\<in>set P. pending_ok r) \<and> distinct (regions h P) \<and>
     (\<forall>x\<in>set (regions h P). block_ok x \<and> low_vaddr h \<le> fst x) \<and>
     (\<forall>x\<in>set (regions h P). \<forall>y\<in>set (regions h P). x \<noteq> y \<longrightarrow> separated x y)"

lemma regions_invD:
  assumes "regions_inv h P"
  shows "low_ok (low_vaddr h)" "r \<in> set P \<Longrightarrow> pending_ok r" "distinct (regions h P)"
    "x \<in> set (regions h P) \<Longrightarrow> block_ok x" "x \<in> set (regions h P) \<Longrightarrow> low_vaddr h \<le> fst x"
    "x \<in> set (regions h P) \<Longrightarrow> y \<in> set (regions h P) \<Longrightarrow> x \<noteq> y \<Longrightarrow> separated x y"
  using assms unfolding regions_inv_def by simp_all

lemma separated_bytes: "separated x y \<Longrightarrow> bytes x \<inter> bytes y = {}"
  by (auto simp: separated_def bytes_iff)

lemma reserve_range_ok:
  assumes r: "reserve_range low pages = Some (l, s)" and low: "low_ok low" and pg: "HEAP_GROW_PAGES \<le> pages"
  shows "block_ok (l, s)" "pending_ok (l, s, low)" "low = u64_max \<or> l + s + HEAP_GUARD_BYTES = low" "l < low" "low_ok l"
proof -
  have s: "s = pages * 4096" "16 \<le> pages"
    using r pg by (auto simp: reserve_range_def checked_mul64_def HEAP_GROW_PAGES_def split: if_splits option.splits)
  then have s8: "s mod 8 = 0" "32 \<le> s" by auto
  consider "low = u64_max" "l = HEAP_TOP - s" "s \<le> HEAP_TOP" "HEAP_FLOOR \<le> l"
    | "low \<noteq> u64_max" "l + s + HEAP_GUARD_BYTES = low" "HEAP_FLOOR \<le> l"
    using r by (auto simp: reserve_range_def split: if_splits option.splits)
  then have "block_ok (l, s) \<and> pending_ok (l, s, low) \<and> (low = u64_max \<or> l + s + HEAP_GUARD_BYTES = low) \<and> l < low \<and> low_ok l"
  proof cases
    case 1
    have "l mod 8 = 0" using s(1) 1(2,3) by (simp add: heap_consts mod_eq_0_iff_dvd dvd_diff_nat)
    then show ?thesis using 1 s8 by (auto simp: pending_ok_def low_ok_def heap_consts u64_max_def)
  next
    case 2
    then have lo: "low mod 8 = 0" "low \<le> HEAP_TOP" using low by (auto simp: low_ok_def)
    have "l = low - (s + HEAP_GUARD_BYTES)" "s + HEAP_GUARD_BYTES \<le> low" using 2 by linarith+
    then have "l mod 8 = 0" using lo(1) s8(1) by (simp add: heap_consts mod_eq_0_iff_dvd dvd_diff_nat)
    then show ?thesis using 2 s8 lo by (auto simp: pending_ok_def low_ok_def heap_consts)
  qed
  then show "block_ok (l, s)" "pending_ok (l, s, low)" "low = u64_max \<or> l + s + HEAP_GUARD_BYTES = low" "l < low" "low_ok l"
    by auto
qed

lemma regions_reserve:
  assumes i: "regions_inv h P" and g: "grow_reserve pages h = (h', Some r)" and pg: "HEAP_GROW_PAGES \<le> pages"
  shows "regions_inv h' (r # P)" "hp_mem h' = hp_mem h" "free_list h' = free_list h" "chunks h' = chunks h"
proof -
  obtain l s where rr: "reserve_range (low_vaddr h) pages = Some (l, s)" and h': "h' = h\<lparr>low_vaddr := l\<rparr>" "r = (l, s, low_vaddr h)"
    using g by (auto simp: grow_reserve_def split: option.splits prod.splits)
  note ok = reserve_range_ok [OF rr regions_invD(1) [OF i] pg]
  have far: "l + s + HEAP_GUARD_BYTES \<le> fst x" if "x \<in> set (regions h P)" for x
  proof -
    have "low_vaddr h \<le> fst x" "fst x < u64_max"
      using regions_invD(4,5) [OF i that] block_okD(1,8) [of x] by (auto simp: heap_consts u64_max_def)
    then show ?thesis using ok(3) by linarith
  qed
  have rg: "set (regions h' (r # P)) = insert (l, s) (set (regions h P))"
    and ms: "distinct (regions h' (r # P)) \<longleftrightarrow> (l, s) \<notin> set (regions h P) \<and> distinct (regions h P)"
    by (auto simp: regions_def h' pending_extent_def)
  have new: "(l, s) \<notin> set (regions h P)" using far [of "(l, s)"] by (auto simp: heap_consts)
  have sep: "separated x y" if "x \<in> insert (l, s) (set (regions h P))" "y \<in> insert (l, s) (set (regions h P))" "x \<noteq> y" for x y
    using that far [of x] far [of y] regions_invD(6) [OF i, of x y] by (auto simp: separated_def)
  show "regions_inv h' (r # P)"
    unfolding regions_inv_def rg ms
  proof (intro conjI ballI impI)
    fix x assume x: "x \<in> insert (l, s) (set (regions h P))"
    show "block_ok x" using x ok(1) regions_invD(4) [OF i, of x] by blast
    show "low_vaddr h' \<le> fst x" using x far [of x] by (auto simp: h')
  next
    fix x assume "x \<in> set (r # P)"
    then show "pending_ok x" using ok(2) regions_invD(2) [OF i, of x] h'(2) by auto
  qed (use ok(5) new regions_invD(3) [OF i] sep in \<open>auto simp: h'\<close>)
qed (use g in \<open>auto simp: grow_reserve_def split: option.splits prod.splits\<close>)

text \<open>Undoing a reservation, also when a later one is below it.\<close>

lemma regions_rollback:
  assumes i: "regions_inv h P" and r: "r \<in> set P"
    and h': "h' = (if low_vaddr h = fst r then h\<lparr>low_vaddr := snd (snd r)\<rparr> else h)"
  shows "regions_inv h' (remove1 r P)"
proof -
  obtain l s old where re: "r = (l, s, old)" by (cases r)
  have ch: "chunks h' = chunks h" by (simp add: h')
  have pe: "pending_extent r \<in> set (regions h P)" using r by (simp add: regions_def)
  have po: "pending_ok r" by (rule regions_invD(2) [OF i r])
  have sub: "set (regions h' (remove1 r P)) \<subseteq> set (regions h P)" using set_remove1_subset [of r P] by (auto simp: regions_def ch)
  have perm: "mset (regions h P) = mset (pending_extent r # regions h' (remove1 r P))"
  proof -
    have "mset P = add_mset r (mset (remove1 r P))" using r by simp
    then have "image_mset pending_extent (mset P) = add_mset (pending_extent r) (image_mset pending_extent (mset (remove1 r P)))"
      by (metis image_mset_add_mset)
    then show ?thesis by (simp add: regions_def ch)
  qed
  then have d: "distinct (pending_extent r # regions h' (remove1 r P))"
    using regions_invD(3) [OF i] mset_eq_imp_distinct_iff by blast
  have low: "low_vaddr h' \<le> fst x" if x: "x \<in> set (regions h' (remove1 r P))" for x
  proof (cases "low_vaddr h = l")
    case False
    have "x \<in> set (regions h P)" using sub x by blast
    then show ?thesis using regions_invD(5) [OF i, of x] False by (simp add: h' re)
  next
    case True
    have xr: "x \<in> set (regions h P)" "x \<noteq> pending_extent r" using sub x d by auto
    have "separated x (l, s)" "l \<le> fst x" "block_ok x"
      using regions_invD(4,5) [OF i xr(1)] regions_invD(6) [OF i xr(1) pe xr(2)] True by (auto simp: pending_extent_def re)
    then have "l + s + HEAP_GUARD_BYTES \<le> fst x" "32 \<le> snd x" "fst x + snd x \<le> HEAP_TOP"
      using block_okD(1,8) [of x] by (auto simp: separated_def heap_consts)
    then have "old \<le> fst x"
      using po by (auto simp: pending_ok_def re split: if_splits)
    then show ?thesis using True by (simp add: h' re)
  qed
  have lo: "low_ok (low_vaddr h')" using regions_invD(1) [OF i] po by (simp add: h' pending_ok_def)
  show ?thesis unfolding regions_inv_def
  proof (intro conjI ballI impI)
    show "distinct (regions h' (remove1 r P))" using d by simp
    fix x assume x: "x \<in> set (regions h' (remove1 r P))"
    show "block_ok x" using regions_invD(4) [OF i] sub x by blast
    show "low_vaddr h' \<le> fst x" by (rule low [OF x])
    fix y assume "y \<in> set (regions h' (remove1 r P))" "x \<noteq> y"
    then show "separated x y" using regions_invD(6) [OF i] sub x by blast
  next
    fix q assume "q \<in> set (remove1 r P)"
    then show "pending_ok q" using regions_invD(2) [OF i] set_remove1_subset [of r P] by blast
  qed (rule lo)
qed

text \<open>Committing a reservation.\<close>

lemma regions_commit:
  assumes i: "regions_inv h P" and r: "(l, s, old) \<in> set P" and lv: "low_vaddr h' = low_vaddr h"
    and ch: "chunks h' = chunks h @ [\<lparr>ck_vaddr = l, ck_phys = ph, ck_size = s, ck_live = 0, ck_scattered = sc\<rparr>]"
  shows "regions_inv h' (remove1 (l, s, old) P)"
proof -
  let ?r = "(l, s, old)"
  have "mset P = add_mset ?r (mset (remove1 ?r P))" using r by simp
  then have "image_mset pending_extent (mset P) = add_mset (l, s) (image_mset pending_extent (mset (remove1 ?r P)))"
    by (metis image_mset_add_mset pending_extent_def fst_conv snd_conv)
  then have perm: "mset (regions h' (remove1 ?r P)) = mset (regions h P)"
    by (simp add: regions_def ch chunk_extent_def)
  then have st: "set (regions h' (remove1 ?r P)) = set (regions h P)" by (rule mset_eq_setD)
  have "distinct (regions h' (remove1 ?r P))" using regions_invD(3) [OF i] mset_eq_imp_distinct_iff [OF perm] by simp
  moreover have "\<forall>q\<in>set (remove1 ?r P). pending_ok q" using i set_remove1_subset [of ?r P] unfolding regions_inv_def by blast
  ultimately show ?thesis using i unfolding regions_inv_def st lv by blast
qed

lemma pending_apart:
  assumes ri: "regions_inv h P" and r: "(l, s, old) \<in> set P"
  shows "block_ok (l, s)" "bytes (l, s) \<inter> chunk_bytes h = {}"
proof -
  have lr: "(l, s) \<in> set (regions h P)" using r by (force simp: regions_def pending_extent_def)
  show "block_ok (l, s)" by (rule regions_invD(4) [OF ri lr])
  have d: "distinct (map chunk_extent (chunks h) @ map pending_extent P)" using regions_invD(3) [OF ri] by (simp add: regions_def)
  have "bytes (l, s) \<inter> bytes x = {}" if x: "x \<in> set (map chunk_extent (chunks h))" for x
  proof -
    have "(l, s) \<in> set (map pending_extent P)" using r by (force simp: pending_extent_def)
    then have "x \<noteq> (l, s)" using d x by (metis disjoint_iff distinct_append)
    moreover have "x \<in> set (regions h P)" using x by (simp add: regions_def)
    ultimately have "separated (l, s) x" using regions_invD(6) [OF ri lr] by metis
    then show ?thesis by (rule separated_bytes)
  qed
  then show "bytes (l, s) \<inter> chunk_bytes h = {}" unfolding chunk_bytes_def by blast
qed

lemma arena_grow:
  assumes i: "arena_inv h F A" and b: "block_ok (l, s)" "bytes (l, s) \<inter> chunk_bytes h = {}"
    and a: "add_region l s h = Inr h1" and g: "register_chunk l ph s sc h1 = Inr h'"
  shows "arena_inv h' (free_insert l s F) A" "all_bytes F \<inter> bytes (l, s) = {}" "low_vaddr h' = low_vaddr h"
    "chunks h' = chunks h @ [\<lparr>ck_vaddr = l, ck_phys = ph, ck_size = s, ck_live = 0, ck_scattered = sc\<rparr>]"
    "\<And>w. w \<notin> bytes (l, s) \<union> all_bytes F \<Longrightarrow> hp_mem h' w = hp_mem h w"
proof -
  let ?h0 = "h\<lparr>hp_mem := put_header l s 0 (hp_mem h)\<rparr>"
  have r: "push_free l ?h0 = Inr h1" using a by (simp add: add_region_def)
  have h0: "hp_mem ?h0 l = s" "free_list ?h0 = free_list h" by (simp_all add: put_header_def)
  have so: "same_outside (bytes (l, s)) h ?h0" using header_in_bytes [OF b(1)] by (auto simp: same_outside_def put_header_def)
  show dj: "all_bytes F \<inter> bytes (l, s) = {}" using b(2) arena_invD(5) [OF i] by blast
  have dA: "abytes x \<inter> bytes (l, s) = {}" if "x \<in> A" for x using b(2) arena_invD(5) [OF i] that by blast
  note ai = arena_insert [where B = A, OF i b(1) h0(1) so h0(2) dj dA subset_refl r]
  have h': "h' = h1\<lparr>chunks := chunks h1 @ [\<lparr>ck_vaddr = l, ck_phys = ph, ck_size = s, ck_live = 0, ck_scattered = sc\<rparr>]\<rparr>"
    using g by (auto simp: register_chunk_def split: if_splits)
  have m: "hp_mem h' = hp_mem h1" "free_list h' = free_list h1" by (simp_all add: h')
  show ch: "chunks h' = chunks h @ [\<lparr>ck_vaddr = l, ck_phys = ph, ck_size = s, ck_live = 0, ck_scattered = sc\<rparr>]"
    and "low_vaddr h' = low_vaddr h" using ai(5) by (simp_all add: h' same_outside_def)
  have cb: "chunk_bytes h' = bytes (l, s) \<union> chunk_bytes h" by (simp add: chunk_bytes_def ch chunk_extent_def)
  have cov: "all_bytes (free_insert l s F) \<union> \<Union> (abytes ` A) = chunk_bytes h'"
    unfolding cb arena_invD(5) [OF i, symmetric] using ai(4) by (metis Un_assoc)
  have pw: "\<forall>x\<in>A. \<forall>y\<in>A. x \<noteq> y \<longrightarrow> abytes x \<inter> abytes y = {}" using i unfolding arena_inv_def by simp
  show "arena_inv h' (free_insert l s F) A"
    unfolding arena_inv_def m by (intro conjI ballI ai(1-3) pw cov)
  show "hp_mem h' w = hp_mem h w" if "w \<notin> bytes (l, s) \<union> all_bytes F" for w
    using ai(5) that unfolding same_outside_def m by blast
qed

section \<open>Owners of the payloads\<close>

definition caches_inv :: "kheap \<Rightarrow> nat list list \<Rightarrow> bool" where
  "caches_inv k Q \<longleftrightarrow> length (kh_caches k) = MAX_CPUS \<and> length Q = MAX_CPUS \<and>
     (\<forall>i<MAX_CPUS. cstack (kh_mem k) (cc_head (kh_caches k ! i)) (Q ! i) \<and>
        cc_count (kh_caches k ! i) = length (Q ! i) \<and> length (Q ! i) \<le> CPU_CACHE_CAP)"

definition live_ok :: "ablock set \<Rightarrow> allocation \<Rightarrow> bool" where
  "live_ok A x \<longleftrightarrow> fst x mod snd (snd x) = 0 \<and> (\<exists>b s. (b, s, fst x) \<in> A \<and> fst x + fst (snd x) \<le> b + s)"

definition owners_inv :: "ablock set \<Rightarrow> nat list list \<Rightarrow> allocation list \<Rightarrow> bool" where
  "owners_inv A Q L \<longleftrightarrow>
     distinct (concat Q @ map fst L) \<and> set (concat Q @ map fst L) = payload ` A \<and> (\<forall>x\<in>set L. live_ok A x)"

definition kinv :: "kheap \<Rightarrow> allocation list \<Rightarrow> reservation list \<Rightarrow> extent list \<Rightarrow> ablock set \<Rightarrow> nat list list \<Rightarrow> bool" where
  "kinv k L P F A Q \<longleftrightarrow>
     arena_inv (kh_heap k) F A \<and> gapped F \<and> regions_inv (kh_heap k) P \<and> caches_inv k Q \<and> owners_inv A Q L"

lemma owners_invD:
  assumes "owners_inv A Q L"
  shows "distinct (concat Q @ map fst L)" "set (concat Q @ map fst L) = payload ` A" "x \<in> set L \<Longrightarrow> live_ok A x"
  using assms unfolding owners_inv_def by blast+

lemma concat_split: "i < length Q \<Longrightarrow> concat Q = concat (take i Q) @ Q ! i @ concat (drop (Suc i) Q)"
  by (metis concat.simps(2) concat_append id_take_nth_drop)

lemma concat_update: "i < length Q \<Longrightarrow> concat (Q[i := q]) = concat (take i Q) @ q @ concat (drop (Suc i) Q)"
  by (simp add: upd_conv_take_nth_drop)

lemma cached_in:
  assumes "owners_inv A Q L" "i < length Q" "q \<in> set (Q ! i)"
  shows "\<exists>b s. (b, s, q) \<in> A"
proof -
  have "q \<in> set (concat Q @ map fst L)" using assms(2,3) by (auto simp: concat_split [OF assms(2)])
  then have "q \<in> payload ` A" unfolding owners_invD(2) [OF assms(1)] .
  then show ?thesis by force
qed

text \<open>A change of memory outside the cached payloads keeps the caches.\<close>

lemma caches_inv_cong:
  assumes "caches_inv k Q" "kh_caches k' = kh_caches k"
    "\<And>i q. i < MAX_CPUS \<Longrightarrow> q \<in> set (Q ! i) \<Longrightarrow> kh_mem k' q = kh_mem k q"
  shows "caches_inv k' Q"
proof -
  have "cstack (kh_mem k') p (Q ! i) = cstack (kh_mem k) p (Q ! i)" if "i < MAX_CPUS" for i p
    using assms(3) [OF that] by (rule cstack_cong)
  then show ?thesis using assms(1,2) by (simp add: caches_inv_def)
qed

end
