(* ===== verification/Heap_Safe.thy ===== *)
theory Heap_Safe
  imports Heap_Inv
begin

text \<open>
  Every transition of the allocator keeps its invariant.
\<close>

lemma kinvD:
  assumes "kinv k L P F A Q"
  shows "arena_inv (kh_heap k) F A" "gapped F" "regions_inv (kh_heap k) P" "caches_inv k Q" "owners_inv A Q L"
  using assms unfolding kinv_def by simp_all

lemma kinvI:
  "arena_inv (kh_heap k) F A \<Longrightarrow> gapped F \<Longrightarrow> regions_inv (kh_heap k) P \<Longrightarrow> caches_inv k Q \<Longrightarrow> owners_inv A Q L
   \<Longrightarrow> kinv k L P F A Q"
  unfolding kinv_def by simp

lemma caches_invD:
  assumes "caches_inv k Q"
  shows "length (kh_caches k) = MAX_CPUS" "length Q = MAX_CPUS"
    "i < MAX_CPUS \<Longrightarrow> cstack (kh_mem k) (cc_head (kh_caches k ! i)) (Q ! i)"
    "i < MAX_CPUS \<Longrightarrow> cc_count (kh_caches k ! i) = length (Q ! i)" "i < MAX_CPUS \<Longrightarrow> length (Q ! i) \<le> CPU_CACHE_CAP"
  using assms unfolding caches_inv_def by simp_all

lemma cached_block:
  assumes "kinv k L P F A Q" "i < MAX_CPUS" "q \<in> set (Q ! i)"
  obtains b s where "(b, s, q) \<in> A" "q \<in> abytes (b, s, q)"
proof -
  obtain b s where "(b, s, q) \<in> A"
    using cached_in [OF kinvD(5) [OF assms(1)] _ assms(3)] assms(2) caches_invD(2) [OF kinvD(4) [OF assms(1)]] by auto
  then show thesis using that alloc_wfD(7) [OF arena_invD(2) [OF kinvD(1) [OF assms(1)]]] by blast
qed

lemma regions_inv_cong: "regions_inv h P \<Longrightarrow> low_vaddr h' = low_vaddr h \<Longrightarrow> chunks h' = chunks h \<Longrightarrow> regions_inv h' P"
  by (simp add: regions_inv_def regions_def)

lemma live_in:
  assumes "kinv k L P F A Q" "(p, n, al) \<in> set L"
  obtains b s where "(b, s, p) \<in> A" "p + n \<le> b + s" "p mod al = 0"
  using owners_invD(3) [OF kinvD(5) [OF assms(1)] assms(2)] by (auto simp: live_ok_def)

lemma live_not_cached:
  assumes "kinv k L P F A Q" "(p, n, al) \<in> set L" "i < MAX_CPUS"
  shows "p \<notin> set (Q ! i)"
proof -
  have "p \<in> set (map fst L)" using assms(2) by force
  moreover have "set (Q ! i) \<subseteq> set (concat Q)"
    using assms(3) caches_invD(2) [OF kinvD(4) [OF assms(1)]] by (subst concat_split [of i]) auto
  ultimately show ?thesis using owners_invD(1) [OF kinvD(5) [OF assms(1)]] by auto
qed

lemma live_ok_mono: "live_ok A x \<Longrightarrow> A \<subseteq> B \<Longrightarrow> live_ok B x"
  unfolding live_ok_def by blast

section \<open>Memory\<close>

lemma step_client_write:
  assumes k: "kinv k L P F A Q" and p: "(p, n, al) \<in> set L" "p \<le> w" "w < p + n"
  shows "kinv (set_word w v k) L P F A Q"
proof -
  obtain b s where b: "(b, s, p) \<in> A" "p + n \<le> b + s" using live_in [OF k p(1)] by blast
  have wb: "w < b + s" using b(2) p(3) by linarith
  have wf: "alloc_wf (kh_mem k) (b, s, p)" by (rule arena_invD(2) [OF kinvD(1) [OF k] b(1)])
  have wa: "w \<in> abytes (b, s, p)" using alloc_wfD(2) [OF wf] wb p(2) by simp
  have nq: "q \<noteq> w" if q: "i < MAX_CPUS" "q \<in> set (Q ! i)" for i q
  proof -
    obtain c t where c: "(c, t, q) \<in> A" "q \<in> abytes (c, t, q)" by (rule cached_block [OF k q])
    have "q \<noteq> p" using live_not_cached [OF k p(1) q(1)] q(2) by blast
    then show ?thesis using arena_invD(3) [OF kinvD(1) [OF k] c(1) b(1)] c(2) wa by blast
  qed
  have ci: "caches_inv (set_word w v k) Q"
    using nq by (intro caches_inv_cong [OF kinvD(4) [OF k]]) (auto simp: set_word_def)
  have ai: "arena_inv (kh_heap (set_word w v k)) F A"
    using payload_write [OF kinvD(1) [OF k] b(1) p(2) wb] by (simp add: set_word_def)
  have ri: "regions_inv (kh_heap (set_word w v k)) P"
    by (rule regions_inv_cong [OF kinvD(3) [OF k]]) (simp_all add: set_word_def)
  show ?thesis by (rule kinvI [OF ai kinvD(2) [OF k] ri ci kinvD(5) [OF k]])
qed

text \<open>A change outside the chunks.\<close>

lemma outside_chunks:
  assumes i: "arena_inv h F A" and w: "w \<notin> chunk_bytes h"
  shows "arena_inv (h\<lparr>hp_mem := (hp_mem h)(w := v)\<rparr>) F A"
proof -
  have wF: "w \<notin> all_bytes F" using w arena_invD(5) [OF i] by blast
  have "fst x \<noteq> w \<and> fst x + 8 \<noteq> w" if "x \<in> set F" for x
    using header_in_bytes [of x] that arena_invD(1) [OF i] wF by (auto simp: free_wf_def)
  then have "fseg ((hp_mem h)(w := v)) q F 0 = fseg (hp_mem h) q F 0" for q by (intro fseg_cong) auto
  then have "free_wf ((hp_mem h)(w := v)) (free_list h) F" using arena_invD(1) [OF i] by (simp add: free_wf_def)
  moreover have "alloc_wf ((hp_mem h)(w := v)) y" if y: "y \<in> A" for y
  proof -
    have "w \<notin> abytes y" using w arena_invD(5) [OF i] y by blast
    then show ?thesis by (intro alloc_wf_same [OF arena_invD(2) [OF i y]]) auto
  qed
  ultimately show ?thesis using i unfolding arena_inv_def by (simp add: chunk_bytes_def)
qed

lemma step_fresh_page:
  assumes k: "kinv k L P F A Q" and p: "(l, s, old) \<in> set P" "l \<le> w" "w < l + s"
  shows "kinv (set_word w v k) L P F A Q"
proof -
  have w: "w \<notin> chunk_bytes (kh_heap k)"
    using pending_apart(2) [OF kinvD(3) [OF k] p(1)] p(2,3) by (auto simp: bytes_iff)
  have nq: "q \<noteq> w" if q: "i < MAX_CPUS" "q \<in> set (Q ! i)" for i q
  proof -
    obtain c t where c: "(c, t, q) \<in> A" "q \<in> abytes (c, t, q)" by (rule cached_block [OF k q])
    then have "q \<in> chunk_bytes (kh_heap k)" using arena_invD(5) [OF kinvD(1) [OF k]] by blast
    then show ?thesis using w by blast
  qed
  have ci: "caches_inv (set_word w v k) Q"
    using nq by (intro caches_inv_cong [OF kinvD(4) [OF k]]) (auto simp: set_word_def)
  have ai: "arena_inv (kh_heap (set_word w v k)) F A"
    using outside_chunks [OF kinvD(1) [OF k] w] by (simp add: set_word_def)
  have ri: "regions_inv (kh_heap (set_word w v k)) P"
    by (rule regions_inv_cong [OF kinvD(3) [OF k]]) (simp_all add: set_word_def)
  show ?thesis by (rule kinvI [OF ai kinvD(2) [OF k] ri ci kinvD(5) [OF k]])
qed

section \<open>The arena\<close>

lemma caches_outside_free:
  assumes k: "kinv k L P F A Q" and m: "\<And>w. w \<notin> all_bytes F \<Longrightarrow> hp_mem h' w = kh_mem k w"
  shows "caches_inv (k\<lparr>kh_heap := h'\<rparr>) Q"
proof (rule caches_inv_cong [OF kinvD(4) [OF k]])
  fix i q assume q: "i < MAX_CPUS" "q \<in> set (Q ! i)"
  obtain c t where c: "(c, t, q) \<in> A" "q \<in> abytes (c, t, q)" by (rule cached_block [OF k q])
  then have "q \<notin> all_bytes F" using arena_invD(4) [OF kinvD(1) [OF k] c(1)] by blast
  then show "kh_mem (k\<lparr>kh_heap := h'\<rparr>) q = kh_mem k q" using m by simp
qed simp

lemma arena_alloc_exact:
  assumes k: "kinv k L P F A Q" and al: "layout_ok al" and r: "arena_alloc n al k = Some (k', p)"
  shows "(first_fit (max al 8) (max n 8) F = None \<and> p = 0 \<and> k' = k) \<or>
    (\<exists>blk G B. first_fit (max al 8) (max n 8) F = Some (blk, p, G) \<and> p \<noteq> 0 \<and> kinv k' ((p, n, al) # L) P G B Q)"
proof -
  obtain h' where h': "alloc_inner (kh_heap k) n al = Some (h', p)" "k' = k\<lparr>kh_heap := h'\<rparr>"
    using r by (auto simp: arena_alloc_def ENABLE_HEAP_CHUNK_RECLAIM_def split: option.splits)
  have wf: "free_wf (kh_mem k) (free_list (kh_heap k)) F" by (rule arena_invD(1) [OF kinvD(1) [OF k]])
  then have oF: "ordered F" "\<forall>x\<in>set F. block_ok x" by (auto simp: free_wf_def)
  consider "h' = kh_heap k" "p = 0" "first_fit (max al 8) (max n 8) F = None"
    | b s G where "first_fit (max al 8) (max n 8) F = Some ((b, s), p, G)" "taken (kh_heap k) F (b, s) p G h'"
    using alloc_inner_refines [OF wf al h'(1)] by auto
  then show ?thesis
  proof cases
    case 1
    then show ?thesis using k h'(2) by auto
  next
    case 2
    note la = layout_align [OF al, unfolded BLOCK_ALIGN_def]
    have n8: "8 \<le> max n 8" by simp
    note ff = first_fit_wf [OF 2(1) oF la(1,2) n8]
    have p: "b + 24 \<le> p" "p + 8 \<le> b + s" "p mod 8 = 0" "p + n \<le> b + s" "p mod max al 8 = 0" using ff by auto
    then have pal: "p mod al = 0" using la(3) by (metis mod_0_imp_dvd dvd_trans dvd_imp_mod_0)
    have ai: "arena_inv h' G (insert (b, s, p) A)"
      by (rule arena_take [OF kinvD(1) [OF k] 2(2) _ _ _ _ _ p(1-3)]) (use ff in simp_all)
    have gG: "gapped G" using gapped_first_fit [OF 2(1) kinvD(2) [OF k] la(2)] by simp
    have so: "same_outside (all_bytes F) (kh_heap k) h'" using 2(2) by (simp add: taken_def)
    have ci: "caches_inv k' Q" unfolding h'(2) using so by (intro caches_outside_free [OF k]) (auto simp: same_outside_def)
    have ri: "regions_inv h' P" using so by (intro regions_inv_cong [OF kinvD(3) [OF k]]) (simp_all add: same_outside_def)
    have new: "p \<notin> payload ` A"
    proof
      assume "p \<in> payload ` A"
      then obtain b' s' where x: "(b', s', p) \<in> A" by force
      have "p \<in> abytes (b', s', p)" by (rule alloc_wfD(7) [OF arena_invD(2) [OF kinvD(1) [OF k] x]])
      moreover have "p \<in> all_bytes F" using ff p by auto
      ultimately show False using arena_invD(4) [OF kinvD(1) [OF k] x] by blast
    qed
    note oi = owners_invD [OF kinvD(5) [OF k]]
    have "live_ok (insert (b, s, p) A) x" if "x \<in> set ((p, n, al) # L)" for x
    proof (cases "x = (p, n, al)")
      case True
      then show ?thesis using pal p(4) unfolding live_ok_def by auto
    next
      case False
      then show ?thesis using that live_ok_mono [OF oi(3) [of x] subset_insertI] by simp
    qed
    moreover have "distinct (concat Q @ map fst ((p, n, al) # L))" using oi(1) new unfolding oi(2) [symmetric] by auto
    moreover have "set (concat Q @ map fst ((p, n, al) # L)) = payload ` insert (b, s, p) A" using oi(2) by auto
    ultimately have ow: "owners_inv (insert (b, s, p) A) Q ((p, n, al) # L)" unfolding owners_inv_def by blast
    have "kinv k' ((p, n, al) # L) P G (insert (b, s, p) A) Q"
      by (rule kinvI [OF _ gG _ ci ow]) (simp_all add: h'(2) ai ri)
    moreover have "p \<noteq> 0" using p(1) by linarith
    ultimately show ?thesis using 2(1) by auto
  qed
qed

lemma step_arena_alloc:
  assumes "kinv k L P F A Q" "layout_ok al" "arena_alloc n al k = Some (k', p)"
  shows "\<exists>G B. kinv k' (if p = 0 then L else (p, n, al) # L) P G B Q"
proof (rule disjE [OF arena_alloc_exact [OF assms]])
  assume "first_fit (max al 8) (max n 8) F = None \<and> p = 0 \<and> k' = k"
  then show ?thesis using assms(1) by auto
next
  assume "\<exists>blk G B. first_fit (max al 8) (max n 8) F = Some (blk, p, G) \<and> p \<noteq> 0 \<and> kinv k' ((p, n, al) # L) P G B Q"
  then obtain G B where "p \<noteq> 0" "kinv k' ((p, n, al) # L) P G B Q" by blast
  then show ?thesis by auto
qed

text \<open>The payload of a live or cached entry leads to its block.\<close>

lemma owners_remove:
  assumes i: "arena_inv h F A" and a: "(b, s, p) \<in> A" and o: "owners_inv A Q L" and p: "(p, n, al) \<in> set L"
  shows "owners_inv (A - {(b, s, p)}) Q (remove1 (p, n, al) L)"
proof -
  note oi = owners_invD [OF o]
  have inj: "payload x = p \<longleftrightarrow> x = (b, s, p)" if x: "x \<in> A" for x
  proof -
    obtain b' s' q where "x = (b', s', q)" by (cases x)
    then show ?thesis using same_payload [OF i a] x by auto
  qed
  have pA: "payload ` (A - {(b, s, p)}) = payload ` A - {p}" using inj a by force
  have dL: "distinct (map fst L)" using oi(1) by simp
  have mr: "mset (map fst L) = add_mset p (mset (map fst (remove1 (p, n, al) L)))"
  proof -
    have "mset L = add_mset (p, n, al) (mset (remove1 (p, n, al) L))" using p by simp
    then have "image_mset fst (mset L) = add_mset p (image_mset fst (mset (remove1 (p, n, al) L)))"
      by (metis image_mset_add_mset fst_conv)
    then show ?thesis by simp
  qed
  then have "mset (concat Q @ map fst L) = mset (p # concat Q @ map fst (remove1 (p, n, al) L))" by simp
  then have d: "distinct (p # concat Q @ map fst (remove1 (p, n, al) L))"
    and st: "set (concat Q @ map fst L) = set (p # concat Q @ map fst (remove1 (p, n, al) L))"
    using oi(1) mset_eq_imp_distinct_iff mset_eq_setD by blast+
  have s2: "set (concat Q @ map fst (remove1 (p, n, al) L)) = payload ` (A - {(b, s, p)})"
    unfolding pA oi(2) [symmetric] st using d by auto
  have "live_ok (A - {(b, s, p)}) x" if x: "x \<in> set (remove1 (p, n, al) L)" for x
  proof -
    have "x \<in> set L" using x set_remove1_subset [of "(p, n, al)" L] by blast
    moreover have "fst x \<noteq> p" using d x by auto
    ultimately show ?thesis using oi(3) [of x] unfolding live_ok_def by auto
  qed
  then show ?thesis using d s2 unfolding owners_inv_def by simp
qed

lemma step_arena_free:
  assumes k: "kinv k L P F A Q" and p: "(p, n, al) \<in> set L" and r: "arena_free p k = Inr k'"
  shows "\<exists>G B. kinv k' (remove1 (p, n, al) L) P G B Q"
proof -
  obtain b s where b: "(b, s, p) \<in> A" by (rule live_in [OF k p])
  note wf = alloc_wfD [OF arena_invD(2) [OF kinvD(1) [OF k] b]]
  obtain h' where h': "push_free b (set_next b 0 (kh_heap k)) = Inr h'" "k' = k\<lparr>kh_heap := h'\<rparr>"
    using r wf(6) by (auto simp: arena_free_def from_payload_def BACKPTR_SIZE_def Let_def split: sum.splits)
  note ag = arena_give [OF kinvD(1) [OF k] b h'(1)]
  have F: "ordered F" "\<forall>x\<in>set F. block_ok x" using arena_invD(1) [OF kinvD(1) [OF k]] by (auto simp: free_wf_def)
  have dj: "all_bytes F \<inter> bytes (b, s) = {}" using arena_invD(4) [OF kinvD(1) [OF k] b] by auto
  have g: "gapped (free_insert b s F)" by (rule gapped_free_insert [OF F(1) kinvD(2) [OF k] F(2) wf(1) dj])
  have ri: "regions_inv h' P" using ag(2) by (intro regions_inv_cong [OF kinvD(3) [OF k]]) (simp_all add: same_outside_def)
  have ci: "caches_inv k' Q"
  proof (rule caches_inv_cong [OF kinvD(4) [OF k]])
    fix i q assume q: "i < MAX_CPUS" "q \<in> set (Q ! i)"
    obtain c t where c: "(c, t, q) \<in> A" "q \<in> abytes (c, t, q)" by (rule cached_block [OF k q])
    have ne: "(c, t, q) \<noteq> (b, s, p)" using live_not_cached [OF k p q(1)] q(2) by blast
    have "q \<notin> bytes (b, s)" using arena_invD(3) [OF kinvD(1) [OF k] c(1) b ne] c(2) by auto
    moreover have "q \<notin> all_bytes F" using arena_invD(4) [OF kinvD(1) [OF k] c(1)] c(2) by blast
    ultimately show "kh_mem k' q = kh_mem k q" using ag(2) unfolding same_outside_def h'(2) by simp
  qed (simp add: h'(2))
  have "kinv k' (remove1 (p, n, al) L) P (free_insert b s F) (A - {(b, s, p)}) Q"
    by (rule kinvI [OF _ g _ ci owners_remove [OF kinvD(1) [OF k] b kinvD(5) [OF k] p]]) (simp_all add: h'(2) ag(1) ri)
  then show ?thesis by blast
qed

section \<open>Growth\<close>

lemma step_reserve:
  assumes k: "kinv k L P F A Q" and g: "grow_reserve pages (kh_heap k) = (h', Some r)" "HEAP_GROW_PAGES \<le> pages"
  shows "kinv (k\<lparr>kh_heap := h'\<rparr>) L (r # P) F A Q"
proof -
  note rr = regions_reserve [OF kinvD(3) [OF k] g]
  have ai: "arena_inv h' F A" by (rule arena_inv_mem_eq [OF kinvD(1) [OF k] rr(2-4)])
  have ci: "caches_inv (k\<lparr>kh_heap := h'\<rparr>) Q" by (rule caches_outside_free [OF k]) (simp add: rr(2))
  show ?thesis by (rule kinvI [OF _ kinvD(2) [OF k] _ ci kinvD(5) [OF k]]) (simp_all add: ai rr(1))
qed

lemma step_commit:
  assumes k: "kinv k L P F A Q" and r: "(l, s, old) \<in> set P" and g: "grow_commit l s old backing (kh_heap k) = Inr h'"
  shows "\<exists>G. kinv (k\<lparr>kh_heap := h'\<rparr>) L (remove1 (l, s, old) P) G A Q"
proof (cases backing)
  case None
  have h': "h' = (if low_vaddr (kh_heap k) = l then (kh_heap k)\<lparr>low_vaddr := old\<rparr> else kh_heap k)"
    using g None by (simp add: grow_commit_def)
  then have ri: "regions_inv h' (remove1 (l, s, old) P)" by (intro regions_rollback [OF kinvD(3) [OF k] r]) simp
  have ai: "arena_inv h' F A" by (rule arena_inv_mem_eq [OF kinvD(1) [OF k]]) (simp_all add: h')
  have ci: "caches_inv (k\<lparr>kh_heap := h'\<rparr>) Q" by (rule caches_outside_free [OF k]) (simp add: h')
  have "kinv (k\<lparr>kh_heap := h'\<rparr>) L (remove1 (l, s, old) P) F A Q"
    by (rule kinvI [OF _ kinvD(2) [OF k] _ ci kinvD(5) [OF k]]) (simp_all add: ai ri)
  then show ?thesis by blast
next
  case (Some ps)
  obtain h1 ph sc where h1: "add_region l s (kh_heap k) = Inr h1" "register_chunk l ph s sc h1 = Inr h'"
    using g Some by (auto simp: grow_commit_def split: prod.splits sum.splits)
  note pa = pending_apart [OF kinvD(3) [OF k] r]
  note ag = arena_grow [OF kinvD(1) [OF k] pa h1]
  have F: "ordered F" "\<forall>x\<in>set F. block_ok x" using arena_invD(1) [OF kinvD(1) [OF k]] by (auto simp: free_wf_def)
  have gG: "gapped (free_insert l s F)" by (rule gapped_free_insert [OF F(1) kinvD(2) [OF k] F(2) pa(1) ag(2)])
  have ri: "regions_inv h' (remove1 (l, s, old) P)" by (rule regions_commit [OF kinvD(3) [OF k] r ag(3,4)])
  have ci: "caches_inv (k\<lparr>kh_heap := h'\<rparr>) Q"
  proof (rule caches_inv_cong [OF kinvD(4) [OF k]])
    fix i q assume q: "i < MAX_CPUS" "q \<in> set (Q ! i)"
    obtain c t where c: "(c, t, q) \<in> A" "q \<in> abytes (c, t, q)" by (rule cached_block [OF k q])
    have "q \<in> chunk_bytes (kh_heap k)" using arena_invD(5) [OF kinvD(1) [OF k]] c by blast
    then have "q \<notin> bytes (l, s)" using pa(2) by blast
    moreover have "q \<notin> all_bytes F" using arena_invD(4) [OF kinvD(1) [OF k] c(1)] c(2) by blast
    ultimately show "kh_mem (k\<lparr>kh_heap := h'\<rparr>) q = kh_mem k q" using ag(5) [of q] by simp
  qed simp
  have "kinv (k\<lparr>kh_heap := h'\<rparr>) L (remove1 (l, s, old) P) (free_insert l s F) A Q"
    by (rule kinvI [OF _ gG _ ci kinvD(5) [OF k]]) (simp_all add: ag(1) ri)
  then show ?thesis by blast
qed

section \<open>The caches\<close>

lemma distinct_concat_nth:
  assumes "distinct (concat Q)" "i < length Q" "j < length Q" "i \<noteq> j"
  shows "set (Q ! i) \<inter> set (Q ! j) = {}"
proof -
  have less: "set (Q ! a) \<inter> set (Q ! b) = {}" if ab: "a < b" "b < length Q" for a b
  proof -
    have "Q ! b \<in> set (drop (Suc a) Q)" using ab by (auto simp: in_set_conv_nth intro!: exI [of _ "b - Suc a"])
    then have "set (Q ! b) \<subseteq> set (concat (drop (Suc a) Q))" by auto
    moreover have "distinct (concat (take a Q) @ Q ! a @ concat (drop (Suc a) Q))"
      using assms(1) ab by (subst concat_split [of a, symmetric]) auto
    ultimately show ?thesis by auto
  qed
  show ?thesis using less [of i j] less [of j i] assms(2-4) by (cases "i < j") auto
qed

lemma kinv_concat: "kinv k L P F A Q \<Longrightarrow> distinct (concat Q)"
  using owners_invD(1) [OF kinvD(5)] by simp

lemma caches_update:
  assumes k: "kinv k L P F A Q" and c: "cpu < MAX_CPUS"
    and ca: "kh_caches k' = (kh_caches k)[cpu := \<lparr>cc_head = hd0, cc_count = length q\<rparr>]"
    and q: "cstack (kh_mem k') hd0 q" "length q \<le> CPU_CACHE_CAP"
    and m: "\<And>i x. i < MAX_CPUS \<Longrightarrow> i \<noteq> cpu \<Longrightarrow> x \<in> set (Q ! i) \<Longrightarrow> kh_mem k' x = kh_mem k x"
  shows "caches_inv k' (Q[cpu := q])"
proof -
  note ci = caches_invD [OF kinvD(4) [OF k]]
  have "cstack (kh_mem k') (cc_head (kh_caches k' ! i)) (Q[cpu := q] ! i) \<and>
      cc_count (kh_caches k' ! i) = length (Q[cpu := q] ! i) \<and> length (Q[cpu := q] ! i) \<le> CPU_CACHE_CAP" if i: "i < MAX_CPUS" for i
  proof (cases "i = cpu")
    case True
    then show ?thesis using q c ci(1,2) by (simp add: ca)
  next
    case False
    have "cstack (kh_mem k') p (Q ! i) = cstack (kh_mem k) p (Q ! i)" for p using m [OF i False] by (rule cstack_cong)
    then show ?thesis using False ci(3-5) [OF i] by (simp add: ca)
  qed
  then show ?thesis using ci(1,2) by (simp add: caches_inv_def ca)
qed

lemma step_cached_free:
  assumes k: "kinv k L P F A Q" and c: "cpu < MAX_CPUS" and p: "(p, n, al) \<in> set L"
    and r: "per_cpu_free_cached cpu p k = (k', True)"
  shows "\<exists>Q'. kinv k' (remove1 (p, n, al) L) P F A Q'"
proof -
  note ci = caches_invD [OF kinvD(4) [OF k]]
  have k': "k' = cache_push cpu p k" and room: "cc_count (kh_caches k ! cpu) < CPU_CACHE_CAP"
    using r by (auto simp: per_cpu_free_cached_def split: if_splits)
  note pu = cache_push_simps [of cpu p k, folded k']
  obtain b s where b: "(b, s, p) \<in> A" by (rule live_in [OF k p])
  note wf = alloc_wfD [OF arena_invD(2) [OF kinvD(1) [OF k] b]]
  have notin: "p \<notin> set (Q ! i)" if "i < MAX_CPUS" for i by (rule live_not_cached [OF k p that])
  have "cstack ((kh_mem k)(p := v)) q (Q ! cpu) = cstack (kh_mem k) q (Q ! cpu)" for v q
    using notin [OF c] by (intro cstack_cong) auto
  then have st: "cstack (kh_mem k') p (p # Q ! cpu)" using ci(3) [OF c] wf(10) by (simp add: pu)
  have cinv: "caches_inv k' (Q[cpu := p # Q ! cpu])"
    by (rule caches_update [OF k c _ st]) (use notin ci(4) [OF c] room in \<open>auto simp: pu\<close>)
  have ai: "arena_inv (kh_heap k') F A"
    by (rule arena_inv_mem_eq [OF payload_write [OF kinvD(1) [OF k] b, of p "cc_head (kh_caches k ! cpu)"]])
       (use wf(2,3) in \<open>simp_all add: pu\<close>)
  have ri: "regions_inv (kh_heap k') P" by (rule regions_inv_cong [OF kinvD(3) [OF k]]) (simp_all add: pu)
  note oi = owners_invD [OF kinvD(5) [OF k]]
  have cl: "cpu < length Q" using c ci(2) by simp
  have "mset L = add_mset (p, n, al) (mset (remove1 (p, n, al) L))" using p by simp
  then have "image_mset fst (mset L) = add_mset p (image_mset fst (mset (remove1 (p, n, al) L)))"
    by (metis image_mset_add_mset fst_conv)
  then have "mset (concat Q @ map fst L) = mset (concat (Q[cpu := p # Q ! cpu]) @ map fst (remove1 (p, n, al) L))"
    by (simp only: concat_update [OF cl] concat_split [OF cl] mset_append mset_map) simp
  then have "distinct (concat (Q[cpu := p # Q ! cpu]) @ map fst (remove1 (p, n, al) L))"
    "set (concat (Q[cpu := p # Q ! cpu]) @ map fst (remove1 (p, n, al) L)) = payload ` A"
    using oi(1,2) mset_eq_imp_distinct_iff mset_eq_setD by metis+
  moreover have "\<forall>x\<in>set (remove1 (p, n, al) L). live_ok A x" using oi(3) set_remove1_subset [of "(p, n, al)" L] by blast
  ultimately have "owners_inv A (Q[cpu := p # Q ! cpu]) (remove1 (p, n, al) L)" unfolding owners_inv_def by blast
  from kinvI [OF ai kinvD(2) [OF k] ri cinv this] show ?thesis by blast
qed

lemma usable_exact:
  assumes "alloc_wf m (b, s, p)" shows "usable_bytes m p = b + s - p"
proof -
  note wf = alloc_wfD [OF assms]
  have "b + s \<le> u64_max" using block_okD(3) [OF wf(1)] by simp
  then show ?thesis using wf by (simp add: usable_bytes_def from_payload_def BACKPTR_SIZE_def blk_size_def wadd64_exact wsub64_exact Let_def)
qed

lemma step_cached_alloc:
  assumes k: "kinv k L P F A Q" and c: "cpu < MAX_CPUS" and al: "layout_ok al"
    and r: "per_cpu_alloc_cached cpu n al k = Some (k', p)"
  shows "\<exists>Q'. kinv k' (if p = 0 then L else (p, n, al) # L) P F A Q'"
proof -
  note ci = caches_invD [OF kinvD(4) [OF k]]
  have "scanned cpu (max al BLOCK_ALIGN) n k [] (Q ! cpu) (k', p)"
    using per_cpu_alloc_cached_spec [OF ci(3) [OF c], of n al] r by auto
  then consider "p = 0" "k' = k"
    | us vs where "Q ! cpu = us @ p # vs" "p \<noteq> 0" "fits_cached (kh_mem k) (max al BLOCK_ALIGN) n p"
        "k' = cache_unlink cpu (last_or_null us) (kh_mem k p) k"
    unfolding scanned_def by auto
  then show ?thesis
  proof cases
    case 1
    then show ?thesis using k by auto
  next
    case 2
    note un = cache_unlink_simps [of cpu "last_or_null us" "kh_mem k p" k, folded 2(4)]
    have cl: "cpu < length Q" using c ci(2) by simp
    have pin: "p \<in> set (Q ! cpu)" using 2(1) by simp
    obtain b s where b: "(b, s, p) \<in> A" by (rule cached_block [OF k c pin])
    have wf: "alloc_wf (kh_mem k) (b, s, p)" by (rule arena_invD(2) [OF kinvD(1) [OF k] b])
    have fit: "p + n \<le> b + s" "p mod al = 0"
      using 2(3) usable_exact [OF wf] alloc_wfD(3) [OF wf] layout_align(3) [OF al]
      by (auto simp: fits_cached_def intro: dvd_imp_mod_0 dvd_trans)
    have dq: "distinct (us @ p # vs)"
      using kinv_concat [OF k] unfolding concat_split [OF cl] by (simp only: distinct_append 2(1) [symmetric])
    have nz: "last_or_null us = 0 \<longleftrightarrow> us = []"
      using cstack_nonzero [OF ci(3) [OF c], of "last us"] 2(1) by (auto simp: last_or_null_def)
    have mem: "kh_mem k' = (if us = [] then kh_mem k else (kh_mem k)(last us := kh_mem k p))"
      using nz by (simp add: un(1)) (simp add: last_or_null_def)
    have st: "cstack (kh_mem k') (if us = [] then kh_mem k p else cc_head (kh_caches k ! cpu)) (us @ vs)"
      unfolding mem by (rule cstack_unlink [OF ci(3) [OF c, unfolded 2(1)] dq])
    have cnt: "wsub64 (cc_count (kh_caches k ! cpu)) 1 = length (us @ vs)" "length (us @ vs) \<le> CPU_CACHE_CAP"
      using ci(4,5) [OF c] 2(1) by (simp_all add: CPU_CACHE_CAP_def u64_max_def wsub64_exact)
    have lu: "us \<noteq> [] \<Longrightarrow> last us \<in> set (Q ! cpu)" using 2(1) by simp
    have cinv: "caches_inv k' (Q[cpu := us @ vs])"
    proof (rule caches_update [OF k c _ st cnt(2)])
      show "kh_caches k' = (kh_caches k)[cpu := \<lparr>cc_head = if us = [] then kh_mem k p else cc_head (kh_caches k ! cpu), cc_count = length (us @ vs)\<rparr>]"
        unfolding un(2) cnt(1) nz by simp
      fix i x assume i: "i < MAX_CPUS" "i \<noteq> cpu" "x \<in> set (Q ! i)"
      have "set (Q ! i) \<inter> set (Q ! cpu) = {}" using distinct_concat_nth [OF kinv_concat [OF k] _ cl i(2)] i(1) ci(2) by simp
      then show "kh_mem k' x = kh_mem k x" using lu i(3) by (auto simp: mem)
    qed
    have ai: "arena_inv (kh_heap k') F A"
    proof (cases "us = []")
      case True
      show ?thesis by (rule arena_inv_mem_eq [OF kinvD(1) [OF k]]) (simp_all add: mem True un)
    next
      case False
      obtain b' s' where b': "(b', s', last us) \<in> A" by (rule cached_block [OF k c lu [OF False]])
      note wf' = alloc_wfD [OF arena_invD(2) [OF kinvD(1) [OF k] b']]
      show ?thesis
        by (rule arena_inv_mem_eq [OF payload_write [OF kinvD(1) [OF k] b', of "last us" "kh_mem k p"]])
           (use wf'(3) False in \<open>simp_all add: mem un\<close>)
    qed
    have ri: "regions_inv (kh_heap k') P" by (rule regions_inv_cong [OF kinvD(3) [OF k]]) (simp_all add: un)
    note oi = owners_invD [OF kinvD(5) [OF k]]
    have "mset (concat Q @ map fst L) = mset (concat (Q[cpu := us @ vs]) @ map fst ((p, n, al) # L))"
      by (simp only: concat_update [OF cl] concat_split [OF cl] mset_append 2(1)) simp
    then have "distinct (concat (Q[cpu := us @ vs]) @ map fst ((p, n, al) # L))"
      "set (concat (Q[cpu := us @ vs]) @ map fst ((p, n, al) # L)) = payload ` A"
      using oi(1,2) mset_eq_imp_distinct_iff mset_eq_setD by metis+
    moreover have "\<forall>x\<in>set ((p, n, al) # L). live_ok A x" using oi(3) b fit unfolding live_ok_def by auto
    ultimately have "owners_inv A (Q[cpu := us @ vs]) ((p, n, al) # L)" unfolding owners_inv_def by blast
    from kinvI [OF ai kinvD(2) [OF k] ri cinv this] show ?thesis using 2(2) by auto
  qed
qed

theorem step_keeps_inv:
  assumes "heap_step (k, L, P) (k', L', P')" "kinv k L P F A Q"
  shows "\<exists>F' A' Q'. kinv k' L' P' F' A' Q'"
  using assms
  by (cases rule: heap_step.cases)
     (blast dest: step_cached_alloc step_arena_alloc step_cached_free step_arena_free step_reserve step_commit
        step_client_write step_fresh_page)+

end
