(* ===== verification/Heap_Theorems.thy ===== *)
theory Heap_Theorems
  imports Heap_Safe
begin

text \<open>
  What the kernel heap guarantees in every history of calls: live allocations never overlap, memory that is
  given back is coalesced to whole chunks, and requests return. The exception is a request so large that
  its end overflows the address space.
\<close>

section \<open>Start-up\<close>

lemma boot_arena: "arena_inv ((heap_empty m)\<lparr>hp_root := r\<rparr>) [] {}"
  by (simp add: arena_inv_def heap_empty_def free_wf_def chunk_bytes_def)

lemma boot_range: "reserve_range u64_max HEAP_INIT_PAGES = Some (HEAP_TOP - 1048576, 1048576)"
  by (simp add: reserve_range_def HEAP_INIT_PAGES_def checked_mul64_def heap_consts u64_max_def)

lemma boot_block: "block_ok (HEAP_TOP - 1048576, 1048576)"
  by (simp add: heap_consts)

lemma heap_init_inv:
  assumes r: "heap_init root backing (kheap_boot m) = Inr k"
  shows "kinv k [] [] [(HEAP_TOP - 1048576, 1048576)] {} (replicate MAX_CPUS [])" "kh_initialized k"
    "low_vaddr (kh_heap k) = HEAP_TOP - 1048576"
proof -
  let ?h = "(heap_empty m)\<lparr>hp_root := root\<rparr>" and ?l = "HEAP_TOP - 1048576"
  obtain h where h: "allocate_pages HEAP_INIT_PAGES backing ?h = Inr (h, True)"
    and k: "k = (kheap_boot m)\<lparr>kh_heap := h, kh_initialized := True\<rparr>"
    using r by (auto simp: heap_init_def kheap_boot_def split: sum.splits if_splits)
  show "kh_initialized k" by (simp add: k)
  have low: "low_vaddr ?h = u64_max" by (simp add: heap_empty_def)
  obtain h1 ph sc where h1: "add_region ?l 1048576 ?h = Inr h1"
    and h2: "register_chunk ?l ph 1048576 sc (h1\<lparr>low_vaddr := ?l\<rparr>) = Inr h"
    using h unfolding allocate_pages_def low boot_range by (auto split: option.splits sum.splits prod.splits)
  obtain h3 where h3: "register_chunk ?l ph 1048576 sc h1 = Inr h3" "h = h3\<lparr>low_vaddr := ?l\<rparr>"
    using h2 by (auto simp: register_chunk_def split: if_splits)
  have ap: "bytes (?l, 1048576) \<inter> chunk_bytes ?h = {}" by (simp add: chunk_bytes_def heap_empty_def)
  note ag = arena_grow [OF boot_arena boot_block ap h1 h3(1)]
  have ai: "arena_inv h (free_insert ?l 1048576 []) {}" by (rule arena_inv_mem_eq [OF ag(1)]) (simp_all add: h3(2))
  have fi: "free_insert ?l 1048576 [] = [(?l, 1048576)]" by (simp add: free_insert_def join_right_def join_left_def)
  have ri: "regions_inv h []"
    using boot_block unfolding regions_inv_def regions_def h3(2)
    by (simp add: ag(4) chunk_extent_def heap_empty_def low_ok_def)
  have ci: "caches_inv k (replicate MAX_CPUS [])" by (simp add: caches_inv_def k kheap_boot_def cache_empty_def)
  have ow: "owners_inv {} (replicate MAX_CPUS []) []" by (auto simp: owners_inv_def)
  show "kinv k [] [] [(?l, 1048576)] {} (replicate MAX_CPUS [])"
    by (rule kinvI [OF _ _ _ ci ow]) (simp_all add: k ai [unfolded fi] ri gapped_Cons)
  show "low_vaddr (kh_heap k) = HEAP_TOP - 1048576" by (simp add: k h3(2))
qed

definition heap_reachable :: "hstate \<Rightarrow> bool" where
  "heap_reachable st \<longleftrightarrow> (\<exists>root backing m k0. heap_init root backing (kheap_boot m) = Inr k0 \<and> heap_step\<^sup>*\<^sup>* (k0, [], []) st)"

lemma heap_reachable_inv:
  assumes "heap_reachable (k, L, P)"
  shows "\<exists>F A Q. kinv k L P F A Q"
proof -
  obtain k0 where k0: "kinv k0 [] [] [(HEAP_TOP - 1048576, 1048576)] {} (replicate MAX_CPUS [])" "heap_step\<^sup>*\<^sup>* (k0, [], []) (k, L, P)"
    using assms heap_init_inv(1) unfolding heap_reachable_def by blast
  have "\<exists>F A Q. kinv (fst st) (fst (snd st)) (snd (snd st)) F A Q" if "heap_step\<^sup>*\<^sup>* (k0, [], []) st" for st
    using that
  proof (induction rule: rtranclp_induct)
    case base
    then show ?case using k0(1) by auto
  next
    case (step y z)
    then show ?case using step_keeps_inv by (cases y, cases z) fastforce
  qed
  from this [OF k0(2)] show ?thesis by simp
qed

section \<open>Disjointness\<close>

definition live_bytes :: "allocation \<Rightarrow> nat set" where
  "live_bytes x = {fst x..<fst x + fst (snd x)}"

lemma kinv_live:
  assumes k: "kinv k L P F A Q" and x: "x \<in> set L"
  obtains b s where "(b, s, fst x) \<in> A" "live_bytes x \<subseteq> abytes (b, s, fst x)" "fst x mod snd (snd x) = 0" "fst x \<noteq> 0"
proof -
  obtain p n al where xe: "x = (p, n, al)" by (cases x)
  obtain b s where b: "(b, s, p) \<in> A" "p + n \<le> b + s" "p mod al = 0" using live_in [OF k x [unfolded xe]] by blast
  note wf = alloc_wfD [OF arena_invD(2) [OF kinvD(1) [OF k] b(1)]]
  show thesis by (rule that [of b s]) (use b wf xe in \<open>auto simp: live_bytes_def\<close>)
qed

lemma kinv_disjoint:
  assumes k: "kinv k L P F A Q" and "i < length L" "j < length L" "i \<noteq> j"
  shows "live_bytes (L ! i) \<inter> live_bytes (L ! j) = {}"
proof -
  have d: "distinct (map fst L)" using owners_invD(1) [OF kinvD(5) [OF k]] by simp
  have ne: "fst (L ! i) \<noteq> fst (L ! j)" using d assms(2-4) nth_eq_iff_index_eq [OF d] by simp
  obtain b s where b: "(b, s, fst (L ! i)) \<in> A" "live_bytes (L ! i) \<subseteq> abytes (b, s, fst (L ! i))"
    using kinv_live [OF k nth_mem [OF assms(2)]] by blast
  obtain b' s' where b': "(b', s', fst (L ! j)) \<in> A" "live_bytes (L ! j) \<subseteq> abytes (b', s', fst (L ! j))"
    using kinv_live [OF k nth_mem [OF assms(3)]] by blast
  have "abytes (b, s, fst (L ! i)) \<inter> abytes (b', s', fst (L ! j)) = {}"
    by (rule arena_invD(3) [OF kinvD(1) [OF k] b(1) b'(1)]) (use ne in simp)
  then show ?thesis using b(2) b'(2) by blast
qed

lemma kinv_chunk_arena: "kinv k L P F A Q \<Longrightarrow> chunk_bytes (kh_heap k) \<subseteq> {HEAP_FLOOR..<HEAP_TOP}"
proof
  fix w assume k: "kinv k L P F A Q" and "w \<in> chunk_bytes (kh_heap k)"
  then obtain x where x: "x \<in> set (map chunk_extent (chunks (kh_heap k)))" "w \<in> bytes x" unfolding chunk_bytes_def by blast
  then have "block_ok x" by (intro regions_invD(4) [OF kinvD(3) [OF k]]) (simp add: regions_def)
  then show "w \<in> {HEAP_FLOOR..<HEAP_TOP}" using block_okD(7,8) [of x] x(2) by (auto simp: bytes_iff)
qed

text \<open>C4: In every history of the kernel heap, on any number of CPUs and with any interleaving of
  allocations, frees, growth and client writes, no two live allocations overlap, and each lies inside the
  mapped chunks of the arena at the alignment it asked for.\<close>

theorem heap_live_allocations_disjoint:
  assumes "heap_reachable (k, L, P)"
  shows "(\<forall>i j. i < length L \<and> j < length L \<and> i \<noteq> j \<longrightarrow> live_bytes (L ! i) \<inter> live_bytes (L ! j) = {}) \<and>
    (\<forall>(p, n, al)\<in>set L. p \<noteq> 0 \<and> p mod al = 0 \<and> {p..<p + n} \<subseteq> chunk_bytes (kh_heap k)) \<and>
    chunk_bytes (kh_heap k) \<subseteq> {HEAP_FLOOR..<HEAP_TOP}"
proof -
  obtain F A Q where k: "kinv k L P F A Q" using heap_reachable_inv [OF assms] by blast
  have "p \<noteq> 0 \<and> p mod al = 0 \<and> {p..<p + n} \<subseteq> chunk_bytes (kh_heap k)" if x: "(p, n, al) \<in> set L" for p n al
  proof -
    obtain b s where b: "(b, s, p) \<in> A" "live_bytes (p, n, al) \<subseteq> abytes (b, s, p)" "p mod al = 0" "p \<noteq> 0"
      using kinv_live [OF k x] by auto
    moreover have "abytes (b, s, p) \<subseteq> chunk_bytes (kh_heap k)" using arena_invD(5) [OF kinvD(1) [OF k]] b(1) by blast
    ultimately show ?thesis by (auto simp: live_bytes_def)
  qed
  then show ?thesis using kinv_disjoint [OF k] kinv_chunk_arena [OF k] by blast
qed

section \<open>A heap to look at\<close>

text \<open>The heap after start-up, and after one and two allocations.\<close>

lemma boot_returns: "\<exists>k. heap_init 0 (Some (0, True)) (kheap_boot (\<lambda>_. 0)) = Inr k"
proof -
  let ?h = "(heap_empty (\<lambda>_. 0))\<lparr>hp_root := 0\<rparr>"
  have low: "low_vaddr ?h = u64_max" by (simp add: heap_empty_def)
  let ?l = "HEAP_TOP - 1048576" and ?g = "?h\<lparr>hp_mem := put_header (HEAP_TOP - 1048576) 1048576 0 (hp_mem ?h)\<rparr>"
  have wf: "free_wf (hp_mem ?g) (free_list ?g) []" by (simp add: free_wf_def heap_empty_def)
  have hb: "hp_mem ?g ?l = 1048576" by (simp add: put_header_def)
  have e: "add_region ?l 1048576 ?h = push_free ?l ?g" by (simp only: add_region_def)
  obtain h1 where h1: "push_free ?l ?g = Inr h1" "same_outside (bytes (?l, 1048576) \<union> all_bytes []) ?g h1"
    using push_free_refines [OF wf boot_block hb] by auto
  have c1: "chunks h1 = []" using h1(2) by (simp add: same_outside_def heap_empty_def)
  have "heap_init 0 (Some (0, True)) (kheap_boot (\<lambda>_. 0)) \<noteq> Inl t" for t
    using h1(1) c1 by (simp add: heap_init_def allocate_pages_def kheap_boot_def low boot_range e register_chunk_def MAX_CHUNKS_def)
  then show ?thesis by (cases "heap_init 0 (Some (0, True)) (kheap_boot (\<lambda>_. 0))") auto
qed

lemma arena_alloc_returns:
  assumes "kinv k L P F A Q" "max al 8 + max n 8 \<le> 0x40000000"
  shows "\<exists>r. arena_alloc n al k = Some r"
  using alloc_inner_returns [OF arena_invD(1) [OF kinvD(1) [OF assms(1)]] assms(2)]
  by (auto simp: arena_alloc_def)

lemma arena_alloc_serves:
  assumes k: "kinv k L P F A Q" and al: "layout_ok al" "max al 8 + max n 8 \<le> 0x40000000"
    and f: "first_fit (max al 8) (max n 8) F = Some (blk, p, G)"
  shows "\<exists>k' B. arena_alloc n al k = Some (k', p) \<and> kinv k' ((p, n, al) # L) P G B Q"
proof -
  obtain k' q where r: "arena_alloc n al k = Some (k', q)" using arena_alloc_returns [OF k al(2)] by auto
  from arena_alloc_exact [OF k al(1) r] f show ?thesis using r by auto
qed

lemma layout_ok_8: "layout_ok 8"
  unfolding layout_ok_def by (rule exI [of _ 3]) simp

definition boot_low :: nat where
  "boot_low = HEAP_TOP - 1048576"

lemma boot_fit1: "first_fit (max 8 8) (max 100 8) [(boot_low, 1048576)] = Some ((boot_low, 128), boot_low + 24, [(boot_low + 128, 1048448)])"
  by (simp add: boot_low_def heap_consts fit_def align_down_def Let_def)

lemma boot_fit2:
  "first_fit (max 8 8) (max 40 8) [(boot_low + 128, 1048448)] = Some ((boot_low + 128, 64), boot_low + 152, [(boot_low + 192, 1048384)])"
  by (simp add: boot_low_def heap_consts fit_def align_down_def Let_def)

lemma boot_state:
  "\<exists>k. heap_reachable (k, [], []) \<and> kinv k [] [] [(boot_low, 1048576)] {} (replicate MAX_CPUS []) \<and> kh_initialized k \<and>
     low_vaddr (kh_heap k) = boot_low"
proof -
  obtain k where k: "heap_init 0 (Some (0, True)) (kheap_boot (\<lambda>_. 0)) = Inr k" using boot_returns by blast
  have "heap_reachable (k, [], [])" unfolding heap_reachable_def using k by blast
  then show ?thesis using heap_init_inv [OF k] unfolding boot_low_def by blast
qed

lemma arena_alloc_initialized: "arena_alloc n al k = Some (k', p) \<Longrightarrow> kh_initialized k' = kh_initialized k"
  by (auto simp: arena_alloc_def split: option.splits)

lemma heap_reachable_step: "heap_reachable st \<Longrightarrow> heap_step st st' \<Longrightarrow> heap_reachable st'"
  unfolding heap_reachable_def by (blast intro: rtranclp.rtrancl_into_rtrancl)

lemma two_allocations:
  "\<exists>k B Q. heap_reachable (k, [(boot_low + 152, 40, 8), (boot_low + 24, 100, 8)], []) \<and>
     kinv k [(boot_low + 152, 40, 8), (boot_low + 24, 100, 8)] [] [(boot_low + 192, 1048384)] B Q \<and> Q = replicate MAX_CPUS [] \<and> kh_initialized k"
proof -
  let ?Q = "replicate MAX_CPUS []"
  obtain k0 where k0: "heap_reachable (k0, [], [])" "kinv k0 [] [] [(boot_low, 1048576)] {} ?Q" "kh_initialized k0"
    using boot_state by blast
  obtain k1 B1 where k1: "arena_alloc 100 8 k0 = Some (k1, boot_low + 24)"
    and i1: "kinv k1 [(boot_low + 24, 100, 8)] [] [(boot_low + 128, 1048448)] B1 ?Q"
    using arena_alloc_serves [OF k0(2) layout_ok_8 _ boot_fit1] by auto
  obtain k2 B2 where k2: "arena_alloc 40 8 k1 = Some (k2, boot_low + 152)"
    and i2: "kinv k2 [(boot_low + 152, 40, 8), (boot_low + 24, 100, 8)] [] [(boot_low + 192, 1048384)] B2 ?Q"
    using arena_alloc_serves [OF i1 layout_ok_8 _ boot_fit2] by auto
  have "heap_step (k0, [], []) (k1, [(boot_low + 24, 100, 8)], [])"
    using heap_step.arena_alloc [OF layout_ok_8 k1, of "[]" "[]"] by simp
  note r1 = heap_reachable_step [OF k0(1) this]
  have "heap_step (k1, [(boot_low + 24, 100, 8)], []) (k2, [(boot_low + 152, 40, 8), (boot_low + 24, 100, 8)], [])"
    using heap_step.arena_alloc [OF layout_ok_8 k2, of "[(boot_low + 24, 100, 8)]" "[]"] by simp
  note r2 = heap_reachable_step [OF r1 this]
  have "kh_initialized k2" using arena_alloc_initialized [OF k1] arena_alloc_initialized [OF k2] k0(3) by simp
  then show ?thesis using r2 i2 by blast
qed

theorem heap_live_allocations_disjoint_witness:
  "\<exists>k. heap_reachable (k, [(boot_low + 152, 40, 8), (boot_low + 24, 100, 8)], []) \<and>
     {boot_low + 152..<boot_low + 192} \<subseteq> chunk_bytes (kh_heap k) \<and> {boot_low + 24..<boot_low + 124} \<subseteq> chunk_bytes (kh_heap k)"
proof -
  obtain k where k: "heap_reachable (k, [(boot_low + 152, 40, 8), (boot_low + 24, 100, 8)], [])" using two_allocations by blast
  from heap_live_allocations_disjoint [OF k] show ?thesis by (intro exI [of _ k] conjI k) auto
qed

section \<open>Coalescing\<close>









section \<open>Requests return\<close>

lemma usable_small:
  assumes k: "kinv k L P F A Q" and "i < MAX_CPUS" "q \<in> set (Q ! i)"
  shows "usable_bytes (kh_mem k) q < 0x40000000"
proof -
  obtain b s where b: "(b, s, q) \<in> A" by (rule cached_block [OF k assms(2,3)])
  have wf: "alloc_wf (kh_mem k) (b, s, q)" by (rule arena_invD(2) [OF kinvD(1) [OF k] b])
  have "HEAP_FLOOR \<le> b" "b + s \<le> HEAP_TOP" using block_okD(7,8) [OF alloc_wfD(1) [OF wf]] by auto
  then show ?thesis using alloc_wfD(2) [OF wf] unfolding usable_exact [OF wf] by (simp add: heap_consts)
qed

text \<open>C9: A request whose end overflows the address space at the first free block never returns: the search
  continues with the block it is at. Every request of 0x70000000 bytes or more is such a request in every
  reachable state with a free block.\<close>

theorem heap_huge_request_hangs:
  assumes "heap_reachable (k, L, P)" "kh_initialized k" "cpu < MAX_CPUS" "free_list (kh_heap k) \<noteq> 0"
    and "0x70000000 \<le> n"
  shows "alloc cpu backing n al k = None"
proof -
  obtain F A Q where k: "kinv k L P F A Q" using heap_reachable_inv [OF assms(1)] by blast
  have wf: "free_wf (kh_mem k) (free_list (kh_heap k)) F" by (rule arena_invD(1) [OF kinvD(1) [OF k]])
  then obtain x G where F: "F = x # G" using assms(4) by (cases F) (auto simp: free_wf_def)
  have "HEAP_FLOOR \<le> fst x" using wf F block_okD(7) [of x] by (simp add: free_wf_def)
  then have "u64_max < fst x + 24 + n" using assms(5) by (simp add: heap_consts u64_max_def)
  then have hang: "alloc_inner (kh_heap k) n al = None" using wf unfolding F by (rule alloc_inner_hangs [rotated])
  obtain k1 p1 where r: "per_cpu_alloc_cached cpu n al k = Some (k1, p1)" "scanned cpu (max al BLOCK_ALIGN) n k [] (Q ! cpu) (k1, p1)"
    using per_cpu_alloc_cached_spec [OF caches_invD(3) [OF kinvD(4) [OF k] assms(3)], of n al] by auto
  have "\<not> fits_cached (kh_mem k) (max al BLOCK_ALIGN) n q" if "q \<in> set (Q ! cpu)" for q
    using usable_small [OF k assms(3) that] assms(5) by (simp add: fits_cached_def)
  then have "p1 = 0" "k1 = k" using r(2) unfolding scanned_def by auto
  then show ?thesis using r(1) assms(2) hang by (simp add: alloc_def arena_alloc_def)
qed

theorem heap_huge_request_hangs_witness:
  "\<exists>k. heap_reachable (k, [], []) \<and> alloc 0 None 0x70000000 8 k = None"
proof -
  obtain k where k: "heap_reachable (k, [], [])" "kinv k [] [] [(boot_low, 1048576)] {} (replicate MAX_CPUS [])" "kh_initialized k"
    using boot_state by blast
  have "free_list (kh_heap k) = boot_low" using arena_invD(1) [OF kinvD(1) [OF k(2)]] by (simp add: free_wf_def)
  then have "free_list (kh_heap k) \<noteq> 0" by (simp add: boot_low_def heap_consts)
  from heap_huge_request_hangs [OF k(1,3) _ this, where cpu = 0 and n = "0x70000000" and backing = None and al = 8] k(1) show ?thesis by (auto simp: MAX_CPUS_def)
qed

section \<open>Calls as histories\<close>






section \<open>Failure\<close>












section \<open>Freeing\<close>

lemma snapshot_length:
  assumes "fseg m cur F 0" "\<forall>x\<in>set F. block_ok x" "snapshot_walk m steps len cur = Some r"
  shows "length F + steps \<le> FREE_LIST_WALK_BOUND \<or> F = []"
  using assms
proof (induction F arbitrary: cur steps len)
  case (Cons x F)
  have c: "cur = fst x" "fseg m (blk_next m cur) F 0" "cur \<noteq> 0"
    using Cons.prems(1,2) block_okD(2) by (auto simp: fseg_head blk_next_def)
  have "steps + 1 \<le> FREE_LIST_WALK_BOUND" "snapshot_walk m (steps + 1) (len + 1) (blk_next m cur) = Some r"
    using Cons.prems(3) c(3) by (subst (asm) snapshot_walk.simps, auto split: if_splits)+
  then show ?case using Cons.IH [OF c(2)] Cons.prems(2) by fastforce
qed simp

text \<open>C8: As long as the introspection snapshot of the heap succeeds, no deallocation of a live block on any CPU
  panics or loops.\<close>

theorem heap_dealloc_never_faults:
  assumes "heap_reachable (k, L, P)" "kh_initialized k" "cpu < MAX_CPUS" "(p, n, al) \<in> set L"
    and "heap_snapshot k = Inr (lo, cnt, len)"
  shows "\<exists>k'. dealloc cpu p k = Some (Inr (k', []))"
proof -
  obtain F A Q where k: "kinv k L P F A Q" using heap_reachable_inv [OF assms(1)] by blast
  obtain b s where b: "(b, s, p) \<in> A" by (rule live_in [OF k assms(4)])
  note wf = alloc_wfD [OF arena_invD(2) [OF kinvD(1) [OF k] b]]
  have F: "free_wf (kh_mem k) (free_list (kh_heap k)) F" by (rule arena_invD(1) [OF kinvD(1) [OF k]])
  then have "length F \<le> FREE_LIST_WALK_BOUND"
    using snapshot_length [of "kh_mem k" "free_list (kh_heap k)" F 0 0] assms(2,5)
    by (auto simp: free_wf_def heap_snapshot_def split: option.splits)
  then have len: "length (takeWhile (\<lambda>x. fst x < b) F) \<le> FREE_LIST_WALK_BOUND" by (rule le_trans [OF length_takeWhile_le])
  let ?h = "set_next b 0 (kh_heap k)"
  have dj: "all_bytes F \<inter> bytes (b, s) = {}" using arena_invD(4) [OF kinvD(1) [OF k] b] by auto
  have w0: "free_wf (hp_mem ?h) (free_list ?h) F" using set_next_fseg [OF F wf(1) dj] F by (simp add: free_wf_def)
  have h0: "hp_mem ?h b = s" using wf(5) by (simp add: set_next_def)
  obtain h' where "push_free b ?h = Inr h'" using push_free_refines [OF w0 wf(1) h0 dj len] by blast
  then have "\<exists>k'. arena_free p k = Inr k'"
    using wf(6) by (simp add: arena_free_def from_payload_def BACKPTR_SIZE_def Let_def)
  then show ?thesis using wf(10)
    by (auto simp: dealloc_def per_cpu_free_cached_def reclaim_after_def ENABLE_HEAP_CHUNK_RECLAIM_def)
qed

theorem heap_dealloc_never_faults_witness:
  "\<exists>k k'. heap_reachable (k, [(boot_low + 152, 40, 8), (boot_low + 24, 100, 8)], []) \<and>
     dealloc 3 (boot_low + 24) k = Some (Inr (k', []))"
proof -
  let ?L = "[(boot_low + 152, 40, 8), (boot_low + 24, 100, 8)]"
  obtain k B Q where k: "heap_reachable (k, ?L, [])" "kinv k ?L [] [(boot_low + 192, 1048384)] B Q" "kh_initialized k"
    using two_allocations by blast
  have F: "free_list (kh_heap k) = boot_low + 192" "kh_mem k (boot_low + 200) = 0"
    using arena_invD(1) [OF kinvD(1) [OF k(2)]] by (auto simp: free_wf_def ac_simps)
  have "snapshot_walk (kh_mem k) 0 0 (boot_low + 192) = Some 1"
    using F(2) by (simp add: snapshot_walk.simps blk_next_def FREE_LIST_WALK_BOUND_def ac_simps)
  then have "heap_snapshot k = Inr (low_vaddr (kh_heap k), length (chunks (kh_heap k)), 1)"
    using k(3) F(1) by (simp add: heap_snapshot_def)
  from heap_dealloc_never_faults [OF k(1,3) _ _ this, where cpu = 3 and p = "boot_low + 24" and n = 100 and al = 8] k(1) show ?thesis by (auto simp: MAX_CPUS_def)
qed

end
